(* ===== verification/Prelude.thy ===== *)
theory Prelude
  imports Main "HOL-Library.Word" "HOL-Library.List_Lexorder"
begin

text \<open>
  Shared vocabulary of the development: machine-integer synonyms, the outcome of a Rust
  call (\<open>Ok\<close>, \<open>Err\<close> or an aborting panic), the \<open>?\<close> operator and its kin, and the generic
  facts on lists, options and words that the component theories use.

  Integer arithmetic follows the release profile of the repository's \<open>Cargo.toml\<close>:
  overflow checks are off, so \<open>+\<close>, \<open>-\<close> and \<open>*\<close> wrap, and a panic aborts the process.
\<close>

unbundle bit_operations_syntax

section \<open>Machine integers\<close>

type_synonym u8 = "8 word"
type_synonym u16 = "16 word"
type_synonym u32 = "32 word"
type_synonym u64 = "64 word"

definition checked_add :: "'a::len word \<Rightarrow> 'a word \<Rightarrow> 'a word option" where
  "checked_add a b = (if unat a + unat b < 2 ^ LENGTH('a) then Some (a + b) else None)"

definition checked_sub :: "'a::len word \<Rightarrow> 'a word \<Rightarrow> 'a word option" where
  "checked_sub a b = (if b \<le> a then Some (a - b) else None)"

lemma checked_add_SomeD:
  "checked_add a b = Some c \<Longrightarrow> unat c = unat a + unat b"
  by (auto simp: checked_add_def unat_word_ariths split: if_splits)

lemma checked_add_None_iff:
  "checked_add (a :: 'a::len word) b = None \<longleftrightarrow> 2 ^ LENGTH('a) \<le> unat a + unat b"
  by (auto simp: checked_add_def not_less)

lemma checked_sub_SomeD:
  "checked_sub a b = Some c \<Longrightarrow> unat a = unat b + unat c"
  by (auto simp: checked_sub_def unat_sub word_le_nat_alt split: if_splits)

lemma unat_lt_u32: "unat (x :: u32) < 4294967296"
  using unsigned_less [where 'a = nat, of x] by simp

lemma unat_lt_u64: "unat (x :: u64) < 18446744073709551616"
  using unsigned_less [where 'a = nat, of x] by simp

lemma unat_ucast_mod: "unat (ucast (x :: 'a::len word) :: 'b::len word) = unat x mod 2 ^ LENGTH('b)"
  by (simp add: unsigned_ucast_eq unsigned_take_bit_eq take_bit_eq_mod)

lemma unat_u32_u64 [simp]: "unat (ucast (x :: u32) :: u64) = unat x"
  using unat_lt_u32 [of x] by (simp add: unat_ucast_mod)

lemma unat_u8_u32 [simp]: "unat (ucast (x :: u8) :: u32) = unat x"
  using unsigned_less [where 'a = nat, of x] by (simp add: unat_ucast_mod)

lemma ucast_u32_u64_u32 [simp]: "ucast (ucast (x :: u32) :: u64) = x"
  using unat_lt_u32 [of x] by (simp add: word_unat_eq_iff unat_ucast_mod)

lemma unat_drop_bit: "unat (drop_bit n w) = unat w div 2 ^ n"
  by (simp add: unsigned_drop_bit_eq drop_bit_eq_div [where 'a = nat] take_bit_nat_eq_self)

lemma join_u32_add:
  "(push_bit 32 (ucast (hi :: u32)) OR ucast (lo :: u32) :: u64) = push_bit 32 (ucast hi) + ucast lo"
proof -
  have "(push_bit 32 (ucast hi) AND ucast lo :: u64) = 0"
    by (rule bit_word_eqI) (auto simp: bit_simps dest: bit_imp_le_length)
  then show ?thesis by (simp add: disjunctive_add_eq_or)
qed

lemma unat_join_u32:
  "unat (push_bit 32 (ucast (hi :: u32)) + ucast (lo :: u32) :: u64) = 4294967296 * unat hi + unat lo"
  using unat_lt_u32 [of hi] unat_lt_u32 [of lo]
  by (simp add: unat_word_ariths push_bit_eq_mult mult.commute)

lemma unat_and_mask: "unat (w AND mask n) = unat w mod 2 ^ n"
  by (simp add: take_bit_eq_mask [symmetric] unsigned_take_bit_eq take_bit_eq_mod [where 'a = nat])

lemma add_mult_inject:
  fixes a b p q B :: nat
  assumes "a < B" and "b < B"
  shows "a + B * p = b + B * q \<longleftrightarrow> a = b \<and> p = q"
proof
  assume eq: "a + B * p = b + B * q"
  from arg_cong [OF eq, of "\<lambda>n. n mod B"] arg_cong [OF eq, of "\<lambda>n. n div B"]
  show "a = b \<and> p = q" using assms by simp
qed simp

lemma div_mod_eq_iff:
  fixes n B h l :: nat
  assumes "l < B"
  shows "n div B = h \<and> n mod B = l \<longleftrightarrow> n = B * h + l"
  using assms mult_div_mod_eq [of B n] by (metis add_mult_inject add.commute mod_less_divisor zero_less_iff_neq_zero not_less0)

section \<open>Outcomes of Rust calls\<close>

text \<open>
  \<open>Ok\<close> and \<open>Err\<close> are the two variants of \<open>Result\<close>; \<open>Panic\<close> is a failed \<open>assert!\<close>,
  \<open>unwrap\<close>, \<open>expect\<close> or index, which aborts under \<open>panic = "abort"\<close>.
\<close>

datatype ('e, 'a) outcome = Ok 'a | Err 'e | Panic

fun and_then :: "('e, 'a) outcome \<Rightarrow> ('a \<Rightarrow> ('e, 'b) outcome) \<Rightarrow> ('e, 'b) outcome" where
  "and_then (Ok a) f = f a"
| "and_then (Err e) f = Err e"
| "and_then Panic f = Panic"

fun map_err :: "('e \<Rightarrow> 'f) \<Rightarrow> ('e, 'a) outcome \<Rightarrow> ('f, 'a) outcome" where
  "map_err g (Ok a) = Ok a"
| "map_err g (Err e) = Err (g e)"
| "map_err g Panic = Panic"

fun unwrap :: "('e, 'a) outcome \<Rightarrow> ('f, 'a) outcome" where
  "unwrap (Ok a) = Ok a"
| "unwrap (Err e) = Panic"
| "unwrap Panic = Panic"

fun ok_or :: "'e \<Rightarrow> 'a option \<Rightarrow> ('e, 'a) outcome" where
  "ok_or e (Some a) = Ok a"
| "ok_or e None = Err e"

fun is_ok :: "('e, 'a) outcome \<Rightarrow> bool" where
  "is_ok (Ok a) = True"
| "is_ok (Err e) = False"
| "is_ok Panic = False"

text \<open>A \<open>for\<close> loop whose body may fail: the first failure ends it.\<close>

fun try_fold :: "('s \<Rightarrow> 'x \<Rightarrow> ('e, 's) outcome) \<Rightarrow> 's \<Rightarrow> 'x list \<Rightarrow> ('e, 's) outcome" where
  "try_fold f s [] = Ok s"
| "try_fold f s (x # xs) = and_then (f s x) (\<lambda>s'. try_fold f s' xs)"

text \<open>\<open>iter().map(f).collect::<Result<Vec<_>, _>>()\<close>.\<close>

fun try_map :: "('x \<Rightarrow> ('e, 'y) outcome) \<Rightarrow> 'x list \<Rightarrow> ('e, 'y list) outcome" where
  "try_map f [] = Ok []"
| "try_map f (x # xs) = and_then (f x) (\<lambda>y. and_then (try_map f xs) (\<lambda>ys. Ok (y # ys)))"

lemma and_then_Ok_iff [simp]:
  "and_then m f = Ok b \<longleftrightarrow> (\<exists>a. m = Ok a \<and> f a = Ok b)"
  by (cases m) auto

lemma and_then_Err_iff:
  "and_then m f = Err e \<longleftrightarrow> m = Err e \<or> (\<exists>a. m = Ok a \<and> f a = Err e)"
  by (cases m) auto

lemma and_then_Panic_iff:
  "and_then m f = Panic \<longleftrightarrow> m = Panic \<or> (\<exists>a. m = Ok a \<and> f a = Panic)"
  by (cases m) auto

lemma and_then_Ok_right [simp]: "and_then m Ok = m"
  by (cases m) auto

lemma and_then_assoc: "and_then (and_then m f) g = and_then m (\<lambda>a. and_then (f a) g)"
  by (cases m) auto

lemma map_err_Ok_iff [simp]: "map_err g m = Ok a \<longleftrightarrow> m = Ok a"
  by (cases m) auto

lemma map_err_Err_iff [simp]: "map_err g m = Err f \<longleftrightarrow> (\<exists>e. m = Err e \<and> f = g e)"
  by (cases m) auto

lemma map_err_Panic_iff [simp]: "map_err g m = Panic \<longleftrightarrow> m = Panic"
  by (cases m) auto

lemma unwrap_Ok_iff [simp]: "unwrap m = Ok a \<longleftrightarrow> m = Ok a"
  by (cases m) auto

lemma unwrap_not_Err [simp]: "unwrap m \<noteq> Err e"
  by (cases m) auto

lemma ok_or_Ok_iff [simp]: "ok_or e m = Ok a \<longleftrightarrow> m = Some a"
  by (cases m) auto

lemma is_ok_iff: "is_ok m \<longleftrightarrow> (\<exists>a. m = Ok a)"
  by (cases m) auto

lemma try_fold_append:
  "try_fold f s (xs @ ys) = and_then (try_fold f s xs) (\<lambda>s'. try_fold f s' ys)"
  by (induction xs arbitrary: s) (auto simp: and_then_assoc)

lemma try_map_Ok_iff:
  "try_map f xs = Ok ys \<longleftrightarrow> list_all2 (\<lambda>x y. f x = Ok y) xs ys"
  by (induction xs arbitrary: ys) (auto simp: list_all2_Cons1)

section \<open>Slices\<close>

text \<open>\<open>slice.chunks(n)\<close> for a positive \<open>n\<close>; the last chunk may be shorter.\<close>

function chunks :: "nat \<Rightarrow> 'a list \<Rightarrow> 'a list list" where
  "chunks n xs = (if n = 0 \<or> xs = [] then [] else take n xs # chunks n (drop n xs))"
  by pat_completeness auto
termination
  by (relation "measure (\<lambda>(n, xs). length xs)") auto

declare chunks.simps [simp del]

lemma chunks_Nil [simp]: "chunks n [] = []"
  by (simp add: chunks.simps)

lemma chunks_append_Cons:
  "0 < n \<Longrightarrow> length c = n \<Longrightarrow> chunks n (c @ xs) = c # chunks n xs"
  by (subst chunks.simps) auto

lemma chunks_concat:
  "0 < n \<Longrightarrow> (\<And>c. c \<in> set cs \<Longrightarrow> length c = n) \<Longrightarrow> chunks n (concat cs) = cs"
  by (induction cs) (auto simp: chunks_append_Cons)

lemma concat_chunks:
  "0 < n \<Longrightarrow> concat (chunks n xs) = xs"
proof (induction n xs rule: chunks.induct)
  case (1 n xs)
  then show ?case by (subst chunks.simps) auto
qed

lemma length_chunks_exact:
  "0 < n \<Longrightarrow> length xs = n * k \<Longrightarrow> length (chunks n xs) = k"
proof (induction k arbitrary: xs)
  case 0
  then show ?case by simp
next
  case (Suc k)
  then have "length (chunks n (drop n xs)) = k" by simp
  with Suc.prems show ?case by (subst chunks.simps) auto
qed

lemma length_in_chunks_exact:
  "0 < n \<Longrightarrow> length xs = n * k \<Longrightarrow> c \<in> set (chunks n xs) \<Longrightarrow> length c = n"
proof (induction k arbitrary: xs)
  case 0
  then show ?case by simp
next
  case (Suc k)
  from Suc.prems have "xs \<noteq> []" and len: "length (drop n xs) = n * k" by auto
  with Suc.prems have "c = take n xs \<or> c \<in> set (chunks n (drop n xs))"
    by (subst (asm) chunks.simps) auto
  then show ?case
    using Suc.IH [OF Suc.prems(1) len] Suc.prems by auto
qed

end
