(* ===== verification/Merkle_Tree.thy ===== *)
theory Merkle_Tree
  imports Prelude
begin

text \<open>
  \<open>BitPath\<close>, \<open>MerkleTree\<close> and \<open>MerkleProof\<close> of \<open>src/src/utils/trees\<close>. The hasher of the leaf type
  is a parameter: \<open>H\<close> is \<open>two_to_one\<close>, leaf hashes are values of the type of hashes, and the hash
  of the empty leaf is an argument of \<open>MerkleTree_new\<close>. The specification of a tree is the complete
  binary tree \<open>node\<close> over the function from leaf indices to leaf hashes; the sparse node map is
  proved to represent it. Paths hold 64-bit values, so the theorems are for heights up to 64.
\<close>

unbundle bit_operations_syntax

section \<open>Bit paths\<close>

record BitPath =
  path_length :: u32
  path_value :: u64

definition BitPath_new :: "u32 \<Rightarrow> u64 \<Rightarrow> BitPath" where
  "BitPath_new len val = \<lparr>path_length = len, path_value = val\<rparr>"

definition BitPath_default :: BitPath where
  "BitPath_default = \<lparr>path_length = 0, path_value = 0\<rparr>"

definition pop :: "BitPath \<Rightarrow> bool option \<times> BitPath" where
  "pop path =
     (if path_length path = 0 then (None, path)
      else let lsb = path_value path AND 1 in
        (Some (lsb = 1),
         path\<lparr>path_value := drop_bit 1 (path_value path), path_length := path_length path - 1\<rparr>))"

definition sibling :: "BitPath \<Rightarrow> BitPath" where
  "sibling path = path\<lparr>path_value := path_value path XOR 1\<rparr>"

section \<open>The sparse tree\<close>

record 'h MerkleTree =
  height :: nat
  node_hashes :: "BitPath \<Rightarrow> 'h option"
  zero_hashes :: "'h list"

fun zero_hash_loop :: "('h \<Rightarrow> 'h \<Rightarrow> 'h) \<Rightarrow> nat \<Rightarrow> 'h \<Rightarrow> 'h list" where
  "zero_hash_loop H 0 h = []"
| "zero_hash_loop H (Suc n) h = (let h' = H h h in h' # zero_hash_loop H n h')"

definition MerkleTree_new :: "('h \<Rightarrow> 'h \<Rightarrow> 'h) \<Rightarrow> 'h \<Rightarrow> nat \<Rightarrow> 'h MerkleTree" where
  "MerkleTree_new H empty_hash ht =
     \<lparr>height = ht, node_hashes = Map.empty,
      zero_hashes = empty_hash # zero_hash_loop H ht empty_hash\<rparr>"

definition get_node_hash :: "'h MerkleTree \<Rightarrow> BitPath \<Rightarrow> ('e, 'h) outcome" where
  "get_node_hash t path = (case node_hashes t path of
     Some h \<Rightarrow> Ok h
   | None \<Rightarrow> (let len = unat (path_length path) in
       if len \<le> height t \<and> height t - len < length (zero_hashes t)
       then Ok (zero_hashes t ! (height t - len)) else Panic))"

definition MerkleTree_get_root :: "'h MerkleTree \<Rightarrow> ('e, 'h) outcome" where
  "MerkleTree_get_root t = get_node_hash t BitPath_default"

definition index_in_domain :: "u64 \<Rightarrow> nat \<Rightarrow> bool" where
  "index_in_domain index ht \<longleftrightarrow> ht \<ge> 64 \<or> index < push_bit ht 1"

definition insert_node :: "BitPath \<Rightarrow> 'h \<Rightarrow> 'h MerkleTree \<Rightarrow> 'h MerkleTree" where
  "insert_node path h t = t\<lparr>node_hashes := (node_hashes t)(path \<mapsto> h)\<rparr>"

fun update_leaf_loop ::
  "('h \<Rightarrow> 'h \<Rightarrow> 'h) \<Rightarrow> nat \<Rightarrow> BitPath \<Rightarrow> 'h \<Rightarrow> 'h MerkleTree \<Rightarrow> ('e, 'h MerkleTree) outcome" where
  "update_leaf_loop H 0 path h t = Ok t"
| "update_leaf_loop H (Suc n) path h t =
     and_then (get_node_hash t (sibling path)) (\<lambda>sib.
       case pop path of
         (None, path') \<Rightarrow> Panic
       | (Some right, path') \<Rightarrow>
           let h' = (if right then H sib h else H h sib)
           in update_leaf_loop H n path' h' (insert_node path' h' t))"

definition update_leaf ::
  "('h \<Rightarrow> 'h \<Rightarrow> 'h) \<Rightarrow> u64 \<Rightarrow> 'h \<Rightarrow> 'h MerkleTree \<Rightarrow> ('e, 'h MerkleTree) outcome" where
  "update_leaf H index leaf_hash t =
     (if \<not> index_in_domain index (height t) then Panic
      else let path = BitPath_new (of_nat (height t)) index
           in update_leaf_loop H (height t) path leaf_hash (insert_node path leaf_hash t))"

fun prove_loop :: "'h MerkleTree \<Rightarrow> nat \<Rightarrow> BitPath \<Rightarrow> ('e, 'h list) outcome" where
  "prove_loop t 0 path = Ok []"
| "prove_loop t (Suc n) path =
     and_then (get_node_hash t (sibling path)) (\<lambda>s.
     and_then (prove_loop t n (snd (pop path))) (\<lambda>siblings. Ok (s # siblings)))"

type_synonym 'h MerkleProof = "'h list"

definition MerkleTree_prove :: "'h MerkleTree \<Rightarrow> u64 \<Rightarrow> ('e, 'h MerkleProof) outcome" where
  "MerkleTree_prove t index =
     (if \<not> index_in_domain index (height t) then Panic
      else prove_loop t (height t) (BitPath_new (of_nat (height t)) index))"

section \<open>Merkle proofs\<close>

datatype MerkleProofError = VerificationFailed

fun proof_root_loop ::
  "('h \<Rightarrow> 'h \<Rightarrow> 'h) \<Rightarrow> BitPath \<Rightarrow> 'h \<Rightarrow> 'h list \<Rightarrow> ('e, 'h) outcome" where
  "proof_root_loop H path state [] = Ok state"
| "proof_root_loop H path state (s # siblings) =
     (case pop path of
        (None, path') \<Rightarrow> Panic
      | (Some right, path') \<Rightarrow>
          proof_root_loop H path' (if right then H s state else H state s) siblings)"

definition MerkleProof_get_root ::
  "('h \<Rightarrow> 'h \<Rightarrow> 'h) \<Rightarrow> ('v \<Rightarrow> 'h) \<Rightarrow> 'h MerkleProof \<Rightarrow> 'v \<Rightarrow> u64 \<Rightarrow> ('e, 'h) outcome" where
  "MerkleProof_get_root H leaf_hash siblings leaf_data index =
     proof_root_loop H (BitPath_new (of_nat (length siblings)) index) (leaf_hash leaf_data) siblings"

definition MerkleProof_verify ::
  "('h \<Rightarrow> 'h \<Rightarrow> 'h) \<Rightarrow> ('v \<Rightarrow> 'h) \<Rightarrow> 'h MerkleProof \<Rightarrow> 'v \<Rightarrow> u64 \<Rightarrow> 'h
     \<Rightarrow> (MerkleProofError, unit) outcome" where
  "MerkleProof_verify H leaf_hash siblings leaf_data index merkle_root =
     (if \<not> index_in_domain index (length siblings) then Err VerificationFailed
      else and_then (MerkleProof_get_root H leaf_hash siblings leaf_data index) (\<lambda>proof_root.
        if proof_root \<noteq> merkle_root then Err VerificationFailed else Ok ()))"

section \<open>Specification: the complete tree over a leaf function\<close>

fun node :: "('h \<Rightarrow> 'h \<Rightarrow> 'h) \<Rightarrow> (nat \<Rightarrow> 'h) \<Rightarrow> nat \<Rightarrow> nat \<Rightarrow> 'h" where
  "node H f 0 v = f v"
| "node H f (Suc k) v = H (node H f k (2 * v)) (node H f k (2 * v + 1))"

definition sib :: "nat \<Rightarrow> nat" where
  "sib v = (if even v then v + 1 else v - 1)"

fun root_of :: "('h \<Rightarrow> 'h \<Rightarrow> 'h) \<Rightarrow> nat \<Rightarrow> 'h \<Rightarrow> 'h list \<Rightarrow> 'h" where
  "root_of H i h [] = h"
| "root_of H i h (s # ss) = root_of H (i div 2) (if odd i then H s h else H h s) ss"

fun siblings_of :: "('h \<Rightarrow> 'h \<Rightarrow> 'h) \<Rightarrow> (nat \<Rightarrow> 'h) \<Rightarrow> nat \<Rightarrow> nat \<Rightarrow> nat \<Rightarrow> 'h list" where
  "siblings_of H f k 0 v = []"
| "siblings_of H f k (Suc n) v = node H f k (sib v) # siblings_of H f (Suc k) n (v div 2)"

lemma node_upd_other:
  "v \<noteq> i div 2 ^ k \<Longrightarrow> node H (f(i := h)) k v = node H f k v"
proof (induction k arbitrary: v)
  case (Suc k)
  have "2 * v \<noteq> i div 2 ^ k" "2 * v + 1 \<noteq> i div 2 ^ k"
    using Suc.prems by (auto simp: div_mult2_eq mult.commute [of 2])
  then show ?case by (simp add: Suc.IH del: fun_upd_apply)
qed simp

lemma node_cong: "(\<And>i. i div 2 ^ k = v \<Longrightarrow> f i = g i) \<Longrightarrow> node H f k v = node H g k v"
proof (induction k arbitrary: v)
  case (Suc k)
  have "node H f k (2 * v) = node H g k (2 * v)"
    by (rule Suc.IH) (use Suc.prems in \<open>auto simp: div_mult2_eq mult.commute [of 2]\<close>)
  moreover have "node H f k (2 * v + 1) = node H g k (2 * v + 1)"
    by (rule Suc.IH) (use Suc.prems in \<open>auto simp: div_mult2_eq mult.commute [of 2]\<close>)
  ultimately show ?case by simp
qed simp

lemma node_parent:
  "node H f (Suc k) (v div 2) =
     (if odd v then H (node H f k (sib v)) (node H f k v) else H (node H f k v) (node H f k (sib v)))"
  by (auto simp: sib_def elim!: evenE oddE)

lemma root_of_siblings:
  "v = i div 2 ^ k \<Longrightarrow> root_of H v (node H f k v) (siblings_of H f k n v) = node H f (k + n) (v div 2 ^ n)"
proof (induction n arbitrary: k v)
  case (Suc n)
  have "root_of H v (node H f k v) (siblings_of H f k (Suc n) v) =
      root_of H (v div 2) (node H f (Suc k) (v div 2)) (siblings_of H f (Suc k) n (v div 2))"
    by (simp add: node_parent del: node.simps)
  also have "\<dots> = node H f (Suc k + n) (v div 2 div 2 ^ n)"
    by (rule Suc.IH) (simp add: Suc.prems div_mult2_eq [symmetric] mult.commute)
  finally show ?case by (simp add: div_mult2_eq [symmetric])
qed simp

lemma sib_div2 [simp]: "sib v div 2 = v div 2"
  by (auto simp: sib_def elim!: evenE oddE)

lemma sib_neq [simp]: "sib v \<noteq> v"
  by (auto simp: sib_def elim!: evenE oddE)

lemma sib_less: "v < 2 ^ n \<Longrightarrow> 0 < n \<Longrightarrow> sib v < 2 ^ n"
proof -
  assume "v < 2 ^ n" "0 < n"
  then obtain m where "n = Suc m" "v div 2 < 2 ^ m" by (cases n) auto
  then have "sib v div 2 < 2 ^ m" by simp
  then have "sib v < 2 ^ m * 2" by (simp only: div_less_iff_less_mult zero_less_numeral)
  then show ?thesis by (simp add: \<open>n = Suc m\<close>)
qed

lemma siblings_of_upd:
  "v = i div 2 ^ k \<Longrightarrow> siblings_of H (f(i := h)) k n v = siblings_of H f k n v"
proof (induction n arbitrary: k v)
  case (Suc n)
  have "node H (f(i := h)) k (sib v) = node H f k (sib v)"
    using Suc.prems by (intro node_upd_other) simp
  moreover have "siblings_of H (f(i := h)) (Suc k) n (v div 2) = siblings_of H f (Suc k) n (v div 2)"
    by (rule Suc.IH) (simp add: Suc.prems div_mult2_eq [symmetric] mult.commute)
  ultimately show ?case by (simp del: fun_upd_apply)
qed simp

section \<open>Paths as positions\<close>

text \<open>The path of the node at level \<open>j\<close> (leaves are level 0) and position \<open>v\<close> in a tree of height \<open>ht\<close>.\<close>

definition path_at :: "nat \<Rightarrow> nat \<Rightarrow> nat \<Rightarrow> BitPath" where
  "path_at ht j v = \<lparr>path_length = of_nat (ht - j), path_value = of_nat v\<rparr>"

lemma less_pow64: "v < 2 ^ n \<Longrightarrow> n \<le> 64 \<Longrightarrow> v < 18446744073709551616" for v :: nat
  using power_increasing [of n 64 "2 :: nat"] by simp

lemma unat_of_nat_u64 [simp]: "v < 18446744073709551616 \<Longrightarrow> unat (of_nat v :: u64) = v"
  by (simp add: unat_of_nat)

lemma unat_of_nat_u32 [simp]: "v < 4294967296 \<Longrightarrow> unat (of_nat v :: u32) = v"
  by (simp add: unat_of_nat)

lemma path_at_inject:
  assumes "ht \<le> 64" "j \<le> ht" "j' \<le> ht" "v < 2 ^ (ht - j)" "v' < 2 ^ (ht - j')"
  shows "path_at ht j v = path_at ht j' v' \<longleftrightarrow> j = j' \<and> v = v'"
proof -
  have "v < 18446744073709551616" "v' < 18446744073709551616"
    using assms less_pow64 [of v "ht - j"] less_pow64 [of v' "ht - j'"] by simp_all
  then have "(of_nat v :: u64) = of_nat v' \<longleftrightarrow> v = v'"
    by (simp add: word_unat_eq_iff)
  moreover have "(of_nat (ht - j) :: u32) = of_nat (ht - j') \<longleftrightarrow> j = j'"
    using assms unat_of_nat_u32 [of "ht - j"] unat_of_nat_u32 [of "ht - j'"]
    by (auto simp: word_unat_eq_iff simp del: of_nat_diff)
  ultimately show ?thesis by (simp add: path_at_def)
qed

lemma even_of_nat_u64 [simp]: "even (of_nat v :: u64) \<longleftrightarrow> even v"
  by (simp flip: bit_0 add: bit_simps)

lemma sibling_path_at:
  "sibling (path_at ht j v) = path_at ht j (sib v)"
proof -
  have "even (of_nat v :: u64) \<longleftrightarrow> even v"
    by (simp add: even_of_nat_u64)
  then have "(of_nat v XOR 1 :: u64) = of_nat (sib v)"
    by (auto simp: xor_one_eq sib_def elim!: evenE oddE)
  then show ?thesis by (simp add: sibling_def path_at_def)
qed

lemma pop_path_at:
  assumes "j < ht" "ht \<le> 64" "v < 18446744073709551616"
  shows "pop (path_at ht j v) = (Some (odd v), path_at ht (Suc j) (v div 2))"
proof -
  have "unat (of_nat (ht - j) :: u32) = ht - j"
    using assms by (intro unat_of_nat_u32) simp
  then have ne: "(of_nat (ht - j) :: u32) \<noteq> 0"
    using assms by (metis unsigned_0 zero_less_diff less_numeral_extra(3))
  have len: "(of_nat (ht - j) - 1 :: u32) = of_nat (ht - Suc j)"
    using assms by (simp add: of_nat_diff)
  have "(of_nat v AND 1 :: u64) = 1 \<longleftrightarrow> odd v"
    by (simp add: and_one_eq odd_iff_mod_2_eq_one [symmetric])
  moreover have "drop_bit 1 (of_nat v :: u64) = of_nat (v div 2)"
    using assms(3) by (simp add: word_unat_eq_iff unat_drop_bit)
  ultimately show ?thesis
    using ne len by (simp add: pop_def path_at_def)
qed

section \<open>The node map represents the complete tree\<close>

text \<open>
  \<open>partly_rep k i\<close>: every node is the node of the complete tree over \<open>f\<close>, except possibly the
  ancestors of leaf \<open>i\<close> above level \<open>k\<close>. It is the invariant of the update loop; \<open>tree_rep\<close> has no
  exception and is the invariant of the tree.
\<close>

definition partly_rep :: "('h \<Rightarrow> 'h \<Rightarrow> 'h) \<Rightarrow> (nat \<Rightarrow> 'h) \<Rightarrow> 'h MerkleTree \<Rightarrow> nat \<Rightarrow> nat \<Rightarrow> bool" where
  "partly_rep H f t k i \<longleftrightarrow> height t \<le> 64 \<and>
     (\<forall>j v. j \<le> height t \<longrightarrow> v < 2 ^ (height t - j) \<longrightarrow> j \<le> k \<or> v \<noteq> i div 2 ^ j \<longrightarrow>
        get_node_hash t (path_at (height t) j v) = (Ok (node H f j v) :: (unit, 'h) outcome))"

definition tree_rep :: "('h \<Rightarrow> 'h \<Rightarrow> 'h) \<Rightarrow> (nat \<Rightarrow> 'h) \<Rightarrow> 'h MerkleTree \<Rightarrow> bool" where
  "tree_rep H f t \<longleftrightarrow> partly_rep H f t (height t) 0"

lemma get_node_hash_Ok_poly:
  "get_node_hash t p = (Ok h :: ('e, 'h) outcome) \<longleftrightarrow> get_node_hash t p = (Ok h :: ('f, 'h) outcome)"
  by (auto simp: get_node_hash_def Let_def split: option.splits if_splits)

lemma partly_repD:
  assumes "partly_rep H f t k i" "j \<le> height t" "v < 2 ^ (height t - j)" "j \<le> k \<or> v \<noteq> i div 2 ^ j"
  shows "get_node_hash t (path_at (height t) j v) = (Ok (node H f j v) :: ('e, 'h) outcome)"
  using assms get_node_hash_Ok_poly unfolding partly_rep_def by metis

lemma tree_repD:
  assumes "tree_rep H f t" "j \<le> height t" "v < 2 ^ (height t - j)"
  shows "get_node_hash t (path_at (height t) j v) = Ok (node H f j v)"
  using assms partly_repD unfolding tree_rep_def by blast

lemma tree_rep_height: "tree_rep H f t \<Longrightarrow> height t \<le> 64"
  by (simp add: tree_rep_def partly_rep_def)

lemma tree_rep_iff: "tree_rep H f t \<longleftrightarrow> partly_rep H f t (height t) i"
  by (simp add: tree_rep_def partly_rep_def)

lemma insert_node_height [simp]: "height (insert_node p h t) = height t"
  by (simp add: insert_node_def)

lemma get_node_hash_insert:
  "get_node_hash (insert_node p h t) q = (if q = p then Ok h else get_node_hash t q)"
  by (simp add: get_node_hash_def insert_node_def Let_def split: option.split)

lemma div_pow_less: "i < 2 ^ ht \<Longrightarrow> k \<le> ht \<Longrightarrow> i div 2 ^ k < (2 :: nat) ^ (ht - k)"
  by (simp add: div_less_iff_less_mult power_add [symmetric])

text \<open>Inserting the right hash at the next ancestor advances the loop invariant by one level.\<close>

lemma partly_rep_insert:
  assumes rep: "partly_rep H f t k i" and k: "Suc k \<le> height t" and i: "i < 2 ^ height t"
  shows "partly_rep H f (insert_node (path_at (height t) (Suc k) (i div 2 ^ Suc k))
      (node H f (Suc k) (i div 2 ^ Suc k)) t) (Suc k) i"
  unfolding partly_rep_def
proof (intro conjI allI impI)
  show "height (insert_node (path_at (height t) (Suc k) (i div 2 ^ Suc k))
      (node H f (Suc k) (i div 2 ^ Suc k)) t) \<le> 64"
    using rep by (simp add: partly_rep_def)
next
  fix j v
  let ?t = "insert_node (path_at (height t) (Suc k) (i div 2 ^ Suc k)) (node H f (Suc k) (i div 2 ^ Suc k)) t"
  assume j: "j \<le> height ?t" and v: "v < 2 ^ (height ?t - j)" and c: "j \<le> Suc k \<or> v \<noteq> i div 2 ^ j"
  have inj: "path_at (height t) j v = path_at (height t) (Suc k) (i div 2 ^ Suc k) \<longleftrightarrow>
      j = Suc k \<and> v = i div 2 ^ Suc k"
    using j v k div_pow_less [OF i k] rep by (intro path_at_inject) (auto simp: partly_rep_def)
  show "get_node_hash ?t (path_at (height ?t) j v) = (Ok (node H f j v) :: (unit, 'a) outcome)"
  proof (cases "j = Suc k \<and> v = i div 2 ^ Suc k")
    case True
    then show ?thesis by (simp add: get_node_hash_insert)
  next
    case False
    then have "get_node_hash t (path_at (height t) j v) = (Ok (node H f j v) :: (unit, 'a) outcome)"
      using j v c by (intro partly_repD [OF rep]) (auto simp: le_Suc_eq)
    with False inj show ?thesis by (simp add: get_node_hash_insert)
  qed
qed

lemma update_leaf_loop_rep:
  assumes "partly_rep H f t k i" "i < 2 ^ height t" "k + n = height t"
  shows "\<exists>t'. update_leaf_loop H n (path_at (height t) k (i div 2 ^ k)) (node H f k (i div 2 ^ k)) t = Ok t' \<and>
    height t' = height t \<and> partly_rep H f t' (height t) i"
  using assms
proof (induction n arbitrary: k t)
  case 0
  then show ?case by auto
next
  case (Suc n)
  let ?v = "i div 2 ^ k" and ?w = "i div 2 ^ Suc k"
  from Suc.prems have k: "Suc k \<le> height t" and ht: "height t \<le> 64" by (auto simp: partly_rep_def)
  have v: "?v < 2 ^ (height t - k)" using Suc.prems k by (intro div_pow_less) auto
  then have v64: "?v < 18446744073709551616" by (rule less_pow64) (use ht in simp)
  have w: "?v div 2 = ?w" by (simp add: div_mult2_eq [symmetric] mult.commute)
  have sib: "get_node_hash t (path_at (height t) k (sib ?v)) = Ok (node H f k (sib ?v))"
    using k v by (intro partly_repD [OF Suc.prems(1)] sib_less) auto
  have up: "(if odd ?v then H (node H f k (sib ?v)) (node H f k ?v)
      else H (node H f k ?v) (node H f k (sib ?v))) = node H f (Suc k) ?w"
    by (simp add: node_parent [symmetric] w del: node.simps)
  let ?t = "insert_node (path_at (height t) (Suc k) ?w) (node H f (Suc k) ?w) t"
  have step: "update_leaf_loop H (Suc n) (path_at (height t) k ?v) (node H f k ?v) t =
      update_leaf_loop H n (path_at (height t) (Suc k) ?w) (node H f (Suc k) ?w) ?t"
    using k ht v64 by (simp add: sibling_path_at sib pop_path_at w up Let_def del: node.simps)
  have "partly_rep H f ?t (Suc k) i"
    using Suc.prems k by (intro partly_rep_insert) auto
  note IH = Suc.IH [OF this, unfolded insert_node_height]
  show ?case
    unfolding step using Suc.prems by (intro IH) simp_all
qed

lemma index_in_domain_iff: "index_in_domain i ht \<longleftrightarrow> unat i < 2 ^ ht"
proof (cases "ht \<ge> 64")
  case True
  then have "unat i < 2 ^ ht"
    using unat_lt_u64 [of i] power_increasing [of 64 ht "2 :: nat"] by simp
  with True show ?thesis by (simp add: index_in_domain_def)
next
  case False
  then have "(2 :: nat) ^ ht < 2 ^ 64" by (intro power_strict_increasing) auto
  then have "unat (2 ^ ht :: u64) = 2 ^ ht"
    using unat_of_nat_u64 [of "2 ^ ht"] by simp
  with False show ?thesis by (simp add: index_in_domain_def word_less_nat_alt)
qed

lemma BitPath_new_path_at: "BitPath_new (of_nat ht) i = path_at ht 0 (unat i)"
  by (simp add: BitPath_new_def path_at_def)

lemma zero_hash_loop_nth:
  "j < n \<Longrightarrow> zero_hash_loop H n (node H (\<lambda>_. z) k v) ! j = node H (\<lambda>_. z) (Suc k + j) w"
proof (induction n arbitrary: j k v)
  case (Suc n)
  have const: "node H (\<lambda>_. z) m a = node H (\<lambda>_. z) m b" for m a b
    by (induction m arbitrary: a b) (simp, metis node.simps(2))
  then have "H (node H (\<lambda>_. z) k v) (node H (\<lambda>_. z) k v) = node H (\<lambda>_. z) (Suc k) v"
    by (metis node.simps(2))
  then show ?case
    using Suc.IH [of _ "Suc k"] Suc.prems const [of "Suc k" v w]
    by (cases j) (auto simp: Let_def simp del: node.simps)
qed simp

lemma length_zero_hash_loop [simp]: "length (zero_hash_loop H n h) = n"
  by (induction n arbitrary: h) (auto simp: Let_def)

lemma MerkleTree_new_rep:
  assumes "ht \<le> 64"
  shows "tree_rep H (\<lambda>_. z) (MerkleTree_new H z ht)"
  unfolding tree_rep_def partly_rep_def
proof (intro conjI allI impI)
  fix j v
  assume "j \<le> height (MerkleTree_new H z ht)"
  then have j: "j \<le> ht" by (simp add: MerkleTree_new_def)
  have "unat (of_nat (ht - j) :: u32) = ht - j"
    using assms by (intro unat_of_nat_u32) simp
  moreover have "(z # zero_hash_loop H ht z) ! j = node H (\<lambda>_. z) j v"
    using zero_hash_loop_nth [of _ ht H z 0 v v] j by (cases j) (auto simp del: node.simps(2))
  ultimately show "get_node_hash (MerkleTree_new H z ht) (path_at (height (MerkleTree_new H z ht)) j v) =
      (Ok (node H (\<lambda>_. z) j v) :: (unit, 'a) outcome)"
    using j by (simp add: get_node_hash_def MerkleTree_new_def path_at_def Let_def)
qed (use assms in \<open>simp add: MerkleTree_new_def\<close>)

lemma MerkleTree_get_root_rep:
  assumes "tree_rep H f t"
  shows "MerkleTree_get_root t = Ok (node H f (height t) 0)"
  using tree_repD [OF assms, of "height t" 0]
  by (simp add: MerkleTree_get_root_def BitPath_default_def path_at_def)

lemma update_leaf_rep:
  assumes rep: "tree_rep H f t" and i: "unat i < 2 ^ height t"
  shows "\<exists>t'. update_leaf H i h t = Ok t' \<and> height t' = height t \<and> tree_rep H (f(unat i := h)) t'"
proof -
  let ?f = "f(unat i := h)" and ?p = "path_at (height t) 0 (unat i)"
  have "partly_rep H ?f (insert_node ?p h t) 0 (unat i)"
    unfolding partly_rep_def
  proof (intro conjI allI impI)
    fix j v
    assume j: "j \<le> height (insert_node ?p h t)" and v: "v < 2 ^ (height (insert_node ?p h t) - j)"
      and c: "j \<le> 0 \<or> v \<noteq> unat i div 2 ^ j"
    have inj: "path_at (height t) j v = ?p \<longleftrightarrow> j = 0 \<and> v = unat i"
      using j v i tree_rep_height [OF rep] by (intro path_at_inject) auto
    have "node H ?f j v = node H f j v" if "\<not> (j = 0 \<and> v = unat i)"
      using c that by (intro node_upd_other) auto
    then show "get_node_hash (insert_node ?p h t) (path_at (height (insert_node ?p h t)) j v) =
        (Ok (node H ?f j v) :: (unit, 'a) outcome)"
      using inj tree_repD [OF rep, of j v] j v by (auto simp: get_node_hash_insert)
  qed (use tree_rep_height [OF rep] in simp)
  from update_leaf_loop_rep [OF this, of "height t"] i show ?thesis
    by (fastforce simp: update_leaf_def index_in_domain_iff BitPath_new_path_at Let_def
        tree_rep_iff [of _ _ _ "unat i"])
qed

lemma prove_loop_rep:
  assumes "tree_rep H f t" "k + n = height t" "v < 2 ^ n"
  shows "prove_loop t n (path_at (height t) k v) = Ok (siblings_of H f k n v)"
  using assms
proof (induction n arbitrary: k v)
  case (Suc n)
  have ht: "height t \<le> 64" by (rule tree_rep_height [OF Suc.prems(1)])
  with Suc.prems have v64: "v < 18446744073709551616" by (intro less_pow64 [of v "Suc n"]) auto
  have "get_node_hash t (path_at (height t) k (sib v)) = (Ok (node H f k (sib v)) :: ('e, 'a) outcome)"
    using Suc.prems by (intro tree_repD [OF Suc.prems(1)] sib_less) (auto simp flip: Suc.prems(2))
  moreover have "v div 2 < 2 ^ n" using Suc.prems by simp
  ultimately show ?case
    using Suc.IH [of "Suc k" "v div 2"] Suc.prems ht v64
    by (simp add: sibling_path_at pop_path_at)
qed simp

lemma MerkleTree_prove_rep:
  assumes "tree_rep H f t" "unat i < 2 ^ height t"
  shows "MerkleTree_prove t i = Ok (siblings_of H f 0 (height t) (unat i))"
  using prove_loop_rep [OF assms(1), of 0 "height t" "unat i"] assms(2)
  by (simp add: MerkleTree_prove_def index_in_domain_iff BitPath_new_path_at)

section \<open>Proof checking\<close>

lemma proof_root_loop_root_of:
  assumes "k + length ss = ht" "ht \<le> 64" "v < 2 ^ length ss"
  shows "proof_root_loop H (path_at ht k v) h ss = Ok (root_of H v h ss)"
  using assms
proof (induction ss arbitrary: k v h)
  case (Cons s ss)
  from Cons.prems have "v < 18446744073709551616" by (intro less_pow64 [of v "length (s # ss)"]) auto
  with Cons.prems show ?case
    using Cons.IH [of "Suc k" "v div 2"] by (simp add: pop_path_at)
qed simp

lemma MerkleProof_get_root_root_of:
  assumes "length ss \<le> 64" "unat i < 2 ^ length ss"
  shows "MerkleProof_get_root H leaf_hash ss leaf i = Ok (root_of H (unat i) (leaf_hash leaf) ss)"
  using proof_root_loop_root_of [of 0 ss "length ss" "unat i"] assms
  by (simp add: MerkleProof_get_root_def BitPath_new_path_at)

lemma MerkleProof_verify_Ok_iff:
  assumes "length ss \<le> 64"
  shows "MerkleProof_verify H leaf_hash ss leaf i root = Ok () \<longleftrightarrow>
    unat i < 2 ^ length ss \<and> root_of H (unat i) (leaf_hash leaf) ss = root"
  using assms
  by (auto simp: MerkleProof_verify_def index_in_domain_iff MerkleProof_get_root_root_of)

lemma length_siblings_of [simp]: "length (siblings_of H f k n v) = n"
  by (induction n arbitrary: k v) auto

text \<open>A proof taken from the tree yields, for any leaf hash, the root after writing that hash.\<close>

lemma root_of_proof:
  assumes "i < 2 ^ ht"
  shows "root_of H i h (siblings_of H f 0 ht i) = node H (f(i := h)) ht 0"
proof -
  have "root_of H i (node H (f(i := h)) 0 i) (siblings_of H (f(i := h)) 0 ht i) =
      node H (f(i := h)) (0 + ht) (i div 2 ^ ht)"
    by (rule root_of_siblings [of i i]) simp
  then show ?thesis
    using assms siblings_of_upd [of i i 0 H f h ht] by (simp del: node.simps(2))
qed

text \<open>
  Binding. \<open>hashed_pairs\<close> are the inputs of \<open>two_to_one\<close> in recomputing a root from a proof. Two
  proofs of the same root and index agree if the hash has no collision among those inputs.
\<close>

fun hashed_pairs :: "('h \<Rightarrow> 'h \<Rightarrow> 'h) \<Rightarrow> nat \<Rightarrow> 'h \<Rightarrow> 'h list \<Rightarrow> ('h \<times> 'h) set" where
  "hashed_pairs H i h [] = {}"
| "hashed_pairs H i h (s # ss) =
     insert (if odd i then (s, h) else (h, s))
       (hashed_pairs H (i div 2) (if odd i then H s h else H h s) ss)"

lemma root_of_binding:
  assumes "inj_on (case_prod H) (hashed_pairs H i h ss \<union> hashed_pairs H i h' ss')"
    and "length ss = length ss'" and "root_of H i h ss = root_of H i h' ss'"
  shows "h = h' \<and> ss = ss'"
  using assms(2,1,3)
proof (induction ss ss' arbitrary: i h h' rule: list_induct2)
  case (Cons s ss s' ss')
  let ?g = "\<lambda>h s. if odd i then H s h else H h s"
  have "?g h s = ?g h' s' \<and> ss = ss'"
    using Cons.prems by (intro Cons.IH [of "i div 2"]) (auto elim!: inj_on_subset)
  moreover have "(if odd i then (s, h) else (h, s)) = (if odd i then (s', h') else (h', s'))"
    using calculation by (intro inj_onD [OF Cons.prems(1)]) (auto split: if_splits)
  ultimately show ?case by (auto split: if_splits)
qed simp

text \<open>
  A proof accepted against the root of \<open>f\<close> is the path of \<open>f\<close> itself, so it shows the leaf of \<open>f\<close> and
  recomputes the root after any write to it. \<open>path_pairs\<close> are the pairs hashed along that path.
\<close>

definition path_pairs :: "('h \<Rightarrow> 'h \<Rightarrow> 'h) \<Rightarrow> (nat \<Rightarrow> 'h) \<Rightarrow> nat \<Rightarrow> nat \<Rightarrow> ('h \<times> 'h) set" where
  "path_pairs H f ht i = hashed_pairs H i (f i) (siblings_of H f 0 ht i)"

lemma get_root_of_path:
  assumes "unat i < 2 ^ ht" "ht \<le> 64"
  shows "MerkleProof_get_root H leaf_hash (siblings_of H f 0 ht (unat i)) leaf i =
    Ok (node H (f(unat i := leaf_hash leaf)) ht 0)"
  using assms by (simp add: MerkleProof_get_root_root_of root_of_proof del: fun_upd_apply)

lemma verify_path:
  assumes "unat i < 2 ^ ht" "ht \<le> 64"
  shows "MerkleProof_verify H leaf_hash (siblings_of H f 0 ht (unat i)) leaf i r = Ok () \<longleftrightarrow>
    node H (f(unat i := leaf_hash leaf)) ht 0 = r"
  using assms by (simp add: MerkleProof_verify_Ok_iff root_of_proof del: fun_upd_apply)

lemma proof_authentic:
  assumes ht: "ht \<le> 64" and len: "length p = ht"
    and ok: "MerkleProof_verify H leaf_hash p leaf i (node H f ht 0) = Ok ()"
    and inj: "inj_on (case_prod H) (hashed_pairs H (unat i) (leaf_hash leaf) p \<union> path_pairs H f ht (unat i))"
  shows "unat i < 2 ^ ht \<and> leaf_hash leaf = f (unat i) \<and> p = siblings_of H f 0 ht (unat i)"
proof -
  from ok have dom: "unat i < 2 ^ ht" and r: "root_of H (unat i) (leaf_hash leaf) p = node H f ht 0"
    using ht len by (simp_all add: MerkleProof_verify_Ok_iff)
  have "root_of H (unat i) (f (unat i)) (siblings_of H f 0 ht (unat i)) = node H f ht 0"
    using root_of_proof [OF dom, of H "f (unat i)" f] by (simp only: fun_upd_triv)
  with r root_of_binding [OF inj [unfolded path_pairs_def]] len dom show ?thesis by simp
qed

text \<open>A hash with a single value has no collision among the pairs built from that value.\<close>

lemma node_const: "(\<And>i. f i = h) \<Longrightarrow> node (\<lambda>a b. h) f k v = h"
  by (cases k) simp_all

lemma root_of_const: "root_of (\<lambda>a b. h) v h ss = h"
  by (induction ss arbitrary: v) simp_all

lemma siblings_of_const: "(\<And>i. f i = h) \<Longrightarrow> siblings_of (\<lambda>a b. h) f k n v = replicate n h"
  by (induction n arbitrary: k v) (simp_all add: node_const)

lemma hashed_pairs_const: "hashed_pairs (\<lambda>a b. h) i h (replicate n h) \<subseteq> {(h, h)}"
  by (induction n arbitrary: i) simp_all

lemma inj_on_hashed_const: "A \<subseteq> {x} \<Longrightarrow> inj_on f A"
  by (auto simp: inj_on_def)

lemma path_pairs_const: "(\<And>i. f i = h) \<Longrightarrow> path_pairs (\<lambda>a b. h) f n i \<subseteq> {(h, h)}"
  by (simp add: path_pairs_def siblings_of_const hashed_pairs_const)

text \<open>
  A hash under which every node is higher than its children has no collision along a path: \<open>g\<close> is the height, and the
  law of \<open>H\<close> is needed only below a bound \<open>B\<close> that the path does not reach.
\<close>

lemma node_height:
  assumes H: "\<And>a b. g a < B \<Longrightarrow> g b < B \<Longrightarrow> g (H a b) = Suc (max (g a) (g b))"
    and f: "\<And>i. g (f i) \<le> (n :: nat)" and "n + k \<le> B"
  shows "g (node H f k v) \<le> n + k"
  using assms(3)
proof (induction k arbitrary: v)
  case (Suc k)
  have "g (node H f k v) \<le> n + k" for v using Suc.IH Suc.prems by simp
  moreover have "n + k < B" using Suc.prems by simp
  ultimately have "g (node H f k v) < B" for v using le_less_trans by blast
  with H [of "node H f k (2 * v)" "node H f k (2 * v + 1)"] Suc.IH [of "2 * v"] Suc.IH [of "2 * v + 1"] Suc.prems
  show ?case by simp
qed (simp add: f)

lemma node_height_first:
  assumes H: "\<And>a b. g a < B \<Longrightarrow> g b < B \<Longrightarrow> g (H a b) = Suc (max (g a) (g b))"
    and f: "\<And>i. g (f i) \<le> (n :: nat)" and "n + k \<le> B"
  shows "g (f (v * 2 ^ k)) + k \<le> g (node H f k v)"
  using assms(3)
proof (induction k arbitrary: v)
  case (Suc k)
  have "g (node H f k v) < B" for v
    using node_height [of g B H f n k v, OF H f] Suc.prems by simp
  with H [of "node H f k (2 * v)" "node H f k (2 * v + 1)"] Suc.IH [of "2 * v"] Suc.prems
  show ?case by (simp add: ac_simps le_max_iff_disj)
qed simp

lemma hashed_pairs_height:
  assumes H: "\<And>a b. g a < B \<Longrightarrow> g b < B \<Longrightarrow> g (H a b) = Suc (max (g a) (g b))"
    and "g h \<le> (n :: nat)" "\<And>j. j < length ss \<Longrightarrow> g (ss ! j) \<le> n + j" "n + length ss \<le> B"
  shows "inj_on (case_prod H) (hashed_pairs H i h ss) \<and> (\<forall>p \<in> hashed_pairs H i h ss. g h < g (case_prod H p))"
  using assms(2-4)
proof (induction ss arbitrary: n h i)
  case (Cons s ss)
  let ?h = "if odd i then H s h else H h s"
  have s: "g s \<le> n" using Cons.prems(2) [of 0] by simp
  with Cons.prems(1,3) have lt: "g s < B" "g h < B" by simp_all
  have h: "g ?h = Suc (max (g h) (g s))" using H [OF lt] H [OF lt(2,1)] by (simp add: max.commute)
  have "inj_on (case_prod H) (hashed_pairs H (i div 2) ?h ss) \<and>
      (\<forall>p \<in> hashed_pairs H (i div 2) ?h ss. g ?h < g (case_prod H p))"
  proof (rule Cons.IH)
    show "g ?h \<le> Suc n" using h s Cons.prems(1) by simp
    show "g (ss ! j) \<le> Suc n + j" if "j < length ss" for j using Cons.prems(2) [of "Suc j"] that by simp
    show "Suc n + length ss \<le> B" using Cons.prems(3) by simp
  qed
  moreover have "case_prod H (if odd i then (s, h) else (h, s)) = ?h" by simp
  ultimately show ?case using h by (auto split: if_splits)
qed simp

lemma nth_siblings_of: "j < n \<Longrightarrow> \<exists>w. siblings_of H f k n v ! j = node H f (k + j) w"
proof (induction n arbitrary: k v j)
  case (Suc n)
  then show ?case using Suc.IH [of "j - 1" "Suc k" "v div 2"] by (cases j) auto
qed simp

lemma path_pairs_height:
  assumes H: "\<And>a b. g a < B \<Longrightarrow> g b < B \<Longrightarrow> g (H a b) = Suc (max (g a) (g b))"
    and f: "\<And>i. g (f i) \<le> (n :: nat)" and "n + ht \<le> B"
  shows "inj_on (case_prod H) (path_pairs H f ht i)"
proof -
  have "g (siblings_of H f 0 ht i ! j) \<le> n + j" if "j < ht" for j
    using nth_siblings_of [OF that, of H f 0 i] node_height [of g B H f n j, OF H f] assms(3) that by auto
  then show ?thesis
    using hashed_pairs_height [of g B H "f i" n "siblings_of H f 0 ht i" i, OF H f] assms(3) by (simp add: path_pairs_def)
qed

section \<open>Contract of the tree towards its clients\<close>

text \<open>
  What the leaf-keeping trees rely on: a representation of leaf-hash functions, an update that
  refines function update, the root, and proofs that recompute the root for any replacement leaf.
\<close>

definition apply_updates :: "(u64 \<times> 'h) list \<Rightarrow> (nat \<Rightarrow> 'h) \<Rightarrow> nat \<Rightarrow> 'h" where
  "apply_updates ps f = fold (\<lambda>(i, h) g. g(unat i := h)) ps f"

locale merkle_backend =
  fixes rep :: "(nat \<Rightarrow> 'h) \<Rightarrow> 't \<Rightarrow> bool"
    and cap :: "'t \<Rightarrow> nat"
    and upd :: "u64 \<Rightarrow> 'h \<Rightarrow> 't \<Rightarrow> ('e, 't) outcome"
    and root :: "'t \<Rightarrow> ('e, 'h) outcome"
    and prv :: "'t \<Rightarrow> u64 \<Rightarrow> ('e, 'h list) outcome"
    and spec_root :: "nat \<Rightarrow> (nat \<Rightarrow> 'h) \<Rightarrow> 'h"
    and recompute :: "nat \<Rightarrow> 'h \<Rightarrow> 'h list \<Rightarrow> 'h"
  assumes upd_rep: "rep f t \<Longrightarrow> unat i < 2 ^ cap t \<Longrightarrow>
      \<exists>t'. upd i h t = Ok t' \<and> cap t' = cap t \<and> rep (f(unat i := h)) t'"
    and upd_outside: "\<not> unat i < 2 ^ cap t \<Longrightarrow> upd i h t = Panic"
    and root_rep: "rep f t \<Longrightarrow> root t = Ok (spec_root (cap t) f)"
    and prv_rep: "rep f t \<Longrightarrow> unat i < 2 ^ cap t \<Longrightarrow>
      \<exists>p. prv t i = Ok p \<and> length p = cap t \<and>
        (\<forall>h. recompute (unat i) h p = spec_root (cap t) (f(unat i := h)))"
begin

lemma updates_rep:
  assumes "rep f t" "list_all (\<lambda>(i, h). unat i < 2 ^ cap t) ps"
  shows "\<exists>t'. try_fold (\<lambda>t (i, h). upd i h t) t ps = Ok t' \<and> cap t' = cap t \<and>
    rep (apply_updates ps f) t' \<and> root t' = Ok (spec_root (cap t) (apply_updates ps f))"
  using assms
proof (induction ps arbitrary: f t)
  case Nil
  then show ?case by (simp add: apply_updates_def root_rep)
next
  case (Cons p ps)
  obtain i h where p: "p = (i, h)" by fastforce
  with Cons.prems obtain t' where "upd i h t = Ok t'" "cap t' = cap t" "rep (f(unat i := h)) t'"
    using upd_rep by fastforce
  then show ?case
    using Cons.IH [of "f(unat i := h)" t'] Cons.prems by (simp add: p apply_updates_def del: fun_upd_apply)
qed

lemma updates_outside:
  assumes "rep f t" "\<not> list_all (\<lambda>(i, h). unat i < 2 ^ cap t) ps"
  shows "try_fold (\<lambda>t (i, h). upd i h t) t ps = Panic"
  using assms
proof (induction ps arbitrary: f t)
  case (Cons p ps)
  obtain i h where p: "p = (i, h)" by fastforce
  show ?case
  proof (cases "unat i < 2 ^ cap t")
    case True
    with Cons.prems obtain t' where "upd i h t = Ok t'" "cap t' = cap t" "rep (f(unat i := h)) t'"
      using upd_rep by blast
    then show ?thesis using Cons.IH Cons.prems True by (simp add: p)
  next
    case False
    then show ?thesis by (simp add: p upd_outside)
  qed
qed simp

lemma proof_of_current:
  assumes "rep f t" "unat i < 2 ^ cap t"
  shows "\<exists>p. prv t i = Ok p \<and> length p = cap t \<and> root t = Ok (recompute (unat i) (f (unat i)) p)"
  using prv_rep [OF assms] root_rep [OF assms(1)] by (metis fun_upd_triv)

lemma proof_of_update:
  assumes "rep f t" "unat i < 2 ^ cap t"
  shows "\<exists>p t'. prv t i = Ok p \<and> upd i h t = Ok t' \<and> root t' = Ok (recompute (unat i) h p)"
  using prv_rep [OF assms] upd_rep [OF assms] root_rep by metis

end

interpretation mt: merkle_backend "tree_rep H" height
  "update_leaf H :: u64 \<Rightarrow> 'h \<Rightarrow> 'h MerkleTree \<Rightarrow> ('e, 'h MerkleTree) outcome" MerkleTree_get_root
  MerkleTree_prove "\<lambda>ht f. node H f ht 0" "root_of H" for H :: "'h \<Rightarrow> 'h \<Rightarrow> 'h"
proof unfold_locales
  show "tree_rep H f t \<Longrightarrow> unat i < 2 ^ height t \<Longrightarrow>
      \<exists>t'. update_leaf H i h t = Ok t' \<and> height t' = height t \<and> tree_rep H (f(unat i := h)) t'" for f t i h
    by (rule update_leaf_rep)
  show "tree_rep H f t \<Longrightarrow> unat i < 2 ^ height t \<Longrightarrow> \<exists>p. MerkleTree_prove t i = Ok p \<and>
      length p = height t \<and> (\<forall>h. root_of H (unat i) h p = node H (f(unat i := h)) (height t) 0)" for f t i
    using MerkleTree_prove_rep [of H f t i] root_of_proof [of "unat i" "height t" H _ f]
    by (auto simp del: fun_upd_apply)
qed (simp_all add: update_leaf_def index_in_domain_iff MerkleTree_get_root_rep)

lemma node_height_2: "node H f 2 0 = H (H (f 0) (f 1)) (H (f 2) (f 3))"
  by (simp add: eval_nat_numeral)

section \<open>Properties\<close>

text \<open>
C37: the sparse tree refines the complete binary tree. From a new tree of height at most 64, any
sequence of leaf updates with indices in the domain succeeds, and the root is the root of the
complete tree whose leaves are the empty-leaf hash overwritten by the updates in order; if some
index is outside the domain the run panics instead of storing an unreadable node.
\<close>

theorem merkle_updates_refine:
  assumes "ht \<le> 64"
  shows "if list_all (\<lambda>(i, h). unat i < 2 ^ ht) ps
    then \<exists>t. try_fold (\<lambda>t (i, h). update_leaf H i h t) (MerkleTree_new H z ht) ps = (Ok t :: ('e, _) outcome) \<and>
           MerkleTree_get_root t = (Ok (node H (apply_updates ps (\<lambda>_. z)) ht 0) :: ('e, _) outcome)
    else try_fold (\<lambda>t (i, h). update_leaf H i h t) (MerkleTree_new H z ht) ps = (Panic :: ('e, _) outcome)"
proof -
  have "height (MerkleTree_new H z ht) = ht" by (simp add: MerkleTree_new_def)
  then show ?thesis
    using mt.updates_rep [where ps = ps and 'e = 'e, OF MerkleTree_new_rep [where H = H and z = z, OF assms]]
      mt.updates_outside [where ps = ps and 'e = 'e, OF MerkleTree_new_rep [where H = H and z = z, OF assms]] by auto
qed

theorem merkle_updates_refine_witness:
  "\<exists>t. try_fold (\<lambda>t (i, h). update_leaf (\<lambda>a b. 2 * a + 3 * b) i h t)
         (MerkleTree_new (\<lambda>a b. 2 * a + 3 * b) (1 :: nat) 2) [(1, 7), (3, 5), (1, 8)] = (Ok t :: (unit, _) outcome) \<and>
       MerkleTree_get_root t = (Ok 103 :: (unit, _) outcome)"
  using merkle_updates_refine [where 'e = unit, of 2 "[(1, 7), (3, 5), (1, 8)]" "\<lambda>a b. 2 * a + 3 * b" "1 :: nat"]
  by (simp add: apply_updates_def node_height_2)

text \<open>
C38: proofs are complete and describe updates. After any sequence of updates, the proof the tree
gives for an index in the domain verifies the current leaf against the current root, and the root
it computes for any other leaf is the root the tree has after storing that leaf at the index.
\<close>

theorem merkle_prove_verify:
  fixes H :: "'h \<Rightarrow> 'h \<Rightarrow> 'h"
  assumes "ht \<le> 64" and "unat i < 2 ^ ht"
    and "try_fold (\<lambda>t (i, h). update_leaf H i h t) (MerkleTree_new H z ht) ps = (Ok t :: ('e, _) outcome)"
  shows "\<exists>p r. MerkleTree_prove t i = (Ok p :: ('e, _) outcome) \<and> MerkleTree_get_root t = (Ok r :: ('e, _) outcome) \<and>
    (leaf_hash leaf = apply_updates ps (\<lambda>_. z) (unat i) \<longrightarrow>
       MerkleProof_verify H leaf_hash p leaf i r = Ok ()) \<and>
    (\<exists>t'. update_leaf H i (leaf_hash leaf) t = (Ok t' :: ('e, _) outcome) \<and>
       MerkleTree_get_root t' = (MerkleProof_get_root H leaf_hash p leaf i :: ('e, _) outcome))"
proof -
  have ht: "height (MerkleTree_new H z ht) = ht" by (simp add: MerkleTree_new_def)
  have all: "list_all (\<lambda>(i, h). unat i < 2 ^ ht) ps"
    using mt.updates_outside [where ps = ps and 'e = 'e, OF MerkleTree_new_rep [where H = H and z = z, OF assms(1)]] assms(3) ht by auto
  obtain rep: "tree_rep H (apply_updates ps (\<lambda>_. z)) t" and cap: "height t = ht"
    using mt.updates_rep [where ps = ps and 'e = 'e, OF MerkleTree_new_rep [where H = H and z = z, OF assms(1)]] assms(3) all ht by auto
  have dom: "unat i < 2 ^ height t" using assms(2) cap by simp
  let ?f = "apply_updates ps (\<lambda>_. z)" and ?p = "siblings_of H (apply_updates ps (\<lambda>_. z)) 0 ht (unat i)"
  have rec: "root_of H (unat i) h ?p = node H (?f(unat i := h)) ht 0" for h
    by (rule root_of_proof [OF assms(2)])
  obtain t' where t': "update_leaf H i (leaf_hash leaf) t = (Ok t' :: ('e, _) outcome)"
      "MerkleTree_get_root t' = (Ok (root_of H (unat i) (leaf_hash leaf) ?p) :: ('e, _) outcome)"
    using update_leaf_rep [OF rep dom, of "leaf_hash leaf"] MerkleTree_get_root_rep rec cap by metis
  have "MerkleProof_verify H leaf_hash ?p leaf i (node H ?f ht 0) = Ok ()"
    if "leaf_hash leaf = ?f (unat i)"
    using rec [of "?f (unat i)"] assms(1,2) that by (simp add: MerkleProof_verify_Ok_iff)
  then show ?thesis
    using MerkleTree_prove_rep [where 'b = 'e, OF rep dom] MerkleTree_get_root_rep [where 'b = 'e, OF rep]
      t' assms(1,2) cap
    by (intro exI [of _ ?p] exI [of _ "node H ?f ht 0"]) (auto simp: MerkleProof_get_root_root_of)
qed

theorem merkle_prove_verify_witness:
  "\<exists>p r. MerkleTree_prove (MerkleTree_new (\<lambda>a b. 2 * a + 3 * b) (1 :: nat) 2) 3 = (Ok p :: (unit, _) outcome) \<and>
     MerkleTree_get_root (MerkleTree_new (\<lambda>a b. 2 * a + 3 * b) (1 :: nat) 2) = (Ok r :: (unit, _) outcome) \<and>
     MerkleProof_verify (\<lambda>a b. 2 * a + 3 * b) (\<lambda>x. x) p 1 3 r = Ok ()"
  using merkle_prove_verify [where 'e = unit, of 2 3 "\<lambda>a b. 2 * a + 3 * b" "1 :: nat" "[]"
      "MerkleTree_new (\<lambda>a b. 2 * a + 3 * b) 1 2" "\<lambda>x. x" 1]
  by (auto simp: apply_updates_def)

text \<open>
C39: accepted proofs bind the leaf. If two proofs of the same length are accepted for the same
index and root, they carry the same leaf and the same siblings, provided the two-to-one hash has
no collision among the pairs hashed while checking the two proofs and the leaf hash none between
the two leaves.
\<close>

theorem merkle_proof_binding:
  assumes "length ss \<le> 64" and "length ss' = length ss"
    and "MerkleProof_verify H leaf_hash ss leaf i root = Ok ()"
    and "MerkleProof_verify H leaf_hash ss' leaf' i root = Ok ()"
    and "inj_on (case_prod H) (hashed_pairs H (unat i) (leaf_hash leaf) ss \<union>
                               hashed_pairs H (unat i) (leaf_hash leaf') ss')"
    and "inj_on leaf_hash {leaf, leaf'}"
  shows "leaf = leaf' \<and> ss = ss'"
proof -
  from assms(3,4) have "root_of H (unat i) (leaf_hash leaf) ss = root_of H (unat i) (leaf_hash leaf') ss'"
    using assms(1,2) by (simp add: MerkleProof_verify_Ok_iff)
  with root_of_binding [OF assms(5)] assms(2) have "leaf_hash leaf = leaf_hash leaf' \<and> ss = ss'" by simp
  with assms(6) show ?thesis by (auto dest: inj_onD)
qed

theorem merkle_proof_binding_witness:
  "MerkleProof_verify (\<lambda>a b. 2 * a + 3 * b) (\<lambda>x. x) [4, 6] 5 2 (78 :: nat) = Ok () \<and>
   inj_on (case_prod (\<lambda>a b :: nat. 2 * a + 3 * b)) (hashed_pairs (\<lambda>a b. 2 * a + 3 * b) 2 5 [4, 6]) \<and>
   (5 :: nat) = 5 \<and> [4, 6 :: nat] = [4, 6]"
proof -
  let ?H = "\<lambda>a b :: nat. 2 * a + 3 * b"
  have ok: "MerkleProof_verify ?H (\<lambda>x. x) [4, 6] 5 2 78 = Ok ()"
    by (simp add: MerkleProof_verify_Ok_iff)
  have inj: "inj_on (case_prod ?H) (hashed_pairs ?H 2 5 [4, 6])"
    by simp
  from merkle_proof_binding [OF _ _ ok ok] inj have "(5 :: nat) = 5 \<and> [4, 6 :: nat] = [4, 6]" by simp
  with ok inj show ?thesis by simp
qed

end
