(* ===== verification/Leaf_Trees.thy ===== *)
theory Leaf_Trees
  imports Merkle_Tree
begin

text \<open>
  The leaf-keeping trees of \<open>src/src/utils/trees\<close>: \<open>SparseMerkleTree\<close> (leaves by index),
  \<open>IncrementalMerkleTree\<close> (leaves appended), their packed serial forms, and the batch root
  computation of \<open>get_root.rs\<close>, native and in-circuit. A leaf type is given by \<open>H\<close> (two-to-one
  hash), \<open>leaf_hash\<close> and \<open>empty_leaf\<close>. The iteration order of a \<open>HashMap\<close> is a parameter of \<open>pack\<close>.
  Values carried by circuit targets stand for the targets; the builder's bit decomposition is a
  parameter.
\<close>

unbundle bit_operations_syntax

section \<open>Sparse tree\<close>

record ('h, 'v) SparseMerkleTree =
  s_merkle_tree :: "'h MerkleTree"
  s_leaves :: "u64 \<Rightarrow> 'v option"

definition Sparse_new ::
  "('h \<Rightarrow> 'h \<Rightarrow> 'h) \<Rightarrow> ('v \<Rightarrow> 'h) \<Rightarrow> 'v \<Rightarrow> nat \<Rightarrow> ('h, 'v) SparseMerkleTree" where
  "Sparse_new H leaf_hash empty_leaf ht =
     \<lparr>s_merkle_tree = MerkleTree_new H (leaf_hash empty_leaf) ht, s_leaves = Map.empty\<rparr>"

definition Sparse_get_leaf :: "'v \<Rightarrow> ('h, 'v) SparseMerkleTree \<Rightarrow> u64 \<Rightarrow> 'v" where
  "Sparse_get_leaf empty_leaf t index =
     (case s_leaves t index of Some leaf \<Rightarrow> leaf | None \<Rightarrow> empty_leaf)"

definition Sparse_get_root :: "('h, 'v) SparseMerkleTree \<Rightarrow> ('e, 'h) outcome" where
  "Sparse_get_root t = MerkleTree_get_root (s_merkle_tree t)"

definition Sparse_update ::
  "('h \<Rightarrow> 'h \<Rightarrow> 'h) \<Rightarrow> ('v \<Rightarrow> 'h) \<Rightarrow> u64 \<Rightarrow> 'v \<Rightarrow> ('h, 'v) SparseMerkleTree
     \<Rightarrow> ('e, ('h, 'v) SparseMerkleTree) outcome" where
  "Sparse_update H leaf_hash index leaf t =
     and_then (update_leaf H index (leaf_hash leaf) (s_merkle_tree t)) (\<lambda>mt.
       Ok (t\<lparr>s_merkle_tree := mt, s_leaves := (s_leaves t)(index \<mapsto> leaf)\<rparr>))"

definition Sparse_prove :: "('h, 'v) SparseMerkleTree \<Rightarrow> u64 \<Rightarrow> ('e, 'h MerkleProof) outcome" where
  "Sparse_prove t index = MerkleTree_prove (s_merkle_tree t) index"

record 'v SparsePacked =
  sp_height :: nat
  sp_leaves :: "(u64 \<times> 'v) list"

definition Sparse_pack ::
  "((u64 \<Rightarrow> 'v option) \<Rightarrow> (u64 \<times> 'v) list) \<Rightarrow> ('h, 'v) SparseMerkleTree \<Rightarrow> 'v SparsePacked" where
  "Sparse_pack iter t = \<lparr>sp_height = height (s_merkle_tree t), sp_leaves = iter (s_leaves t)\<rparr>"

definition Sparse_unpack ::
  "('h \<Rightarrow> 'h \<Rightarrow> 'h) \<Rightarrow> ('v \<Rightarrow> 'h) \<Rightarrow> 'v \<Rightarrow> 'v SparsePacked
     \<Rightarrow> ('e, ('h, 'v) SparseMerkleTree) outcome" where
  "Sparse_unpack H leaf_hash empty_leaf packed =
     try_fold (\<lambda>tree (index, leaf). Sparse_update H leaf_hash index leaf tree)
       (Sparse_new H leaf_hash empty_leaf (sp_height packed)) (sp_leaves packed)"

section \<open>Incremental tree\<close>

record ('h, 'v) IncrementalMerkleTree =
  i_merkle_tree :: "'h MerkleTree"
  i_leaves :: "'v list"

definition Incremental_new ::
  "('h \<Rightarrow> 'h \<Rightarrow> 'h) \<Rightarrow> ('v \<Rightarrow> 'h) \<Rightarrow> 'v \<Rightarrow> nat \<Rightarrow> ('h, 'v) IncrementalMerkleTree" where
  "Incremental_new H leaf_hash empty_leaf ht =
     \<lparr>i_merkle_tree = MerkleTree_new H (leaf_hash empty_leaf) ht, i_leaves = []\<rparr>"

definition Incremental_get_leaf :: "'v \<Rightarrow> ('h, 'v) IncrementalMerkleTree \<Rightarrow> u64 \<Rightarrow> 'v" where
  "Incremental_get_leaf empty_leaf t index =
     (if unat index < length (i_leaves t) then i_leaves t ! unat index else empty_leaf)"

definition Incremental_get_root :: "('h, 'v) IncrementalMerkleTree \<Rightarrow> ('e, 'h) outcome" where
  "Incremental_get_root t = MerkleTree_get_root (i_merkle_tree t)"

definition Incremental_update ::
  "('h \<Rightarrow> 'h \<Rightarrow> 'h) \<Rightarrow> ('v \<Rightarrow> 'h) \<Rightarrow> u64 \<Rightarrow> 'v \<Rightarrow> ('h, 'v) IncrementalMerkleTree
     \<Rightarrow> ('e, ('h, 'v) IncrementalMerkleTree) outcome" where
  "Incremental_update H leaf_hash index leaf t =
     and_then (update_leaf H index (leaf_hash leaf) (i_merkle_tree t)) (\<lambda>mt.
       if unat index < length (i_leaves t)
       then Ok (t\<lparr>i_merkle_tree := mt, i_leaves := (i_leaves t)[unat index := leaf]\<rparr>)
       else Panic)"

definition Incremental_push ::
  "('h \<Rightarrow> 'h \<Rightarrow> 'h) \<Rightarrow> ('v \<Rightarrow> 'h) \<Rightarrow> 'v \<Rightarrow> ('h, 'v) IncrementalMerkleTree
     \<Rightarrow> ('e, ('h, 'v) IncrementalMerkleTree) outcome" where
  "Incremental_push H leaf_hash leaf t =
     (let index = of_nat (length (i_leaves t)) :: u64 in
      if \<not> index < push_bit (height (i_merkle_tree t) mod 64) 1 then Panic
      else and_then (update_leaf H index (leaf_hash leaf) (i_merkle_tree t)) (\<lambda>mt.
        Ok (t\<lparr>i_merkle_tree := mt, i_leaves := i_leaves t @ [leaf]\<rparr>)))"

definition Incremental_prove :: "('h, 'v) IncrementalMerkleTree \<Rightarrow> u64 \<Rightarrow> ('e, 'h MerkleProof) outcome" where
  "Incremental_prove t index = MerkleTree_prove (i_merkle_tree t) index"

record 'v IncrementalPacked =
  ip_height :: nat
  ip_leaves :: "'v list"

definition Incremental_pack :: "('h, 'v) IncrementalMerkleTree \<Rightarrow> 'v IncrementalPacked" where
  "Incremental_pack t = \<lparr>ip_height = height (i_merkle_tree t), ip_leaves = i_leaves t\<rparr>"

definition Incremental_unpack ::
  "('h \<Rightarrow> 'h \<Rightarrow> 'h) \<Rightarrow> ('v \<Rightarrow> 'h) \<Rightarrow> 'v \<Rightarrow> 'v IncrementalPacked
     \<Rightarrow> ('e, ('h, 'v) IncrementalMerkleTree) outcome" where
  "Incremental_unpack H leaf_hash empty_leaf packed =
     try_fold (\<lambda>tree leaf. Incremental_push H leaf_hash leaf tree)
       (Incremental_new H leaf_hash empty_leaf (ip_height packed)) (ip_leaves packed)"

datatype DecodeError = HeightNotAddressable nat | CannotHold nat nat

definition Incremental_deserialize ::
  "('h \<Rightarrow> 'h \<Rightarrow> 'h) \<Rightarrow> ('v \<Rightarrow> 'h) \<Rightarrow> 'v \<Rightarrow> 'v IncrementalPacked
     \<Rightarrow> (DecodeError, ('h, 'v) IncrementalMerkleTree) outcome" where
  "Incremental_deserialize H leaf_hash empty_leaf packed =
     (if ip_height packed \<ge> 64 then Err (HeightNotAddressable (ip_height packed))
      else if length (ip_leaves packed) > 2 ^ ip_height packed
      then Err (CannotHold (ip_height packed) (length (ip_leaves packed)))
      else Incremental_unpack H leaf_hash empty_leaf packed)"

section \<open>Batch root\<close>

datatype GetRootFromLeavesError = TooManyLeaves nat | NotPowerOfTwo nat

function layer_loop :: "('h \<Rightarrow> 'h \<Rightarrow> 'h) \<Rightarrow> 'h list \<Rightarrow> (GetRootFromLeavesError, 'h) outcome" where
  "layer_loop H layer =
     (if length layer > 1 then
        if length layer mod 2 = 1 then Err (NotPowerOfTwo (length layer))
        else layer_loop H
               (map (\<lambda>i. H (layer ! (2 * i)) (layer ! (2 * i + 1))) [0..<length layer div 2])
      else Ok (layer ! 0))"
  by pat_completeness auto
termination
  by (relation "measure (\<lambda>(H, layer). length layer)") auto

declare layer_loop.simps [simp del]

definition get_merkle_root_from_full_leaves ::
  "('h \<Rightarrow> 'h \<Rightarrow> 'h) \<Rightarrow> ('v \<Rightarrow> 'h) \<Rightarrow> nat \<Rightarrow> 'v list \<Rightarrow> (GetRootFromLeavesError, 'h) outcome" where
  "get_merkle_root_from_full_leaves H leaf_hash ht leaves =
     (if length leaves \<noteq> 2 ^ (ht mod 64) then Err (TooManyLeaves (length leaves))
      else let layer = map leaf_hash leaves in
        if layer = [] then Err (TooManyLeaves 0) else layer_loop H layer)"

definition get_merkle_root_from_leaves ::
  "('h \<Rightarrow> 'h \<Rightarrow> 'h) \<Rightarrow> ('v \<Rightarrow> 'h) \<Rightarrow> 'v \<Rightarrow> nat \<Rightarrow> 'v list \<Rightarrow> (GetRootFromLeavesError, 'h) outcome" where
  "get_merkle_root_from_leaves H leaf_hash empty_leaf ht leaves =
     (if length leaves > 2 ^ (ht mod 64) then Err (TooManyLeaves (length leaves))
      else get_merkle_root_from_full_leaves H leaf_hash ht
             (leaves @ replicate (2 ^ (ht mod 64) - length leaves) empty_leaf))"

text \<open>\<open>usize::next_power_of_two\<close> and \<open>trailing_zeros\<close>.\<close>

function next_power_of_two :: "nat \<Rightarrow> nat" where
  "next_power_of_two n = (if n \<le> 1 then 1 else 2 * next_power_of_two ((n + 1) div 2))"
  by pat_completeness auto
termination
  by (relation "measure (\<lambda>n. n)") auto

function trailing_zeros :: "nat \<Rightarrow> nat" where
  "trailing_zeros n = (if n = 0 then 64 else if odd n then 0 else Suc (trailing_zeros (n div 2)))"
  by pat_completeness auto
termination
  by (relation "measure (\<lambda>n. n)") auto

declare next_power_of_two.simps [simp del] trailing_zeros.simps [simp del]

fun hash_up :: "('h \<Rightarrow> 'h \<Rightarrow> 'h) \<Rightarrow> nat \<Rightarrow> 'h \<Rightarrow> 'h" where
  "hash_up H 0 default_hash = default_hash"
| "hash_up H (Suc n) default_hash = hash_up H n (H default_hash default_hash)"

fun extend_root :: "('h \<Rightarrow> 'h \<Rightarrow> 'h) \<Rightarrow> ('h \<Rightarrow> 'h \<Rightarrow> 'h) \<Rightarrow> nat \<Rightarrow> 'h \<Rightarrow> 'h \<Rightarrow> 'h" where
  "extend_root H H_target 0 root default_hash = root"
| "extend_root H H_target (Suc n) root default_hash =
     extend_root H H_target n (H_target root default_hash) (H default_hash default_hash)"

text \<open>
  The in-circuit root: \<open>H_target\<close> is the value of \<open>two_to_one_target\<close>, \<open>leaf_hash\<close> that of the
  target's hash. A violated \<open>assert!\<close> while building the circuit is \<open>Panic\<close>.
\<close>

function layer_loop_circuit :: "('h \<Rightarrow> 'h \<Rightarrow> 'h) \<Rightarrow> 'h list \<Rightarrow> ('e, 'h) outcome" where
  "layer_loop_circuit H_target layer =
     (if length layer > 1 then
        if length layer mod 2 \<noteq> 0 then Panic
        else layer_loop_circuit H_target
               (map (\<lambda>i. H_target (layer ! (2 * i)) (layer ! (2 * i + 1))) [0..<length layer div 2])
      else Ok (layer ! 0))"
  by pat_completeness auto
termination
  by (relation "measure (\<lambda>(H, layer). length layer)") auto

declare layer_loop_circuit.simps [simp del]

definition get_merkle_root_from_full_leaves_circuit ::
  "('h \<Rightarrow> 'h \<Rightarrow> 'h) \<Rightarrow> ('v \<Rightarrow> 'h) \<Rightarrow> nat \<Rightarrow> 'v list \<Rightarrow> ('e, 'h) outcome" where
  "get_merkle_root_from_full_leaves_circuit H_target leaf_hash ht leaves =
     (if length leaves \<noteq> 2 ^ (ht mod 64) then Panic
      else let layer = map leaf_hash leaves in
        if length layer = 0 then Panic else layer_loop_circuit H_target layer)"

definition get_merkle_root_from_leaves_circuit ::
  "('h \<Rightarrow> 'h \<Rightarrow> 'h) \<Rightarrow> ('h \<Rightarrow> 'h \<Rightarrow> 'h) \<Rightarrow> ('v \<Rightarrow> 'h) \<Rightarrow> 'v \<Rightarrow> nat \<Rightarrow> 'v list \<Rightarrow> ('e, 'h) outcome" where
  "get_merkle_root_from_leaves_circuit H H_target leaf_hash empty_leaf ht leaves =
     (if \<not> length leaves \<le> 2 ^ (ht mod 64) then Panic
      else let next_pow_two = next_power_of_two (length leaves);
               sub_tree_height = trailing_zeros next_pow_two;
               sub_tree_leaves = leaves @ replicate (next_pow_two - length leaves) empty_leaf
           in and_then (get_merkle_root_from_full_leaves_circuit H_target leaf_hash sub_tree_height sub_tree_leaves)
                (\<lambda>sub_tree_root.
                  let default_hash = hash_up H sub_tree_height (leaf_hash empty_leaf)
                  in Ok (extend_root H H_target (ht - sub_tree_height) sub_tree_root default_hash)))"

text \<open>In-circuit proof checking: \<open>split_le\<close> is the builder's bit decomposition of the index.\<close>

fun swapped_loop :: "('h \<Rightarrow> 'h \<Rightarrow> 'h) \<Rightarrow> 'h \<Rightarrow> (bool \<times> 'h) list \<Rightarrow> 'h" where
  "swapped_loop H_target state [] = state"
| "swapped_loop H_target state ((swap, s) # rest) =
     swapped_loop H_target (if swap then H_target s state else H_target state s) rest"

definition MerkleProofTarget_get_root ::
  "(nat \<Rightarrow> nat \<Rightarrow> bool list) \<Rightarrow> ('h \<Rightarrow> 'h \<Rightarrow> 'h) \<Rightarrow> ('v \<Rightarrow> 'h) \<Rightarrow> 'h list \<Rightarrow> 'v \<Rightarrow> nat \<Rightarrow> 'h" where
  "MerkleProofTarget_get_root split_le H_target leaf_hash siblings leaf_data index =
     swapped_loop H_target (leaf_hash leaf_data) (zip (split_le index (length siblings)) siblings)"

definition MerkleProofTarget_verify ::
  "(nat \<Rightarrow> nat \<Rightarrow> bool list) \<Rightarrow> ('h \<Rightarrow> 'h \<Rightarrow> 'h) \<Rightarrow> ('v \<Rightarrow> 'h) \<Rightarrow> 'h list \<Rightarrow> 'v \<Rightarrow> nat \<Rightarrow> 'h \<Rightarrow> bool" where
  "MerkleProofTarget_verify split_le H_target leaf_hash siblings leaf_data index merkle_root \<longleftrightarrow>
     MerkleProofTarget_get_root split_le H_target leaf_hash siblings leaf_data index = merkle_root"

definition MerkleProofTarget_conditional_verify ::
  "(nat \<Rightarrow> nat \<Rightarrow> bool list) \<Rightarrow> ('h \<Rightarrow> 'h \<Rightarrow> 'h) \<Rightarrow> ('v \<Rightarrow> 'h) \<Rightarrow> 'h list \<Rightarrow> bool \<Rightarrow> 'v \<Rightarrow> nat \<Rightarrow> 'h \<Rightarrow> bool"
where
  "MerkleProofTarget_conditional_verify split_le H_target leaf_hash siblings condition leaf_data index merkle_root \<longleftrightarrow>
     (condition \<longrightarrow>
        MerkleProofTarget_get_root split_le H_target leaf_hash siblings leaf_data index = merkle_root)"

section \<open>The trees represent their leaves\<close>

lemma tree_rep_cong:
  assumes "tree_rep H f t" and "\<And>i. i < 2 ^ height t \<Longrightarrow> f i = g i"
  shows "tree_rep H g t"
proof -
  have "node H f j v = node H g j v" if "j \<le> height t" "v < 2 ^ (height t - j)" for j v
  proof (rule node_cong)
    fix i
    assume "i div 2 ^ j = v"
    with that have "i < 2 ^ (height t - j) * 2 ^ j"
      by (metis div_less_iff_less_mult zero_less_power zero_less_numeral)
    with that show "f i = g i" by (intro assms(2)) (simp add: power_add [symmetric])
  qed
  with assms(1) show ?thesis by (simp add: tree_rep_def partly_rep_def)
qed

definition sparse_leaf_fun :: "('v \<Rightarrow> 'h) \<Rightarrow> 'v \<Rightarrow> ('h, 'v) SparseMerkleTree \<Rightarrow> nat \<Rightarrow> 'h" where
  "sparse_leaf_fun leaf_hash e t i = leaf_hash (Sparse_get_leaf e t (of_nat i))"

definition sparse_rep :: "('h \<Rightarrow> 'h \<Rightarrow> 'h) \<Rightarrow> ('v \<Rightarrow> 'h) \<Rightarrow> 'v \<Rightarrow> ('h, 'v) SparseMerkleTree \<Rightarrow> bool" where
  "sparse_rep H leaf_hash e t \<longleftrightarrow> tree_rep H (sparse_leaf_fun leaf_hash e t) (s_merkle_tree t)"

abbreviation s_height :: "('h, 'v) SparseMerkleTree \<Rightarrow> nat" where
  "s_height t \<equiv> height (s_merkle_tree t)"

abbreviation i_height :: "('h, 'v) IncrementalMerkleTree \<Rightarrow> nat" where
  "i_height t \<equiv> height (i_merkle_tree t)"

lemma MerkleTree_new_height [simp]: "height (MerkleTree_new H z ht) = ht"
  by (simp add: MerkleTree_new_def)

lemma Sparse_new_rep: "ht \<le> 64 \<Longrightarrow> sparse_rep H leaf_hash e (Sparse_new H leaf_hash e ht)"
  using MerkleTree_new_rep [of ht H "leaf_hash e"]
  by (simp add: sparse_rep_def sparse_leaf_fun_def [abs_def] Sparse_new_def Sparse_get_leaf_def)

lemma Sparse_update_rep:
  assumes "sparse_rep H leaf_hash e t" "unat i < 2 ^ s_height t"
  shows "\<exists>t'. Sparse_update H leaf_hash i leaf t = (Ok t' :: ('e, _) outcome) \<and> s_height t' = s_height t \<and>
    s_leaves t' = (s_leaves t)(i \<mapsto> leaf) \<and> sparse_rep H leaf_hash e t'"
proof -
  from update_leaf_rep [OF assms [unfolded sparse_rep_def], of "leaf_hash leaf"] obtain mt where
    mt: "update_leaf H i (leaf_hash leaf) (s_merkle_tree t) = (Ok mt :: ('e, _) outcome)" "height mt = s_height t"
      "tree_rep H ((sparse_leaf_fun leaf_hash e t)(unat i := leaf_hash leaf)) mt" by blast
  let ?t = "t\<lparr>s_merkle_tree := mt, s_leaves := (s_leaves t)(i \<mapsto> leaf)\<rparr>"
  have "tree_rep H (sparse_leaf_fun leaf_hash e ?t) mt"
  proof (rule tree_rep_cong [OF mt(3)])
    fix k :: nat
    assume "k < 2 ^ height mt"
    then have "k < 18446744073709551616" using tree_rep_height [OF mt(3)] by (rule less_pow64)
    then have "(of_nat k :: u64) = i \<longleftrightarrow> k = unat i" by (auto simp: word_unat_eq_iff)
    then show "((sparse_leaf_fun leaf_hash e t)(unat i := leaf_hash leaf)) k = sparse_leaf_fun leaf_hash e ?t k"
      by (auto simp: sparse_leaf_fun_def Sparse_get_leaf_def)
  qed
  then have "sparse_rep H leaf_hash e ?t" by (simp add: sparse_rep_def)
  with mt show ?thesis by (intro exI [of _ ?t]) (simp add: Sparse_update_def)
qed

lemma Sparse_get_root_rep:
  "sparse_rep H leaf_hash e t \<Longrightarrow>
   Sparse_get_root t = Ok (node H (sparse_leaf_fun leaf_hash e t) (s_height t) 0)"
  by (simp add: sparse_rep_def Sparse_get_root_def MerkleTree_get_root_rep)

lemma Sparse_prove_rep:
  assumes "sparse_rep H leaf_hash e t" "unat i < 2 ^ s_height t"
  shows "Sparse_prove t i = Ok (siblings_of H (sparse_leaf_fun leaf_hash e t) 0 (s_height t) (unat i))"
  using assms by (simp add: Sparse_prove_def sparse_rep_def MerkleTree_prove_rep)

lemma Sparse_update_root:
  assumes "sparse_rep H leaf_hash e t" "unat i < 2 ^ s_height t"
    and "Sparse_update H leaf_hash i leaf t = (Ok t' :: ('e, _) outcome)"
  shows "Sparse_get_root t' = Ok (node H ((sparse_leaf_fun leaf_hash e t)(unat i := leaf_hash leaf)) (s_height t) 0)"
proof -
  from update_leaf_rep [OF assms(1,2) [unfolded sparse_rep_def], of "leaf_hash leaf"] obtain mt where
    "update_leaf H i (leaf_hash leaf) (s_merkle_tree t) = (Ok mt :: ('e, _) outcome)" "height mt = s_height t"
    "tree_rep H ((sparse_leaf_fun leaf_hash e t)(unat i := leaf_hash leaf)) mt" by blast
  with assms(3) show ?thesis
    by (auto simp: Sparse_update_def Sparse_get_root_def MerkleTree_get_root_rep simp del: fun_upd_apply)
qed

lemma Sparse_update_outside:
  "\<not> unat i < 2 ^ s_height t \<Longrightarrow> Sparse_update H leaf_hash i leaf t = Panic"
  by (simp add: Sparse_update_def mt.upd_outside)

lemma Sparse_updates:
  assumes "sparse_rep H leaf_hash e t"
  shows "if list_all (\<lambda>(i, l). unat i < 2 ^ s_height t) ps
    then \<exists>t'. try_fold (\<lambda>t (i, l). Sparse_update H leaf_hash i l t) t ps = (Ok t' :: ('e, _) outcome) \<and>
           s_height t' = s_height t \<and> s_leaves t' = fold (\<lambda>(i, l) m. m(i \<mapsto> l)) ps (s_leaves t) \<and>
           sparse_rep H leaf_hash e t'
    else try_fold (\<lambda>t (i, l). Sparse_update H leaf_hash i l t) t ps = (Panic :: ('e, _) outcome)"
  using assms
proof (induction ps arbitrary: t)
  case (Cons p ps)
  obtain i l where p: "p = (i, l)" by fastforce
  show ?case
  proof (cases "unat i < 2 ^ s_height t")
    case True
    with Sparse_update_rep [OF Cons.prems] obtain t' where
      t': "Sparse_update H leaf_hash i l t = (Ok t' :: ('e, _) outcome)" "s_height t' = s_height t"
      "s_leaves t' = (s_leaves t)(i \<mapsto> l)" "sparse_rep H leaf_hash e t'" by metis
    from Cons.IH [OF t'(4)] show ?thesis
      by (simp add: p t' True cong: if_cong del: fun_upd_apply)
  qed (simp add: p Sparse_update_outside)
qed simp

definition incremental_leaf_fun :: "('v \<Rightarrow> 'h) \<Rightarrow> 'v \<Rightarrow> 'v list \<Rightarrow> nat \<Rightarrow> 'h" where
  "incremental_leaf_fun leaf_hash e ls i = leaf_hash (if i < length ls then ls ! i else e)"

definition incremental_rep ::
  "('h \<Rightarrow> 'h \<Rightarrow> 'h) \<Rightarrow> ('v \<Rightarrow> 'h) \<Rightarrow> 'v \<Rightarrow> ('h, 'v) IncrementalMerkleTree \<Rightarrow> bool" where
  "incremental_rep H leaf_hash e t \<longleftrightarrow>
     tree_rep H (incremental_leaf_fun leaf_hash e (i_leaves t)) (i_merkle_tree t) \<and>
     length (i_leaves t) \<le> 2 ^ i_height t \<and> i_height t < 64"

lemma Incremental_new_rep:
  "ht < 64 \<Longrightarrow> incremental_rep H leaf_hash e (Incremental_new H leaf_hash e ht)"
  using MerkleTree_new_rep [of ht H "leaf_hash e"]
  by (simp add: incremental_rep_def incremental_leaf_fun_def [abs_def] Incremental_new_def)

lemma Incremental_get_root_rep:
  "incremental_rep H leaf_hash e t \<Longrightarrow>
   Incremental_get_root t = Ok (node H (incremental_leaf_fun leaf_hash e (i_leaves t)) (i_height t) 0)"
  by (simp add: incremental_rep_def Incremental_get_root_def MerkleTree_get_root_rep)

lemma unat_exp_u64: "k < 64 \<Longrightarrow> unat (2 ^ k :: u64) = 2 ^ k"
proof -
  assume "k < 64"
  then have "(2 :: nat) ^ k < 2 ^ 64" by (intro power_strict_increasing) auto
  then show ?thesis using unat_of_nat_u64 [of "2 ^ k"] by simp
qed

lemma Incremental_push_rep:
  assumes "incremental_rep H leaf_hash e t"
  shows "if length (i_leaves t) < 2 ^ i_height t
    then \<exists>t'. Incremental_push H leaf_hash leaf t = (Ok t' :: ('e, _) outcome) \<and> i_height t' = i_height t \<and>
           i_leaves t' = i_leaves t @ [leaf] \<and> incremental_rep H leaf_hash e t'
    else Incremental_push H leaf_hash leaf t = (Panic :: ('e, _) outcome)"
proof -
  let ?n = "length (i_leaves t)" and ?i = "of_nat (length (i_leaves t)) :: u64"
  from assms have rep: "tree_rep H (incremental_leaf_fun leaf_hash e (i_leaves t)) (i_merkle_tree t)"
    and len: "?n \<le> 2 ^ i_height t" and ht: "i_height t < 64" by (auto simp: incremental_rep_def)
  have "(2 :: nat) ^ i_height t < 2 ^ 64" using ht by (intro power_strict_increasing) auto
  with len have n: "?n < 18446744073709551616" by simp
  then have guard: "?i < push_bit (i_height t mod 64) 1 \<longleftrightarrow> ?n < 2 ^ i_height t"
    using ht by (simp add: word_less_nat_alt unat_exp_u64)
  show ?thesis
  proof (cases "?n < 2 ^ i_height t")
    case True
    then have "unat ?i < 2 ^ height (i_merkle_tree t)" using n by simp
    from update_leaf_rep [OF rep this, where h = "leaf_hash leaf"] obtain mt where
      mt: "update_leaf H ?i (leaf_hash leaf) (i_merkle_tree t) = (Ok mt :: ('e, _) outcome)" "height mt = i_height t"
      "tree_rep H ((incremental_leaf_fun leaf_hash e (i_leaves t))(?n := leaf_hash leaf)) mt"
      using n by fastforce
    have "(incremental_leaf_fun leaf_hash e (i_leaves t))(?n := leaf_hash leaf) =
        incremental_leaf_fun leaf_hash e (i_leaves t @ [leaf])"
      by (auto simp: incremental_leaf_fun_def nth_append fun_eq_iff)
    with mt True guard ht show ?thesis
      by (simp add: Incremental_push_def incremental_rep_def Let_def)
  qed (use guard in \<open>simp add: Incremental_push_def Let_def\<close>)
qed

lemma Incremental_pushes:
  assumes "incremental_rep H leaf_hash e t"
  shows "if length (i_leaves t) + length ls \<le> 2 ^ i_height t
    then \<exists>t'. try_fold (\<lambda>t l. Incremental_push H leaf_hash l t) t ls = (Ok t' :: ('e, _) outcome) \<and>
           i_height t' = i_height t \<and> i_leaves t' = i_leaves t @ ls \<and> incremental_rep H leaf_hash e t'
    else try_fold (\<lambda>t l. Incremental_push H leaf_hash l t) t ls = (Panic :: ('e, _) outcome)"
  using assms
proof (induction ls arbitrary: t)
  case Nil
  then show ?case by (simp add: incremental_rep_def)
next
  case (Cons l ls)
  show ?case
  proof (cases "length (i_leaves t) < 2 ^ i_height t")
    case True
    with Incremental_push_rep [where 'e = 'e, OF Cons.prems, of l] obtain t' where
      t': "Incremental_push H leaf_hash l t = (Ok t' :: ('e, _) outcome)" "i_height t' = i_height t"
      "i_leaves t' = i_leaves t @ [l]" "incremental_rep H leaf_hash e t'" by auto
    from Cons.IH [OF t'(4)] show ?thesis by (simp add: t' cong: if_cong)
  next
    case False
    then show ?thesis using Incremental_push_rep [where 'e = 'e, OF Cons.prems, of l] by simp
  qed
qed

lemma incremental_leaf_fun_update:
  "i < length ls \<Longrightarrow> (incremental_leaf_fun leaf_hash e ls)(i := leaf_hash l) = incremental_leaf_fun leaf_hash e (ls[i := l])"
  by (auto simp: incremental_leaf_fun_def fun_eq_iff nth_list_update)

lemma incremental_leaf_fun_append:
  "(incremental_leaf_fun leaf_hash e ls)(length ls := leaf_hash l) = incremental_leaf_fun leaf_hash e (ls @ [l])"
  by (auto simp: incremental_leaf_fun_def nth_append fun_eq_iff)

lemma Incremental_update_rep:
  assumes "incremental_rep H leaf_hash e t" "unat i < length (i_leaves t)"
  shows "\<exists>t'. Incremental_update H leaf_hash i leaf t = (Ok t' :: ('e, _) outcome) \<and> i_height t' = i_height t \<and>
    i_leaves t' = (i_leaves t)[unat i := leaf] \<and> incremental_rep H leaf_hash e t'"
proof -
  from assms have rep: "tree_rep H (incremental_leaf_fun leaf_hash e (i_leaves t)) (i_merkle_tree t)"
    and dom: "unat i < 2 ^ i_height t" by (auto simp: incremental_rep_def)
  from update_leaf_rep [OF this, where h = "leaf_hash leaf"] obtain mt where
    "update_leaf H i (leaf_hash leaf) (i_merkle_tree t) = (Ok mt :: ('e, _) outcome)" "height mt = i_height t"
    "tree_rep H ((incremental_leaf_fun leaf_hash e (i_leaves t))(unat i := leaf_hash leaf)) mt" by blast
  then show ?thesis
    using assms by (simp add: Incremental_update_def incremental_rep_def incremental_leaf_fun_update)
qed

lemma Incremental_prove_rep:
  assumes "incremental_rep H leaf_hash e t" "unat i < 2 ^ i_height t"
  shows "Incremental_prove t i =
    Ok (siblings_of H (incremental_leaf_fun leaf_hash e (i_leaves t)) 0 (i_height t) (unat i))"
  using assms by (simp add: Incremental_prove_def incremental_rep_def MerkleTree_prove_rep)

section \<open>Batch roots are the roots of the specification\<close>

lemma layer_step:
  "map (\<lambda>i. H (map (node H f k) [0..<2 * m] ! (2 * i)) (map (node H f k) [0..<2 * m] ! Suc (2 * i))) [0..<m] =
   map (node H f (Suc k)) [0..<m]"
  by auto

lemma one_less_double_pow: "Suc 0 < 2 * 2 ^ n"
  using one_less_power [of "2 :: nat" "Suc n"] by simp

lemma layer_loop_node:
  "layer_loop H (map (node H f k) [0..<2 ^ n]) = Ok (node H f (k + n) 0)"
proof (induction n arbitrary: k)
  case (Suc n)
  have "layer_loop H (map (node H f k) [0..<2 ^ Suc n]) = layer_loop H (map (node H f (Suc k)) [0..<2 ^ n])"
    using layer_step [of H f k "2 ^ n"]
    by (subst layer_loop.simps) (simp add: one_less_double_pow del: upt_Suc node.simps map_eq_conv)
  also have "\<dots> = Ok (node H f (Suc k + n) 0)" by (rule Suc.IH)
  finally show ?case by simp
qed (simp add: layer_loop.simps)

lemma layer_loop_circuit_node:
  "layer_loop_circuit H (map (node H f k) [0..<2 ^ n]) = (Ok (node H f (k + n) 0) :: ('e, _) outcome)"
proof (induction n arbitrary: k)
  case (Suc n)
  have "(layer_loop_circuit H (map (node H f k) [0..<2 ^ Suc n]) :: ('e, _) outcome) =
      layer_loop_circuit H (map (node H f (Suc k)) [0..<2 ^ n])"
    using layer_step [of H f k "2 ^ n"]
    by (subst layer_loop_circuit.simps) (simp add: one_less_double_pow del: upt_Suc node.simps map_eq_conv)
  also have "\<dots> = Ok (node H f (Suc k + n) 0)" by (rule Suc.IH)
  finally show ?case by simp
qed (simp add: layer_loop_circuit.simps)

lemma map_padded_leaves:
  assumes "length ls \<le> N"
  shows "map leaf_hash (ls @ replicate (N - length ls) e) =
    map (node H (incremental_leaf_fun leaf_hash e ls) 0) [0..<N]"
  using assms by (intro nth_equalityI) (auto simp: nth_append incremental_leaf_fun_def)

lemma get_merkle_root_from_leaves_node:
  assumes "ht < 64" "length ls \<le> 2 ^ ht"
  shows "get_merkle_root_from_leaves H leaf_hash e ht ls =
    Ok (node H (incremental_leaf_fun leaf_hash e ls) ht 0)"
proof -
  have "layer_loop H (map leaf_hash (ls @ replicate (2 ^ ht - length ls) e)) =
      Ok (node H (incremental_leaf_fun leaf_hash e ls) ht 0)"
    using layer_loop_node [of H "incremental_leaf_fun leaf_hash e ls" 0 ht]
    by (simp only: map_padded_leaves [OF assms(2), where H = H] add_0)
  moreover have "map leaf_hash (ls @ replicate (2 ^ ht - length ls) e) \<noteq> []"
    using assms(2) by (cases ls) auto
  ultimately show ?thesis
    using assms by (simp add: get_merkle_root_from_leaves_def get_merkle_root_from_full_leaves_def Let_def
        del: map_append)
qed

lemma next_power_of_two_exp:
  "\<exists>k. next_power_of_two n = 2 ^ k \<and> trailing_zeros (2 ^ k) = k \<and> n \<le> 2 ^ k \<and> (\<forall>m. n \<le> 2 ^ m \<longrightarrow> k \<le> m)"
proof (induction n rule: next_power_of_two.induct)
  case (1 n)
  show ?case
  proof (cases "n \<le> 1")
    case True
    then show ?thesis
      by (intro exI [of _ 0]) (auto simp: next_power_of_two.simps trailing_zeros.simps)
  next
    case False
    from 1 [OF False] obtain k where k: "next_power_of_two ((n + 1) div 2) = 2 ^ k"
      "trailing_zeros (2 ^ k) = k" "(n + 1) div 2 \<le> 2 ^ k" "\<And>m. (n + 1) div 2 \<le> 2 ^ m \<Longrightarrow> k \<le> m" by blast
    have "Suc k \<le> m" if "n \<le> 2 ^ m" for m
      using that False k(4) [of "m - 1"] by (cases m) auto
    moreover have "n \<le> 2 ^ Suc k" using k(3) by simp
    moreover have "next_power_of_two n = 2 ^ Suc k"
      using False k(1) by (simp add: next_power_of_two.simps [of n])
    moreover have "trailing_zeros (2 ^ Suc k) = Suc k"
      using k(2) by (simp add: trailing_zeros.simps [of "2 * 2 ^ k"])
    ultimately show ?thesis by blast
  qed
qed

lemma node_outside_const:
  assumes "\<And>i. i div 2 ^ k = v \<Longrightarrow> f i = z"
  shows "node H f k v = hash_up H k z"
proof -
  have "hash_up H (Suc m) z = H (hash_up H m z) (hash_up H m z)" for m z
    by (induction m arbitrary: z) auto
  then have "node H (\<lambda>_. z) k v = hash_up H k z"
    by (induction k arbitrary: v) auto
  with node_cong [of k v f "\<lambda>_. z"] assms show ?thesis by simp
qed

lemma extend_root_node:
  assumes "\<And>i. 2 ^ k \<le> i \<Longrightarrow> f i = z"
  shows "extend_root H H n (node H f k 0) (hash_up H k z) = node H f (k + n) 0"
  using assms
proof (induction n arbitrary: k)
  case (Suc n)
  have "hash_up H (Suc k) z = H (hash_up H k z) (hash_up H k z)"
    by (induction k arbitrary: z) auto
  moreover have "node H f k 1 = hash_up H k z"
  proof (rule node_outside_const)
    fix i :: nat
    assume "i div 2 ^ k = 1"
    then have "2 ^ k \<le> i" by (metis div_less not_less zero_neq_one)
    then show "f i = z" by (rule Suc.prems)
  qed
  moreover have "f i = z" if "2 ^ Suc k \<le> i" for i
    using that Suc.prems [of i] by simp
  ultimately show ?case using Suc.IH [of "Suc k"] by simp
qed simp

lemma swapped_loop_root_of:
  "length bs = length ss \<Longrightarrow>
   swapped_loop H h (zip bs ss) = root_of H (horner_sum of_bool 2 bs) h ss"
  by (induction bs ss arbitrary: h rule: list_induct2) auto

lemma get_merkle_root_from_leaves_circuit_node:
  assumes "ht < 64" "length ls \<le> 2 ^ ht"
  shows "get_merkle_root_from_leaves_circuit H H leaf_hash e ht ls =
    (Ok (node H (incremental_leaf_fun leaf_hash e ls) ht 0) :: ('e, _) outcome)"
proof -
  let ?f = "incremental_leaf_fun leaf_hash e ls"
  obtain k where k: "next_power_of_two (length ls) = 2 ^ k" "trailing_zeros (2 ^ k) = k"
    "length ls \<le> 2 ^ k" "k \<le> ht" using next_power_of_two_exp [of "length ls"] assms(2) by blast
  let ?leaves = "ls @ replicate (2 ^ k - length ls) e"
  have "layer_loop_circuit H (map leaf_hash ?leaves) = (Ok (node H ?f k 0) :: ('e, _) outcome)"
    using layer_loop_circuit_node [of H ?f 0 k]
    by (simp only: map_padded_leaves [OF k(3), where H = H] add_0)
  then have full: "get_merkle_root_from_full_leaves_circuit H leaf_hash k ?leaves =
      (Ok (node H ?f k 0) :: ('e, _) outcome)"
    using k assms(1) by (auto simp: get_merkle_root_from_full_leaves_circuit_def Let_def simp del: map_append)
  have "extend_root H H (ht - k) (node H ?f k 0) (hash_up H k (leaf_hash e)) = node H ?f (k + (ht - k)) 0"
    using k(3) by (intro extend_root_node) (simp add: incremental_leaf_fun_def)
  then show ?thesis
    using assms k full by (simp add: get_merkle_root_from_leaves_circuit_def Let_def)
qed

lemma fold_upd_distinct:
  "distinct (map fst ps) \<Longrightarrow> fold (\<lambda>(i, l) m. m(i \<mapsto> l)) ps m = m ++ map_of ps"
proof (induction ps arbitrary: m)
  case (Cons p ps)
  moreover have "m(fst p \<mapsto> snd p) ++ map_of ps = m ++ map_of (p # ps)"
    using Cons.prems by (cases p) (simp add: map_add_upd_left dom_map_of_conv_image_fst)
  ultimately show ?case by (cases p) (simp del: fun_upd_apply)
qed simp

section \<open>Properties\<close>

text \<open>
The batch root computation, the in-circuit one and the incremental tree agree. For every
height below 64 and at most \<open>2^height\<close> leaves, appending the leaves one by one to a new tree
succeeds and its root is the value returned by \<open>get_merkle_root_from_leaves\<close> and the value the
circuit computes (which hashes only the smallest enclosing sub-tree and extends it with default
hashes); with more leaves the batch computation returns the error and the other two panic.
\<close>

theorem batch_root_matches_incremental:
  assumes "ht < 64"
  shows "if length ls \<le> 2 ^ ht
    then \<exists>t r. Incremental_unpack H leaf_hash e \<lparr>ip_height = ht, ip_leaves = ls\<rparr> = (Ok t :: ('e, _) outcome) \<and>
           Incremental_get_root t = (Ok r :: ('e, _) outcome) \<and>
           get_merkle_root_from_leaves H leaf_hash e ht ls = Ok r \<and>
           get_merkle_root_from_leaves_circuit H H leaf_hash e ht ls = (Ok r :: ('e, _) outcome)
    else get_merkle_root_from_leaves H leaf_hash e ht ls = Err (TooManyLeaves (length ls)) \<and>
         get_merkle_root_from_leaves_circuit H H leaf_hash e ht ls = (Panic :: ('e, _) outcome) \<and>
         Incremental_unpack H leaf_hash e \<lparr>ip_height = ht, ip_leaves = ls\<rparr> = (Panic :: ('e, _) outcome)"
proof -
  have new: "i_height (Incremental_new H leaf_hash e ht) = ht" "i_leaves (Incremental_new H leaf_hash e ht) = []"
    by (simp_all add: Incremental_new_def)
  note pushes = Incremental_pushes [where ls = ls and 'e = 'e,
      OF Incremental_new_rep [where H = H and leaf_hash = leaf_hash and e = e, OF assms]]
  show ?thesis
  proof (cases "length ls \<le> 2 ^ ht")
    case True
    with pushes obtain t where "Incremental_unpack H leaf_hash e \<lparr>ip_height = ht, ip_leaves = ls\<rparr> = (Ok t :: ('e, _) outcome)"
      and "i_height t = ht" "i_leaves t = ls" "incremental_rep H leaf_hash e t"
      by (auto simp: Incremental_unpack_def new)
    then show ?thesis
      using True Incremental_get_root_rep [where 'c = 'e] get_merkle_root_from_leaves_node [OF assms True, of H leaf_hash e]
        get_merkle_root_from_leaves_circuit_node [OF assms True, of H leaf_hash e] by auto
  next
    case False
    then show ?thesis
      using pushes assms by (simp add: Incremental_unpack_def new get_merkle_root_from_leaves_def
          get_merkle_root_from_leaves_circuit_def)
  qed
qed

theorem batch_root_matches_incremental_witness:
  "\<exists>t r. Incremental_unpack (\<lambda>a b. 2 * a + 3 * b) (\<lambda>x. x) (1 :: nat) \<lparr>ip_height = 5, ip_leaves = [4, 5, 6]\<rparr> =
       (Ok t :: (unit, _) outcome) \<and>
     Incremental_get_root t = (Ok r :: (unit, _) outcome) \<and>
     get_merkle_root_from_leaves (\<lambda>a b. 2 * a + 3 * b) (\<lambda>x. x) 1 5 [4, 5, 6] = Ok r"
  using batch_root_matches_incremental [where 'e = unit, of 5 "[4, 5, 6]" "\<lambda>a b. 2 * a + 3 * b" "\<lambda>x. x" "1 :: nat"]
  by auto

text \<open>
Decoding a packed incremental tree never panics. It refuses exactly the packed forms whose
height is 64 or more or which have more leaves than the tree can hold, and on every other one it
returns a tree whose packed form is the input and whose root is the root of those leaves.
\<close>

theorem incremental_deserialize_total:
  "case Incremental_deserialize H leaf_hash e packed of
     Ok t \<Rightarrow> Incremental_pack t = packed \<and> ip_height packed < 64 \<and>
       length (ip_leaves packed) \<le> 2 ^ ip_height packed \<and>
       Incremental_get_root t =
         (Ok (node H (incremental_leaf_fun leaf_hash e (ip_leaves packed)) (ip_height packed) 0) :: ('e, _) outcome)
   | Err err \<Rightarrow> 64 \<le> ip_height packed \<or> 2 ^ ip_height packed < length (ip_leaves packed)
   | Panic \<Rightarrow> False"
proof (cases "ip_height packed < 64 \<and> length (ip_leaves packed) \<le> 2 ^ ip_height packed")
  case True
  let ?new = "Incremental_new H leaf_hash e (ip_height packed)"
  have new: "i_height ?new = ip_height packed" "i_leaves ?new = []" by (simp_all add: Incremental_new_def)
  have "incremental_rep H leaf_hash e ?new" using True by (simp add: Incremental_new_rep)
  from Incremental_pushes [OF this, where ls = "ip_leaves packed" and 'e = DecodeError] True obtain t where
    "Incremental_deserialize H leaf_hash e packed = Ok t" and t: "i_height t = ip_height packed"
    "i_leaves t = ip_leaves packed" and rep: "incremental_rep H leaf_hash e t"
    by (auto simp: Incremental_deserialize_def Incremental_unpack_def new)
  then show ?thesis
    using True Incremental_get_root_rep [OF rep, where 'c = 'e] by (simp add: Incremental_pack_def)
next
  case False
  then show ?thesis by (auto simp: Incremental_deserialize_def)
qed

text \<open>
C40: rebuilding a sparse tree from its packed form. For every height up to 64, \<open>unpack\<close> panics
exactly when some packed index is outside the tree's domain (the decoder checks nothing before
inserting), and unpacking what \<open>pack\<close> produced from a tree that represents its leaves gives a
tree with the same height, leaves and root, for every iteration order of the leaf map.
\<close>

theorem sparse_unpack_behaviour:
  assumes "sp_height packed \<le> 64" and "sparse_rep H leaf_hash e t"
    and "dom (s_leaves t) \<subseteq> {i. unat i < 2 ^ s_height t}"
    and "map_of (iter (s_leaves t)) = s_leaves t" and "distinct (map fst (iter (s_leaves t)))"
  shows "(Sparse_unpack H leaf_hash e packed = (Panic :: ('e, _) outcome) \<longleftrightarrow>
      \<not> list_all (\<lambda>(i, l). unat i < 2 ^ sp_height packed) (sp_leaves packed)) \<and>
    (\<exists>t'. Sparse_unpack H leaf_hash e (Sparse_pack iter t) = (Ok t' :: ('e, _) outcome) \<and>
       s_height t' = s_height t \<and> s_leaves t' = s_leaves t \<and>
       Sparse_get_root t' = (Sparse_get_root t :: ('e, _) outcome))"
proof -
  let ?ps = "iter (s_leaves t)"
  have new: "s_height (Sparse_new H leaf_hash e ht) = ht" "s_leaves (Sparse_new H leaf_hash e ht) = Map.empty" for ht
    by (simp_all add: Sparse_new_def)
  have leaves: "fold (\<lambda>(i, l) m. m(i \<mapsto> l)) ?ps Map.empty = s_leaves t"
    using assms(4,5) by (simp add: fold_upd_distinct)
  have "fst ` set ?ps = dom (s_leaves t)" using assms(4) by (metis dom_map_of_conv_image_fst)
  then have all: "list_all (\<lambda>(i, l). unat i < 2 ^ s_height t) ?ps"
    using assms(3) by (fastforce simp: list_all_iff)
  have ht: "s_height t \<le> 64" using assms(2) tree_rep_height by (auto simp: sparse_rep_def)
  from Sparse_updates [where ps = ?ps and 'e = 'e, OF Sparse_new_rep [OF ht, of H leaf_hash e]] all obtain t' where
    t': "Sparse_unpack H leaf_hash e (Sparse_pack iter t) = (Ok t' :: ('e, _) outcome)"
      "s_height t' = s_height t" "s_leaves t' = s_leaves t" "sparse_rep H leaf_hash e t'"
    by (auto simp: Sparse_unpack_def Sparse_pack_def new leaves)
  have "Sparse_get_root t' = (Sparse_get_root t :: ('e, _) outcome)"
    using Sparse_get_root_rep [where 'c = 'e, OF t'(4)] Sparse_get_root_rep [where 'c = 'e, OF assms(2)] t'
    by (simp add: sparse_leaf_fun_def [abs_def] Sparse_get_leaf_def)
  moreover have "Sparse_unpack H leaf_hash e packed = (Panic :: ('e, _) outcome) \<longleftrightarrow>
      \<not> list_all (\<lambda>(i, l). unat i < 2 ^ sp_height packed) (sp_leaves packed)"
    using Sparse_updates [where ps = "sp_leaves packed" and 'e = 'e,
        OF Sparse_new_rep [OF assms(1), of H leaf_hash e]]
    by (auto simp: Sparse_unpack_def new split: if_splits)
  ultimately show ?thesis using t' by blast
qed

theorem sparse_unpack_behaviour_witness:
  "Sparse_unpack (\<lambda>a b. 2 * a + 3 * b) (\<lambda>x. x) (1 :: nat) \<lparr>sp_height = 2, sp_leaves = [(4, 7)]\<rparr> =
     (Panic :: (unit, _) outcome)"
proof -
  let ?H = "\<lambda>a b :: nat. 2 * a + 3 * b" and ?t = "Sparse_new (\<lambda>a b. 2 * a + 3 * b) (\<lambda>x. x) (1 :: nat) 2"
  have "sparse_rep ?H (\<lambda>x. x) 1 ?t" by (rule Sparse_new_rep) simp
  from sparse_unpack_behaviour [where packed = "\<lparr>sp_height = 2, sp_leaves = [(4, 7)]\<rparr>" and 'e = unit,
      OF _ this, of "\<lambda>_. []"]
  show ?thesis by (simp add: Sparse_new_def)
qed

text \<open>
The in-circuit Merkle check computes the same root as the native one and accepts exactly the
same proofs, for indices in the proof's domain, when the builder's bit decomposition is faithful.
\<close>

theorem merkle_target_matches_native:
  assumes "length ss \<le> 64" and "unat i < 2 ^ length ss"
    and "length (split_le (unat i) (length ss)) = length ss"
    and "horner_sum of_bool 2 (split_le (unat i) (length ss)) = unat i"
  shows "MerkleProof_get_root H leaf_hash ss leaf i =
      (Ok (MerkleProofTarget_get_root split_le H leaf_hash ss leaf (unat i)) :: ('e, _) outcome) \<and>
    (MerkleProofTarget_verify split_le H leaf_hash ss leaf (unat i) root \<longleftrightarrow>
       MerkleProof_verify H leaf_hash ss leaf i root = Ok ()) \<and>
    (MerkleProofTarget_conditional_verify split_le H leaf_hash ss c leaf (unat i) root \<longleftrightarrow>
       \<not> c \<or> MerkleProof_verify H leaf_hash ss leaf i root = Ok ())"
proof -
  have "MerkleProofTarget_get_root split_le H leaf_hash ss leaf (unat i) = root_of H (unat i) (leaf_hash leaf) ss"
    using assms(3,4) by (simp add: MerkleProofTarget_get_root_def swapped_loop_root_of)
  then show ?thesis
    using assms(1,2) by (auto simp: MerkleProof_get_root_root_of MerkleProofTarget_verify_def
        MerkleProofTarget_conditional_verify_def MerkleProof_verify_Ok_iff)
qed

theorem merkle_target_matches_native_witness:
  "MerkleProofTarget_verify (\<lambda>x n. map (\<lambda>k. odd (x div 2 ^ k)) [0..<n]) (\<lambda>a b. 2 * a + 3 * b) (\<lambda>x. x) [4, 6] 5 2 (78 :: nat) \<and>
   MerkleProof_verify (\<lambda>a b. 2 * a + 3 * b) (\<lambda>x. x) [4, 6] 5 2 (78 :: nat) = Ok ()"
proof -
  have bits: "map (\<lambda>k. odd ((2 :: nat) div 2 ^ k)) [0..<2] = [False, True]"
    by (simp add: upt_rec)
  show ?thesis
    using merkle_target_matches_native [where 'e = unit, of "[4, 6]" 2 "\<lambda>x n. map (\<lambda>k. odd (x div 2 ^ k)) [0..<n]"
        "\<lambda>a b. 2 * a + 3 * b" "\<lambda>x. x" "5 :: nat" 78 True] bits
    by (simp add: MerkleProof_verify_Ok_iff)
qed

end
