(* ===== verification/U32limb_Trait.thy ===== *)
theory U32limb_Trait
  imports Prelude
begin

unbundle bit_operations_syntax

text \<open>
  The trait \<open>U32LimbTrait<NUM_LIMBS>\<close> of \<open>src/src/ethereum_types/u32limb_trait.rs\<close>: big-endian
  encodings of a value made of \<open>NUM_LIMBS\<close> 32-bit limbs. The provided methods are definitions
  over the two required ones (\<open>to_u32_vec\<close>, \<open>from_u32_slice\<close>); the contract of the required ones
  is the locale \<open>u32limb\<close>, in which the round trips are proved once for every implementor.
  The hexadecimal methods call the external crate \<open>hex\<close> and are not modelled, nor is \<open>rand\<close>.
\<close>

datatype EthereumTypeError =
    HexParseError string
  | IntegerParseError string
  | ValueTooLarge string
  | InvalidLength string nat
  | InvalidLengthSimple nat
  | OutOfU32Range
  | InvalidHex
  | ConversionError string

section \<open>Big-endian bytes and bits of a 32-bit limb\<close>

definition u32_to_be_bytes :: "u32 \<Rightarrow> u8 list" where
  "u32_to_be_bytes x =
     [ucast (drop_bit 24 x), ucast (drop_bit 16 x), ucast (drop_bit 8 x), ucast x]"

definition u32_from_be_bytes :: "u8 list \<Rightarrow> u32" where
  "u32_from_be_bytes c =
     push_bit 24 (ucast (c ! 0)) OR push_bit 16 (ucast (c ! 1)) OR
     push_bit 8 (ucast (c ! 2)) OR ucast (c ! 3)"

definition u32_to_bits_be :: "u32 \<Rightarrow> bool list" where
  "u32_to_bits_be x = map (\<lambda>i. (x AND push_bit i 1) \<noteq> 0) (rev [0..<32])"

definition bits_be_to_u32 :: "bool list \<Rightarrow> u32" where
  "bits_be_to_u32 vec =
     foldl (\<lambda>result (i, bit). if bit then result OR push_bit (31 - i) 1 else result) 0
       (enumerate 0 vec)"

section \<open>Provided methods of the trait\<close>

definition to_u64_vec :: "('a \<Rightarrow> u32 list) \<Rightarrow> 'a \<Rightarrow> u64 list" where
  "to_u64_vec to_u32_vec x = map ucast (to_u32_vec x)"

definition range_check_u32 :: "u64 \<Rightarrow> (EthereumTypeError, u32) outcome" where
  "range_check_u32 x = (if x > 0xFFFFFFFF then Err OutOfU32Range else Ok (ucast x))"

definition from_u64_slice ::
  "(u32 list \<Rightarrow> (EthereumTypeError, 'a) outcome) \<Rightarrow> u64 list \<Rightarrow> (EthereumTypeError, 'a) outcome" where
  "from_u64_slice from_u32_slice input =
     and_then (try_map range_check_u32 input) from_u32_slice"

definition limb_zero ::
  "nat \<Rightarrow> (u32 list \<Rightarrow> (EthereumTypeError, 'a) outcome) \<Rightarrow> ('e, 'a) outcome" where
  "limb_zero num_limbs from_u32_slice = unwrap (from_u32_slice (replicate num_limbs 0))"

definition limb_one ::
  "nat \<Rightarrow> (u32 list \<Rightarrow> (EthereumTypeError, 'a) outcome) \<Rightarrow> ('e, 'a) outcome" where
  "limb_one num_limbs from_u32_slice =
     unwrap (from_u32_slice ((replicate num_limbs 0)[num_limbs - 1 := 1]))"

definition from_bytes_be ::
  "nat \<Rightarrow> (u32 list \<Rightarrow> (EthereumTypeError, 'a) outcome) \<Rightarrow> u8 list \<Rightarrow> (EthereumTypeError, 'a) outcome"
where
  "from_bytes_be num_limbs from_u32_slice bytes =
     (if length bytes > 4 * num_limbs then Err (InvalidLengthSimple (length bytes))
      else let padded_bytes = replicate (4 * num_limbs - length bytes) 0 @ bytes;
               limbs = map u32_from_be_bytes (chunks 4 padded_bytes)
           in from_u32_slice limbs)"

definition to_bytes_be :: "('a \<Rightarrow> u32 list) \<Rightarrow> 'a \<Rightarrow> u8 list" where
  "to_bytes_be to_u32_vec x = concat (map u32_to_be_bytes (to_u32_vec x))"

definition to_bits_be :: "('a \<Rightarrow> u32 list) \<Rightarrow> 'a \<Rightarrow> bool list" where
  "to_bits_be to_u32_vec x = concat (map u32_to_bits_be (to_u32_vec x))"

definition from_bits_be ::
  "nat \<Rightarrow> (u32 list \<Rightarrow> (EthereumTypeError, 'a) outcome) \<Rightarrow> bool list \<Rightarrow> (EthereumTypeError, 'a) outcome"
where
  "from_bits_be num_limbs from_u32_slice bits =
     (if length bits > 32 * num_limbs then Err (InvalidLengthSimple (length bits))
      else let padded_bits = replicate (32 * num_limbs - length bits) False @ bits;
               limbs = map bits_be_to_u32 (chunks 32 padded_bits)
           in from_u32_slice limbs)"

section \<open>Limb codecs are inverse\<close>

lemma length_u32_to_be_bytes [simp]: "length (u32_to_be_bytes x) = 4"
  by (simp add: u32_to_be_bytes_def)

lemma length_u32_to_bits_be [simp]: "length (u32_to_bits_be x) = 32"
  by (simp add: u32_to_bits_be_def)

lemma u32_from_to_be_bytes [simp]: "u32_from_be_bytes (u32_to_be_bytes x) = x"
proof (rule bit_word_eqI)
  fix n
  assume "n < LENGTH(32)"
  then consider "n < 8" | "8 \<le> n" "n < 16" | "16 \<le> n" "n < 24" | "24 \<le> n" "n < 32"
    by fastforce
  then show "bit (u32_from_be_bytes (u32_to_be_bytes x)) n = bit x n"
    by cases (auto simp: u32_from_be_bytes_def u32_to_be_bytes_def bit_simps)
qed

lemma u32_to_from_be_bytes:
  "length c = 4 \<Longrightarrow> u32_to_be_bytes (u32_from_be_bytes c) = c"
proof -
  assume "length c = 4"
  then obtain c0 c1 c2 c3 where c: "c = [c0, c1, c2, c3]"
    by (auto simp: length_Suc_conv numeral_eq_Suc)
  show ?thesis
    unfolding u32_from_be_bytes_def u32_to_be_bytes_def c
    by (auto intro!: bit_word_eqI simp: bit_simps) (auto dest!: bit_imp_le_length)
qed

lemma bit_bits_be_fold:
  fixes r :: u32
  assumes "k + length vec \<le> 32"
  shows "bit (foldl (\<lambda>result (i, bit). if bit then result OR push_bit (31 - i) 1 else result) r
      (enumerate k vec)) n \<longleftrightarrow> bit r n \<or> (\<exists>i < length vec. vec ! i \<and> n + (k + i) = 31)"
  using assms
proof (induction vec arbitrary: k r)
  case Nil
  then show ?case by simp
next
  case (Cons b vec)
  define r' where "r' = (if b then r OR push_bit (31 - k) 1 else r)"
  from Cons.prems have "k \<le> 31" by simp
  then have r': "bit r' n \<longleftrightarrow> bit r n \<or> b \<and> n + k = 31"
    by (auto simp: r'_def bit_simps)
  have ex: "(\<exists>i < Suc m. P i) \<longleftrightarrow> P 0 \<or> (\<exists>i < m. P (Suc i))" for m and P :: "nat \<Rightarrow> bool"
    using less_Suc_eq_0_disj by auto
  have "bit (foldl (\<lambda>result (i, bit). if bit then result OR push_bit (31 - i) 1 else result) r'
      (enumerate (Suc k) vec)) n \<longleftrightarrow> bit r' n \<or> (\<exists>i < length vec. vec ! i \<and> n + (Suc k + i) = 31)"
    using Cons.prems by (intro Cons.IH) simp
  then show ?case
    unfolding r' by (simp only: enumerate_simps foldl_Cons prod.case r'_def [symmetric] list.size(4)
        add_0_right add_Suc_right add_Suc ex nth_Cons_0 nth_Cons_Suc disj_assoc)
qed

lemma bit_bits_be_to_u32:
  "length vec \<le> 32 \<Longrightarrow> bit (bits_be_to_u32 vec) n \<longleftrightarrow> (\<exists>i < length vec. vec ! i \<and> n + i = 31)"
  unfolding bits_be_to_u32_def by (subst bit_bits_be_fold) auto

lemma nth_u32_to_bits_be:
  "i < 32 \<Longrightarrow> u32_to_bits_be x ! i \<longleftrightarrow> bit x (31 - i)"
  by (simp add: u32_to_bits_be_def rev_nth and_exp_eq_0_iff_not_bit push_bit_of_1)

lemma u32_from_to_bits_be [simp]: "bits_be_to_u32 (u32_to_bits_be x) = x"
proof (rule bit_word_eqI)
  fix n
  assume n: "n < LENGTH(32)"
  then have "bit (bits_be_to_u32 (u32_to_bits_be x)) n \<longleftrightarrow>
      (\<exists>i < 32. bit x (31 - i) \<and> n + i = 31)"
    by (auto simp: bit_bits_be_to_u32 nth_u32_to_bits_be)
  also have "\<dots> \<longleftrightarrow> bit x n"
  proof
    assume "bit x n"
    with n show "\<exists>i < 32. bit x (31 - i) \<and> n + i = 31" by (intro exI [of _ "31 - n"]) auto
  next
    assume "\<exists>i < 32. bit x (31 - i) \<and> n + i = 31"
    then obtain i where "bit x (31 - i)" "n + i = 31" by blast
    then show "bit x n" by (metis add_diff_cancel_right')
  qed
  finally show "bit (bits_be_to_u32 (u32_to_bits_be x)) n = bit x n" .
qed

lemma u32_to_from_bits_be:
  "length vec = 32 \<Longrightarrow> u32_to_bits_be (bits_be_to_u32 vec) = vec"
proof (rule nth_equalityI)
  fix i
  assume "length vec = 32" and i: "i < length (u32_to_bits_be (bits_be_to_u32 vec))"
  moreover from i have "31 - i + j = 31 \<longleftrightarrow> j = i" for j by auto
  ultimately show "u32_to_bits_be (bits_be_to_u32 vec) ! i = vec ! i"
    by (simp add: nth_u32_to_bits_be bit_bits_be_to_u32)
qed simp

section \<open>Contract of an implementor\<close>

locale u32limb =
  fixes num_limbs :: nat
    and to_limbs :: "'a \<Rightarrow> u32 list"
    and from_limbs :: "u32 list \<Rightarrow> (EthereumTypeError, 'a) outcome"
  assumes num_limbs_pos: "0 < num_limbs"
    and length_to: "length (to_limbs x) = num_limbs"
    and from_to: "from_limbs (to_limbs x) = Ok x"
    and from_okD: "from_limbs l = Ok x \<Longrightarrow> to_limbs x = l"
    and from_total: "length l = num_limbs \<Longrightarrow> \<exists>x. from_limbs l = Ok x"
    and from_err: "length l \<noteq> num_limbs \<Longrightarrow> from_limbs l = Err (InvalidLengthSimple (length l))"
begin

lemma to_inj: "to_limbs x = to_limbs y \<longleftrightarrow> x = y"
  using from_to by (metis outcome.inject(1))

lemma from_ok_iff: "from_limbs l = Ok x \<longleftrightarrow> to_limbs x = l"
  using from_okD from_to by auto

lemma from_never_panics: "from_limbs l \<noteq> Panic"
  using from_total [of l] from_err [of l] by (cases "length l = num_limbs") auto

lemma zero_ok: "\<exists>x. limb_zero num_limbs from_limbs = Ok x \<and> to_limbs x = replicate num_limbs 0"
  using from_total [of "replicate num_limbs 0"] by (auto simp: limb_zero_def dest: from_okD)

lemma one_ok:
  "\<exists>x. limb_one num_limbs from_limbs = Ok x \<and> to_limbs x = replicate (num_limbs - 1) 0 @ [1]"
proof -
  have eq: "(replicate num_limbs 0)[num_limbs - 1 := 1] = replicate (num_limbs - 1) 0 @ [1 :: u32]"
    using num_limbs_pos
    by (intro nth_equalityI) (auto simp: nth_append nth_list_update)
  from num_limbs_pos have "length (replicate (num_limbs - 1) (0 :: u32) @ [1]) = num_limbs" by simp
  from from_total [OF this] show ?thesis
    by (auto simp: limb_one_def eq [simplified] dest: from_okD)
qed

lemma from_to_u64: "from_u64_slice from_limbs (to_u64_vec to_limbs x) = Ok x"
proof -
  have "range_check_u32 (ucast l) = Ok l" for l
    using unat_lt_u32 [of l] by (simp add: range_check_u32_def word_less_nat_alt)
  then have "try_map range_check_u32 (map ucast (to_limbs x)) = Ok (to_limbs x)"
    by (simp add: try_map_Ok_iff list_all2_conv_all_nth)
  then show ?thesis
    by (simp add: from_u64_slice_def to_u64_vec_def from_to)
qed

lemma from_u64_slice_okD:
  assumes "from_u64_slice from_limbs l = Ok x"
  shows "l = to_u64_vec to_limbs x"
proof -
  from assms obtain ls where ls: "try_map range_check_u32 l = Ok ls" and x: "from_limbs ls = Ok x"
    by (auto simp: from_u64_slice_def)
  have "range_check_u32 y = Ok z \<Longrightarrow> y = ucast z" for y z
  proof -
    assume "range_check_u32 y = Ok z"
    then have le: "unat y < 2 ^ 32" and z: "z = ucast y"
      by (auto simp: range_check_u32_def word_le_nat_alt not_less split: if_splits)
    show "y = ucast z"
      using le by (simp add: word_unat_eq_iff z unat_ucast_mod [where 'b = 32])
  qed
  with ls have "l = map ucast ls"
    by (auto simp: try_map_Ok_iff list_all2_conv_all_nth intro!: nth_equalityI)
  with from_okD [OF x] show ?thesis by (simp add: to_u64_vec_def)
qed

lemma from_u64_ok_iff: "from_u64_slice from_limbs l = Ok x \<longleftrightarrow> l = to_u64_vec to_limbs x"
  using from_u64_slice_okD from_to_u64 by blast

lemma from_u64_never_panics: "from_u64_slice from_limbs l \<noteq> Panic"
proof -
  have "try_map range_check_u32 l \<noteq> Panic"
    by (induction l) (auto simp: range_check_u32_def and_then_Panic_iff split: if_splits)
  then show ?thesis by (simp add: from_u64_slice_def and_then_Panic_iff from_never_panics)
qed

lemma length_u64: "length (to_u64_vec to_limbs x) = num_limbs"
  by (simp add: to_u64_vec_def length_to)

lemma to_u64_inj: "to_u64_vec to_limbs x = to_u64_vec to_limbs y \<longleftrightarrow> x = y"
  using from_u64_ok_iff by (metis outcome.inject(1))

lemma to_u64_small: "w \<in> set (to_u64_vec to_limbs x) \<Longrightarrow> unat w < 4294967296"
  using unat_lt_u32 by (auto simp: to_u64_vec_def)

lemma length_bytes: "length (to_bytes_be to_limbs x) = 4 * num_limbs"
  by (simp add: to_bytes_be_def length_concat comp_def sum_list_triv length_to)

lemma length_bits: "length (to_bits_be to_limbs x) = 32 * num_limbs"
  by (simp add: to_bits_be_def length_concat comp_def sum_list_triv length_to)

lemma from_to_bytes: "from_bytes_be num_limbs from_limbs (to_bytes_be to_limbs x) = Ok x"
proof -
  have "map u32_from_be_bytes (chunks 4 (concat (map u32_to_be_bytes (to_limbs x)))) = to_limbs x"
    by (subst chunks_concat) (auto simp: comp_def)
  then show ?thesis
    by (simp add: from_bytes_be_def length_bytes) (simp add: to_bytes_be_def from_to)
qed

lemma from_to_bits: "from_bits_be num_limbs from_limbs (to_bits_be to_limbs x) = Ok x"
proof -
  have "map bits_be_to_u32 (chunks 32 (concat (map u32_to_bits_be (to_limbs x)))) = to_limbs x"
    by (subst chunks_concat) (auto simp: comp_def)
  then show ?thesis
    by (simp add: from_bits_be_def length_bits) (simp add: to_bits_be_def from_to)
qed

lemma from_bytes_total:
  assumes "length bytes \<le> 4 * num_limbs"
  shows "\<exists>x. from_bytes_be num_limbs from_limbs bytes = Ok x"
proof -
  have "length (chunks 4 (replicate (4 * num_limbs - length bytes) 0 @ bytes)) = num_limbs"
    using assms by (intro length_chunks_exact) simp_all
  then show ?thesis
    using assms from_total by (simp add: from_bytes_be_def)
qed

lemma from_bytes_ok_iff:
  "from_bytes_be num_limbs from_limbs bytes = Ok x \<longleftrightarrow>
     length bytes \<le> 4 * num_limbs \<and>
     to_bytes_be to_limbs x = replicate (4 * num_limbs - length bytes) 0 @ bytes"
  (is "?l \<longleftrightarrow> ?r")
proof
  assume l: ?l
  define p where "p = replicate (4 * num_limbs - length bytes) 0 @ bytes"
  from l have len: "length bytes \<le> 4 * num_limbs"
    by (auto simp: from_bytes_be_def split: if_splits)
  with l have "to_limbs x = map u32_from_be_bytes (chunks 4 p)"
    by (auto simp: from_bytes_be_def p_def dest: from_okD)
  moreover have "map (\<lambda>c. u32_to_be_bytes (u32_from_be_bytes c)) (chunks 4 p) = chunks 4 p"
  proof (rule map_idI)
    fix c
    assume "c \<in> set (chunks 4 p)"
    moreover have "length p = 4 * num_limbs" using len by (simp add: p_def)
    ultimately show "u32_to_be_bytes (u32_from_be_bytes c) = c"
      by (intro u32_to_from_be_bytes length_in_chunks_exact [of 4 p num_limbs c]) simp_all
  qed
  ultimately have "to_bytes_be to_limbs x = p"
    by (simp add: to_bytes_be_def comp_def concat_chunks)
  with len show ?r by (simp add: p_def)
next
  assume r: ?r
  have "from_bytes_be num_limbs from_limbs bytes = from_bytes_be num_limbs from_limbs (to_bytes_be to_limbs x)"
    using r by (simp add: from_bytes_be_def length_bytes)
  then show ?l by (simp add: from_to_bytes)
qed

end

end
