(* ===== verification/Eth_Types.thy ===== *)
theory Eth_Types
  imports U32limb_Trait
begin

text \<open>
  The fixed-width types of \<open>src/src/ethereum_types\<close>: \<open>U256\<close>, \<open>Bytes32\<close>, \<open>Bytes16\<close>, \<open>Address\<close> and
  \<open>U64\<close>, each an array of 32-bit limbs in big-endian order. Every array is a datatype with one
  field per limb, so no length side condition is needed; each type interprets the locale
  \<open>u32limb\<close>. The arithmetic of \<open>U256\<close> (limb loop with carry, and with signed borrow) is proved
  equal to arithmetic on the number the limbs denote, and the derived order agrees with it.
\<close>

unbundle bit_operations_syntax

section \<open>The limb arrays\<close>

datatype U256 = U256 u32 u32 u32 u32 u32 u32 u32 u32

fun U256_to_u32_vec :: "U256 \<Rightarrow> u32 list" where
  "U256_to_u32_vec (U256 a b c d e f g h) = [a, b, c, d, e, f, g, h]"

definition U256_from_u32_slice :: "u32 list \<Rightarrow> (EthereumTypeError, U256) outcome" where
  "U256_from_u32_slice limbs =
     (if length limbs \<noteq> 8 then Err (InvalidLengthSimple (length limbs))
      else Ok (U256 (limbs ! 0) (limbs ! 1) (limbs ! 2) (limbs ! 3)
                    (limbs ! 4) (limbs ! 5) (limbs ! 6) (limbs ! 7)))"

datatype Bytes32 = Bytes32 u32 u32 u32 u32 u32 u32 u32 u32

fun Bytes32_to_u32_vec :: "Bytes32 \<Rightarrow> u32 list" where
  "Bytes32_to_u32_vec (Bytes32 a b c d e f g h) = [a, b, c, d, e, f, g, h]"

definition Bytes32_from_u32_slice :: "u32 list \<Rightarrow> (EthereumTypeError, Bytes32) outcome" where
  "Bytes32_from_u32_slice limbs =
     (if length limbs \<noteq> 8 then Err (InvalidLengthSimple (length limbs))
      else Ok (Bytes32 (limbs ! 0) (limbs ! 1) (limbs ! 2) (limbs ! 3)
                       (limbs ! 4) (limbs ! 5) (limbs ! 6) (limbs ! 7)))"

datatype Bytes16 = Bytes16 u32 u32 u32 u32

fun Bytes16_to_u32_vec :: "Bytes16 \<Rightarrow> u32 list" where
  "Bytes16_to_u32_vec (Bytes16 a b c d) = [a, b, c, d]"

definition Bytes16_from_u32_slice :: "u32 list \<Rightarrow> (EthereumTypeError, Bytes16) outcome" where
  "Bytes16_from_u32_slice limbs =
     (if length limbs \<noteq> 4 then Err (InvalidLengthSimple (length limbs))
      else Ok (Bytes16 (limbs ! 0) (limbs ! 1) (limbs ! 2) (limbs ! 3)))"

datatype Address = Address u32 u32 u32 u32 u32

fun Address_to_u32_vec :: "Address \<Rightarrow> u32 list" where
  "Address_to_u32_vec (Address a b c d e) = [a, b, c, d, e]"

definition Address_from_u32_slice :: "u32 list \<Rightarrow> (EthereumTypeError, Address) outcome" where
  "Address_from_u32_slice limbs =
     (if length limbs \<noteq> 5 then Err (InvalidLengthSimple (length limbs))
      else Ok (Address (limbs ! 0) (limbs ! 1) (limbs ! 2) (limbs ! 3) (limbs ! 4)))"

datatype U64 = U64 u32 u32

fun U64_to_u32_vec :: "U64 \<Rightarrow> u32 list" where
  "U64_to_u32_vec (U64 hi lo) = [hi, lo]"

definition U64_from_u32_slice :: "u32 list \<Rightarrow> (EthereumTypeError, U64) outcome" where
  "U64_from_u32_slice limbs =
     (if length limbs \<noteq> 2 then Err (InvalidLengthSimple (length limbs))
      else Ok (U64 (limbs ! 0) (limbs ! 1)))"

lemmas from_u32_slice_defs =
  U256_from_u32_slice_def Bytes32_from_u32_slice_def Bytes16_from_u32_slice_def
  Address_from_u32_slice_def U64_from_u32_slice_def

lemma list2_nth: "length l = 2 \<Longrightarrow> [l ! 0, l ! Suc 0] = l"
  by (auto simp: numeral_eq_Suc length_Suc_conv)

lemma list4_nth: "length l = 4 \<Longrightarrow> [l ! 0, l ! Suc 0, l ! 2, l ! 3] = l"
  by (auto simp: numeral_eq_Suc length_Suc_conv)

lemma list5_nth: "length l = 5 \<Longrightarrow> [l ! 0, l ! Suc 0, l ! 2, l ! 3, l ! 4] = l"
  by (auto simp: numeral_eq_Suc length_Suc_conv)

lemma list8_nth:
  "length l = 8 \<Longrightarrow> [l ! 0, l ! Suc 0, l ! 2, l ! 3, l ! 4, l ! 5, l ! 6, l ! 7] = l"
  by (auto simp: numeral_eq_Suc length_Suc_conv)

interpretation u256: u32limb 8 U256_to_u32_vec U256_from_u32_slice
proof unfold_locales
  show "length (U256_to_u32_vec x) = 8" for x by (cases x) simp
  show "U256_from_u32_slice (U256_to_u32_vec x) = Ok x" for x
    by (cases x) (simp add: U256_from_u32_slice_def)
  show "U256_from_u32_slice l = Ok x \<Longrightarrow> U256_to_u32_vec x = l" for l x
    by (auto simp: U256_from_u32_slice_def list8_nth split: if_splits)
qed (simp_all add: U256_from_u32_slice_def)

interpretation bytes32: u32limb 8 Bytes32_to_u32_vec Bytes32_from_u32_slice
proof unfold_locales
  show "length (Bytes32_to_u32_vec x) = 8" for x by (cases x) simp
  show "Bytes32_from_u32_slice (Bytes32_to_u32_vec x) = Ok x" for x
    by (cases x) (simp add: Bytes32_from_u32_slice_def)
  show "Bytes32_from_u32_slice l = Ok x \<Longrightarrow> Bytes32_to_u32_vec x = l" for l x
    by (auto simp: Bytes32_from_u32_slice_def list8_nth split: if_splits)
qed (simp_all add: Bytes32_from_u32_slice_def)

interpretation bytes16: u32limb 4 Bytes16_to_u32_vec Bytes16_from_u32_slice
proof unfold_locales
  show "length (Bytes16_to_u32_vec x) = 4" for x by (cases x) simp
  show "Bytes16_from_u32_slice (Bytes16_to_u32_vec x) = Ok x" for x
    by (cases x) (simp add: Bytes16_from_u32_slice_def)
  show "Bytes16_from_u32_slice l = Ok x \<Longrightarrow> Bytes16_to_u32_vec x = l" for l x
    by (auto simp: Bytes16_from_u32_slice_def list4_nth split: if_splits)
qed (simp_all add: Bytes16_from_u32_slice_def)

interpretation address: u32limb 5 Address_to_u32_vec Address_from_u32_slice
proof unfold_locales
  show "length (Address_to_u32_vec x) = 5" for x by (cases x) simp
  show "Address_from_u32_slice (Address_to_u32_vec x) = Ok x" for x
    by (cases x) (simp add: Address_from_u32_slice_def)
  show "Address_from_u32_slice l = Ok x \<Longrightarrow> Address_to_u32_vec x = l" for l x
    by (auto simp: Address_from_u32_slice_def list5_nth split: if_splits)
qed (simp_all add: Address_from_u32_slice_def)

interpretation u64limb: u32limb 2 U64_to_u32_vec U64_from_u32_slice
proof unfold_locales
  show "length (U64_to_u32_vec x) = 2" for x by (cases x) simp
  show "U64_from_u32_slice (U64_to_u32_vec x) = Ok x" for x
    by (cases x) (simp add: U64_from_u32_slice_def)
  show "U64_from_u32_slice l = Ok x \<Longrightarrow> U64_to_u32_vec x = l" for l x
    by (auto simp: U64_from_u32_slice_def list2_nth split: if_splits)
qed (simp_all add: U64_from_u32_slice_def)

lemmas limb_u64_lengths [simp] =
  u256.length_u64 bytes32.length_u64 bytes16.length_u64 address.length_u64 u64limb.length_u64

lemmas limb_lengths [simp] =
  u256.length_to bytes32.length_to bytes16.length_to address.length_to u64limb.length_to

section \<open>Conversions between the types\<close>

definition U256_default :: U256 where
  "U256_default = U256 0 0 0 0 0 0 0 0"

definition Bytes32_default :: Bytes32 where
  "Bytes32_default = Bytes32 0 0 0 0 0 0 0 0"

definition Address_default :: Address where
  "Address_default = Address 0 0 0 0 0"

definition U256_from_u32 :: "u32 \<Rightarrow> U256" where
  "U256_from_u32 value = U256 0 0 0 0 0 0 0 value"

definition U256_from_u64 :: "u64 \<Rightarrow> U256" where
  "U256_from_u64 value = U256 0 0 0 0 0 0 (ucast (drop_bit 32 value)) (ucast value)"

definition Bytes32_from_U256 :: "U256 \<Rightarrow> ('e, Bytes32) outcome" where
  "Bytes32_from_U256 value = unwrap (Bytes32_from_u32_slice (U256_to_u32_vec value))"

definition U256_from_Bytes32 :: "Bytes32 \<Rightarrow> ('e, U256) outcome" where
  "U256_from_Bytes32 value = unwrap (U256_from_u32_slice (Bytes32_to_u32_vec value))"

definition remove_3bits :: "Bytes32 \<Rightarrow> ('e, Bytes32) outcome" where
  "remove_3bits b = (let limbs = Bytes32_to_u32_vec b in
     unwrap (Bytes32_from_u32_slice (limbs[0 := (limbs ! 0) AND (push_bit 29 1 - 1)])))"

definition U64_from_u64 :: "u64 \<Rightarrow> U64" where
  "U64_from_u64 value = U64 (ucast (drop_bit 32 value)) (ucast value)"

fun u64_from_U64 :: "U64 \<Rightarrow> u64" where
  "u64_from_U64 (U64 hi lo) = push_bit 32 (ucast hi) OR ucast lo"

section \<open>Arithmetic of U256\<close>

text \<open>
  The loops of \<open>Add\<close> and \<open>Sub\<close> run over the reversed limb arrays, least significant first, and
  push the resulting limbs. \<open>Sub\<close> works in \<open>i64\<close>: a 64-bit word read as two's complement, whose
  arithmetic shift is \<open>signed_drop_bit\<close> and whose cast through \<open>i32\<close> is a signed extension.
\<close>

fun add_limbs :: "u64 \<Rightarrow> (u32 \<times> u32) list \<Rightarrow> u32 list \<times> u64" where
  "add_limbs carry [] = ([], carry)"
| "add_limbs carry ((a, b) # ps) =
     (let c = carry + ucast a + ucast b;
          result = ucast c;
          (result_limbs, carry') = add_limbs (drop_bit 32 c) ps
      in (result # result_limbs, carry'))"

definition U256_add :: "U256 \<Rightarrow> U256 \<Rightarrow> ('e, U256) outcome" where
  "U256_add lhs rhs =
     (let (result_limbs, carry) =
            add_limbs 0 (zip (rev (U256_to_u32_vec lhs)) (rev (U256_to_u32_vec rhs)))
      in if carry \<noteq> 0 then Panic else unwrap (U256_from_u32_slice (rev result_limbs)))"

fun sub_limbs :: "u64 \<Rightarrow> (u32 \<times> u32) list \<Rightarrow> u32 list \<times> u64" where
  "sub_limbs borrow [] = ([], borrow)"
| "sub_limbs borrow ((a, b) # ps) =
     (let c = ucast a - ucast b + borrow;
          result = ucast c;
          (result_limbs, borrow') = sub_limbs (scast (ucast (signed_drop_bit 32 c) :: u32)) ps
      in (result # result_limbs, borrow'))"

definition U256_sub :: "U256 \<Rightarrow> U256 \<Rightarrow> ('e, U256) outcome" where
  "U256_sub lhs rhs =
     (let (result_limbs, borrow) =
            sub_limbs 0 (zip (rev (U256_to_u32_vec lhs)) (rev (U256_to_u32_vec rhs)))
      in if borrow \<noteq> 0 then Panic else unwrap (U256_from_u32_slice (rev result_limbs)))"

definition U64_add :: "U64 \<Rightarrow> U64 \<Rightarrow> ('e, U64) outcome" where
  "U64_add lhs rhs = (case checked_add (u64_from_U64 lhs) (u64_from_U64 rhs) of
     None \<Rightarrow> Panic | Some c \<Rightarrow> Ok (U64_from_u64 c))"

definition U64_sub :: "U64 \<Rightarrow> U64 \<Rightarrow> ('e, U64) outcome" where
  "U64_sub lhs rhs = (case checked_sub (u64_from_U64 lhs) (u64_from_U64 rhs) of
     None \<Rightarrow> Panic | Some c \<Rightarrow> Ok (U64_from_u64 c))"

section \<open>Order\<close>

datatype Ordering = Less | Equal | Greater

text \<open>\<open>Iterator::cmp\<close>: the first difference decides, a proper prefix is smaller.\<close>

fun iter_cmp :: "'a::linorder list \<Rightarrow> 'a list \<Rightarrow> Ordering" where
  "iter_cmp [] [] = Equal"
| "iter_cmp [] (y # ys) = Less"
| "iter_cmp (x # xs) [] = Greater"
| "iter_cmp (x # xs) (y # ys) =
     (if x < y then Less else if y < x then Greater else iter_cmp xs ys)"

definition U256_cmp :: "U256 \<Rightarrow> U256 \<Rightarrow> Ordering" where
  "U256_cmp a b = iter_cmp (U256_to_u32_vec a) (U256_to_u32_vec b)"

definition U64_cmp :: "U64 \<Rightarrow> U64 \<Rightarrow> Ordering" where
  "U64_cmp a b = iter_cmp (U64_to_u32_vec a) (U64_to_u32_vec b)"

section \<open>The number an array denotes\<close>

fun limbs_val_le :: "u32 list \<Rightarrow> nat" where
  "limbs_val_le [] = 0"
| "limbs_val_le (x # xs) = unat x + 2 ^ 32 * limbs_val_le xs"

definition limbs_val_be :: "u32 list \<Rightarrow> nat" where
  "limbs_val_be xs = limbs_val_le (rev xs)"

definition U256_val :: "U256 \<Rightarrow> nat" where
  "U256_val x = limbs_val_be (U256_to_u32_vec x)"

lemma limbs_val_le_append:
  "limbs_val_le (xs @ ys) = limbs_val_le xs + 2 ^ (32 * length xs) * limbs_val_le ys"
  by (induction xs) (simp_all add: algebra_simps power_add)

lemma limbs_val_le_bound: "limbs_val_le xs < 2 ^ (32 * length xs)"
proof (induction xs)
  case (Cons x xs)
  have "limbs_val_le (x # xs) < 2 ^ 32 * Suc (limbs_val_le xs)"
    using unat_lt_u32 [of x] by simp
  also have "\<dots> \<le> 2 ^ 32 * 2 ^ (32 * length xs)"
    using Cons.IH by (intro mult_le_mono2) simp
  finally show ?case by (simp add: power_add)
qed simp

lemma limbs_val_le_inject:
  "length xs = length ys \<Longrightarrow> limbs_val_le xs = limbs_val_le ys \<longleftrightarrow> xs = ys"
proof (induction xs ys rule: list_induct2)
  case (Cons x xs y ys)
  have "limbs_val_le (x # xs) = limbs_val_le (y # ys) \<longleftrightarrow>
      unat x = unat y \<and> limbs_val_le xs = limbs_val_le ys"
    using unat_lt_u32 [of x] unat_lt_u32 [of y] by (simp add: add_mult_inject)
  then show ?case using Cons.IH by (simp add: word_unat_eq_iff)
qed simp

lemma limbs_val_be_Cons:
  "limbs_val_be (x # xs) = unat x * 2 ^ (32 * length xs) + limbs_val_be xs"
  by (simp add: limbs_val_be_def limbs_val_le_append)

lemma limbs_val_be_bound: "limbs_val_be xs < 2 ^ (32 * length xs)"
  using limbs_val_le_bound [of "rev xs"] by (simp add: limbs_val_be_def)

lemma U256_val_bound: "U256_val x < 2 ^ 256"
  using limbs_val_be_bound [of "U256_to_u32_vec x"] by (simp add: U256_val_def)

lemma U256_val_inject [simp]: "U256_val x = U256_val y \<longleftrightarrow> x = y"
  by (simp add: U256_val_def limbs_val_be_def limbs_val_le_inject u256.to_inj)

lemma U256_from_u32_slice_ok_val:
  "length rs = 8 \<Longrightarrow> \<exists>x. U256_from_u32_slice (rev rs) = Ok x \<and> U256_val x = limbs_val_le rs"
  using u256.from_total [of "rev rs"] u256.from_okD [of "rev rs"]
  by (fastforce simp: U256_val_def limbs_val_be_def)

lemma iter_cmp_val:
  "length xs = length ys \<Longrightarrow>
   iter_cmp xs ys = (if limbs_val_be xs < limbs_val_be ys then Less
                     else if limbs_val_be ys < limbs_val_be xs then Greater else Equal)"
proof (induction xs ys rule: list_induct2)
  case (Cons x xs y ys)
  let ?B = "2 ^ (32 * length ys) :: nat"
  have b: "limbs_val_be xs < ?B" "limbs_val_be ys < ?B"
    using limbs_val_be_bound [of xs] limbs_val_be_bound [of ys] Cons.hyps by simp_all
  have lt: "unat u * ?B + p < unat v * ?B + q" if "u < v" "p < ?B" for u v :: u32 and p q
  proof -
    from that have "Suc (unat u) * ?B \<le> unat v * ?B" by (intro mult_le_mono1) (simp add: word_less_nat_alt)
    with that show ?thesis by simp
  qed
  show ?case
    using lt [of x y, OF _ b(1)] lt [of y x, OF _ b(2)] Cons.IH
    by (cases x y rule: linorder_cases) (auto simp: limbs_val_be_Cons Cons.hyps dest: less_asym)
qed simp

lemma U256_cmp_val:
  "U256_cmp a b = (if U256_val a < U256_val b then Less
                   else if U256_val b < U256_val a then Greater else Equal)"
  by (simp add: U256_cmp_def U256_val_def iter_cmp_val)

instantiation U256 :: linorder
begin

definition less_eq_U256 :: "U256 \<Rightarrow> U256 \<Rightarrow> bool" where
  "less_eq_U256 a b \<longleftrightarrow> U256_cmp a b \<noteq> Greater"

definition less_U256 :: "U256 \<Rightarrow> U256 \<Rightarrow> bool" where
  "less_U256 a b \<longleftrightarrow> U256_cmp a b = Less"

instance
  by standard (auto simp: less_eq_U256_def less_U256_def U256_cmp_val split: if_splits)

end

lemma U256_le_val: "a \<le> b \<longleftrightarrow> U256_val a \<le> U256_val b"
  by (auto simp: less_eq_U256_def U256_cmp_val)

lemma U256_less_val: "a < b \<longleftrightarrow> U256_val a < U256_val b"
  by (simp add: less_U256_def U256_cmp_val)

section \<open>The limb loops compute sum and difference\<close>

lemma add_limbs_spec:
  assumes "unat carry \<le> 1" and "add_limbs carry ps = (rs, carry')"
  shows "length rs = length ps \<and> unat carry' \<le> 1 \<and>
    limbs_val_le rs + 2 ^ (32 * length ps) * unat carry' =
      limbs_val_le (map fst ps) + limbs_val_le (map snd ps) + unat carry"
  using assms
proof (induction ps arbitrary: carry rs)
  case Nil
  then show ?case by simp
next
  case (Cons p ps)
  obtain a b where p: "p = (a, b)" by fastforce
  define c :: u64 where "c = carry + ucast a + ucast b"
  obtain rs' where rec: "add_limbs (drop_bit 32 c) ps = (rs', carry')" and rs: "rs = ucast c # rs'"
    using Cons.prems(2) by (auto simp: p c_def Let_def split: prod.splits)
  have c: "unat c = unat carry + unat a + unat b"
    using unat_lt_u32 [of a] unat_lt_u32 [of b] Cons.prems(1)
    by (simp add: c_def unat_word_ariths)
  have d: "unat (drop_bit 32 c) = unat c div 2 ^ 32"
    by (rule unat_drop_bit)
  have "unat c < 2 * 2 ^ 32"
    using unat_lt_u32 [of a] unat_lt_u32 [of b] Cons.prems(1) c by simp
  then have "unat (drop_bit 32 c) \<le> 1" by (simp add: d)
  note IH = Cons.IH [OF this rec]
  have "unat c = unat (ucast c :: u32) + 2 ^ 32 * unat (drop_bit 32 c)"
    by (simp add: d unat_ucast_mod)
  with IH c show ?case
    by (simp add: rs p power_add algebra_simps)
qed

lemma U256_add_spec:
  "U256_add a b = (c_outcome :: ('e, U256) outcome) \<longleftrightarrow>
     (case c_outcome of
        Ok c \<Rightarrow> U256_val c = U256_val a + U256_val b
      | Err e \<Rightarrow> False
      | Panic \<Rightarrow> 2 ^ 256 \<le> U256_val a + U256_val b)"
proof -
  let ?ps = "zip (rev (U256_to_u32_vec a)) (rev (U256_to_u32_vec b))"
  obtain rs carry where run: "add_limbs 0 ?ps = (rs, carry)" by fastforce
  from add_limbs_spec [OF _ run] have len: "length rs = 8" and le: "unat carry \<le> 1"
    and val: "limbs_val_le rs + 2 ^ 256 * unat carry = U256_val a + U256_val b"
    by (simp_all add: U256_val_def limbs_val_be_def)
  from U256_from_u32_slice_ok_val [OF len] obtain x
    where x: "U256_from_u32_slice (rev rs) = Ok x" "U256_val x = limbs_val_le rs" by blast
  have res: "(U256_add a b :: ('e, U256) outcome) = (if carry \<noteq> 0 then Panic else Ok x)"
    by (simp add: U256_add_def run x)
  show ?thesis
  proof (cases "carry = 0")
    case True
    with val x(2) have "U256_val x = U256_val a + U256_val b" by simp
    moreover from this have "\<not> 2 ^ 256 \<le> U256_val a + U256_val b"
      using U256_val_bound [of x] by linarith
    ultimately show ?thesis
      using True res by (auto split: outcome.splits simp: U256_val_inject [symmetric] simp del: U256_val_inject)
  next
    case False
    then have "unat carry = 1" using le by (simp add: unat_eq_0 le_Suc_eq)
    with val have "2 ^ 256 \<le> U256_val a + U256_val b" by simp
    moreover from this have "U256_val c \<noteq> U256_val a + U256_val b" for c
      using U256_val_bound [of c] by linarith
    ultimately show ?thesis
      using False res by (auto split: outcome.splits)
  qed
qed

lemma ucast_minus_1: "ucast (- 1 :: u64) = (- 1 :: u32)"
  by (rule bit_word_eqI) (simp add: bit_simps)

lemma sub_limb_step:
  fixes a b :: u32 and borrow :: u64
  assumes "borrow = 0 \<or> borrow = - 1"
  defines "c \<equiv> ucast a - ucast b + borrow"
  defines "borrow' \<equiv> scast (ucast (signed_drop_bit 32 c) :: u32) :: u64"
  shows "borrow' = 0 \<or> borrow' = - 1"
    and "uint (ucast c :: u32) + 2 ^ 32 * sint borrow' = uint a - uint b + sint borrow"
proof -
  define i where "i = uint a - uint b + sint borrow"
  have ab: "0 \<le> uint a" "uint a < 2 ^ 32" "0 \<le> uint b" "uint b < 2 ^ 32"
    using uint_lt2p [of a] uint_lt2p [of b] by simp_all
  moreover have "sint borrow = 0 \<or> sint borrow = - 1"
    using assms(1) by auto
  ultimately have r: "- (2 ^ 32) \<le> i" "i < 2 ^ 32"
    unfolding i_def by linarith+
  have c: "c = word_of_int i"
    using assms(1) by (auto simp: c_def i_def unsigned_ucast_eq)
  have "sint c = i"
    using r by (simp add: c int_word_sint)
  then have d: "sint (signed_drop_bit 32 c) = i div 2 ^ 32"
    by (simp add: sint_signed_drop_bit_eq drop_bit_eq_div)
  have lo: "uint (ucast c :: u32) = i mod 2 ^ 32"
    by (simp add: c unsigned_ucast_eq uint_word_of_int take_bit_eq_mod mod_mod_cancel)
  have "i div 2 ^ 32 = 0 \<or> i div 2 ^ 32 = - 1"
    using r by auto
  then have "signed_drop_bit 32 c = 0 \<or> signed_drop_bit 32 c = - 1"
    using d by (metis signed_0 sint_n1 signed_word_eqI)
  then have b': "borrow' = 0 \<and> i div 2 ^ 32 = 0 \<or> borrow' = - 1 \<and> i div 2 ^ 32 = - 1"
    using d by (auto simp: borrow'_def ucast_minus_1)
  then show "borrow' = 0 \<or> borrow' = - 1" by blast
  from b' have "sint borrow' = i div 2 ^ 32" by auto
  then show "uint (ucast c :: u32) + 2 ^ 32 * sint borrow' = uint a - uint b + sint borrow"
    by (simp add: lo i_def [symmetric])
qed

lemma sub_limbs_spec:
  assumes "borrow = 0 \<or> borrow = - 1" and "sub_limbs borrow ps = (rs, borrow')"
  shows "length rs = length ps \<and> (borrow' = 0 \<or> borrow' = - 1) \<and>
    int (limbs_val_le rs) + 2 ^ (32 * length ps) * sint borrow' =
      int (limbs_val_le (map fst ps)) - int (limbs_val_le (map snd ps)) + sint borrow"
  using assms
proof (induction ps arbitrary: borrow rs)
  case Nil
  then show ?case by simp
next
  case (Cons p ps)
  obtain a b where p: "p = (a, b)" by fastforce
  define c :: u64 where "c = ucast a - ucast b + borrow"
  define d :: u64 where "d = scast (ucast (signed_drop_bit 32 c) :: u32)"
  obtain rs' where rec: "sub_limbs d ps = (rs', borrow')" and rs: "rs = ucast c # rs'"
    using Cons.prems(2) by (auto simp: p c_def d_def Let_def split: prod.splits)
  note step = sub_limb_step [OF Cons.prems(1), of a b, folded c_def, folded d_def]
  note IH = Cons.IH [OF step(1) rec]
  from step(2) IH show ?case
    by (simp add: rs p power_add algebra_simps)
qed

lemma U256_sub_spec:
  "U256_sub a b = (c_outcome :: ('e, U256) outcome) \<longleftrightarrow>
     (case c_outcome of
        Ok c \<Rightarrow> U256_val a = U256_val b + U256_val c
      | Err e \<Rightarrow> False
      | Panic \<Rightarrow> U256_val a < U256_val b)"
proof -
  let ?ps = "zip (rev (U256_to_u32_vec a)) (rev (U256_to_u32_vec b))"
  obtain rs borrow where run: "sub_limbs 0 ?ps = (rs, borrow)" by fastforce
  from sub_limbs_spec [OF _ run] have len: "length rs = 8" and b: "borrow = 0 \<or> borrow = - 1"
    and val: "int (limbs_val_le rs) + 2 ^ 256 * sint borrow = int (U256_val a) - int (U256_val b)"
    by (simp_all add: U256_val_def limbs_val_be_def)
  from U256_from_u32_slice_ok_val [OF len] obtain x
    where x: "U256_from_u32_slice (rev rs) = Ok x" "U256_val x = limbs_val_le rs" by blast
  have res: "(U256_sub a b :: ('e, U256) outcome) = (if borrow \<noteq> 0 then Panic else Ok x)"
    by (simp add: U256_sub_def run x)
  show ?thesis
  proof (cases "borrow = 0")
    case True
    with val x(2) have "U256_val a = U256_val b + U256_val x" by simp
    then show ?thesis
      using True res by (auto split: outcome.splits)
  next
    case False
    with b have "sint borrow = - 1" by simp
    moreover have "int (limbs_val_le rs) < 2 ^ 256"
      using U256_val_bound [of x] by (simp add: x(2))
    ultimately have "U256_val a < U256_val b" using val by simp
    then show ?thesis
      using False res by (auto split: outcome.splits)
  qed
qed

lemma U256_add_Ok_iff [simp]: "U256_add a b = Ok c \<longleftrightarrow> U256_val c = U256_val a + U256_val b"
  by (simp add: U256_add_spec)

lemma U256_sub_Ok_iff [simp]: "U256_sub a b = Ok c \<longleftrightarrow> U256_val a = U256_val b + U256_val c"
  by (simp add: U256_sub_spec)

lemma U256_add_Panic_iff: "U256_add a b = Panic \<longleftrightarrow> 2 ^ 256 \<le> U256_val a + U256_val b"
  by (simp add: U256_add_spec)

lemma U256_sub_Panic_iff: "U256_sub a b = Panic \<longleftrightarrow> U256_val a < U256_val b"
  by (simp add: U256_sub_spec)

lemma U256_add_ok: "U256_val a + U256_val b < 2 ^ 256 \<Longrightarrow> \<exists>c. U256_add a b = Ok c"
  using U256_add_spec [of a b "U256_add a b :: (unit, U256) outcome"]
  by (auto split: outcome.splits)

lemma U256_sub_ok: "b \<le> a \<Longrightarrow> \<exists>c. U256_sub a b = Ok c"
  using U256_sub_spec [of a b "U256_sub a b :: (unit, U256) outcome"]
  by (auto simp: U256_le_val split: outcome.splits)

section \<open>Conversions are faithful\<close>

lemma U256_val_default [simp]: "U256_val U256_default = 0"
  by (simp add: U256_val_def U256_default_def limbs_val_be_def)

lemma U256_val_from_u32: "U256_val (U256_from_u32 v) = unat v"
  by (simp add: U256_val_def U256_from_u32_def limbs_val_be_def)

lemma U256_val_from_u64: "U256_val (U256_from_u64 v) = unat v"
proof -
  have "unat v div 4294967296 < 4294967296"
    using unat_lt_u64 [of v] by (simp add: less_mult_imp_div_less)
  then show ?thesis
    by (simp add: U256_val_def U256_from_u64_def limbs_val_be_def unat_ucast_mod unat_drop_bit)
qed

lemma u64_U64_round [simp]: "u64_from_U64 (U64_from_u64 v) = v"
proof (rule bit_word_eqI)
  fix n
  assume "n < LENGTH(64)"
  then show "bit (u64_from_U64 (U64_from_u64 v)) n = bit v n"
    by (cases "n < 32") (auto simp: U64_from_u64_def bit_simps)
qed

lemma U64_u64_round [simp]: "U64_from_u64 (u64_from_U64 x) = x"
proof (cases x)
  case (U64 hi lo)
  have "ucast (drop_bit 32 (push_bit 32 (ucast hi) OR ucast lo :: u64)) = hi"
    by (rule bit_word_eqI) (auto simp: bit_simps dest: bit_imp_le_length)
  moreover have "ucast (push_bit 32 (ucast hi) OR ucast lo :: u64) = lo"
    by (rule bit_word_eqI) (auto simp: bit_simps)
  ultimately show ?thesis by (simp add: U64 U64_from_u64_def)
qed

section \<open>Properties\<close>

text \<open>
Adding two 256-bit amounts with the limb-and-carry loop returns the amount that denotes the
exact sum when it fits in 256 bits and panics otherwise; it never wraps silently and never
returns an error.
\<close>

theorem U256_add_correct:
  "(U256_add a b = (Ok c :: ('e, U256) outcome) \<longleftrightarrow> U256_val c = U256_val a + U256_val b) \<and>
   (U256_add a b = (Panic :: ('e, U256) outcome) \<longleftrightarrow> 2 ^ 256 \<le> U256_val a + U256_val b) \<and>
   U256_add a b \<noteq> (Err e :: ('e, U256) outcome)"
  by (simp add: U256_add_spec)

text \<open>
Subtracting with the signed-borrow loop returns the exact difference when it is not negative
and panics otherwise; it never wraps below zero.
\<close>

theorem U256_sub_correct:
  "(U256_sub a b = (Ok c :: ('e, U256) outcome) \<longleftrightarrow> U256_val a = U256_val b + U256_val c) \<and>
   (U256_sub a b = (Panic :: ('e, U256) outcome) \<longleftrightarrow> U256_val a < U256_val b) \<and>
   U256_sub a b \<noteq> (Err e :: ('e, U256) outcome)"
  by (simp add: U256_sub_spec)

text \<open>
The lexicographic comparison of big-endian limbs is the comparison of the numbers they
denote, and distinct limb arrays denote distinct numbers below \<open>2^256\<close>.
\<close>

theorem U256_cmp_correct:
  "(U256_cmp a b = Less \<longleftrightarrow> U256_val a < U256_val b) \<and>
   (U256_cmp a b = Equal \<longleftrightarrow> a = b) \<and>
   (U256_cmp a b = Greater \<longleftrightarrow> U256_val b < U256_val a) \<and> U256_val a < 2 ^ 256"
  using U256_val_bound [of a] U256_val_inject [of a b] by (auto simp: U256_cmp_val simp del: U256_val_inject)

text \<open>
The big-endian byte, bit and word encodings of a 32-byte value are inverted by their decoders,
and the byte decoder accepts precisely the byte strings of at most 32 bytes, reading a shorter one
as if it were padded with zero bytes on the left.
\<close>

theorem Bytes32_encodings:
  "from_bits_be 8 Bytes32_from_u32_slice (to_bits_be Bytes32_to_u32_vec x) = Ok x \<and>
   from_u64_slice Bytes32_from_u32_slice (to_u64_vec Bytes32_to_u32_vec x) = Ok x \<and>
   (from_bytes_be 8 Bytes32_from_u32_slice bytes = Ok x \<longleftrightarrow>
      length bytes \<le> 32 \<and>
      to_bytes_be Bytes32_to_u32_vec x = replicate (32 - length bytes) 0 @ bytes)"
  using bytes32.from_bytes_ok_iff [of bytes x]
  by (simp add: bytes32.from_to_bits bytes32.from_to_u64)

end
