(* ===== verification/Common_Ids.thy ===== *)
theory Common_Ids
  imports Eth_Types
begin

text \<open>
  Identifiers and counters of \<open>src/src/common\<close>: the 63-bit integer \<open>U63\<close> (block numbers) of
  \<open>u63.rs\<close> and the \<open>ChannelId\<close> of \<open>channel_id.rs\<close>. Both are newtypes whose constructors check a
  range; the lemmas show that their decoders accept exactly the encodings of valid values.
  The payload text of a \<open>ChannelIdError\<close> is dropped, its variant is kept.
\<close>

unbundle bit_operations_syntax

section \<open>U63\<close>

datatype U63Error =
    ValueOverflow u64
  | InvalidHigh u32 nat
  | InvalidU32SliceLength nat nat
  | InvalidU64SliceLength nat nat

datatype U63 = U63 (as_u64: u64)

type_synonym BlockNumber = U63

abbreviation U63_MAX_VALUE :: u64 where
  "U63_MAX_VALUE \<equiv> push_bit 63 1 - 1"

abbreviation U63_HIGH_MAX :: u64 where
  "U63_HIGH_MAX \<equiv> push_bit 31 1 - 1"

definition U63_new :: "u64 \<Rightarrow> (U63Error, U63) outcome" where
  "U63_new value = (if value > U63_MAX_VALUE then Err (ValueOverflow value) else Ok (U63 value))"

definition U63_from_parts :: "u32 \<Rightarrow> u32 \<Rightarrow> (U63Error, U63) outcome" where
  "U63_from_parts high low =
     (if (ucast high :: u64) > U63_HIGH_MAX then Err (InvalidHigh high 31)
      else U63_new (push_bit 32 (ucast high) OR ucast low))"

definition U63_high :: "U63 \<Rightarrow> u32" where
  "U63_high x = ucast (drop_bit 32 (as_u64 x) AND U63_HIGH_MAX)"

definition U63_low :: "U63 \<Rightarrow> u32" where
  "U63_low x = ucast (as_u64 x AND (push_bit 32 1 - 1))"

definition U63_to_u32_vec :: "U63 \<Rightarrow> u32 list" where
  "U63_to_u32_vec x = [U63_high x, U63_low x]"

definition U63_to_u64_vec :: "U63 \<Rightarrow> u64 list" where
  "U63_to_u64_vec x = [as_u64 x]"

definition U63_from_u32_slice :: "u32 list \<Rightarrow> (U63Error, U63) outcome" where
  "U63_from_u32_slice limbs =
     (if length limbs \<noteq> 2 then Err (InvalidU32SliceLength (length limbs) 2)
      else U63_from_parts (limbs ! 0) (limbs ! 1))"

definition U63_from_u64_slice :: "u64 list \<Rightarrow> (U63Error, U63) outcome" where
  "U63_from_u64_slice limbs =
     (if length limbs \<noteq> 1 then Err (InvalidU64SliceLength (length limbs) 1)
      else U63_new (limbs ! 0))"

definition U63_add :: "U63 \<Rightarrow> u64 \<Rightarrow> (U63Error, U63) outcome" where
  "U63_add x n =
     and_then (ok_or (ValueOverflow (as_u64 x)) (checked_add (as_u64 x) n)) U63_new"

instantiation U63 :: linorder
begin

definition less_eq_U63 :: "U63 \<Rightarrow> U63 \<Rightarrow> bool" where
  "less_eq_U63 a b \<longleftrightarrow> as_u64 a \<le> as_u64 b"

definition less_U63 :: "U63 \<Rightarrow> U63 \<Rightarrow> bool" where
  "less_U63 a b \<longleftrightarrow> as_u64 a < as_u64 b"

instance
  by standard (auto simp: less_eq_U63_def less_U63_def intro: U63.expand)

end

text \<open>The comparison gadget \<open>U63Target::compare\<close> folds over the two little-endian bit lists.\<close>

fun compare_bits :: "bool \<Rightarrow> (bool \<times> bool) list \<Rightarrow> bool" where
  "compare_bits acc [] = acc"
| "compare_bits acc ((a, b) # ps) = compare_bits (if a = b then acc else a) ps"

text \<open>
  \<open>builder.split_le\<close> (plonky2) is the parameter \<open>split_le\<close>: the little-endian bits the circuit
  constrains for a target and a width. Targets are the field values they carry.
\<close>

definition U63Target_compare ::
  "(nat \<Rightarrow> nat \<Rightarrow> bool list) \<Rightarrow> nat \<Rightarrow> nat \<Rightarrow> bool \<Rightarrow> bool" where
  "U63Target_compare split_le lhs rhs strict =
     compare_bits (\<not> strict) (zip (split_le lhs 63) (split_le rhs 63))"

definition U63Target_enforce_ge :: "(nat \<Rightarrow> nat \<Rightarrow> bool list) \<Rightarrow> nat \<Rightarrow> nat \<Rightarrow> bool" where
  "U63Target_enforce_ge split_le this lower = U63Target_compare split_le this lower False"

definition U63Target_enforce_gt :: "(nat \<Rightarrow> nat \<Rightarrow> bool list) \<Rightarrow> nat \<Rightarrow> nat \<Rightarrow> bool" where
  "U63Target_enforce_gt split_le this lower = U63Target_compare split_le this lower True"

definition U63Target_conditional_compare ::
  "(nat \<Rightarrow> nat \<Rightarrow> bool list) \<Rightarrow> nat \<Rightarrow> nat \<Rightarrow> bool \<Rightarrow> bool \<Rightarrow> bool" where
  "U63Target_conditional_compare split_le this lower condition strict =
     (let lhs = (if condition then this else 0);
          rhs = (if condition then lower else 0);
          comparison = U63Target_compare split_le lhs rhs strict
      in \<not> condition \<or> comparison)"

section \<open>ChannelId\<close>

datatype ChannelIdError = InvalidChannelId | InvalidValue

datatype ChannelId = ChannelId (channel_id_of: u32)

definition validate_components :: "u32 \<Rightarrow> (ChannelIdError, unit) outcome" where
  "validate_components channel_id = (if channel_id = 0 then Err InvalidChannelId else Ok ())"

definition ChannelId_new :: "u64 \<Rightarrow> (ChannelIdError, ChannelId) outcome" where
  "ChannelId_new value =
     (if value > 0xFFFFFFFF then Err InvalidValue
      else and_then (validate_components (ucast value)) (\<lambda>_. Ok (ChannelId (ucast value))))"

definition ChannelId_dummy :: ChannelId where
  "ChannelId_dummy = ChannelId 0"

definition ChannelId_as_u64 :: "ChannelId \<Rightarrow> u64" where
  "ChannelId_as_u64 c = ucast (channel_id_of c)"

definition ChannelId_as_bytes :: "ChannelId \<Rightarrow> u8 list" where
  "ChannelId_as_bytes c = u32_to_be_bytes (channel_id_of c)"

definition ChannelId_from_bytes :: "u8 list \<Rightarrow> (ChannelIdError, ChannelId) outcome" where
  "ChannelId_from_bytes bytes =
     (let channel_id = u32_from_be_bytes bytes in
      and_then (validate_components channel_id) (\<lambda>_. Ok (ChannelId channel_id)))"

definition ChannelId_to_u32_vec :: "ChannelId \<Rightarrow> u32 list" where
  "ChannelId_to_u32_vec c = [channel_id_of c]"

definition ChannelId_to_u64_vec :: "ChannelId \<Rightarrow> u64 list" where
  "ChannelId_to_u64_vec c = [ucast (channel_id_of c)]"

definition ChannelId_from_u64_slice :: "u64 list \<Rightarrow> (ChannelIdError, ChannelId) outcome" where
  "ChannelId_from_u64_slice values =
     (if length values \<noteq> 1 then Err InvalidValue else ChannelId_new (values ! 0))"

section \<open>Facts on U63\<close>

text \<open>A \<open>U63\<close> built by any constructor of the module is at most \<open>2^63 - 1\<close>.\<close>

definition U63_valid :: "U63 \<Rightarrow> bool" where
  "U63_valid x \<longleftrightarrow> as_u64 x \<le> U63_MAX_VALUE"

lemma U63_new_Ok_iff: "U63_new v = Ok x \<longleftrightarrow> x = U63 v \<and> U63_valid x"
  by (auto simp: U63_new_def U63_valid_def)

lemma U63_MAX_VALUE_mask: "U63_MAX_VALUE = mask 63"
  by (simp add: mask_eq_exp_minus_1)

lemma U63_HIGH_MAX_mask: "U63_HIGH_MAX = mask 31"
  by (simp add: mask_eq_exp_minus_1)

lemma unat_U63_MAX_VALUE: "unat U63_MAX_VALUE = 9223372036854775807"
  by simp

lemma unat_U63_HIGH_MAX: "unat U63_HIGH_MAX = 2147483647"
  by simp

lemma U63_valid_unat: "U63_valid x \<longleftrightarrow> unat (as_u64 x) < 9223372036854775808"
  unfolding U63_valid_def word_le_nat_alt unat_U63_MAX_VALUE by arith

lemma unat_U63_high: "U63_valid x \<Longrightarrow> unat (U63_high x) = unat (as_u64 x) div 4294967296"
  unfolding U63_high_def U63_HIGH_MAX_mask
  by (simp add: unat_and_mask unat_ucast_mod unat_drop_bit
      U63_valid_unat mod_mod_cancel)

lemma unat_U63_low: "unat (U63_low x) = unat (as_u64 x) mod 4294967296"
  using unat_and_mask [of "as_u64 x" 32]
  by (simp add: U63_low_def mask_eq_exp_minus_1 unat_ucast_mod)

lemma U63_from_parts_Ok_iff:
  "U63_from_parts high low = Ok x \<longleftrightarrow> U63_valid x \<and> U63_to_u32_vec x = [high, low]"
proof -
  have "unat high \<le> 2147483647 \<longleftrightarrow> 4294967296 * unat high + unat low < 9223372036854775808"
    using unat_lt_u32 [of low] by linarith
  then have valid: "U63_from_parts high low = Ok x \<longleftrightarrow>
      U63_valid x \<and> x = U63 (push_bit 32 (ucast high) OR ucast low)"
    by (auto simp: U63_from_parts_def U63_new_Ok_iff U63_valid_unat unat_U63_HIGH_MAX
        word_less_nat_alt join_u32_add unat_join_u32)
  have "U63_to_u32_vec x = [high, low] \<longleftrightarrow> x = U63 (push_bit 32 (ucast high) OR ucast low)"
    if "U63_valid x"
  proof -
    have "U63_to_u32_vec x = [high, low] \<longleftrightarrow>
        unat (as_u64 x) div 4294967296 = unat high \<and> unat (as_u64 x) mod 4294967296 = unat low"
      by (simp add: U63_to_u32_vec_def word_unat_eq_iff unat_U63_high [OF that] unat_U63_low)
    also have "\<dots> \<longleftrightarrow> unat (as_u64 x) = 4294967296 * unat high + unat low"
      by (rule div_mod_eq_iff [OF unat_lt_u32])
    also have "\<dots> \<longleftrightarrow> x = U63 (push_bit 32 (ucast high) OR ucast low)"
      by (cases x) (simp add: word_unat_eq_iff join_u32_add unat_join_u32)
    finally show ?thesis .
  qed
  with valid show ?thesis by blast
qed

lemma U63_from_u32_slice_Ok_iff:
  "U63_from_u32_slice l = Ok x \<longleftrightarrow> U63_valid x \<and> U63_to_u32_vec x = l"
  by (auto simp: U63_from_u32_slice_def U63_from_parts_Ok_iff list2_nth [simplified] U63_to_u32_vec_def)

lemma U63_from_u64_slice_Ok_iff:
  "U63_from_u64_slice l = Ok x \<longleftrightarrow> U63_valid x \<and> U63_to_u64_vec x = l"
  by (cases l) (auto simp: U63_from_u64_slice_def U63_new_Ok_iff U63_to_u64_vec_def)

lemma U63_add_Ok_iff:
  "U63_add x n = Ok y \<longleftrightarrow> U63_valid y \<and> unat (as_u64 y) = unat (as_u64 x) + unat n"
proof -
  have "U63_add x n = Ok y \<longleftrightarrow> (\<exists>c. checked_add (as_u64 x) n = Some c \<and> y = U63 c \<and> U63_valid y)"
    by (simp add: U63_add_def U63_new_Ok_iff)
  then show ?thesis
    using unat_lt_u64 [of "as_u64 y"]
    by (cases y) (auto simp: checked_add_def word_unat_eq_iff unat_word_ariths intro: sym)
qed

lemma compare_bits_le:
  "length as = length bs \<Longrightarrow>
   compare_bits g (zip as bs) \<longleftrightarrow>
     (if horner_sum of_bool 2 as = (horner_sum of_bool 2 bs :: nat) then g
      else horner_sum of_bool 2 bs < (horner_sum of_bool 2 as :: nat))"
proof (induction as bs arbitrary: g rule: list_induct2)
  case (Cons a as b bs)
  show ?case
    by (cases a; cases b) (auto simp: Cons.IH)
qed simp

lemma U63Target_compare_iff:
  assumes "\<And>x. x < 2 ^ 63 \<Longrightarrow> length (split_le x 63) = 63 \<and> horner_sum of_bool 2 (split_le x 63) = x"
    and "x < 2 ^ 63" and "y < 2 ^ 63"
  shows "U63Target_compare split_le x y strict \<longleftrightarrow> (if strict then y < x else y \<le> x)"
  using assms(1) [OF assms(2)] assms(1) [OF assms(3)]
  by (auto simp: U63Target_compare_def compare_bits_le)

section \<open>Facts on ChannelId\<close>

lemma ChannelId_new_Ok_iff:
  "ChannelId_new v = Ok c \<longleftrightarrow> channel_id_of c \<noteq> 0 \<and> v = ChannelId_as_u64 c"
proof -
  have "v \<le> 0xFFFFFFFF \<and> channel_id_of c = ucast v \<longleftrightarrow> v = ChannelId_as_u64 c"
    using unat_lt_u32 [of "channel_id_of c"]
    by (auto simp: ChannelId_as_u64_def word_le_nat_alt word_unat_eq_iff unat_ucast_mod)
  then show ?thesis
    by (cases c) (auto simp: ChannelId_new_def validate_components_def not_less split: if_splits)
qed

section \<open>Properties\<close>

text \<open>
The two decoders of a block number accept exactly the encodings of valid values: a pair of
32-bit limbs or a single 64-bit word decodes to \<open>x\<close> if and only if \<open>x\<close> is below \<open>2^63\<close> and the
input is \<open>x\<close>'s own encoding. So no object has two encodings and no value outside the range is
ever built.
\<close>

theorem U63_decode_iff:
  "(U63_from_u32_slice l = Ok x \<longleftrightarrow> unat (as_u64 x) < 2 ^ 63 \<and> U63_to_u32_vec x = l) \<and>
   (U63_from_u64_slice m = Ok x \<longleftrightarrow> unat (as_u64 x) < 2 ^ 63 \<and> U63_to_u64_vec x = m)"
  by (simp add: U63_from_u32_slice_Ok_iff U63_from_u64_slice_Ok_iff U63_valid_unat)

text \<open>
The bit-wise comparison gadget used by \<open>enforce_ge\<close>, \<open>enforce_gt\<close> and their conditional
forms decides the order of the integers, with no wrap-around modulo the field, whenever the
builder's bit decomposition is faithful on 63-bit values; a disabled conditional comparison is
always accepted.
\<close>

theorem U63Target_compare_correct:
  assumes "\<And>x. x < 2 ^ 63 \<Longrightarrow> length (split_le x 63) = 63 \<and> horner_sum of_bool 2 (split_le x 63) = x"
    and "x < 2 ^ 63" and "y < 2 ^ 63"
  shows "(U63Target_enforce_ge split_le x y \<longleftrightarrow> y \<le> x) \<and>
    (U63Target_enforce_gt split_le x y \<longleftrightarrow> y < x) \<and>
    (U63Target_conditional_compare split_le x y c strict \<longleftrightarrow>
       \<not> c \<or> (if strict then y < x else y \<le> x))"
  using U63Target_compare_iff [of split_le x y, OF assms]
  by (auto simp: U63Target_enforce_ge_def U63Target_enforce_gt_def U63Target_conditional_compare_def)

theorem U63Target_compare_correct_witness:
  "\<not> U63Target_enforce_ge (\<lambda>x n. map (bit x) [0..<n]) 5 (2 ^ 63 - 1) \<and>
   U63Target_enforce_ge (\<lambda>x n. map (bit x) [0..<n]) 7 5"
proof -
  have split: "length (map (bit x) [0..<63]) = 63 \<and> horner_sum of_bool 2 (map (bit x) [0..<63]) = x"
    if "x < 2 ^ 63" for x :: nat
    using that by (simp add: horner_sum_bit_eq_take_bit take_bit_nat_eq_self)
  show ?thesis
    using U63Target_compare_correct [of "\<lambda>x n. map (bit x) [0..<n]" 5 "2 ^ 63 - 1", OF split]
      U63Target_compare_correct [of "\<lambda>x n. map (bit x) [0..<n]" 7 5, OF split]
    by simp
qed

end
