(* ===== verification/Poseidon_Out.thy ===== *)
theory Poseidon_Out
  imports Common_Ids
begin

text \<open>
  \<open>PoseidonHashOut\<close> of \<open>src/src/utils/poseidon_hash_out.rs\<close>: four 64-bit words that encode
  Goldilocks field elements, the checked decoders, and the conversions to and from \<open>Bytes32\<close>.
  The Poseidon permutation is external (plonky2): every definition that hashes takes the function
  \<open>poseidon\<close> from lists of canonical field elements to a hash as an argument.
\<close>

unbundle bit_operations_syntax

definition GOLDILOCKS_ORDER :: u64 where
  "GOLDILOCKS_ORDER = 0xFFFFFFFF00000001"

datatype PoseidonHashOutError =
    RecoveryFailed
  | NonCanonicalElement nat
  | InvalidHashValue

datatype PoseidonHashOut = PoseidonHashOut u64 u64 u64 u64

fun hash_elements :: "PoseidonHashOut \<Rightarrow> u64 list" where
  "hash_elements (PoseidonHashOut a b c d) = [a, b, c, d]"

definition PoseidonHashOut_default :: PoseidonHashOut where
  "PoseidonHashOut_default = PoseidonHashOut 0 0 0 0"

definition hash_out_of_list :: "u64 list \<Rightarrow> PoseidonHashOut" where
  "hash_out_of_list l = PoseidonHashOut (l ! 0) (l ! 1) (l ! 2) (l ! 3)"

text \<open>\<open>iter().position(|&x| x >= GOLDILOCKS_ORDER)\<close>: the index of the first non-canonical word.\<close>

fun non_canonical_position :: "nat \<Rightarrow> u64 list \<Rightarrow> nat option" where
  "non_canonical_position i [] = None"
| "non_canonical_position i (x # xs) =
     (if x \<ge> GOLDILOCKS_ORDER then Some i else non_canonical_position (Suc i) xs)"

definition PoseidonHashOut_from_u64_slice ::
  "u64 list \<Rightarrow> (PoseidonHashOutError, PoseidonHashOut) outcome" where
  "PoseidonHashOut_from_u64_slice input =
     (if length input \<noteq> 4 then Err InvalidHashValue
      else case non_canonical_position 0 input of
             Some i \<Rightarrow> Err (NonCanonicalElement i)
           | None \<Rightarrow> Ok (hash_out_of_list input))"

text \<open>
  \<open>F::from_canonical_u64\<close> keeps the raw word; the field element it stands for is the word modulo
  the field order, and that is all the permutation sees.
\<close>

definition from_canonical_u64 :: "u64 \<Rightarrow> u64" where
  "from_canonical_u64 x = x mod GOLDILOCKS_ORDER"

definition hash_inputs_u64 :: "(u64 list \<Rightarrow> PoseidonHashOut) \<Rightarrow> u64 list \<Rightarrow> PoseidonHashOut" where
  "hash_inputs_u64 poseidon inputs = poseidon (map from_canonical_u64 inputs)"

definition hash_inputs_u32 :: "(u64 list \<Rightarrow> PoseidonHashOut) \<Rightarrow> u32 list \<Rightarrow> PoseidonHashOut" where
  "hash_inputs_u32 poseidon inputs = poseidon (map ucast inputs)"

definition two_to_one ::
  "(u64 list \<Rightarrow> PoseidonHashOut) \<Rightarrow> PoseidonHashOut \<Rightarrow> PoseidonHashOut \<Rightarrow> PoseidonHashOut" where
  "two_to_one poseidon left right =
     hash_inputs_u64 poseidon (hash_elements left @ hash_elements right)"

definition split_u64 :: "u64 \<Rightarrow> u32 list" where
  "split_u64 e = (let low = ucast e; high = ucast (drop_bit 32 e) in [high, low])"

definition Bytes32_from_hash_out :: "PoseidonHashOut \<Rightarrow> ('e, Bytes32) outcome" where
  "Bytes32_from_hash_out value =
     unwrap (Bytes32_from_u32_slice (concat (map split_u64 (hash_elements value))))"

definition join_chunk :: "u32 list \<Rightarrow> u64" where
  "join_chunk chunk = (let low = chunk ! 1; high = chunk ! 0 in push_bit 32 (ucast high) + ucast low)"

definition reduce_to_hash_out :: "Bytes32 \<Rightarrow> PoseidonHashOut" where
  "reduce_to_hash_out b = hash_out_of_list (map join_chunk (chunks 2 (Bytes32_to_u32_vec b)))"

definition PoseidonHashOut_try_from ::
  "Bytes32 \<Rightarrow> (PoseidonHashOutError, PoseidonHashOut) outcome" where
  "PoseidonHashOut_try_from value =
     (let hash_out = reduce_to_hash_out value in
      case non_canonical_position 0 (hash_elements hash_out) of
        Some i \<Rightarrow> Err (NonCanonicalElement i)
      | None \<Rightarrow>
          and_then (Bytes32_from_hash_out hash_out) (\<lambda>recovered.
            if value \<noteq> recovered then Err RecoveryFailed else Ok hash_out))"

text \<open>
  \<open>safe_split_lo_and_hi\<close> as the constraint it adds: \<open>split_low_high\<close> of the circuit builder leaves
  any pair of 32-bit words whose combination is \<open>x\<close> modulo the field order, and the extra gate
  requires \<open>lo = 0\<close> when \<open>hi\<close> is the largest word.
\<close>

definition split_low_high_holds :: "nat \<Rightarrow> nat \<Rightarrow> nat \<Rightarrow> bool" where
  "split_low_high_holds x lo hi \<longleftrightarrow>
     lo < 2 ^ 32 \<and> hi < 2 ^ 32 \<and> (hi * 2 ^ 32 + lo) mod unat GOLDILOCKS_ORDER = x"

definition safe_split_lo_and_hi_holds :: "nat \<Rightarrow> nat \<Rightarrow> nat \<Rightarrow> bool" where
  "safe_split_lo_and_hi_holds x lo hi \<longleftrightarrow>
     split_low_high_holds x lo hi \<and>
     (let is_hi_max = (if hi = 2 ^ 32 - 1 then 1 else 0) in
      (is_hi_max * lo) mod unat GOLDILOCKS_ORDER = 0)"

section \<open>Canonical hashes\<close>

definition canonical :: "PoseidonHashOut \<Rightarrow> bool" where
  "canonical h \<longleftrightarrow> (\<forall>e \<in> set (hash_elements h). e < GOLDILOCKS_ORDER)"

lemma length_hash_elements [simp]: "length (hash_elements h) = 4"
  by (cases h) simp

lemma hash_elements_inject [simp]: "hash_elements h = hash_elements k \<longleftrightarrow> h = k"
  by (cases h; cases k) simp

lemma hash_elements_of_list: "length l = 4 \<Longrightarrow> hash_elements (hash_out_of_list l) = l"
  by (simp add: hash_out_of_list_def list4_nth)

lemma hash_out_of_list_elements [simp]: "hash_out_of_list (hash_elements h) = h"
  by (cases h) (simp add: hash_out_of_list_def)

lemma non_canonical_position_None_iff:
  "non_canonical_position i xs = None \<longleftrightarrow> (\<forall>e \<in> set xs. e < GOLDILOCKS_ORDER)"
  by (induction xs arbitrary: i) auto

lemma PoseidonHashOut_from_u64_slice_Ok_iff:
  "PoseidonHashOut_from_u64_slice l = Ok h \<longleftrightarrow> canonical h \<and> hash_elements h = l"
proof (cases "length l = 4")
  case True
  then show ?thesis
    by (auto simp: PoseidonHashOut_from_u64_slice_def canonical_def hash_elements_of_list
        non_canonical_position_None_iff [of 0, symmetric] split: option.splits)
next
  case False
  then show ?thesis by (auto simp: PoseidonHashOut_from_u64_slice_def)
qed

lemma join_split_u64 [simp]: "join_chunk (split_u64 e) = e"
proof -
  have "unat e div 4294967296 < 4294967296"
    using unat_lt_u64 [of e] by (simp add: less_mult_imp_div_less)
  then show ?thesis
    by (simp add: join_chunk_def split_u64_def word_unat_eq_iff unat_join_u32 unat_ucast_mod unat_drop_bit)
qed

lemma split_join_chunk: "split_u64 (join_chunk [hi, lo]) = [hi, lo]"
  using unat_lt_u32 [of hi] unat_lt_u32 [of lo]
  by (simp add: join_chunk_def split_u64_def word_unat_eq_iff unat_join_u32 unat_ucast_mod unat_drop_bit)

lemma reduce_to_hash_out_fields:
  "reduce_to_hash_out (Bytes32 a b c d e f g h) =
     PoseidonHashOut (join_chunk [a, b]) (join_chunk [c, d]) (join_chunk [e, f]) (join_chunk [g, h])"
  by (simp add: reduce_to_hash_out_def chunks.simps hash_out_of_list_def)

lemma Bytes32_from_reduce: "Bytes32_from_hash_out (reduce_to_hash_out b) = Ok b"
proof (cases b)
  case (Bytes32 a b c d e f g h)
  then show ?thesis
    by (simp add: reduce_to_hash_out_fields Bytes32_from_hash_out_def split_join_chunk
        Bytes32_from_u32_slice_def)
qed

lemma Bytes32_from_hash_out_Ok_iff:
  "Bytes32_from_hash_out h = Ok b \<longleftrightarrow> reduce_to_hash_out b = h"
proof
  assume "Bytes32_from_hash_out h = Ok b"
  then have "Bytes32_to_u32_vec b = concat (map split_u64 (hash_elements h))"
    by (auto simp: Bytes32_from_hash_out_def bytes32.from_ok_iff)
  moreover have "chunks 2 (concat (map split_u64 (hash_elements h))) = map split_u64 (hash_elements h)"
    by (rule chunks_concat) (auto simp: split_u64_def)
  ultimately show "reduce_to_hash_out b = h"
    by (simp add: reduce_to_hash_out_def comp_def)
next
  assume "reduce_to_hash_out b = h"
  then show "Bytes32_from_hash_out h = Ok b" using Bytes32_from_reduce by blast
qed

lemma num_pow32: "(2 :: nat) ^ 32 = 4294967296"
  by simp

section \<open>Properties\<close>

text \<open>
Decoding a \<open>Bytes32\<close> into a hash succeeds exactly on the byte encodings of hashes whose four
words are canonical field elements, and then returns that hash; the \<open>RecoveryFailed\<close> branch and
a panic are unreachable.
\<close>

theorem PoseidonHashOut_try_from_canonical:
  "(PoseidonHashOut_try_from b = Ok h \<longleftrightarrow>
      canonical h \<and> Bytes32_from_hash_out h = (Ok b :: (unit, Bytes32) outcome)) \<and>
   PoseidonHashOut_try_from b \<noteq> Err RecoveryFailed \<and>
   PoseidonHashOut_try_from b \<noteq> Panic"
  by (auto simp: PoseidonHashOut_try_from_def Bytes32_from_reduce Bytes32_from_hash_out_Ok_iff
      canonical_def non_canonical_position_None_iff [of 0, symmetric] Let_def
      split: option.splits dest: sym)

text \<open>
The splitting gadget admits, for every field element \<open>x\<close>, exactly one pair of words: the low
and high halves of the canonical representative. The second decomposition modulo the field order
is excluded.
\<close>

theorem safe_split_unique:
  assumes "x < unat GOLDILOCKS_ORDER"
  shows "safe_split_lo_and_hi_holds x lo hi \<longleftrightarrow> lo = x mod 2 ^ 32 \<and> hi = x div 2 ^ 32"
proof -
  let ?p = "18446744069414584321 :: nat"
  let ?v = "hi * 4294967296 + lo"
  have p: "unat GOLDILOCKS_ORDER = ?p" by (simp add: GOLDILOCKS_ORDER_def)
  with assms have x: "x < ?p" by simp
  have vx: "lo < 4294967296 \<Longrightarrow> ?v = x \<longleftrightarrow> lo = x mod 4294967296 \<and> hi = x div 4294967296"
    using div_mod_eq_iff [of lo 4294967296 x hi] by (auto simp: mult.commute)
  have wrap: "hi = 4294967295 \<and> lo \<noteq> 0" if "lo < 4294967296" "hi < 4294967296" "?p \<le> ?v"
  proof -
    from that have "4294967295 \<le> hi" by linarith
    with that have "hi = 4294967295" by linarith
    with that show ?thesis by simp
  qed
  have "?v mod ?p = x \<longleftrightarrow> ?v = x" if "lo < 4294967296" "hi < 4294967296" "hi = 4294967295 \<longrightarrow> lo = 0"
  proof -
    have "?v < ?p" using wrap [OF that(1,2)] that(3) by (meson not_less)
    then show ?thesis by simp
  qed
  moreover have "hi = 4294967295 \<longrightarrow> lo = 0" if "lo < 4294967296" "?v = x"
    using that x by auto
  moreover have "x div 4294967296 < 4294967296" using x by simp
  moreover have "x mod 4294967296 < 4294967296" by simp
  moreover have "safe_split_lo_and_hi_holds x lo hi \<longleftrightarrow>
      lo < 4294967296 \<and> hi < 4294967296 \<and> ?v mod ?p = x \<and> (hi = 4294967295 \<longrightarrow> lo = 0)"
    unfolding safe_split_lo_and_hi_holds_def split_low_high_holds_def p by fastforce
  ultimately show ?thesis
    using vx by (metis (no_types) num_pow32)
qed

theorem safe_split_unique_witness:
  "\<not> safe_split_lo_and_hi_holds 5 6 4294967295 \<and> split_low_high_holds 5 6 4294967295"
  using safe_split_unique [of 5 6 4294967295]
  by (simp add: GOLDILOCKS_ORDER_def split_low_high_holds_def)

end
