(* ===== verification/Indexed_Merkle.thy ===== *)
theory Indexed_Merkle
  imports Leaf_Trees Poseidon_Out
begin

text \<open>
  \<open>IndexedMerkleTree\<close> of \<open>src/src/utils/trees/indexed_merkle_tree\<close>: an append-only tree whose leaves
  form a linked list sorted by key, with the insertion proof that the nullifier set relies on.
  The tree is an \<open>IncrementalMerkleTree\<close> over Poseidon leaf hashes; \<open>poseidon\<close> is the external
  permutation. The payload strings of \<open>IndexedMerkleTreeError\<close> are dropped.
\<close>

section \<open>Leaves\<close>

record IndexedMerkleLeaf =
  leaf_next_index :: u64
  leaf_key :: U256
  leaf_next_key :: U256
  leaf_value :: u64

definition U256_max :: U256 where
  "U256_max = U256 (- 1) (- 1) (- 1) (- 1) (- 1) (- 1) (- 1) (- 1)"

definition IndexedMerkleLeaf_default :: IndexedMerkleLeaf where
  "IndexedMerkleLeaf_default =
     \<lparr>leaf_next_index = 0, leaf_key = U256_default, leaf_next_key = U256_default, leaf_value = 0\<rparr>"

definition IndexedMerkleLeaf_to_u64_vec :: "IndexedMerkleLeaf \<Rightarrow> u64 list" where
  "IndexedMerkleLeaf_to_u64_vec l =
     [leaf_next_index l] @ to_u64_vec U256_to_u32_vec (leaf_key l) @
     to_u64_vec U256_to_u32_vec (leaf_next_key l) @ [leaf_value l]"

definition IndexedMerkleLeaf_empty_leaf :: IndexedMerkleLeaf where
  "IndexedMerkleLeaf_empty_leaf =
     \<lparr>leaf_next_index = - 1, leaf_key = U256_max, leaf_next_key = U256_default, leaf_value = 0\<rparr>"

definition IndexedMerkleLeaf_hash :: "(u64 list \<Rightarrow> PoseidonHashOut) \<Rightarrow> IndexedMerkleLeaf \<Rightarrow> PoseidonHashOut" where
  "IndexedMerkleLeaf_hash poseidon l = hash_inputs_u64 poseidon (IndexedMerkleLeaf_to_u64_vec l)"

section \<open>The tree\<close>

datatype IndexedMerkleTreeError =
    KeyAlreadyExists
  | KeyDoesNotExist
  | KeyNotLowerBounded
  | KeyNotUpperBounded
  | KeyMismatch
  | ValueMismatch
  | NewRootMismatch
  | TooManyCandidates
  | IndexedMerkleProofError MerkleProofError

type_synonym IndexedMerkleTree = "(PoseidonHashOut, IndexedMerkleLeaf) IncrementalMerkleTree"

definition Indexed_new :: "(u64 list \<Rightarrow> PoseidonHashOut) \<Rightarrow> nat \<Rightarrow> ('e, IndexedMerkleTree) outcome" where
  "Indexed_new poseidon ht =
     Incremental_push (two_to_one poseidon) (IndexedMerkleLeaf_hash poseidon) IndexedMerkleLeaf_default
       (Incremental_new (two_to_one poseidon) (IndexedMerkleLeaf_hash poseidon) IndexedMerkleLeaf_empty_leaf ht)"

datatype IndexedDecodeError = InnerDecodeError DecodeError | MissingSentinel

definition Indexed_deserialize ::
  "(u64 list \<Rightarrow> PoseidonHashOut) \<Rightarrow> IndexedMerkleLeaf IncrementalPacked
     \<Rightarrow> (IndexedDecodeError, IndexedMerkleTree) outcome" where
  "Indexed_deserialize poseidon packed =
     and_then (map_err InnerDecodeError (Incremental_deserialize (two_to_one poseidon) (IndexedMerkleLeaf_hash poseidon)
                               IndexedMerkleLeaf_empty_leaf packed)) (\<lambda>inner.
       if map_option leaf_key (case i_leaves inner of [] \<Rightarrow> None | l # ls \<Rightarrow> Some l) \<noteq> Some U256_default
       then Err MissingSentinel else Ok inner)"

definition is_low_leaf :: "U256 \<Rightarrow> IndexedMerkleLeaf \<Rightarrow> bool" where
  "is_low_leaf k l \<longleftrightarrow> leaf_key l < k \<and> (k < leaf_next_key l \<or> leaf_next_key l = U256_default)"

definition low_index :: "IndexedMerkleTree \<Rightarrow> U256 \<Rightarrow> (IndexedMerkleTreeError, u64) outcome" where
  "low_index t k =
     (let low_leaf_candidates = filter (\<lambda>(i, l). is_low_leaf k l) (enumerate 0 (i_leaves t)) in
      if low_leaf_candidates = [] then Err KeyAlreadyExists
      else if length low_leaf_candidates \<noteq> 1 then Err TooManyCandidates
      else Ok (of_nat (fst (low_leaf_candidates ! 0))))"

definition Indexed_index :: "IndexedMerkleTree \<Rightarrow> U256 \<Rightarrow> ('e, u64 option) outcome" where
  "Indexed_index t k =
     (let leaf_candidates = filter (\<lambda>(i, l). leaf_key l = k) (enumerate 0 (i_leaves t)) in
      if leaf_candidates = [] then Ok None
      else if length leaf_candidates \<noteq> 1 then Panic
      else Ok (Some (of_nat (fst (leaf_candidates ! 0)))))"

definition Indexed_get_leaf :: "IndexedMerkleTree \<Rightarrow> u64 \<Rightarrow> IndexedMerkleLeaf" where
  "Indexed_get_leaf t index = Incremental_get_leaf IndexedMerkleLeaf_empty_leaf t index"

definition Indexed_key :: "IndexedMerkleTree \<Rightarrow> u64 \<Rightarrow> U256" where
  "Indexed_key t index = leaf_key (Indexed_get_leaf t index)"

definition Indexed_update ::
  "(u64 list \<Rightarrow> PoseidonHashOut) \<Rightarrow> U256 \<Rightarrow> u64 \<Rightarrow> IndexedMerkleTree
     \<Rightarrow> (IndexedMerkleTreeError, IndexedMerkleTree) outcome" where
  "Indexed_update poseidon k v t =
     and_then (Indexed_index t k) (\<lambda>found.
     and_then (ok_or KeyDoesNotExist found) (\<lambda>index.
       let leaf = (Indexed_get_leaf t index)\<lparr>leaf_value := v\<rparr>
       in Incremental_update (two_to_one poseidon) (IndexedMerkleLeaf_hash poseidon) index leaf t))"

text \<open>The two leaves an insertion writes.\<close>

definition new_low_leaf_of :: "IndexedMerkleLeaf \<Rightarrow> u64 \<Rightarrow> U256 \<Rightarrow> IndexedMerkleLeaf" where
  "new_low_leaf_of prev_low_leaf index k = prev_low_leaf\<lparr>leaf_next_index := index, leaf_next_key := k\<rparr>"

definition inserted_leaf_of :: "IndexedMerkleLeaf \<Rightarrow> U256 \<Rightarrow> u64 \<Rightarrow> IndexedMerkleLeaf" where
  "inserted_leaf_of prev_low_leaf k v =
     \<lparr>leaf_next_index = leaf_next_index prev_low_leaf, leaf_key = k,
      leaf_next_key = leaf_next_key prev_low_leaf, leaf_value = v\<rparr>"

definition Indexed_insert ::
  "(u64 list \<Rightarrow> PoseidonHashOut) \<Rightarrow> U256 \<Rightarrow> u64 \<Rightarrow> IndexedMerkleTree
     \<Rightarrow> (IndexedMerkleTreeError, IndexedMerkleTree) outcome" where
  "Indexed_insert poseidon k v t =
     (let index = of_nat (length (i_leaves t)) in
      and_then (low_index t k) (\<lambda>low.
        let prev_low_leaf = Indexed_get_leaf t low;
            new_low_leaf = new_low_leaf_of prev_low_leaf index k;
            leaf = inserted_leaf_of prev_low_leaf k v
        in and_then (Incremental_update (two_to_one poseidon) (IndexedMerkleLeaf_hash poseidon) low new_low_leaf t)
             (\<lambda>t1. Incremental_push (two_to_one poseidon) (IndexedMerkleLeaf_hash poseidon) leaf t1)))"

record IndexedInsertionProof =
  ins_index :: u64
  low_leaf_proof :: "PoseidonHashOut MerkleProof"
  leaf_proof :: "PoseidonHashOut MerkleProof"
  low_leaf_index :: u64
  prev_low_leaf :: IndexedMerkleLeaf

definition Indexed_prove_and_insert ::
  "(u64 list \<Rightarrow> PoseidonHashOut) \<Rightarrow> U256 \<Rightarrow> u64 \<Rightarrow> IndexedMerkleTree
     \<Rightarrow> (IndexedMerkleTreeError, IndexedMerkleTree \<times> IndexedInsertionProof) outcome" where
  "Indexed_prove_and_insert poseidon k v t =
     (let index = of_nat (length (i_leaves t)) in
      and_then (low_index t k) (\<lambda>low.
        let prev_low = Indexed_get_leaf t low;
            new_low_leaf = new_low_leaf_of prev_low index k;
            leaf = inserted_leaf_of prev_low k v
        in and_then (Incremental_prove t low) (\<lambda>low_proof.
           and_then (Incremental_update (two_to_one poseidon) (IndexedMerkleLeaf_hash poseidon) low new_low_leaf t) (\<lambda>t1.
           and_then (Incremental_push (two_to_one poseidon) (IndexedMerkleLeaf_hash poseidon) leaf t1) (\<lambda>t2.
           and_then (Incremental_prove t2 index) (\<lambda>proof.
             Ok (t2, \<lparr>ins_index = index, low_leaf_proof = low_proof, leaf_proof = proof,
                      low_leaf_index = low, prev_low_leaf = prev_low\<rparr>)))))))"

definition Indexed_prove_dummy :: "IndexedMerkleTree \<Rightarrow> ('e, IndexedInsertionProof) outcome" where
  "Indexed_prove_dummy t =
     (let prev_low = Indexed_get_leaf t 0 in
      and_then (Incremental_prove t 0) (\<lambda>dummy_proof.
        Ok \<lparr>ins_index = 0, low_leaf_proof = dummy_proof, leaf_proof = dummy_proof,
            low_leaf_index = 0, prev_low_leaf = prev_low\<rparr>))"

section \<open>Insertion proofs\<close>

definition Insertion_get_new_root ::
  "(u64 list \<Rightarrow> PoseidonHashOut) \<Rightarrow> IndexedInsertionProof \<Rightarrow> U256 \<Rightarrow> u64 \<Rightarrow> PoseidonHashOut
     \<Rightarrow> (IndexedMerkleTreeError, PoseidonHashOut) outcome" where
  "Insertion_get_new_root poseidon p k v prev_root =
     (let H = two_to_one poseidon; leaf_hash = IndexedMerkleLeaf_hash poseidon; prev_low = prev_low_leaf p in
      if leaf_key prev_low \<ge> k then Err KeyNotLowerBounded
      else if \<not> (k < leaf_next_key prev_low \<or> leaf_next_key prev_low = U256_default) then Err KeyNotUpperBounded
      else
        and_then (map_err IndexedMerkleProofError
                   (MerkleProof_verify H leaf_hash (low_leaf_proof p) prev_low (low_leaf_index p) prev_root)) (\<lambda>_.
        let new_low_leaf = new_low_leaf_of prev_low (ins_index p) k in
        and_then (MerkleProof_get_root H leaf_hash (low_leaf_proof p) new_low_leaf (low_leaf_index p)) (\<lambda>temp_root.
        and_then (map_err IndexedMerkleProofError
                   (MerkleProof_verify H leaf_hash (leaf_proof p) IndexedMerkleLeaf_empty_leaf (ins_index p) temp_root)) (\<lambda>_.
        let leaf = inserted_leaf_of prev_low k v
        in MerkleProof_get_root H leaf_hash (leaf_proof p) leaf (ins_index p)))))"

definition Insertion_conditional_get_new_root ::
  "(u64 list \<Rightarrow> PoseidonHashOut) \<Rightarrow> IndexedInsertionProof \<Rightarrow> bool \<Rightarrow> U256 \<Rightarrow> u64 \<Rightarrow> PoseidonHashOut
     \<Rightarrow> (IndexedMerkleTreeError, PoseidonHashOut) outcome" where
  "Insertion_conditional_get_new_root poseidon p condition k v prev_root =
     (if condition then Insertion_get_new_root poseidon p k v prev_root else Ok prev_root)"

definition Insertion_verify ::
  "(u64 list \<Rightarrow> PoseidonHashOut) \<Rightarrow> IndexedInsertionProof \<Rightarrow> U256 \<Rightarrow> u64 \<Rightarrow> PoseidonHashOut \<Rightarrow> PoseidonHashOut
     \<Rightarrow> (IndexedMerkleTreeError, unit) outcome" where
  "Insertion_verify poseidon p k v prev_root new_root =
     and_then (Insertion_get_new_root poseidon p k v prev_root) (\<lambda>expected_new_root.
       if new_root \<noteq> expected_new_root then Err NewRootMismatch else Ok ())"

section \<open>The sorted linked list\<close>

text \<open>\<open>succ_of K a b\<close>: \<open>b\<close> is the successor of \<open>a\<close> in \<open>K\<close>, or zero if \<open>a\<close> is the greatest.\<close>

definition succ_of :: "U256 set \<Rightarrow> U256 \<Rightarrow> U256 \<Rightarrow> bool" where
  "succ_of K a b \<longleftrightarrow>
     (b = U256_default \<and> (\<forall>x \<in> K. x \<le> a)) \<or> (b \<in> K \<and> a < b \<and> (\<forall>x \<in> K. x \<le> a \<or> b \<le> x))"

definition key_set :: "IndexedMerkleLeaf list \<Rightarrow> U256 set" where
  "key_set ls = leaf_key ` set ls"

definition links :: "IndexedMerkleLeaf list \<Rightarrow> bool" where
  "links ls \<longleftrightarrow> ls \<noteq> [] \<and> leaf_key (ls ! 0) = U256_default \<and> distinct (map leaf_key ls) \<and>
     (\<forall>l \<in> set ls. succ_of (key_set ls) (leaf_key l) (leaf_next_key l) \<and>
        (leaf_next_key l \<noteq> U256_default \<longrightarrow>
           unat (leaf_next_index l) < length ls \<and>
           leaf_key (ls ! unat (leaf_next_index l)) = leaf_next_key l))"

lemma U256_default_le [simp]: "U256_default \<le> x"
  by (simp add: U256_le_val)

lemma U256_default_less: "x \<noteq> U256_default \<Longrightarrow> U256_default < x"
  by (simp add: order_neq_le_trans)

lemma U256_le_max: "x \<le> U256_max"
proof -
  have "U256_val U256_max = 2 ^ 256 - 1"
    by (simp add: U256_max_def U256_val_def limbs_val_be_def unsigned_minus_1_eq_mask mask_eq_exp_minus_1)
  then show ?thesis using U256_val_bound [of x] by (simp add: U256_le_val)
qed

lemma linksD:
  assumes "links ls" "l \<in> set ls"
  shows "succ_of (key_set ls) (leaf_key l) (leaf_next_key l)"
  using assms by (simp add: links_def)

lemma default_in_key_set: "links ls \<Longrightarrow> U256_default \<in> key_set ls"
  by (cases ls) (auto simp: links_def key_set_def)

lemma succ_of_low:
  assumes "succ_of K a b" "a < k" "k < b \<or> b = U256_default" "x \<in> K"
  shows "x \<le> a \<or> k < x"
proof -
  have "b \<noteq> U256_default" if "a < b" using that U256_default_le [of a] by (metis leD)
  with assms show ?thesis unfolding succ_of_def by (metis order_less_le_trans)
qed

lemma low_leaf_key_absent:
  assumes "links ls" "l \<in> set ls" "is_low_leaf k l"
  shows "k \<notin> key_set ls"
  using succ_of_low [OF linksD [OF assms(1,2)], of k k] assms(3) by (auto simp: is_low_leaf_def)

lemma low_leaf_exists:
  assumes "links ls" "k \<notin> key_set ls"
  shows "\<exists>l \<in> set ls. is_low_leaf k l"
proof -
  let ?B = "{x \<in> key_set ls. x < k}"
  have "U256_default < k"
    using default_in_key_set [OF assms(1)] assms(2) by (intro U256_default_less) auto
  then have ne: "?B \<noteq> {}" using default_in_key_set [OF assms(1)] by blast
  have fin: "finite ?B" by (simp add: key_set_def)
  from Max_in [OF fin ne] obtain l where l: "l \<in> set ls" "leaf_key l = Max ?B" "leaf_key l < k"
    by (auto simp: key_set_def)
  have "k < leaf_next_key l \<or> leaf_next_key l = U256_default"
  proof (rule ccontr)
    assume no: "\<not> ?thesis"
    then have b: "leaf_next_key l \<in> key_set ls" "leaf_key l < leaf_next_key l"
      using linksD [OF assms(1) l(1)] by (auto simp: succ_of_def)
    with no assms(2) have "leaf_next_key l \<in> ?B" by (auto simp: not_less order.strict_iff_order)
    then have "leaf_next_key l \<le> leaf_key l" using Max_ge [OF fin] l(2) by simp
    with b(2) show False by simp
  qed
  with l(1,3) show ?thesis unfolding is_low_leaf_def by blast
qed

lemma low_leaf_unique:
  assumes "links ls" "l1 \<in> set ls" "l2 \<in> set ls" "is_low_leaf k l1" "is_low_leaf k l2"
  shows "leaf_key l1 = leaf_key l2"
proof -
  have "\<not> leaf_key x < leaf_key y" if "x \<in> set ls" "y \<in> set ls" "is_low_leaf k x" "is_low_leaf k y" for x y
    using succ_of_low [OF linksD [OF assms(1) that(1)], of k "leaf_key y"] that
    by (auto simp: is_low_leaf_def key_set_def not_less)
  with assms show ?thesis by (metis less_linear)
qed

lemma distinct_singleton_list:
  assumes "distinct xs" "set xs = {x}"
  shows "xs = [x]"
proof (cases xs)
  case (Cons y ys)
  with assms have "y = x" by auto
  moreover from this have "x \<notin> set ys" "set ys \<subseteq> {x}" using Cons assms by auto
  then have "ys = []" by (auto dest: subset_singletonD)
  ultimately show ?thesis using Cons by simp
qed (use assms in simp)

lemma filter_enumerate_unique:
  assumes "i < length ls" "P (ls ! i)" "\<And>j. j < length ls \<Longrightarrow> P (ls ! j) \<Longrightarrow> j = i"
  shows "filter (\<lambda>(i, l). P l) (enumerate 0 ls) = [(i, ls ! i)]"
proof -
  have mem: "(j, l) \<in> set (filter (\<lambda>(i, l). P l) (enumerate 0 ls)) \<longleftrightarrow>
      j < length ls \<and> ls ! j = l \<and> P l" for j l
    by (simp add: in_set_enumerate_eq)
  have "set (filter (\<lambda>(i, l). P l) (enumerate 0 ls)) = {(i, ls ! i)}"
  proof (rule set_eqI)
    fix x :: "nat \<times> 'a"
    obtain j l where "x = (j, l)" by (cases x)
    moreover have "j < length ls \<and> ls ! j = l \<and> P l \<longleftrightarrow> j = i \<and> l = ls ! i"
      using assms(1,2) assms(3) [of j] by blast
    ultimately show "x \<in> set (filter (\<lambda>(i, l). P l) (enumerate 0 ls)) \<longleftrightarrow> x \<in> {(i, ls ! i)}"
      by (simp only: mem singleton_iff prod.inject)
  qed
  then show ?thesis by (intro distinct_singleton_list distinct_filter distinct_enumerate)
qed

lemma low_index_cases:
  assumes "links (i_leaves t)"
  shows "if k \<in> key_set (i_leaves t) then low_index t k = Err KeyAlreadyExists
    else \<exists>i < length (i_leaves t). is_low_leaf k (i_leaves t ! i) \<and> low_index t k = Ok (of_nat i)"
proof (cases "k \<in> key_set (i_leaves t)")
  case True
  have "\<not> is_low_leaf k l" if "l \<in> set (i_leaves t)" for l
    using low_leaf_key_absent [OF assms that] True by blast
  then have "filter (\<lambda>(i, l). is_low_leaf k l) (enumerate 0 (i_leaves t)) = []"
    by (auto simp: filter_empty_conv in_set_enumerate_eq)
  with True show ?thesis by (simp add: low_index_def)
next
  case False
  from low_leaf_exists [OF assms False] obtain i where i: "i < length (i_leaves t)" "is_low_leaf k (i_leaves t ! i)"
    by (metis in_set_conv_nth)
  have "j = i" if "j < length (i_leaves t)" "is_low_leaf k (i_leaves t ! j)" for j
    using low_leaf_unique [OF assms _ _ that(2) i(2)] that(1) i(1) assms
      nth_eq_iff_index_eq [of "map leaf_key (i_leaves t)" j i] by (simp add: links_def)
  with i have "filter (\<lambda>(i, l). is_low_leaf k l) (enumerate 0 (i_leaves t)) = [(i, i_leaves t ! i)]"
    using filter_enumerate_unique [of i "i_leaves t" "is_low_leaf k"] by blast
  then have "low_index t k = Ok (of_nat i)" by (simp add: low_index_def)
  with i False show ?thesis by auto
qed

text \<open>Insertion into the list of leaves.\<close>

definition inserted_leaves :: "IndexedMerkleLeaf list \<Rightarrow> nat \<Rightarrow> U256 \<Rightarrow> u64 \<Rightarrow> IndexedMerkleLeaf list" where
  "inserted_leaves ls i k v =
     ls[i := new_low_leaf_of (ls ! i) (of_nat (length ls)) k] @ [inserted_leaf_of (ls ! i) k v]"

lemma map_key_inserted:
  "i < length ls \<Longrightarrow> map leaf_key (inserted_leaves ls i k v) = map leaf_key ls @ [k]"
  using list_update_id [of "map leaf_key ls" i]
  by (simp add: inserted_leaves_def map_update new_low_leaf_of_def inserted_leaf_of_def)

lemma key_set_inserted:
  assumes "i < length ls"
  shows "key_set (inserted_leaves ls i k v) = insert k (key_set ls)"
  using arg_cong [OF map_key_inserted [OF assms, of k v], of set] by (simp add: key_set_def)

lemma succ_of_insert_other:
  assumes "succ_of K a b" "\<not> (a < k \<and> (k < b \<or> b = U256_default))"
  shows "succ_of (insert k K) a b"
proof (cases "b = U256_default \<and> (\<forall>x \<in> K. x \<le> a)")
  case True
  with assms(2) show ?thesis by (simp add: succ_of_def not_less)
next
  case False
  with assms(1) have b: "b \<in> K" "a < b" "\<forall>x \<in> K. x \<le> a \<or> b \<le> x" by (auto simp: succ_of_def)
  with assms(2) have "k \<le> a \<or> b \<le> k" by (metis not_less)
  with b show ?thesis by (simp add: succ_of_def)
qed

lemma succ_of_insert_low:
  assumes "succ_of K a b" "a < k" "k < b \<or> b = U256_default"
  shows "succ_of (insert k K) a k" "succ_of (insert k K) k b"
proof -
  have low: "x \<le> a \<or> k < x" if "x \<in> K" for x by (rule succ_of_low [OF assms that])
  then have "x \<le> a \<or> k \<le> x" if "x \<in> K" for x using that less_imp_le by blast
  then show "succ_of (insert k K) a k"
    using assms(2) by (simp add: succ_of_def)
  show "succ_of (insert k K) k b"
  proof (cases "b = U256_default")
    case True
    then have "x \<le> a" if "x \<in> K" for x
      using assms(1) that True U256_default_le [of a] unfolding succ_of_def by (metis leD)
    then have "x \<le> k" if "x \<in> K" for x using that assms(2) by (meson less_imp_le order.trans)
    with True show ?thesis by (simp add: succ_of_def)
  next
    case False
    then have b: "b \<in> K" "k < b" and *: "\<And>x. x \<in> K \<Longrightarrow> x \<le> a \<or> b \<le> x"
      using assms by (auto simp: succ_of_def)
    have "x \<le> k \<or> b \<le> x" if "x \<in> K" for x
      using * [OF that] assms(2) by (meson less_imp_le order.trans)
    with b show ?thesis by (simp add: succ_of_def)
  qed
qed

lemma nth_inserted:
  assumes "j < length ls"
  shows "inserted_leaves ls i k v ! j = (if j = i then new_low_leaf_of (ls ! i) (of_nat (length ls)) k else ls ! j)"
    and "inserted_leaves ls i k v ! length ls = inserted_leaf_of (ls ! i) k v"
  using assms by (auto simp: inserted_leaves_def nth_append)

lemma length_inserted [simp]: "length (inserted_leaves ls i k v) = Suc (length ls)"
  by (simp add: inserted_leaves_def)

lemma leaf_key_nth_inserted:
  assumes "i < length ls" "j < length ls"
  shows "leaf_key (inserted_leaves ls i k v ! j) = leaf_key (ls ! j)"
  using assms by (simp add: nth_inserted new_low_leaf_of_def)

lemma links_inserted:
  assumes links: "links ls" and i: "i < length ls" and low: "is_low_leaf k (ls ! i)"
    and len: "length ls < 18446744073709551616"
  shows "links (inserted_leaves ls i k v)"
proof -
  let ?ls = "inserted_leaves ls i k v" and ?l = "ls ! i"
  have K: "key_set ?ls = insert k (key_set ls)" by (rule key_set_inserted [OF i])
  have absent: "k \<notin> key_set ls" using low_leaf_key_absent [OF links _ low] i by simp
  have low': "leaf_key ?l < k" "k < leaf_next_key ?l \<or> leaf_next_key ?l = U256_default"
    using low by (auto simp: is_low_leaf_def)
  note at_i = succ_of_insert_low [OF linksD [OF links nth_mem [OF i]] low']
  have old: "leaf_next_key l \<noteq> U256_default \<Longrightarrow> unat (leaf_next_index l) < length ls \<and>
      leaf_key (?ls ! unat (leaf_next_index l)) = leaf_next_key l" if "l \<in> set ls" for l
    using links that leaf_key_nth_inserted [OF i, of "unat (leaf_next_index l)" k v] by (auto simp: links_def)
  have node: "succ_of (key_set ?ls) (leaf_key (?ls ! j)) (leaf_next_key (?ls ! j)) \<and>
      (leaf_next_key (?ls ! j) \<noteq> U256_default \<longrightarrow> unat (leaf_next_index (?ls ! j)) < length ?ls \<and>
         leaf_key (?ls ! unat (leaf_next_index (?ls ! j))) = leaf_next_key (?ls ! j))"
    if j: "j < length ?ls" for j
  proof -
    consider "j = length ls" | "j = i" | "j < length ls" "j \<noteq> i" using j by fastforce
    then show ?thesis
    proof cases
      case 1
      then show ?thesis
        using at_i(2) old [OF nth_mem [OF i]] nth_inserted(2) [OF i, of i k v]
        by (auto simp: K inserted_leaf_of_def)
    next
      case 2
      then show ?thesis
        using at_i(1) i len nth_inserted [OF i, of i k v]
        by (simp add: K new_low_leaf_of_def inserted_leaf_of_def)
    next
      case 3
      have "\<not> is_low_leaf k (ls ! j)"
      proof
        assume "is_low_leaf k (ls ! j)"
        then have "leaf_key (ls ! j) = leaf_key ?l"
          using low_leaf_unique [OF links _ _ _ low] 3 i by simp
        then show False
          using 3 i links nth_eq_iff_index_eq [of "map leaf_key ls" j i] by (simp add: links_def)
      qed
      then show ?thesis
        using 3 succ_of_insert_other [OF linksD [OF links nth_mem [OF 3(1)]], of k] old [OF nth_mem [OF 3(1)]]
        by (auto simp: K nth_inserted is_low_leaf_def)
    qed
  qed
  have "leaf_key (?ls ! 0) = U256_default"
    using links i leaf_key_nth_inserted [OF i, of 0 k v] by (auto simp: links_def)
  moreover have "distinct (map leaf_key ?ls)"
    using links absent by (simp add: map_key_inserted [OF i] links_def key_set_def)
  moreover have "?ls \<noteq> []" by (simp add: inserted_leaves_def)
  ultimately show ?thesis
    using node unfolding links_def by (metis in_set_conv_nth)
qed

section \<open>Insertion into the tree\<close>

abbreviation (input) indexed_leaf_fun :: "(u64 list \<Rightarrow> PoseidonHashOut) \<Rightarrow> IndexedMerkleLeaf list \<Rightarrow> nat \<Rightarrow> PoseidonHashOut" where
  "indexed_leaf_fun P ls \<equiv> incremental_leaf_fun (IndexedMerkleLeaf_hash P) IndexedMerkleLeaf_empty_leaf ls"

definition indexed_inv :: "(u64 list \<Rightarrow> PoseidonHashOut) \<Rightarrow> IndexedMerkleTree \<Rightarrow> bool" where
  "indexed_inv P t \<longleftrightarrow>
     incremental_rep (two_to_one P) (IndexedMerkleLeaf_hash P) IndexedMerkleLeaf_empty_leaf t \<and> links (i_leaves t)"

lemma length_leaves_u64:
  assumes "incremental_rep H leaf_hash e t"
  shows "length (i_leaves t) < 18446744073709551616"
proof -
  from assms have "length (i_leaves t) \<le> 2 ^ i_height t" "i_height t < 64" by (auto simp: incremental_rep_def)
  moreover from this have "(2 :: nat) ^ i_height t < 2 ^ 64" by (intro power_strict_increasing) auto
  ultimately show ?thesis by simp
qed

lemma Indexed_get_leaf_nth:
  assumes "indexed_inv P t" "i < length (i_leaves t)"
  shows "Indexed_get_leaf t (of_nat i) = i_leaves t ! i"
proof -
  from assms(1) have "length (i_leaves t) < 18446744073709551616"
    by (auto simp: indexed_inv_def dest: length_leaves_u64)
  with assms(2) show ?thesis by (simp add: Indexed_get_leaf_def Incremental_get_leaf_def)
qed

text \<open>The intermediate trees of an insertion that succeeds.\<close>

lemma insertion_steps:
  assumes inv: "indexed_inv P t" and k: "k \<notin> key_set (i_leaves t)" and room: "length (i_leaves t) < 2 ^ i_height t"
  obtains i t1 t2 where "i < length (i_leaves t)" "is_low_leaf k (i_leaves t ! i)" "low_index t k = Ok (of_nat i)"
    "Incremental_update (two_to_one P) (IndexedMerkleLeaf_hash P) (of_nat i)
       (new_low_leaf_of (i_leaves t ! i) (of_nat (length (i_leaves t))) k) t = (Ok t1 :: ('e, _) outcome)"
    "Incremental_push (two_to_one P) (IndexedMerkleLeaf_hash P) (inserted_leaf_of (i_leaves t ! i) k v) t1 =
       (Ok t2 :: ('e, _) outcome)"
    "i_height t2 = i_height t" "i_leaves t2 = inserted_leaves (i_leaves t) i k v" "indexed_inv P t2"
proof -
  let ?ls = "i_leaves t" and ?n = "length (i_leaves t)"
  from inv have rep: "incremental_rep (two_to_one P) (IndexedMerkleLeaf_hash P) IndexedMerkleLeaf_empty_leaf t"
    and links: "links ?ls" by (auto simp: indexed_inv_def)
  note n = length_leaves_u64 [OF rep]
  from low_index_cases [OF links, of k] k obtain i where
    i: "i < ?n" "is_low_leaf k (?ls ! i)" "low_index t k = Ok (of_nat i)" by auto
  let ?low = "new_low_leaf_of (?ls ! i) (of_nat ?n) k" and ?leaf = "inserted_leaf_of (?ls ! i) k v"
  have ui: "unat (of_nat i :: u64) = i" using i(1) n by simp
  with Incremental_update_rep [where 'e = 'e, OF rep, of "of_nat i" ?low] i(1) obtain t1 where
    t1: "Incremental_update (two_to_one P) (IndexedMerkleLeaf_hash P) (of_nat i) ?low t = (Ok t1 :: ('e, _) outcome)"
      "i_height t1 = i_height t" "i_leaves t1 = ?ls[i := ?low]"
      "incremental_rep (two_to_one P) (IndexedMerkleLeaf_hash P) IndexedMerkleLeaf_empty_leaf t1" by auto
  from Incremental_push_rep [where 'e = 'e, OF t1(4), of ?leaf] room t1(2,3) obtain t2 where
    t2: "Incremental_push (two_to_one P) (IndexedMerkleLeaf_hash P) ?leaf t1 = (Ok t2 :: ('e, _) outcome)"
      "i_height t2 = i_height t" "i_leaves t2 = inserted_leaves ?ls i k v"
      "incremental_rep (two_to_one P) (IndexedMerkleLeaf_hash P) IndexedMerkleLeaf_empty_leaf t2"
    by (auto simp: inserted_leaves_def)
  have "indexed_inv P t2"
    using t2 links_inserted [OF links i(1,2) n] by (simp add: indexed_inv_def)
  with i t1 t2 that show ?thesis by blast
qed

text \<open>The roots an insertion proof computes from the leaves before the insertion.\<close>

lemma insertion_roots:
  fixes P :: "u64 list \<Rightarrow> PoseidonHashOut" and ls :: "IndexedMerkleLeaf list" and i ht :: nat
    and k :: U256 and v :: u64
  assumes i: "i < length ls" and room: "length ls < 2 ^ ht"
  defines "f \<equiv> indexed_leaf_fun P ls" and "f' \<equiv> indexed_leaf_fun P (inserted_leaves ls i k v)"
    and "H \<equiv> two_to_one P" and "n \<equiv> length ls"
    and "low \<equiv> new_low_leaf_of (ls ! i) (of_nat (length ls)) k" and "leaf \<equiv> inserted_leaf_of (ls ! i) k v"
  shows "root_of H i (IndexedMerkleLeaf_hash P (ls ! i)) (siblings_of H f 0 ht i) = node H f ht 0"
    and "root_of H n (IndexedMerkleLeaf_hash P IndexedMerkleLeaf_empty_leaf) (siblings_of H f' 0 ht n) =
      root_of H i (IndexedMerkleLeaf_hash P low) (siblings_of H f 0 ht i)"
    and "root_of H n (IndexedMerkleLeaf_hash P leaf) (siblings_of H f' 0 ht n) = node H f' ht 0"
proof -
  let ?f1 = "indexed_leaf_fun P (ls[i := low])"
  have f1: "?f1 = f(i := IndexedMerkleLeaf_hash P low)"
    using i by (simp add: f_def incremental_leaf_fun_update)
  have f': "f' = ?f1(n := IndexedMerkleLeaf_hash P leaf)"
    using incremental_leaf_fun_append [of "IndexedMerkleLeaf_hash P" IndexedMerkleLeaf_empty_leaf "ls[i := low]" leaf]
    by (simp add: f'_def inserted_leaves_def low_def leaf_def n_def)
  have "f i = IndexedMerkleLeaf_hash P (ls ! i)" "?f1 n = IndexedMerkleLeaf_hash P IndexedMerkleLeaf_empty_leaf"
    using i by (simp_all add: f_def n_def incremental_leaf_fun_def)
  then have "f(i := IndexedMerkleLeaf_hash P (ls ! i)) = f"
    "f'(n := IndexedMerkleLeaf_hash P IndexedMerkleLeaf_empty_leaf) = ?f1"
    "f'(n := IndexedMerkleLeaf_hash P leaf) = f'"
    by (simp_all add: f' fun_upd_idem)
  then show "root_of H i (IndexedMerkleLeaf_hash P (ls ! i)) (siblings_of H f 0 ht i) = node H f ht 0"
    "root_of H n (IndexedMerkleLeaf_hash P IndexedMerkleLeaf_empty_leaf) (siblings_of H f' 0 ht n) =
      root_of H i (IndexedMerkleLeaf_hash P low) (siblings_of H f 0 ht i)"
    "root_of H n (IndexedMerkleLeaf_hash P leaf) (siblings_of H f' 0 ht n) = node H f' ht 0"
    using i room by (simp_all only: root_of_proof n_def f1 [symmetric] less_trans)
qed

lemma prove_and_insert_ok:
  assumes inv: "indexed_inv P t" and k: "k \<notin> key_set (i_leaves t)" and room: "length (i_leaves t) < 2 ^ i_height t"
  shows "\<exists>t' p r r'. Indexed_prove_and_insert P k v t = Ok (t', p) \<and> Indexed_insert P k v t = Ok t' \<and>
    indexed_inv P t' \<and> i_height t' = i_height t \<and> length (i_leaves t') = Suc (length (i_leaves t)) \<and>
    key_set (i_leaves t') = insert k (key_set (i_leaves t)) \<and>
    map leaf_key (i_leaves t') = map leaf_key (i_leaves t) @ [k] \<and>
    Incremental_get_root t = (Ok r :: (IndexedMerkleTreeError, _) outcome) \<and>
    Incremental_get_root t' = (Ok r' :: (IndexedMerkleTreeError, _) outcome) \<and>
    Insertion_get_new_root P p k v r = Ok r'"
proof -
  let ?ls = "i_leaves t" and ?n = "length (i_leaves t)" and ?ht = "i_height t"
  let ?H = "two_to_one P" and ?lh = "IndexedMerkleLeaf_hash P" and ?e = IndexedMerkleLeaf_empty_leaf
  from inv have rep: "incremental_rep ?H ?lh ?e t" by (simp add: indexed_inv_def)
  obtain i t1 t2 where i: "i < ?n" "is_low_leaf k (?ls ! i)" "low_index t k = Ok (of_nat i)"
    and t1: "Incremental_update ?H ?lh (of_nat i) (new_low_leaf_of (?ls ! i) (of_nat ?n) k) t = (Ok t1 :: (IndexedMerkleTreeError, _) outcome)"
    and t2: "Incremental_push ?H ?lh (inserted_leaf_of (?ls ! i) k v) t1 = (Ok t2 :: (IndexedMerkleTreeError, _) outcome)"
      "i_height t2 = ?ht" "i_leaves t2 = inserted_leaves ?ls i k v" "indexed_inv P t2"
    by (rule insertion_steps [OF inv k room])
  from t2(4) have rep2: "incremental_rep ?H ?lh ?e t2" by (simp add: indexed_inv_def)
  have u: "unat (of_nat i :: u64) = i" "unat (of_nat ?n :: u64) = ?n" using i(1) length_leaves_u64 [OF rep] by simp_all
  have ht: "?ht \<le> 64" using rep by (simp add: incremental_rep_def)
  let ?f = "indexed_leaf_fun P ?ls" and ?f' = "indexed_leaf_fun P (inserted_leaves ?ls i k v)"
  let ?p = "\<lparr>ins_index = of_nat ?n, low_leaf_proof = siblings_of ?H ?f 0 ?ht i,
      leaf_proof = siblings_of ?H ?f' 0 ?ht ?n, low_leaf_index = of_nat i, prev_low_leaf = ?ls ! i\<rparr>"
  have ins: "Indexed_prove_and_insert P k v t = Ok (t2, ?p)" "Indexed_insert P k v t = Ok t2"
    using i room
    by (simp_all add: Indexed_prove_and_insert_def Indexed_insert_def Let_def i(3) Indexed_get_leaf_nth [OF inv i(1)]
        t1 t2 u Incremental_prove_rep [OF rep] Incremental_prove_rep [OF rep2])
  have low: "leaf_key (?ls ! i) < k" "k < leaf_next_key (?ls ! i) \<or> leaf_next_key (?ls ! i) = U256_default"
    using i(2) by (auto simp: is_low_leaf_def)
  have "Insertion_get_new_root P ?p k v (node ?H ?f ?ht 0) = Ok (node ?H ?f' ?ht 0)"
    using insertion_roots(1) [OF i(1) room, where P = P] insertion_roots(2,3) [OF i(1) room, where P = P and k = k and v = v]
      i(1) room low ht
    by (auto simp: Insertion_get_new_root_def Let_def not_le MerkleProof_verify_Ok_iff MerkleProof_get_root_root_of u)
  then show ?thesis
    using ins t2 Incremental_get_root_rep [OF rep] Incremental_get_root_rep [OF rep2] key_set_inserted [OF i(1)] map_key_inserted [OF i(1)]
    by (intro exI [of _ t2] exI [of _ ?p] exI [of _ "node ?H ?f ?ht 0"] exI [of _ "node ?H ?f' ?ht 0"]) simp
qed

lemma prove_and_insert_present:
  assumes "indexed_inv P t" "k \<in> key_set (i_leaves t)"
  shows "Indexed_prove_and_insert P k v t = Err KeyAlreadyExists"
  using low_index_cases [of t k] assms by (simp add: Indexed_prove_and_insert_def indexed_inv_def Let_def)

lemma prove_and_insert_full:
  assumes inv: "indexed_inv P t" and k: "k \<notin> key_set (i_leaves t)" and full: "\<not> length (i_leaves t) < 2 ^ i_height t"
  shows "Indexed_prove_and_insert P k v t = Panic"
proof -
  let ?ls = "i_leaves t" and ?n = "length (i_leaves t)"
  let ?H = "two_to_one P" and ?lh = "IndexedMerkleLeaf_hash P" and ?e = IndexedMerkleLeaf_empty_leaf
  from inv have rep: "incremental_rep ?H ?lh ?e t" and links: "links ?ls" by (auto simp: indexed_inv_def)
  from low_index_cases [OF links, of k] k obtain i where
    i: "i < ?n" "low_index t k = Ok (of_nat i)" by auto
  have u: "unat (of_nat i :: u64) = i" using i(1) length_leaves_u64 [OF rep] by simp
  have dom: "unat (of_nat i :: u64) < 2 ^ i_height t"
    using i(1) rep by (simp add: u incremental_rep_def)
  from Incremental_update_rep [where 'e = IndexedMerkleTreeError, OF rep,
      of "of_nat i" "new_low_leaf_of (?ls ! i) (of_nat ?n) k"] i(1) u obtain t1 where
    t1: "Incremental_update ?H ?lh (of_nat i) (new_low_leaf_of (?ls ! i) (of_nat ?n) k) t = (Ok t1 :: (IndexedMerkleTreeError, _) outcome)"
      "i_height t1 = i_height t" "length (i_leaves t1) = ?n" "incremental_rep ?H ?lh ?e t1" by auto
  from Incremental_push_rep [where 'e = IndexedMerkleTreeError, OF t1(4), of "inserted_leaf_of (?ls ! i) k v"] full t1(2,3)
  have "Incremental_push ?H ?lh (inserted_leaf_of (?ls ! i) k v) t1 = (Panic :: (IndexedMerkleTreeError, _) outcome)" by simp
  then show ?thesis
    by (simp add: Indexed_prove_and_insert_def Let_def i(2) Indexed_get_leaf_nth [OF inv i(1)] t1(1)
        Incremental_prove_rep [OF rep dom])
qed

lemma Indexed_new_inv:
  assumes "ht < 64"
  shows "\<exists>t. Indexed_new P ht = (Ok t :: ('e, _) outcome) \<and> indexed_inv P t \<and> i_height t = ht \<and>
    i_leaves t = [IndexedMerkleLeaf_default]"
proof -
  let ?t0 = "Incremental_new (two_to_one P) (IndexedMerkleLeaf_hash P) IndexedMerkleLeaf_empty_leaf ht"
  have "i_leaves ?t0 = []" "i_height ?t0 = ht" by (simp_all add: Incremental_new_def)
  with Incremental_push_rep [where 'e = 'e, OF Incremental_new_rep [OF assms], of "two_to_one P"
      "IndexedMerkleLeaf_hash P" IndexedMerkleLeaf_empty_leaf IndexedMerkleLeaf_default]
  obtain t where "Indexed_new P ht = (Ok t :: ('e, _) outcome)" "i_height t = ht" "i_leaves t = [IndexedMerkleLeaf_default]"
    "incremental_rep (two_to_one P) (IndexedMerkleLeaf_hash P) IndexedMerkleLeaf_empty_leaf t"
    by (auto simp: Indexed_new_def)
  moreover have "links [IndexedMerkleLeaf_default]"
    by (simp add: links_def IndexedMerkleLeaf_default_def succ_of_def key_set_def)
  ultimately show ?thesis by (auto simp: indexed_inv_def)
qed

section \<open>Contract of a set that accepts each key once\<close>

locale insert_once =
  fixes inv :: "'t \<Rightarrow> bool"
    and keys :: "'t \<Rightarrow> 'k list"
    and room :: "'t \<Rightarrow> nat"
    and ins :: "'k \<Rightarrow> 't \<Rightarrow> ('e, 't) outcome"
  assumes ins_new: "inv t \<Longrightarrow> k \<notin> set (keys t) \<Longrightarrow> 0 < room t \<Longrightarrow>
      \<exists>t'. ins k t = Ok t' \<and> inv t' \<and> keys t' = keys t @ [k] \<and> Suc (room t') = room t"
    and ins_present: "inv t \<Longrightarrow> k \<in> set (keys t) \<Longrightarrow> \<exists>e. ins k t = Err e"
    and ins_full: "inv t \<Longrightarrow> k \<notin> set (keys t) \<Longrightarrow> room t = 0 \<Longrightarrow> ins k t = Panic"
begin

lemma ins_okD:
  assumes "inv t" "ins k t = Ok t'"
  shows "inv t' \<and> k \<notin> set (keys t) \<and> keys t' = keys t @ [k] \<and> Suc (room t') = room t"
  using assms ins_new [of t k] ins_present [of t k] ins_full [of t k] by (cases "room t") fastforce+

lemma inserts_spec:
  assumes "inv t"
  shows "(case try_fold (\<lambda>t k. ins k t) t ks of
     Ok t' \<Rightarrow> inv t' \<and> keys t' = keys t @ ks \<and> distinct ks \<and> set ks \<inter> set (keys t) = {} \<and> length ks \<le> room t
   | _ \<Rightarrow> \<not> (distinct ks \<and> set ks \<inter> set (keys t) = {} \<and> length ks \<le> room t))"
  using assms
proof (induction ks arbitrary: t)
  case Nil
  then show ?case by simp
next
  case (Cons k ks)
  show ?case
  proof (cases "ins k t")
    case (Ok t')
    with ins_okD [OF Cons.prems Ok] Cons.IH [of t'] show ?thesis
      by (auto split: outcome.splits)
  next
    case (Err e)
    then have "k \<in> set (keys t) \<or> room t = 0" using ins_new [OF Cons.prems, of k] by fastforce
    with Err show ?thesis by auto
  next
    case Panic
    then have "k \<in> set (keys t) \<or> room t = 0" using ins_new [OF Cons.prems, of k] by fastforce
    with Panic show ?thesis by auto
  qed
qed

end

definition indexed_room :: "IndexedMerkleTree \<Rightarrow> nat" where
  "indexed_room t = 2 ^ i_height t - length (i_leaves t)"

definition indexed_keys :: "IndexedMerkleTree \<Rightarrow> U256 list" where
  "indexed_keys t = map leaf_key (i_leaves t)"

lemma set_indexed_keys [simp]: "set (indexed_keys t) = key_set (i_leaves t)"
  by (simp add: indexed_keys_def key_set_def)

interpretation indexed_set: insert_once "indexed_inv P" indexed_keys indexed_room
  "\<lambda>k t. and_then (Indexed_prove_and_insert P k v t) (\<lambda>(t', p). Ok t')" for P v
proof unfold_locales
  fix t k
  assume inv: "indexed_inv P t" and k: "k \<notin> set (indexed_keys t)" and "0 < indexed_room t"
  then have "k \<notin> key_set (i_leaves t)" "length (i_leaves t) < 2 ^ i_height t" by (simp_all add: indexed_room_def)
  from prove_and_insert_ok [OF inv this, of v] obtain t' p where
    "Indexed_prove_and_insert P k v t = Ok (t', p)" "indexed_inv P t'" "i_height t' = i_height t"
    "length (i_leaves t') = Suc (length (i_leaves t))" "map leaf_key (i_leaves t') = map leaf_key (i_leaves t) @ [k]" by blast
  with \<open>0 < indexed_room t\<close> show "\<exists>t'. and_then (Indexed_prove_and_insert P k v t) (\<lambda>(t', p). Ok t') = Ok t' \<and>
      indexed_inv P t' \<and> indexed_keys t' = indexed_keys t @ [k] \<and> Suc (indexed_room t') = indexed_room t"
    by (auto simp: indexed_room_def indexed_keys_def)
qed (auto simp: prove_and_insert_present indexed_room_def prove_and_insert_full not_less)

section \<open>Soundness of insertion proofs\<close>

lemma insertion_key_absent:
  assumes inv: "indexed_inv P t" and root: "Incremental_get_root t = (Ok r :: (unit, _) outcome)"
    and new: "Insertion_get_new_root P p k v r = Ok r'"
    and len: "length (low_leaf_proof p) = i_height t"
    and own: "Incremental_prove t (low_leaf_index p) = (Ok q :: (unit, _) outcome)"
    and pairs: "inj_on (case_prod (two_to_one P))
      (hashed_pairs (two_to_one P) (unat (low_leaf_index p)) (IndexedMerkleLeaf_hash P (prev_low_leaf p)) (low_leaf_proof p) \<union>
       hashed_pairs (two_to_one P) (unat (low_leaf_index p))
         (IndexedMerkleLeaf_hash P (Indexed_get_leaf t (low_leaf_index p))) q)"
    and leaves: "inj_on (IndexedMerkleLeaf_hash P) {prev_low_leaf p, Indexed_get_leaf t (low_leaf_index p)}"
  shows "k \<notin> key_set (i_leaves t)"
proof -
  let ?H = "two_to_one P" and ?lh = "IndexedMerkleLeaf_hash P" and ?j = "low_leaf_index p"
  from inv have rep: "incremental_rep ?H ?lh IndexedMerkleLeaf_empty_leaf t" and links: "links (i_leaves t)"
    by (auto simp: indexed_inv_def)
  have ht: "i_height t < 64" using rep by (simp add: incremental_rep_def)
  from new have low: "is_low_leaf k (prev_low_leaf p)" and
    "MerkleProof_verify ?H ?lh (low_leaf_proof p) (prev_low_leaf p) ?j r = Ok ()"
    by (auto simp: Insertion_get_new_root_def Let_def is_low_leaf_def not_le split: if_splits)
  with ht len have dom: "unat ?j < 2 ^ i_height t"
    and r: "root_of ?H (unat ?j) (?lh (prev_low_leaf p)) (low_leaf_proof p) = r"
    by (simp_all add: MerkleProof_verify_Ok_iff)
  let ?f = "indexed_leaf_fun P (i_leaves t)"
  have q: "q = siblings_of ?H ?f 0 (i_height t) (unat ?j)"
    using own by (simp add: Incremental_prove_rep [OF rep dom])
  have "root_of ?H (unat ?j) (?f (unat ?j)) q = node ?H ?f (i_height t) 0"
    using root_of_proof [OF dom, of ?H "?f (unat ?j)" ?f] by (simp only: q fun_upd_triv)
  moreover have "?f (unat ?j) = ?lh (Indexed_get_leaf t ?j)"
    by (simp add: incremental_leaf_fun_def Indexed_get_leaf_def Incremental_get_leaf_def)
  ultimately have "root_of ?H (unat ?j) (?lh (Indexed_get_leaf t ?j)) q = r"
    using root by (simp add: Incremental_get_root_rep [OF rep])
  with r root_of_binding [OF pairs] len q have "?lh (prev_low_leaf p) = ?lh (Indexed_get_leaf t ?j)" by simp
  with leaves have leaf: "prev_low_leaf p = Indexed_get_leaf t ?j" by (auto dest: inj_onD)
  show ?thesis
  proof (cases "unat ?j < length (i_leaves t)")
    case True
    then have "prev_low_leaf p \<in> set (i_leaves t)"
      by (simp add: leaf Indexed_get_leaf_def Incremental_get_leaf_def)
    from low_leaf_key_absent [OF links this low] show ?thesis .
  next
    case False
    then have "leaf_key (prev_low_leaf p) = U256_max"
      by (simp add: leaf Indexed_get_leaf_def Incremental_get_leaf_def IndexedMerkleLeaf_empty_leaf_def)
    with low U256_le_max [of k] show ?thesis by (simp add: is_low_leaf_def leD)
  qed
qed

section \<open>Properties\<close>

text \<open>
One insertion. In a tree that represents its leaves and whose leaves form the sorted linked
list, inserting a key that is present returns \<open>KeyAlreadyExists\<close>; inserting an absent key into a
tree with room succeeds, keeps the invariant, adds exactly that key, and returns an insertion proof
that verifies from the old root to the new root; a full tree panics. \<open>TooManyCandidates\<close> is never
returned.
\<close>

theorem indexed_insertion:
  assumes "indexed_inv P t"
  shows "if k \<in> key_set (i_leaves t) then Indexed_prove_and_insert P k v t = Err KeyAlreadyExists
    else if length (i_leaves t) < 2 ^ i_height t
    then \<exists>t' p r r'. Indexed_prove_and_insert P k v t = Ok (t', p) \<and> Indexed_insert P k v t = Ok t' \<and>
           indexed_inv P t' \<and> key_set (i_leaves t') = insert k (key_set (i_leaves t)) \<and>
           Incremental_get_root t = (Ok r :: (IndexedMerkleTreeError, _) outcome) \<and>
           Incremental_get_root t' = (Ok r' :: (IndexedMerkleTreeError, _) outcome) \<and>
           Insertion_verify P p k v r r' = Ok ()
    else Indexed_prove_and_insert P k v t = Panic"
  using prove_and_insert_present [OF assms, of k v] prove_and_insert_full [OF assms, of k v]
    prove_and_insert_ok [OF assms, of k v] by (fastforce simp: Insertion_verify_def)

theorem indexed_insertion_witness:
  "\<exists>t t' p. Indexed_new (\<lambda>_. PoseidonHashOut_default) 3 = (Ok t :: (unit, _) outcome) \<and>
     Indexed_prove_and_insert (\<lambda>_. PoseidonHashOut_default) (U256_from_u32 7) 0 t = Ok (t', p) \<and>
     key_set (i_leaves t') = {U256_from_u32 7, U256_default}"
proof -
  let ?P = "\<lambda>_. PoseidonHashOut_default"
  obtain t where "Indexed_new ?P 3 = (Ok t :: (unit, _) outcome)" and inv: "indexed_inv ?P t"
    "i_height t = 3" "i_leaves t = [IndexedMerkleLeaf_default]"
    using Indexed_new_inv [where 'e = unit, of 3 ?P] by auto
  moreover have "key_set [IndexedMerkleLeaf_default] = {U256_default}"
    by (simp add: key_set_def IndexedMerkleLeaf_default_def)
  moreover have "U256_from_u32 7 \<noteq> U256_default"
    by (simp add: U256_from_u32_def U256_default_def)
  ultimately show ?thesis
    using indexed_insertion [OF inv(1), of "U256_from_u32 7" 0] by auto
qed

text \<open>
C32: a whole run of insertions. From a new tree of height below 64, inserting a list of keys
succeeds exactly when the keys are pairwise distinct, none is zero (the sentinel's key) and they
fit beside the sentinel; the keys of the final tree are then zero followed by these keys in order.
\<close>

theorem indexed_insertions_iff:
  assumes "ht < 64" and "Indexed_new P ht = (Ok t :: (IndexedMerkleTreeError, _) outcome)"
  shows "(case try_fold (\<lambda>t k. and_then (Indexed_prove_and_insert P k v t) (\<lambda>(t', p). Ok t')) t ks of
     Ok t' \<Rightarrow> map leaf_key (i_leaves t') = U256_default # ks \<and>
       distinct ks \<and> U256_default \<notin> set ks \<and> length ks < 2 ^ ht
   | _ \<Rightarrow> \<not> (distinct ks \<and> U256_default \<notin> set ks \<and> length ks < 2 ^ ht))"
proof -
  from Indexed_new_inv [where 'e = IndexedMerkleTreeError, OF assms(1), of P] assms(2)
  have inv: "indexed_inv P t" and t: "i_height t = ht" "i_leaves t = [IndexedMerkleLeaf_default]" by auto
  have "indexed_keys t = [U256_default]" by (simp add: t indexed_keys_def IndexedMerkleLeaf_default_def)
  moreover obtain m where "(2 :: nat) ^ ht = Suc m" using not0_implies_Suc [of "2 ^ ht"] by auto
  then have "length ks \<le> indexed_room t \<longleftrightarrow> length ks < 2 ^ ht"
    by (simp add: indexed_room_def t less_Suc_eq_le)
  ultimately show ?thesis
    using indexed_set.inserts_spec [OF inv, where v = v and ks = ks] by (auto simp: indexed_keys_def [of "_ :: IndexedMerkleTree"] simp del: set_indexed_keys split: outcome.splits)
qed

theorem indexed_insertions_iff_witness:
  "\<exists>t. Indexed_new (\<lambda>_. PoseidonHashOut_default) 1 = (Ok t :: (IndexedMerkleTreeError, _) outcome) \<and>
     \<not> is_ok (try_fold (\<lambda>t k. and_then (Indexed_prove_and_insert (\<lambda>_. PoseidonHashOut_default) k 0 t) (\<lambda>(t', p). Ok t')) t
       [U256_from_u32 7, U256_from_u32 7]) \<and>
     is_ok (try_fold (\<lambda>t k. and_then (Indexed_prove_and_insert (\<lambda>_. PoseidonHashOut_default) k 0 t) (\<lambda>(t', p). Ok t')) t
       [U256_from_u32 7])"
proof -
  let ?P = "\<lambda>_. PoseidonHashOut_default"
  obtain t where t: "Indexed_new ?P 1 = (Ok t :: (IndexedMerkleTreeError, _) outcome)"
    using Indexed_new_inv [where 'e = IndexedMerkleTreeError, of 1 ?P] by auto
  have "U256_default \<noteq> U256_from_u32 7"
    by (simp add: U256_from_u32_def U256_default_def)
  then show ?thesis
    using indexed_insertions_iff [OF _ t, where v = 0 and ks = "[U256_from_u32 7, U256_from_u32 7]"]
      indexed_insertions_iff [OF _ t, where v = 0 and ks = "[U256_from_u32 7]"] t
    by (auto simp del: try_fold.simps split: outcome.splits)
qed

text \<open>
C31: an accepted insertion proof shows the key was absent. Let a tree satisfy the invariant and
have root \<open>r\<close>. If any insertion proof, however it was built, yields a new root from \<open>r\<close> for key
\<open>k\<close>, then \<open>k\<close> is not in the tree, provided the hash has no collision among the pairs hashed for the
claimed low leaf and for the tree's own path, and none between the two leaves. So no nullifier can
be inserted twice, not even by treating an empty slot as a low leaf.
\<close>

theorem insertion_proof_sound:
  assumes inv: "indexed_inv P t" and root: "Incremental_get_root t = (Ok r :: (unit, _) outcome)"
    and new: "Insertion_get_new_root P p k v r = Ok r'"
    and len: "length (low_leaf_proof p) = i_height t"
    and own: "Incremental_prove t (low_leaf_index p) = (Ok q :: (unit, _) outcome)"
    and pairs: "inj_on (case_prod (two_to_one P))
      (hashed_pairs (two_to_one P) (unat (low_leaf_index p)) (IndexedMerkleLeaf_hash P (prev_low_leaf p)) (low_leaf_proof p) \<union>
       hashed_pairs (two_to_one P) (unat (low_leaf_index p))
         (IndexedMerkleLeaf_hash P (Indexed_get_leaf t (low_leaf_index p))) q)"
    and leaves: "inj_on (IndexedMerkleLeaf_hash P) {prev_low_leaf p, Indexed_get_leaf t (low_leaf_index p)}"
  shows "k \<notin> key_set (i_leaves t)"
  using assms by (rule insertion_key_absent)

theorem insertion_proof_sound_witness:
  "\<exists>t. Indexed_new (\<lambda>_. PoseidonHashOut_default) 1 = (Ok t :: (unit, _) outcome) \<and>
     Insertion_get_new_root (\<lambda>_. PoseidonHashOut_default)
       \<lparr>ins_index = 1, low_leaf_proof = [PoseidonHashOut_default], leaf_proof = [PoseidonHashOut_default],
        low_leaf_index = 0, prev_low_leaf = IndexedMerkleLeaf_default\<rparr> (U256_from_u32 7) 0 PoseidonHashOut_default =
       Ok PoseidonHashOut_default \<and>
     U256_from_u32 7 \<notin> key_set (i_leaves t)"
proof -
  let ?P = "\<lambda>_ :: u64 list. PoseidonHashOut_default" and ?h = PoseidonHashOut_default
  let ?p = "\<lparr>ins_index = 1, low_leaf_proof = [?h], leaf_proof = [?h], low_leaf_index = 0,
      prev_low_leaf = IndexedMerkleLeaf_default\<rparr>"
  obtain t where t: "Indexed_new ?P 1 = (Ok t :: (unit, _) outcome)" and inv: "indexed_inv ?P t"
    "i_height t = 1" "i_leaves t = [IndexedMerkleLeaf_default]"
    using Indexed_new_inv [where 'e = unit, of 1 ?P] by auto
  have const: "two_to_one ?P = (\<lambda>a b. ?h)" "IndexedMerkleLeaf_hash ?P = (\<lambda>l. ?h)"
    by (simp_all add: fun_eq_iff two_to_one_def hash_inputs_u64_def IndexedMerkleLeaf_hash_def)
  have rep: "incremental_rep (two_to_one ?P) (IndexedMerkleLeaf_hash ?P) IndexedMerkleLeaf_empty_leaf t"
    using inv(1) by (simp add: indexed_inv_def)
  have root: "Incremental_get_root t = (Ok ?h :: (unit, _) outcome)"
    by (simp add: Incremental_get_root_rep [OF rep] inv const)
  have own: "Incremental_prove t 0 = (Ok [?h] :: (unit, _) outcome)"
    by (simp add: Incremental_prove_rep [OF rep, of 0] inv const incremental_leaf_fun_def)
  have key: "U256_default < U256_from_u32 7"
    by (intro U256_default_less) (simp add: U256_from_u32_def U256_default_def)
  have leaf: "leaf_key IndexedMerkleLeaf_default = U256_default" "leaf_next_key IndexedMerkleLeaf_default = U256_default"
    by (simp_all add: IndexedMerkleLeaf_default_def)
  have new: "Insertion_get_new_root ?P ?p (U256_from_u32 7) 0 ?h = Ok ?h"
    using key by (simp add: Insertion_get_new_root_def Let_def const leaf MerkleProof_verify_Ok_iff
        MerkleProof_get_root_root_of not_le)
  have "Indexed_get_leaf t 0 = IndexedMerkleLeaf_default"
    by (simp add: Indexed_get_leaf_def Incremental_get_leaf_def inv)
  with insertion_proof_sound [OF inv(1) root new, of "[?h]"] own t new show ?thesis
    by (simp add: inv(2) const)
qed

end
