(* ===== verification/Transfers.thy ===== *)
theory Transfers
  imports Poseidon_Out Common_Ids
begin

text \<open>
  The values that circulate between channels, of \<open>src/src/common\<close>: \<open>Transfer\<close> and
  \<open>SettledTransfer\<close> (\<open>transfer.rs\<close>), \<open>Deposit\<close> (\<open>deposit.rs\<close>), \<open>Withdrawal\<close> (\<open>withdrawal.rs\<close>) and
  the transactions of \<open>tx.rs\<close>, with their word encodings, hashes and nullifiers. The payload
  strings of \<open>CommonError\<close> are dropped. \<open>poseidon\<close> and \<open>keccak\<close> are the external hash functions;
  a length assertion on an encoding is a lemma on the length of that encoding.
\<close>

datatype CommonError =
    TxMerkleProofVerificationFailed
  | MissingData
  | InvalidData
  | NullifierAlreadyExists
  | InvalidSpentValue
  | GenesisBlockNotAllowed
  | InvalidBlock
  | InvalidWitness
  | InvalidProof

section \<open>Reading words\<close>

text \<open>\<open>u32::try_from\<close> on a 64-bit word, and the sub-slice \<open>&xs[a..b]\<close> of a slice long enough.\<close>

definition u32_try_from :: "u64 \<Rightarrow> u32 option" where
  "u32_try_from w = (if w > 0xFFFFFFFF then None else Some (ucast w))"

definition subslice :: "nat \<Rightarrow> nat \<Rightarrow> 'a list \<Rightarrow> 'a list" where
  "subslice a b xs = take (b - a) (drop a xs)"

lemma u32_try_from_Some_iff [simp]: "u32_try_from w = Some v \<longleftrightarrow> w = ucast v"
  using unat_lt_u32 [of v]
  by (auto simp: u32_try_from_def word_less_nat_alt word_unat_eq_iff unat_ucast_mod)

lemma subslice_append_next:
  "a \<le> b \<Longrightarrow> b \<le> c \<Longrightarrow> subslice a b xs @ subslice b c xs = subslice a c xs"
  using take_add [of "b - a" "c - b" "drop a xs"] by (simp add: subslice_def)

lemma subslice_whole [simp]: "length xs = b \<Longrightarrow> subslice 0 b xs = xs"
  by (simp add: subslice_def)

lemma subslice_single: "a < length xs \<Longrightarrow> subslice a (Suc a) xs = [xs ! a]"
  by (simp add: subslice_def Cons_nth_drop_Suc [symmetric])

lemma try_map_total:
  "(\<And>x. f x = Err e \<or> is_ok (f x)) \<Longrightarrow> try_map f xs = Err e \<or> is_ok (try_map f xs)"
proof (induction xs)
  case (Cons x xs)
  then have "f x = Err e \<or> is_ok (f x)" "try_map f xs = Err e \<or> is_ok (try_map f xs)" by blast+
  then show ?case by (auto simp: is_ok_iff)
qed simp

section \<open>Transfers\<close>

record Transfer =
  tr_recipient :: Bytes32
  tr_token_index :: u32
  tr_amount :: U256
  tr_aux_data :: Bytes32

definition TRANSFER_LEN :: nat where
  "TRANSFER_LEN = 8 + 1 + 8 + 8"

definition Transfer_empty_leaf :: Transfer where
  "Transfer_empty_leaf =
     \<lparr>tr_recipient = Bytes32_default, tr_token_index = 0, tr_amount = U256_default, tr_aux_data = Bytes32_default\<rparr>"

definition Transfer_to_u64_vec :: "Transfer \<Rightarrow> u64 list" where
  "Transfer_to_u64_vec t =
     to_u64_vec Bytes32_to_u32_vec (tr_recipient t) @ [ucast (tr_token_index t)] @
     to_u64_vec U256_to_u32_vec (tr_amount t) @ to_u64_vec Bytes32_to_u32_vec (tr_aux_data t)"

definition Transfer_poseidon_hash :: "(u64 list \<Rightarrow> PoseidonHashOut) \<Rightarrow> Transfer \<Rightarrow> PoseidonHashOut" where
  "Transfer_poseidon_hash poseidon t = hash_inputs_u64 poseidon (Transfer_to_u64_vec t)"

record SettledTransfer =
  st_inner :: Transfer
  st_from :: ChannelId
  st_transfer_index :: u32
  st_nonce :: u32

definition SettledTransfer_to_u64_vec :: "SettledTransfer \<Rightarrow> u64 list" where
  "SettledTransfer_to_u64_vec s =
     Transfer_to_u64_vec (st_inner s) @ ChannelId_to_u64_vec (st_from s) @
     [ucast (st_transfer_index s)] @ [ucast (st_nonce s)]"

definition SettledTransfer_poseidon_hash ::
  "(u64 list \<Rightarrow> PoseidonHashOut) \<Rightarrow> SettledTransfer \<Rightarrow> PoseidonHashOut" where
  "SettledTransfer_poseidon_hash poseidon s = hash_inputs_u64 poseidon (SettledTransfer_to_u64_vec s)"

definition SettledTransfer_nullifier ::
  "(u64 list \<Rightarrow> PoseidonHashOut) \<Rightarrow> SettledTransfer \<Rightarrow> ('e, Bytes32) outcome" where
  "SettledTransfer_nullifier poseidon s = Bytes32_from_hash_out (SettledTransfer_poseidon_hash poseidon s)"

section \<open>Deposits\<close>

record Deposit =
  dep_deposit_index :: U63
  dep_block_number :: BlockNumber
  dep_depositor :: Address
  dep_recipient :: Bytes32
  dep_token_index :: u32
  dep_amount :: U256
  dep_aux_data :: Bytes32

definition Deposit_empty_leaf :: Deposit where
  "Deposit_empty_leaf =
     \<lparr>dep_deposit_index = U63 0, dep_block_number = U63 0, dep_depositor = Address_default,
      dep_recipient = Bytes32_default, dep_token_index = 0, dep_amount = U256_default, dep_aux_data = Bytes32_default\<rparr>"

definition Deposit_to_u64_vec :: "Deposit \<Rightarrow> u64 list" where
  "Deposit_to_u64_vec d =
     [as_u64 (dep_deposit_index d), as_u64 (dep_block_number d)] @
     to_u64_vec Address_to_u32_vec (dep_depositor d) @ to_u64_vec Bytes32_to_u32_vec (dep_recipient d) @
     [ucast (dep_token_index d)] @ to_u64_vec U256_to_u32_vec (dep_amount d) @
     to_u64_vec Bytes32_to_u32_vec (dep_aux_data d)"

definition Deposit_poseidon_hash :: "(u64 list \<Rightarrow> PoseidonHashOut) \<Rightarrow> Deposit \<Rightarrow> PoseidonHashOut" where
  "Deposit_poseidon_hash poseidon d = hash_inputs_u64 poseidon (Deposit_to_u64_vec d)"

definition Deposit_nullifier :: "(u64 list \<Rightarrow> PoseidonHashOut) \<Rightarrow> Deposit \<Rightarrow> ('e, Bytes32) outcome" where
  "Deposit_nullifier poseidon d = Bytes32_from_hash_out (Deposit_poseidon_hash poseidon d)"

definition Deposit_hash_with_prev_hash ::
  "(u32 list \<Rightarrow> u32 list) \<Rightarrow> Deposit \<Rightarrow> Bytes32 \<Rightarrow> ('e, Bytes32) outcome" where
  "Deposit_hash_with_prev_hash keccak d prev_hash =
     unwrap (Bytes32_from_u32_slice (keccak
       (Bytes32_to_u32_vec prev_hash @ Address_to_u32_vec (dep_depositor d) @ Bytes32_to_u32_vec (dep_recipient d) @
        [dep_token_index d] @ U256_to_u32_vec (dep_amount d) @ Bytes32_to_u32_vec (dep_aux_data d))))"

section \<open>Withdrawals\<close>

record Withdrawal =
  wd_recipient :: Address
  wd_token_index :: u32
  wd_amount :: U256
  wd_nullifier :: Bytes32
  wd_aux_data :: Bytes32

definition WITHDRAWAL_LEN :: nat where
  "WITHDRAWAL_LEN = 5 + 1 + 8 + 2 * 8"

definition Withdrawal_to_u32_vec :: "Withdrawal \<Rightarrow> u32 list" where
  "Withdrawal_to_u32_vec w =
     Address_to_u32_vec (wd_recipient w) @ [wd_token_index w] @ U256_to_u32_vec (wd_amount w) @
     Bytes32_to_u32_vec (wd_nullifier w) @ Bytes32_to_u32_vec (wd_aux_data w)"

definition Withdrawal_from_u32_slice :: "u32 list \<Rightarrow> (CommonError, Withdrawal) outcome" where
  "Withdrawal_from_u32_slice xs =
     (if length xs \<noteq> WITHDRAWAL_LEN then Err InvalidData
      else and_then (unwrap (Address_from_u32_slice (subslice 0 5 xs))) (\<lambda>recipient.
           let token_index = xs ! 5 in
           and_then (unwrap (U256_from_u32_slice (subslice 6 14 xs))) (\<lambda>amount.
           and_then (unwrap (Bytes32_from_u32_slice (subslice 14 22 xs))) (\<lambda>nullifier.
           and_then (unwrap (Bytes32_from_u32_slice (subslice 22 30 xs))) (\<lambda>aux_data.
             Ok \<lparr>wd_recipient = recipient, wd_token_index = token_index, wd_amount = amount,
                 wd_nullifier = nullifier, wd_aux_data = aux_data\<rparr>)))))"

definition Withdrawal_from_u64_slice :: "u64 list \<Rightarrow> (CommonError, Withdrawal) outcome" where
  "Withdrawal_from_u64_slice xs =
     and_then (try_map (\<lambda>x. ok_or InvalidData (u32_try_from x)) xs) Withdrawal_from_u32_slice"

definition Withdrawal_hash_with_prev_hash ::
  "(u32 list \<Rightarrow> u32 list) \<Rightarrow> Withdrawal \<Rightarrow> Bytes32 \<Rightarrow> ('e, Bytes32) outcome" where
  "Withdrawal_hash_with_prev_hash keccak w prev_withdrawal_hash =
     unwrap (Bytes32_from_u32_slice (keccak (Bytes32_to_u32_vec prev_withdrawal_hash @ Withdrawal_to_u32_vec w)))"

section \<open>Transactions\<close>

record Tx =
  tx_transfer_tree_root :: PoseidonHashOut
  tx_nonce :: u32

definition TX_LEN :: nat where
  "TX_LEN = 4 + 1"

definition Tx_to_u64_vec :: "Tx \<Rightarrow> u64 list" where
  "Tx_to_u64_vec t = hash_elements (tx_transfer_tree_root t) @ [ucast (tx_nonce t)]"

definition Tx_from_u64_slice :: "u64 list \<Rightarrow> (CommonError, Tx) outcome" where
  "Tx_from_u64_slice input =
     (if length input \<noteq> TX_LEN then Err InvalidData
      else and_then (map_err (\<lambda>_. InvalidData) (PoseidonHashOut_from_u64_slice (subslice 0 4 input))) (\<lambda>transfer_tree_root.
           and_then (ok_or InvalidData (u32_try_from (input ! 4))) (\<lambda>nonce.
             Ok \<lparr>tx_transfer_tree_root = transfer_tree_root, tx_nonce = nonce\<rparr>)))"

definition Tx_empty_leaf :: Tx where
  "Tx_empty_leaf = \<lparr>tx_transfer_tree_root = PoseidonHashOut_default, tx_nonce = 0\<rparr>"

definition Tx_hash :: "(u64 list \<Rightarrow> PoseidonHashOut) \<Rightarrow> Tx \<Rightarrow> PoseidonHashOut" where
  "Tx_hash poseidon t = hash_inputs_u64 poseidon (Tx_to_u64_vec t)"

datatype TxClass = UserTransfer | ChannelActionClass

fun TxClass_as_u32 :: "TxClass \<Rightarrow> u32" where
  "TxClass_as_u32 UserTransfer = 0"
| "TxClass_as_u32 ChannelActionClass = 1"

definition TxClass_from_u32 :: "u32 \<Rightarrow> (CommonError, TxClass) outcome" where
  "TxClass_from_u32 v = (if v = 0 then Ok UserTransfer else if v = 1 then Ok ChannelActionClass else Err InvalidData)"

datatype ChannelActionKind = InterChannelSend | ChannelClose | MemberSetUpdate

fun ChannelActionKind_as_u32 :: "ChannelActionKind \<Rightarrow> u32" where
  "ChannelActionKind_as_u32 InterChannelSend = 0"
| "ChannelActionKind_as_u32 ChannelClose = 1"
| "ChannelActionKind_as_u32 MemberSetUpdate = 2"

definition ChannelActionKind_from_u32 :: "u32 \<Rightarrow> (CommonError, ChannelActionKind) outcome" where
  "ChannelActionKind_from_u32 v =
     (if v = 0 then Ok InterChannelSend else if v = 1 then Ok ChannelClose
      else if v = 2 then Ok MemberSetUpdate else Err InvalidData)"

record ChannelAction =
  ca_kind :: ChannelActionKind
  ca_source_channel_id :: ChannelId
  ca_destination_channel_id :: ChannelId
  ca_tx_hash :: Bytes32
  ca_seal :: Bytes32
  ca_payload_hash :: PoseidonHashOut

definition MEMBER_SET_UPDATE_DOMAIN :: u32 where
  "MEMBER_SET_UPDATE_DOMAIN = 0x494d4d53"

definition member_set_update_payload ::
  "(u64 list \<Rightarrow> PoseidonHashOut) \<Rightarrow> PoseidonHashOut \<Rightarrow> PoseidonHashOut \<Rightarrow> PoseidonHashOut" where
  "member_set_update_payload poseidon prev_member_root new_member_root =
     hash_inputs_u64 poseidon
       ([ucast MEMBER_SET_UPDATE_DOMAIN] @ hash_elements prev_member_root @ hash_elements new_member_root)"

definition CHANNEL_ACTION_LEN :: nat where
  "CHANNEL_ACTION_LEN = 1 + 1 + 1 + 8 + 8 + 4"

definition ChannelAction_to_u64_vec :: "ChannelAction \<Rightarrow> u64 list" where
  "ChannelAction_to_u64_vec a =
     [ucast (ChannelActionKind_as_u32 (ca_kind a))] @ ChannelId_to_u64_vec (ca_source_channel_id a) @
     ChannelId_to_u64_vec (ca_destination_channel_id a) @ to_u64_vec Bytes32_to_u32_vec (ca_tx_hash a) @
     to_u64_vec Bytes32_to_u32_vec (ca_seal a) @ hash_elements (ca_payload_hash a)"

definition ChannelAction_from_u64_slice :: "u64 list \<Rightarrow> (CommonError, ChannelAction) outcome" where
  "ChannelAction_from_u64_slice input =
     (if length input \<noteq> CHANNEL_ACTION_LEN then Err InvalidData
      else
        and_then (ok_or InvalidData (u32_try_from (input ! 0))) (\<lambda>kind_word.
        and_then (ChannelActionKind_from_u32 kind_word) (\<lambda>kind.
        and_then (if kind = ChannelClose
                  then if input ! 2 \<noteq> 0 then Err InvalidData else Ok ChannelId_dummy
                  else map_err (\<lambda>_. InvalidData) (ChannelId_new (input ! 2))) (\<lambda>destination_channel_id.
        and_then (map_err (\<lambda>_. InvalidData) (ChannelId_new (input ! 1))) (\<lambda>source_channel_id.
        and_then (map_err (\<lambda>_. InvalidData) (from_u64_slice Bytes32_from_u32_slice (subslice 3 11 input))) (\<lambda>tx_hash.
        and_then (map_err (\<lambda>_. InvalidData) (from_u64_slice Bytes32_from_u32_slice (subslice 11 19 input))) (\<lambda>seal.
        and_then (map_err (\<lambda>_. InvalidData) (PoseidonHashOut_from_u64_slice (subslice 19 23 input))) (\<lambda>payload_hash.
          Ok \<lparr>ca_kind = kind, ca_source_channel_id = source_channel_id,
              ca_destination_channel_id = destination_channel_id, ca_tx_hash = tx_hash, ca_seal = seal,
              ca_payload_hash = payload_hash\<rparr>))))))))"

definition ChannelAction_default :: ChannelAction where
  "ChannelAction_default =
     \<lparr>ca_kind = InterChannelSend, ca_source_channel_id = ChannelId_dummy, ca_destination_channel_id = ChannelId_dummy,
      ca_tx_hash = Bytes32_default, ca_seal = Bytes32_default, ca_payload_hash = PoseidonHashOut_default\<rparr>"

definition ChannelAction_hash :: "(u64 list \<Rightarrow> PoseidonHashOut) \<Rightarrow> ChannelAction \<Rightarrow> PoseidonHashOut" where
  "ChannelAction_hash poseidon a = hash_inputs_u64 poseidon (ChannelAction_to_u64_vec a)"

record TxV2 =
  v2_tx_class :: TxClass
  v2_transfer_tree_root :: PoseidonHashOut
  v2_nonce :: u32
  v2_channel_action_root :: PoseidonHashOut

definition TX_V2_LEN :: nat where
  "TX_V2_LEN = 1 + 4 + 1 + 4"

definition TxV2_to_u64_vec :: "TxV2 \<Rightarrow> u64 list" where
  "TxV2_to_u64_vec t =
     [ucast (TxClass_as_u32 (v2_tx_class t))] @ hash_elements (v2_transfer_tree_root t) @
     [ucast (v2_nonce t)] @ hash_elements (v2_channel_action_root t)"

definition TxV2_from_u64_slice :: "u64 list \<Rightarrow> (CommonError, TxV2) outcome" where
  "TxV2_from_u64_slice input =
     (if length input \<noteq> TX_V2_LEN then Err InvalidData
      else
        and_then (ok_or InvalidData (u32_try_from (input ! 0))) (\<lambda>class_word.
        and_then (TxClass_from_u32 class_word) (\<lambda>tx_class.
        and_then (map_err (\<lambda>_. InvalidData) (PoseidonHashOut_from_u64_slice (subslice 1 5 input))) (\<lambda>transfer_tree_root.
        and_then (ok_or InvalidData (u32_try_from (input ! 5))) (\<lambda>nonce.
        and_then (map_err (\<lambda>_. InvalidData) (PoseidonHashOut_from_u64_slice (subslice 6 10 input))) (\<lambda>channel_action_root.
          Ok \<lparr>v2_tx_class = tx_class, v2_transfer_tree_root = transfer_tree_root, v2_nonce = nonce,
              v2_channel_action_root = channel_action_root\<rparr>))))))"

definition TxV2_empty_leaf :: TxV2 where
  "TxV2_empty_leaf =
     \<lparr>v2_tx_class = UserTransfer, v2_transfer_tree_root = PoseidonHashOut_default, v2_nonce = 0,
      v2_channel_action_root = PoseidonHashOut_default\<rparr>"

definition TxV2_hash :: "(u64 list \<Rightarrow> PoseidonHashOut) \<Rightarrow> TxV2 \<Rightarrow> PoseidonHashOut" where
  "TxV2_hash poseidon t = hash_inputs_u64 poseidon (TxV2_to_u64_vec t)"

section \<open>Decoders accept exactly the encodings\<close>

lemma length_Transfer_to_u64_vec [simp]: "length (Transfer_to_u64_vec t) = TRANSFER_LEN"
  by (simp add: Transfer_to_u64_vec_def TRANSFER_LEN_def)

lemma length_Tx_to_u64_vec [simp]: "length (Tx_to_u64_vec t) = TX_LEN"
  by (simp add: Tx_to_u64_vec_def TX_LEN_def)

lemma length_Withdrawal_to_u32_vec [simp]: "length (Withdrawal_to_u32_vec w) = WITHDRAWAL_LEN"
  by (simp add: Withdrawal_to_u32_vec_def WITHDRAWAL_LEN_def)

lemma length_ChannelId_to_u64_vec [simp]: "length (ChannelId_to_u64_vec c) = 1"
  by (simp add: ChannelId_to_u64_vec_def)

lemma length_ChannelAction_to_u64_vec: "length (ChannelAction_to_u64_vec a) = CHANNEL_ACTION_LEN"
  by (simp add: ChannelAction_to_u64_vec_def CHANNEL_ACTION_LEN_def)

lemma length_TxV2_to_u64_vec: "length (TxV2_to_u64_vec t) = TX_V2_LEN"
  by (simp add: TxV2_to_u64_vec_def TX_V2_LEN_def)

lemma TxClass_from_u32_Ok_iff: "TxClass_from_u32 v = Ok c \<longleftrightarrow> v = TxClass_as_u32 c"
  by (cases c) (auto simp: TxClass_from_u32_def)

lemma ChannelActionKind_from_u32_Ok_iff: "ChannelActionKind_from_u32 v = Ok k \<longleftrightarrow> v = ChannelActionKind_as_u32 k"
  by (cases k) (auto simp: ChannelActionKind_from_u32_def)

text \<open>Splitting a word list at the field boundaries of its encoding.\<close>

lemma append_eq_drop:
  assumes "length xs = n" "a + n \<le> length zs"
  shows "xs @ ys = drop a zs \<longleftrightarrow> xs = subslice a (a + n) zs \<and> ys = drop (a + n) zs"
  using assms by (auto simp: append_eq_conv_conj subslice_def add.commute)

lemma last_eq_drop:
  assumes "length xs = n" "a + n = length zs"
  shows "xs = drop a zs \<longleftrightarrow> xs = subslice a (a + n) zs"
  using assms by (auto simp: subslice_def)

lemma Cons_eq_drop:
  assumes "a < length zs"
  shows "y # ys = drop a zs \<longleftrightarrow> y = zs ! a \<and> ys = drop (Suc a) zs"
  using Cons_nth_drop_Suc [OF assms] by (metis list.inject)

lemma Nil_eq_drop: "[] = drop a zs \<longleftrightarrow> length zs \<le> a"
  by auto

lemma eq_drop_0: "xs = zs \<longleftrightarrow> xs = drop 0 zs"
  by simp

lemmas split_encoding = append_eq_drop Cons_eq_drop Nil_eq_drop

lemma Tx_from_u64_slice_Ok_iff:
  "Tx_from_u64_slice xs = Ok t \<longleftrightarrow> canonical (tx_transfer_tree_root t) \<and> Tx_to_u64_vec t = xs"
proof (cases "length xs = TX_LEN")
  case True
  then have "length xs = 5" by (simp add: TX_LEN_def)
  then have "Tx_to_u64_vec t = xs \<longleftrightarrow> hash_elements (tx_transfer_tree_root t) = subslice 0 4 xs \<and> ucast (tx_nonce t) = xs ! 4"
    by (subst eq_drop_0) (simp add: Tx_to_u64_vec_def split_encoding del: drop0)
  with True show ?thesis
    by (cases t) (auto simp: Tx_from_u64_slice_def PoseidonHashOut_from_u64_slice_Ok_iff)
qed (auto simp: Tx_from_u64_slice_def)

lemma TxV2_from_u64_slice_Ok_iff:
  "TxV2_from_u64_slice xs = Ok t \<longleftrightarrow>
     canonical (v2_transfer_tree_root t) \<and> canonical (v2_channel_action_root t) \<and> TxV2_to_u64_vec t = xs"
proof (cases "length xs = TX_V2_LEN")
  case True
  then have "length xs = 10" by (simp add: TX_V2_LEN_def)
  then have "TxV2_to_u64_vec t = xs \<longleftrightarrow> ucast (TxClass_as_u32 (v2_tx_class t)) = xs ! 0 \<and>
      hash_elements (v2_transfer_tree_root t) = subslice 1 5 xs \<and> ucast (v2_nonce t) = xs ! 5 \<and>
      hash_elements (v2_channel_action_root t) = subslice 6 10 xs"
    by (subst eq_drop_0)
      (simp add: TxV2_to_u64_vec_def split_encoding last_eq_drop [of "hash_elements _", OF length_hash_elements] del: drop0)
  with True show ?thesis
    by (cases t) (auto simp: TxV2_from_u64_slice_def PoseidonHashOut_from_u64_slice_Ok_iff TxClass_from_u32_Ok_iff)
qed (auto simp: TxV2_from_u64_slice_def length_TxV2_to_u64_vec)

text \<open>The channel identifiers an action may carry: none but a close may leave the destination zero.\<close>

definition ChannelAction_valid :: "ChannelAction \<Rightarrow> bool" where
  "ChannelAction_valid a \<longleftrightarrow> channel_id_of (ca_source_channel_id a) \<noteq> 0 \<and>
     (channel_id_of (ca_destination_channel_id a) = 0 \<longleftrightarrow> ca_kind a = ChannelClose) \<and>
     canonical (ca_payload_hash a)"

lemma ChannelAction_from_u64_slice_Ok_iff:
  "ChannelAction_from_u64_slice xs = Ok a \<longleftrightarrow> ChannelAction_valid a \<and> ChannelAction_to_u64_vec a = xs"
proof (cases "length xs = CHANNEL_ACTION_LEN")
  case True
  then have "length xs = 23" by (simp add: CHANNEL_ACTION_LEN_def)
  then have "ChannelAction_to_u64_vec a = xs \<longleftrightarrow> ucast (ChannelActionKind_as_u32 (ca_kind a)) = xs ! 0 \<and>
      ChannelId_as_u64 (ca_source_channel_id a) = xs ! 1 \<and> ChannelId_as_u64 (ca_destination_channel_id a) = xs ! 2 \<and>
      to_u64_vec Bytes32_to_u32_vec (ca_tx_hash a) = subslice 3 11 xs \<and>
      to_u64_vec Bytes32_to_u32_vec (ca_seal a) = subslice 11 19 xs \<and>
      hash_elements (ca_payload_hash a) = subslice 19 23 xs"
    by (subst eq_drop_0)
      (simp add: ChannelAction_to_u64_vec_def ChannelId_to_u64_vec_def ChannelId_as_u64_def split_encoding
        last_eq_drop [of "hash_elements _", OF length_hash_elements] numeral_2_eq_2 [symmetric] del: drop0)
  with True show ?thesis
    by (cases a) (auto simp: ChannelAction_from_u64_slice_def PoseidonHashOut_from_u64_slice_Ok_iff
        ChannelActionKind_from_u32_Ok_iff ChannelId_new_Ok_iff bytes32.from_u64_ok_iff ChannelAction_valid_def
        ChannelId_dummy_def ChannelId_as_u64_def intro: ChannelId.expand split: if_splits)
qed (auto simp: ChannelAction_from_u64_slice_def length_ChannelAction_to_u64_vec)

lemma Withdrawal_from_u32_slice_Ok_iff:
  "Withdrawal_from_u32_slice xs = Ok w \<longleftrightarrow> Withdrawal_to_u32_vec w = xs"
proof (cases "length xs = WITHDRAWAL_LEN")
  case True
  then have "length xs = 30" by (simp add: WITHDRAWAL_LEN_def)
  then have "Withdrawal_to_u32_vec w = xs \<longleftrightarrow> Address_to_u32_vec (wd_recipient w) = subslice 0 5 xs \<and>
      wd_token_index w = xs ! 5 \<and> U256_to_u32_vec (wd_amount w) = subslice 6 14 xs \<and>
      Bytes32_to_u32_vec (wd_nullifier w) = subslice 14 22 xs \<and> Bytes32_to_u32_vec (wd_aux_data w) = subslice 22 30 xs"
    by (subst eq_drop_0)
      (simp add: Withdrawal_to_u32_vec_def split_encoding last_eq_drop [of "Bytes32_to_u32_vec _", OF bytes32.length_to] del: drop0)
  with True show ?thesis
    by (cases w) (auto simp: Withdrawal_from_u32_slice_def Let_def address.from_ok_iff u256.from_ok_iff bytes32.from_ok_iff)
qed (auto simp: Withdrawal_from_u32_slice_def)

lemma length_subslice: "b \<le> length xs \<Longrightarrow> length (subslice a b xs) = b - a"
  by (simp add: subslice_def)

lemma Withdrawal_from_u32_slice_total:
  "length xs = WITHDRAWAL_LEN \<Longrightarrow> \<exists>w. Withdrawal_from_u32_slice xs = Ok w"
proof -
  assume len: "length xs = WITHDRAWAL_LEN"
  then have "length xs = 30" by (simp add: WITHDRAWAL_LEN_def)
  then obtain a u n x where "Address_from_u32_slice (subslice 0 5 xs) = Ok a" "U256_from_u32_slice (subslice 6 14 xs) = Ok u"
    "Bytes32_from_u32_slice (subslice 14 22 xs) = Ok n" "Bytes32_from_u32_slice (subslice 22 30 xs) = Ok x"
    using address.from_total [of "subslice 0 5 xs"] u256.from_total [of "subslice 6 14 xs"]
      bytes32.from_total [of "subslice 14 22 xs"] bytes32.from_total [of "subslice 22 30 xs"]
    by (auto simp: length_subslice)
  with len show ?thesis by (simp add: Withdrawal_from_u32_slice_def)
qed

section \<open>Encodings are injective, and what the sponge sees of them\<close>

lemma from_canonical_u64_id: "unat w < 9223372036854775808 \<Longrightarrow> from_canonical_u64 w = w"
  by (simp add: from_canonical_u64_def GOLDILOCKS_ORDER_def word_unat_eq_iff unat_mod)

lemma map_from_canonical_small:
  "(\<And>w. w \<in> set ws \<Longrightarrow> unat w < 9223372036854775808) \<Longrightarrow> map from_canonical_u64 ws = ws"
  by (simp add: from_canonical_u64_id map_idI)

lemma u64_of_u32_small: "unat (ucast (v :: u32) :: u64) < 9223372036854775808"
  using unat_lt_u32 [of v] by simp

lemma limb_words_small:
  "w \<in> set (to_u64_vec U256_to_u32_vec x) \<Longrightarrow> unat w < 9223372036854775808"
  "w \<in> set (to_u64_vec Bytes32_to_u32_vec y) \<Longrightarrow> unat w < 9223372036854775808"
  "w \<in> set (to_u64_vec Address_to_u32_vec z) \<Longrightarrow> unat w < 9223372036854775808"
  by (auto dest: u256.to_u64_small bytes32.to_u64_small address.to_u64_small)

lemma ucast_u32_u64_inject [simp]: "(ucast (a :: u32) :: u64) = ucast b \<longleftrightarrow> a = b"
  by (metis ucast_u32_u64_u32)

lemma Transfer_to_u64_vec_inject [simp]: "Transfer_to_u64_vec s = Transfer_to_u64_vec t \<longleftrightarrow> s = t"
  by (cases s; cases t) (auto simp: Transfer_to_u64_vec_def bytes32.to_u64_inj u256.to_u64_inj)

lemma SettledTransfer_to_u64_vec_inject: "SettledTransfer_to_u64_vec s = SettledTransfer_to_u64_vec t \<longleftrightarrow> s = t"
  by (cases s; cases t) (auto simp: SettledTransfer_to_u64_vec_def ChannelId_to_u64_vec_def intro: ChannelId.expand)

lemma Deposit_to_u64_vec_inject: "Deposit_to_u64_vec s = Deposit_to_u64_vec t \<longleftrightarrow> s = t"
  by (cases s; cases t)
    (auto simp: Deposit_to_u64_vec_def bytes32.to_u64_inj u256.to_u64_inj address.to_u64_inj intro: U63.expand)

lemma SettledTransfer_words:
  "map from_canonical_u64 (SettledTransfer_to_u64_vec s) = SettledTransfer_to_u64_vec s"
  "length (SettledTransfer_to_u64_vec s) = 28"
  by (rule map_from_canonical_small)
    (auto simp: SettledTransfer_to_u64_vec_def Transfer_to_u64_vec_def ChannelId_to_u64_vec_def TRANSFER_LEN_def
      simp del: unat_u32_u64 intro: limb_words_small u64_of_u32_small)

definition Deposit_valid :: "Deposit \<Rightarrow> bool" where
  "Deposit_valid d \<longleftrightarrow> U63_valid (dep_deposit_index d) \<and> U63_valid (dep_block_number d)"

lemma Deposit_words:
  "Deposit_valid d \<Longrightarrow> map from_canonical_u64 (Deposit_to_u64_vec d) = Deposit_to_u64_vec d"
  "length (Deposit_to_u64_vec d) = 32"
  by (rule map_from_canonical_small)
    (auto simp: Deposit_to_u64_vec_def Deposit_valid_def U63_valid_unat
      simp del: unat_u32_u64 intro: limb_words_small u64_of_u32_small)

lemma Bytes32_from_hash_out_total: "\<exists>b. Bytes32_from_hash_out h = Ok b"
proof -
  have "length (concat (map split_u64 (hash_elements h))) = 8" by (cases h) (simp add: split_u64_def Let_def)
  from bytes32.from_total [OF this] show ?thesis by (auto simp: Bytes32_from_hash_out_def)
qed

lemma Bytes32_from_hash_out_eq_iff:
  "Bytes32_from_hash_out h = (Bytes32_from_hash_out k :: ('e, Bytes32) outcome) \<longleftrightarrow> h = k"
proof -
  from Bytes32_from_hash_out_total [of h] obtain b where "Bytes32_from_hash_out h = (Ok b :: ('e, _) outcome)" by blast
  then show ?thesis
    using Bytes32_from_hash_out_Ok_iff [where 'a = 'e, of h b] Bytes32_from_hash_out_Ok_iff [where 'a = 'e, of k b] by auto
qed

text \<open>What an account can be credited for: a settled transfer or a deposit.\<close>

datatype incoming = Incoming_transfer SettledTransfer | Incoming_deposit Deposit

fun incoming_nullifier :: "(u64 list \<Rightarrow> PoseidonHashOut) \<Rightarrow> incoming \<Rightarrow> ('e, Bytes32) outcome" where
  "incoming_nullifier P (Incoming_transfer s) = SettledTransfer_nullifier P s"
| "incoming_nullifier P (Incoming_deposit d) = Deposit_nullifier P d"

fun incoming_words :: "incoming \<Rightarrow> u64 list" where
  "incoming_words (Incoming_transfer s) = SettledTransfer_to_u64_vec s"
| "incoming_words (Incoming_deposit d) = Deposit_to_u64_vec d"

fun incoming_valid :: "incoming \<Rightarrow> bool" where
  "incoming_valid (Incoming_transfer s) = True"
| "incoming_valid (Incoming_deposit d) = Deposit_valid d"

lemma incoming_words_inject: "incoming_words a = incoming_words b \<longleftrightarrow> a = b"
proof -
  have neq: "SettledTransfer_to_u64_vec s \<noteq> Deposit_to_u64_vec d" for s d
    using SettledTransfer_words(2) [of s] Deposit_words(2) [of d] by auto
  show ?thesis
    by (cases a; cases b)
      (simp_all add: SettledTransfer_to_u64_vec_inject Deposit_to_u64_vec_inject neq neq [symmetric])
qed

lemma incoming_nullifier_words:
  assumes "incoming_valid a"
  shows "incoming_nullifier P a = Bytes32_from_hash_out (P (incoming_words a))"
proof (cases a)
  case (Incoming_transfer s)
  then show ?thesis
    by (simp only: incoming_nullifier.simps incoming_words.simps SettledTransfer_nullifier_def
        SettledTransfer_poseidon_hash_def hash_inputs_u64_def SettledTransfer_words)
next
  case (Incoming_deposit d)
  then have "Deposit_valid d" using assms by simp
  with Incoming_deposit show ?thesis
    by (simp only: incoming_nullifier.simps incoming_words.simps Deposit_nullifier_def
        Deposit_poseidon_hash_def hash_inputs_u64_def Deposit_words)
qed

section \<open>Properties\<close>

text \<open>
C34: a nullifier identifies one incoming credit. Two settled transfers or deposits (whose 63-bit
counters are in range) have the same nullifier if and only if they are the same item, unless the
sponge collides on their two encodings. In particular a transfer and a deposit never share one, the
nullifier of a transfer depends on the sender's nonce and transfer index and not on the block that
settles it, and deriving a nullifier never panics.
\<close>

theorem nullifier_binding:
  assumes "incoming_valid a" "incoming_valid b" "inj_on P {incoming_words a, incoming_words b}"
  shows "(incoming_nullifier P a = (incoming_nullifier P b :: ('e, Bytes32) outcome) \<longleftrightarrow> a = b) \<and>
    (\<exists>n. incoming_nullifier P a = (Ok n :: ('e, Bytes32) outcome))"
proof -
  have "P (incoming_words a) = P (incoming_words b) \<longleftrightarrow> incoming_words a = incoming_words b"
    using inj_on_eq_iff [OF assms(3)] by simp
  then show ?thesis
    using Bytes32_from_hash_out_total [of "P (incoming_words a)"]
    by (simp add: incoming_nullifier_words [OF assms(1)] incoming_nullifier_words [OF assms(2)]
        Bytes32_from_hash_out_eq_iff incoming_words_inject)
qed

theorem nullifier_binding_witness:
  "incoming_nullifier hash_out_of_list (Incoming_deposit Deposit_empty_leaf) \<noteq>
   (incoming_nullifier hash_out_of_list
     (Incoming_deposit (Deposit_empty_leaf\<lparr>dep_deposit_index := U63 1\<rparr>)) :: (unit, Bytes32) outcome)"
proof -
  let ?a = "Incoming_deposit Deposit_empty_leaf"
  let ?b = "Incoming_deposit (Deposit_empty_leaf\<lparr>dep_deposit_index := U63 1\<rparr>)"
  have "incoming_valid ?a" "incoming_valid ?b"
    by (simp_all add: Deposit_valid_def Deposit_empty_leaf_def U63_valid_unat)
  moreover have "inj_on hash_out_of_list {incoming_words ?a, incoming_words ?b}"
    by (simp add: hash_out_of_list_def Deposit_to_u64_vec_def Deposit_empty_leaf_def)
  ultimately have "incoming_nullifier hash_out_of_list ?a = (incoming_nullifier hash_out_of_list ?b :: (unit, _) outcome) \<longleftrightarrow> ?a = ?b"
    using nullifier_binding by blast
  then show ?thesis by (simp add: Deposit_empty_leaf_def)
qed

text \<open>
The three transaction decoders accept exactly the encodings of well-formed values and return
the encoded value: \<open>Tx\<close> and \<open>TxV2\<close> need canonical hashes and 32-bit nonces, a \<open>ChannelAction\<close>
needs a non-zero source, and a destination that is zero exactly for a channel close. So a value
round-trips through its encoding, and no two inputs decode to the same value.
\<close>

theorem tx_decoders_iff:
  "(Tx_from_u64_slice xs = Ok t \<longleftrightarrow> canonical (tx_transfer_tree_root t) \<and> xs = Tx_to_u64_vec t) \<and>
   (TxV2_from_u64_slice xs = Ok t2 \<longleftrightarrow>
      canonical (v2_transfer_tree_root t2) \<and> canonical (v2_channel_action_root t2) \<and> xs = TxV2_to_u64_vec t2) \<and>
   (ChannelAction_from_u64_slice xs = Ok a \<longleftrightarrow> ChannelAction_valid a \<and> xs = ChannelAction_to_u64_vec a)"
  by (auto simp: Tx_from_u64_slice_Ok_iff TxV2_from_u64_slice_Ok_iff ChannelAction_from_u64_slice_Ok_iff)

text \<open>
The withdrawal decoder over 64-bit words accepts exactly the encodings, rejects everything
else with \<open>InvalidData\<close>, and never panics on an oversized word or a wrong length.
\<close>

theorem withdrawal_decoder_total:
  "(Withdrawal_from_u64_slice xs = Ok w \<longleftrightarrow> xs = map ucast (Withdrawal_to_u32_vec w)) \<and>
   (is_ok (Withdrawal_from_u64_slice xs) \<longleftrightarrow> Withdrawal_from_u64_slice xs \<noteq> Err InvalidData)"
proof -
  let ?f = "\<lambda>x. ok_or InvalidData (u32_try_from x)"
  have ok: "try_map ?f xs = Ok ys \<longleftrightarrow> xs = map ucast ys" for ys
    by (auto simp: try_map_Ok_iff list_all2_conv_all_nth intro!: nth_equalityI)
  have "Withdrawal_from_u32_slice ys = Err InvalidData \<or> is_ok (Withdrawal_from_u32_slice ys)" for ys
    using Withdrawal_from_u32_slice_total [of ys]
    by (cases "length ys = WITHDRAWAL_LEN") (auto simp: Withdrawal_from_u32_slice_def)
  moreover have "try_map ?f xs = Err InvalidData \<or> is_ok (try_map ?f xs)"
    by (rule try_map_total) (auto simp: u32_try_from_def)
  ultimately have "Withdrawal_from_u64_slice xs = Err InvalidData \<or> is_ok (Withdrawal_from_u64_slice xs)"
    by (cases "try_map ?f xs") (simp_all add: Withdrawal_from_u64_slice_def)
  moreover have "Withdrawal_from_u64_slice xs = Ok w \<longleftrightarrow> xs = map ucast (Withdrawal_to_u32_vec w)"
    by (simp add: Withdrawal_from_u64_slice_def ok Withdrawal_from_u32_slice_Ok_iff)
  ultimately show ?thesis by (auto simp: is_ok_iff)
qed

end
