(* ===== verification/Private_State.thy ===== *)
theory Private_State
  imports Indexed_Merkle Transfers
begin

text \<open>
  The private state of an account, of \<open>src/src/common/private_state.rs\<close>, with the trees it commits
  to (\<open>src/src/common/trees\<close>): balances by token, the nullifiers of what was received and the
  transactions that were sent; and the step that credits an incoming transfer or deposit,
  \<open>UpdatePrivateState::new\<close> of \<open>src/src/circuits/balance/common/update_private_state.rs\<close>.
\<close>

definition ASSET_TREE_HEIGHT :: nat where "ASSET_TREE_HEIGHT = 32"

definition NULLIFIER_TREE_HEIGHT :: nat where "NULLIFIER_TREE_HEIGHT = 32"

definition SENT_TX_TREE_HEIGHT :: nat where "SENT_TX_TREE_HEIGHT = 32"

lemmas tree_heights = ASSET_TREE_HEIGHT_def NULLIFIER_TREE_HEIGHT_def SENT_TX_TREE_HEIGHT_def

section \<open>Asset tree and sent-transaction tree\<close>

definition U256_leaf_hash :: "(u64 list \<Rightarrow> PoseidonHashOut) \<Rightarrow> U256 \<Rightarrow> PoseidonHashOut" where
  "U256_leaf_hash poseidon x = hash_inputs_u32 poseidon (U256_to_u32_vec x)"

type_synonym AssetTree = "(PoseidonHashOut, U256) SparseMerkleTree"

definition AssetTree_init :: "(u64 list \<Rightarrow> PoseidonHashOut) \<Rightarrow> AssetTree" where
  "AssetTree_init poseidon =
     Sparse_new (two_to_one poseidon) (U256_leaf_hash poseidon) U256_default ASSET_TREE_HEIGHT"

type_synonym SentTxTree = "(PoseidonHashOut, Tx) IncrementalMerkleTree"

definition SentTxTree_init :: "(u64 list \<Rightarrow> PoseidonHashOut) \<Rightarrow> SentTxTree" where
  "SentTxTree_init poseidon =
     Incremental_new (two_to_one poseidon) (Tx_hash poseidon) Tx_empty_leaf SENT_TX_TREE_HEIGHT"

section \<open>Nullifier tree\<close>

type_synonym NullifierTree = IndexedMerkleTree

type_synonym NullifierInsertionProof = IndexedInsertionProof

definition NullifierTree_init :: "(u64 list \<Rightarrow> PoseidonHashOut) \<Rightarrow> ('e, NullifierTree) outcome" where
  "NullifierTree_init poseidon = Indexed_new poseidon NULLIFIER_TREE_HEIGHT"

definition NullifierTree_nullifiers :: "NullifierTree \<Rightarrow> ('e, Bytes32 list) outcome" where
  "NullifierTree_nullifiers t = try_map (\<lambda>l. Bytes32_from_U256 (leaf_key l)) (drop 1 (i_leaves t))"

definition NullifierTree_prove_and_insert ::
  "(u64 list \<Rightarrow> PoseidonHashOut) \<Rightarrow> Bytes32 \<Rightarrow> NullifierTree
     \<Rightarrow> (CommonError, NullifierTree \<times> NullifierInsertionProof) outcome" where
  "NullifierTree_prove_and_insert poseidon nullifier t =
     map_err (\<lambda>_. NullifierAlreadyExists)
       (and_then (U256_from_Bytes32 nullifier) (\<lambda>k. Indexed_prove_and_insert poseidon k 0 t))"

definition NullifierProof_get_new_root ::
  "(u64 list \<Rightarrow> PoseidonHashOut) \<Rightarrow> NullifierInsertionProof \<Rightarrow> PoseidonHashOut \<Rightarrow> Bytes32
     \<Rightarrow> (CommonError, PoseidonHashOut) outcome" where
  "NullifierProof_get_new_root poseidon p prev_root nullifier =
     map_err (\<lambda>_. InvalidData)
       (and_then (U256_from_Bytes32 nullifier) (\<lambda>k. Insertion_get_new_root poseidon p k 0 prev_root))"

definition NullifierProof_verify ::
  "(u64 list \<Rightarrow> PoseidonHashOut) \<Rightarrow> NullifierInsertionProof \<Rightarrow> PoseidonHashOut \<Rightarrow> PoseidonHashOut \<Rightarrow> Bytes32
     \<Rightarrow> (CommonError, unit) outcome" where
  "NullifierProof_verify poseidon p prev_root new_root nullifier =
     and_then (NullifierProof_get_new_root poseidon p prev_root nullifier) (\<lambda>expected_new_root.
       if new_root \<noteq> expected_new_root then Err InvalidData else Ok ())"

section \<open>Private state\<close>

datatype Salt = Salt PoseidonHashOut

fun Salt_to_u64_vec :: "Salt \<Rightarrow> u64 list" where
  "Salt_to_u64_vec (Salt h) = hash_elements h"

record PrivateState =
  ps_asset_tree_root :: PoseidonHashOut
  ps_nullifier_tree_root :: PoseidonHashOut
  ps_sent_tx_tree_root :: PoseidonHashOut
  ps_prev_private_commitment :: PoseidonHashOut
  ps_nonce :: u32
  ps_salt :: Salt

record FullPrivateState =
  fs_asset_tree :: AssetTree
  fs_nullifier_tree :: NullifierTree
  fs_sent_tx_tree :: SentTxTree
  fs_prev_private_commitment :: PoseidonHashOut
  fs_nonce :: u32
  fs_salt :: Salt

definition FullPrivateState_new :: "(u64 list \<Rightarrow> PoseidonHashOut) \<Rightarrow> Salt \<Rightarrow> ('e, FullPrivateState) outcome" where
  "FullPrivateState_new poseidon s =
     and_then (NullifierTree_init poseidon) (\<lambda>nullifier_tree.
       Ok \<lparr>fs_asset_tree = AssetTree_init poseidon, fs_nullifier_tree = nullifier_tree,
           fs_sent_tx_tree = SentTxTree_init poseidon, fs_prev_private_commitment = PoseidonHashOut_default,
           fs_nonce = 0, fs_salt = s\<rparr>)"

definition to_private_state :: "FullPrivateState \<Rightarrow> ('e, PrivateState) outcome" where
  "to_private_state fs =
     and_then (Sparse_get_root (fs_asset_tree fs)) (\<lambda>asset_tree_root.
     and_then (Incremental_get_root (fs_nullifier_tree fs)) (\<lambda>nullifier_tree_root.
     and_then (Incremental_get_root (fs_sent_tx_tree fs)) (\<lambda>sent_tx_tree_root.
       Ok \<lparr>ps_asset_tree_root = asset_tree_root, ps_nullifier_tree_root = nullifier_tree_root,
           ps_sent_tx_tree_root = sent_tx_tree_root, ps_prev_private_commitment = fs_prev_private_commitment fs,
           ps_nonce = fs_nonce fs, ps_salt = fs_salt fs\<rparr>)))"

definition PrivateState_new :: "(u64 list \<Rightarrow> PoseidonHashOut) \<Rightarrow> Salt \<Rightarrow> ('e, PrivateState) outcome" where
  "PrivateState_new poseidon s =
     and_then (Sparse_get_root
        (Sparse_new (two_to_one poseidon) (U256_leaf_hash poseidon) U256_default ASSET_TREE_HEIGHT)) (\<lambda>asset_tree_root.
     and_then (and_then (NullifierTree_init poseidon) Incremental_get_root) (\<lambda>nullifier_tree_root.
     and_then (Incremental_get_root (SentTxTree_init poseidon)) (\<lambda>sent_tx_tree_root.
       Ok \<lparr>ps_asset_tree_root = asset_tree_root, ps_nullifier_tree_root = nullifier_tree_root,
           ps_sent_tx_tree_root = sent_tx_tree_root, ps_prev_private_commitment = PoseidonHashOut_default,
           ps_nonce = 0, ps_salt = s\<rparr>)))"

definition PrivateState_to_u64_vec :: "PrivateState \<Rightarrow> u64 list" where
  "PrivateState_to_u64_vec ps =
     hash_elements (ps_asset_tree_root ps) @ hash_elements (ps_nullifier_tree_root ps) @
     hash_elements (ps_sent_tx_tree_root ps) @ hash_elements (ps_prev_private_commitment ps) @
     [ucast (ps_nonce ps)] @ Salt_to_u64_vec (ps_salt ps)"

definition PrivateState_commitment :: "(u64 list \<Rightarrow> PoseidonHashOut) \<Rightarrow> PrivateState \<Rightarrow> PoseidonHashOut" where
  "PrivateState_commitment poseidon ps = hash_inputs_u64 poseidon (PrivateState_to_u64_vec ps)"

section \<open>Crediting an incoming transfer or deposit\<close>

datatype UpdatePrivateStateError = UPS_MerkleProofError

record UpdatePrivateState =
  ups_token_index :: u32
  ups_amount :: U256
  ups_nullifier :: Bytes32
  ups_prev_private_state :: PrivateState
  ups_nullifier_proof :: NullifierInsertionProof
  ups_prev_balance :: U256
  ups_asset_merkle_proof :: "PoseidonHashOut MerkleProof"
  ups_new_private_state :: PrivateState

definition UpdatePrivateState_new ::
  "(u64 list \<Rightarrow> PoseidonHashOut) \<Rightarrow> u32 \<Rightarrow> U256 \<Rightarrow> Bytes32 \<Rightarrow> PrivateState \<Rightarrow> NullifierInsertionProof \<Rightarrow> U256
     \<Rightarrow> PoseidonHashOut MerkleProof \<Rightarrow> (UpdatePrivateStateError, UpdatePrivateState) outcome" where
  "UpdatePrivateState_new poseidon token_index amount nullifier prev_private_state nullifier_proof prev_balance
       asset_merkle_proof =
     (let prev_private_commitment = PrivateState_commitment poseidon prev_private_state in
      and_then (map_err (\<lambda>_. UPS_MerkleProofError)
        (NullifierProof_get_new_root poseidon nullifier_proof (ps_nullifier_tree_root prev_private_state) nullifier))
        (\<lambda>new_nullifier_tree_root.
      and_then (map_err (\<lambda>_. UPS_MerkleProofError)
        (MerkleProof_verify (two_to_one poseidon) (U256_leaf_hash poseidon) asset_merkle_proof prev_balance
           (ucast token_index) (ps_asset_tree_root prev_private_state))) (\<lambda>_.
      and_then (U256_add prev_balance amount) (\<lambda>new_asset_leaf.
      and_then (MerkleProof_get_root (two_to_one poseidon) (U256_leaf_hash poseidon) asset_merkle_proof new_asset_leaf
           (ucast token_index)) (\<lambda>new_asset_tree_root.
        let new_private_state = prev_private_state\<lparr>ps_asset_tree_root := new_asset_tree_root,
              ps_nullifier_tree_root := new_nullifier_tree_root,
              ps_prev_private_commitment := prev_private_commitment\<rparr>
        in Ok \<lparr>ups_token_index = token_index, ups_amount = amount, ups_nullifier = nullifier,
               ups_prev_private_state = prev_private_state, ups_nullifier_proof = nullifier_proof,
               ups_prev_balance = prev_balance, ups_asset_merkle_proof = asset_merkle_proof,
               ups_new_private_state = new_private_state\<rparr>)))))"

section \<open>The nullifier tree is a set that accepts each nullifier once\<close>

fun nullifier_key :: "Bytes32 \<Rightarrow> U256" where
  "nullifier_key (Bytes32 a b c d e f g h) = U256 a b c d e f g h"

fun key_nullifier :: "U256 \<Rightarrow> Bytes32" where
  "key_nullifier (U256 a b c d e f g h) = Bytes32 a b c d e f g h"

lemma key_nullifier_inverse [simp]: "key_nullifier (nullifier_key b) = b"
  by (cases b) simp

lemma nullifier_key_inverse [simp]: "nullifier_key (key_nullifier u) = u"
  by (cases u) simp

lemma U256_from_Bytes32_key [simp]: "U256_from_Bytes32 b = Ok (nullifier_key b)"
  by (cases b) (simp add: U256_from_Bytes32_def U256_from_u32_slice_def)

lemma Bytes32_from_U256_nullifier [simp]: "Bytes32_from_U256 u = Ok (key_nullifier u)"
  by (cases u) (simp add: Bytes32_from_U256_def Bytes32_from_u32_slice_def)

lemma nullifier_key_mem: "nullifier_key n \<in> K \<longleftrightarrow> n \<in> key_nullifier ` K"
  by (metis image_iff key_nullifier_inverse nullifier_key_inverse)

definition nullifier_set :: "NullifierTree \<Rightarrow> Bytes32 set" where
  "nullifier_set t = key_nullifier ` key_set (i_leaves t)"

lemma try_map_Ok_fun: "try_map (\<lambda>x. Ok (f x)) xs = Ok (map f xs)"
  by (induction xs) auto

lemma nullifiers_keys: "NullifierTree_nullifiers t = Ok (map key_nullifier (drop 1 (indexed_keys t)))"
  by (simp add: NullifierTree_nullifiers_def indexed_keys_def drop_map comp_def try_map_Ok_fun)

interpretation nullifiers: insert_once "indexed_inv P" "\<lambda>t. map key_nullifier (indexed_keys t)" indexed_room
  "\<lambda>n t. and_then (NullifierTree_prove_and_insert P n t) (\<lambda>(t', p). Ok t')" for P
proof unfold_locales
  fix t n
  assume inv: "indexed_inv P t" and n: "n \<notin> set (map key_nullifier (indexed_keys t))" and room: "0 < indexed_room t"
  then have "nullifier_key n \<notin> set (indexed_keys t)" by (simp add: nullifier_key_mem)
  from indexed_set.ins_new [OF inv this room, of 0]
  show "\<exists>t'. and_then (NullifierTree_prove_and_insert P n t) (\<lambda>(t', p). Ok t') = Ok t' \<and> indexed_inv P t' \<and>
      map key_nullifier (indexed_keys t') = map key_nullifier (indexed_keys t) @ [n] \<and> Suc (indexed_room t') = indexed_room t"
    by (auto simp: NullifierTree_prove_and_insert_def)
qed (auto simp: NullifierTree_prove_and_insert_def prove_and_insert_present prove_and_insert_full nullifier_key_mem
    indexed_room_def not_less simp del: set_map set_indexed_keys; simp add: nullifier_key_mem)+

section \<open>Invariant of a full private state\<close>

definition full_inv :: "(u64 list \<Rightarrow> PoseidonHashOut) \<Rightarrow> FullPrivateState \<Rightarrow> bool" where
  "full_inv P fs \<longleftrightarrow>
     sparse_rep (two_to_one P) (U256_leaf_hash P) U256_default (fs_asset_tree fs) \<and>
     s_height (fs_asset_tree fs) = ASSET_TREE_HEIGHT \<and>
     indexed_inv P (fs_nullifier_tree fs) \<and> i_height (fs_nullifier_tree fs) = NULLIFIER_TREE_HEIGHT \<and>
     incremental_rep (two_to_one P) (Tx_hash P) Tx_empty_leaf (fs_sent_tx_tree fs) \<and>
     i_height (fs_sent_tx_tree fs) = SENT_TX_TREE_HEIGHT"

definition full_balance :: "FullPrivateState \<Rightarrow> u32 \<Rightarrow> U256" where
  "full_balance fs token_index = Sparse_get_leaf U256_default (fs_asset_tree fs) (ucast token_index)"

lemma new_tree_heights [simp]:
  "s_height (Sparse_new H leaf_hash e ht) = ht" "i_height (Incremental_new H leaf_hash e ht) = ht"
  by (simp_all add: Sparse_new_def Incremental_new_def)

lemma FullPrivateState_new_inv:
  "\<exists>fs. FullPrivateState_new P s = (Ok fs :: ('e, _) outcome) \<and> full_inv P fs \<and>
     fs_asset_tree fs = AssetTree_init P \<and> i_leaves (fs_nullifier_tree fs) = [IndexedMerkleLeaf_default]"
proof -
  have "NULLIFIER_TREE_HEIGHT < 64" by (simp add: tree_heights)
  from Indexed_new_inv [where 'e = 'e, OF this, of P] show ?thesis
    by (auto simp: FullPrivateState_new_def NullifierTree_init_def full_inv_def AssetTree_init_def SentTxTree_init_def
        Sparse_new_rep Incremental_new_rep tree_heights)
qed

text \<open>Writing a balance, and the insertion the nullifier tree makes of a nullifier.\<close>

lemma token_in_tree: "unat (ucast (token_index :: u32) :: u64) < 2 ^ ASSET_TREE_HEIGHT"
  using unat_lt_u32 [of token_index] by (simp add: tree_heights)

text \<open>The proofs a full state supplies for a credit are accepted and lead to the credited state.\<close>

abbreviation asset_leaf_fun :: "(u64 list \<Rightarrow> PoseidonHashOut) \<Rightarrow> AssetTree \<Rightarrow> nat \<Rightarrow> PoseidonHashOut" where
  "asset_leaf_fun P t \<equiv> sparse_leaf_fun (U256_leaf_hash P) U256_default t"

definition credited ::
  "FullPrivateState \<Rightarrow> AssetTree \<Rightarrow> NullifierTree \<Rightarrow> PoseidonHashOut \<Rightarrow> FullPrivateState" where
  "credited fs at nt c = fs\<lparr>fs_asset_tree := at, fs_nullifier_tree := nt, fs_prev_private_commitment := c\<rparr>"

abbreviation incremental_root ::
  "(u64 list \<Rightarrow> PoseidonHashOut) \<Rightarrow> ('v \<Rightarrow> PoseidonHashOut) \<Rightarrow> 'v \<Rightarrow> (PoseidonHashOut, 'v) IncrementalMerkleTree \<Rightarrow> PoseidonHashOut" where
  "incremental_root P leaf_hash e t \<equiv> node (two_to_one P) (incremental_leaf_fun leaf_hash e (i_leaves t)) (i_height t) 0"

abbreviation nullifier_root :: "(u64 list \<Rightarrow> PoseidonHashOut) \<Rightarrow> NullifierTree \<Rightarrow> PoseidonHashOut" where
  "nullifier_root P t \<equiv> incremental_root P (IndexedMerkleLeaf_hash P) IndexedMerkleLeaf_empty_leaf t"

definition private_state_of :: "(u64 list \<Rightarrow> PoseidonHashOut) \<Rightarrow> FullPrivateState \<Rightarrow> PrivateState" where
  "private_state_of P fs =
     \<lparr>ps_asset_tree_root = node (two_to_one P) (asset_leaf_fun P (fs_asset_tree fs)) ASSET_TREE_HEIGHT 0,
      ps_nullifier_tree_root = nullifier_root P (fs_nullifier_tree fs),
      ps_sent_tx_tree_root = incremental_root P (Tx_hash P) Tx_empty_leaf (fs_sent_tx_tree fs),
      ps_prev_private_commitment = fs_prev_private_commitment fs, ps_nonce = fs_nonce fs, ps_salt = fs_salt fs\<rparr>"

lemma to_private_state_inv: "full_inv P fs \<Longrightarrow> to_private_state fs = Ok (private_state_of P fs)"
  by (auto simp: full_inv_def to_private_state_def private_state_of_def indexed_inv_def
      Sparse_get_root_rep [where leaf_hash = "U256_leaf_hash P"]
      Incremental_get_root_rep [where leaf_hash = "IndexedMerkleLeaf_hash P"]
      Incremental_get_root_rep [where leaf_hash = "Tx_hash P"])

lemma nullifier_insert_ok:
  assumes "indexed_inv P t" "NullifierTree_prove_and_insert P n t = Ok (t', p)"
  shows "indexed_inv P t' \<and> i_height t' = i_height t \<and> n \<notin> nullifier_set t \<and>
    nullifier_set t' = insert n (nullifier_set t) \<and>
    NullifierProof_get_new_root P p (nullifier_root P t) n = Ok (nullifier_root P t')"
proof -
  from assms(2) have ins: "Indexed_prove_and_insert P (nullifier_key n) 0 t = Ok (t', p)"
    by (simp add: NullifierTree_prove_and_insert_def)
  then have absent: "nullifier_key n \<notin> key_set (i_leaves t)"
    using prove_and_insert_present [OF assms(1), of "nullifier_key n" 0] by auto
  then have "length (i_leaves t) < 2 ^ i_height t"
    using prove_and_insert_full [OF assms(1) absent, of 0] ins by auto
  from prove_and_insert_ok [OF assms(1) absent this, of 0] ins absent assms(1) show ?thesis
    by (auto simp: NullifierProof_get_new_root_def nullifier_set_def nullifier_key_mem indexed_inv_def
        Incremental_get_root_rep [where leaf_hash = "IndexedMerkleLeaf_hash P"])
qed

lemma asset_leaf_fun_at:
  "asset_leaf_fun P t (unat (i :: u64)) = U256_leaf_hash P (Sparse_get_leaf U256_default t i)"
  by (simp add: sparse_leaf_fun_def)

abbreviation asset_path :: "(u64 list \<Rightarrow> PoseidonHashOut) \<Rightarrow> AssetTree \<Rightarrow> u32 \<Rightarrow> PoseidonHashOut list" where
  "asset_path P t token_index \<equiv>
     siblings_of (two_to_one P) (asset_leaf_fun P t) 0 ASSET_TREE_HEIGHT (unat (ucast token_index :: u64))"

lemma asset_path_accepted:
  "MerkleProof_verify (two_to_one P) (U256_leaf_hash P) (asset_path P t token_index)
     (Sparse_get_leaf U256_default t (ucast token_index)) (ucast token_index)
     (node (two_to_one P) (asset_leaf_fun P t) ASSET_TREE_HEIGHT 0) = Ok ()"
  using verify_path [OF token_in_tree [of token_index], of "two_to_one P" "U256_leaf_hash P" "asset_leaf_fun P t"]
  by (simp add: asset_leaf_fun_at [symmetric] tree_heights del: unat_u32_u64 fun_upd_apply node.simps)

lemma asset_path_root:
  "MerkleProof_get_root (two_to_one P) (U256_leaf_hash P) (asset_path P t token_index) v (ucast token_index) =
     Ok (node (two_to_one P) ((asset_leaf_fun P t)(unat (ucast token_index :: u64) := U256_leaf_hash P v)) ASSET_TREE_HEIGHT 0)"
  by (rule get_root_of_path [OF token_in_tree]) (simp add: tree_heights)

text \<open>What \<open>UpdatePrivateState::new\<close> computes from a nullifier proof and the tree's own asset path.\<close>

lemma UpdatePrivateState_new_on_path:
  assumes "NullifierProof_get_new_root P np (ps_nullifier_tree_root ps) n = Ok nr"
    and "ps_asset_tree_root ps = node (two_to_one P) (asset_leaf_fun P t) ASSET_TREE_HEIGHT 0"
    and "bal = Sparse_get_leaf U256_default t (ucast token_index)"
  shows "UpdatePrivateState_new P token_index amount n ps np bal (asset_path P t token_index) =
    and_then (U256_add bal amount) (\<lambda>v. Ok \<lparr>ups_token_index = token_index, ups_amount = amount, ups_nullifier = n,
      ups_prev_private_state = ps, ups_nullifier_proof = np, ups_prev_balance = bal,
      ups_asset_merkle_proof = asset_path P t token_index,
      ups_new_private_state = ps\<lparr>
        ps_asset_tree_root := node (two_to_one P)
          ((asset_leaf_fun P t)(unat (ucast token_index :: u64) := U256_leaf_hash P v)) ASSET_TREE_HEIGHT 0,
        ps_nullifier_tree_root := nr, ps_prev_private_commitment := PrivateState_commitment P ps\<rparr>\<rparr>)"
  by (simp add: UpdatePrivateState_new_def Let_def assms asset_path_accepted asset_path_root
      del: unat_u32_u64 fun_upd_apply node.simps)

lemma asset_update_ok:
  assumes "sparse_rep (two_to_one P) (U256_leaf_hash P) U256_default t" "s_height t = ASSET_TREE_HEIGHT"
  shows "\<exists>t'. Sparse_update (two_to_one P) (U256_leaf_hash P) (ucast (token_index :: u32)) v t = (Ok t' :: ('e, _) outcome) \<and>
    s_height t' = ASSET_TREE_HEIGHT \<and> sparse_rep (two_to_one P) (U256_leaf_hash P) U256_default t' \<and>
    s_leaves t' = (s_leaves t)(ucast token_index \<mapsto> v) \<and>
    node (two_to_one P) (asset_leaf_fun P t') ASSET_TREE_HEIGHT 0 =
    node (two_to_one P) ((asset_leaf_fun P t)(unat (ucast token_index :: u64) := U256_leaf_hash P v)) ASSET_TREE_HEIGHT 0"
proof -
  have dom: "unat (ucast token_index :: u64) < 2 ^ s_height t" using token_in_tree assms(2) by simp
  from Sparse_update_rep [where 'e = 'e, OF assms(1) dom, of v] obtain t' where
    t': "Sparse_update (two_to_one P) (U256_leaf_hash P) (ucast token_index) v t = (Ok t' :: ('e, _) outcome)"
    "s_height t' = s_height t" "s_leaves t' = (s_leaves t)(ucast token_index \<mapsto> v)"
    "sparse_rep (two_to_one P) (U256_leaf_hash P) U256_default t'" by blast
  have "(Ok (node (two_to_one P) (asset_leaf_fun P t') (s_height t') 0) :: (unit, _) outcome) = Sparse_get_root t'"
    by (rule Sparse_get_root_rep [OF t'(4), symmetric])
  also have "\<dots> = Ok (node (two_to_one P)
      ((asset_leaf_fun P t)(unat (ucast token_index :: u64) := U256_leaf_hash P v)) (s_height t) 0)"
    by (rule Sparse_update_root [OF assms(1) dom t'(1)])
  finally show ?thesis using t' assms(2) by (simp del: unat_u32_u64 fun_upd_apply node.simps)
qed

text \<open>A credit whose proof is accepted, whoever built it, takes the asset path of the tree itself.\<close>

definition asset_pairs ::
  "(u64 list \<Rightarrow> PoseidonHashOut) \<Rightarrow> AssetTree \<Rightarrow> u32 \<Rightarrow> U256 \<Rightarrow> PoseidonHashOut list \<Rightarrow> (PoseidonHashOut \<times> PoseidonHashOut) set" where
  "asset_pairs P t token_index v p =
     hashed_pairs (two_to_one P) (unat token_index) (U256_leaf_hash P v) p \<union>
     path_pairs (two_to_one P) (asset_leaf_fun P t) ASSET_TREE_HEIGHT (unat token_index)"

lemma asset_proof_authentic:
  assumes ok: "MerkleProof_verify (two_to_one P) (U256_leaf_hash P) p v (ucast token_index)
      (node (two_to_one P) (asset_leaf_fun P t) ASSET_TREE_HEIGHT 0) = Ok ()"
    and len: "length p = ASSET_TREE_HEIGHT"
    and pairs: "inj_on (case_prod (two_to_one P)) (asset_pairs P t token_index v p)"
    and leaf: "inj_on (U256_leaf_hash P) {v, Sparse_get_leaf U256_default t (ucast token_index)}"
  shows "v = Sparse_get_leaf U256_default t (ucast token_index) \<and> p = asset_path P t token_index"
proof -
  have "U256_leaf_hash P v = asset_leaf_fun P t (unat (ucast token_index :: u64)) \<and> p = asset_path P t token_index"
    using proof_authentic [OF _ len ok] pairs by (simp add: tree_heights asset_pairs_def)
  then have "U256_leaf_hash P v = U256_leaf_hash P (Sparse_get_leaf U256_default t (ucast token_index))"
    and p: "p = asset_path P t token_index"
    by (simp_all only: asset_leaf_fun_at)
  from inj_onD [OF leaf this(1)] p show ?thesis by simp
qed

lemma new_state_accepts:
  assumes "full_inv P fs" "i_leaves (fs_nullifier_tree fs) = [IndexedMerkleLeaf_default]" "n \<noteq> Bytes32_default"
  shows "\<exists>nt np. NullifierTree_prove_and_insert P n (fs_nullifier_tree fs) = Ok (nt, np)"
proof -
  have "n \<notin> set (map key_nullifier (indexed_keys (fs_nullifier_tree fs)))" "0 < indexed_room (fs_nullifier_tree fs)"
    using assms by (auto simp: indexed_keys_def IndexedMerkleLeaf_default_def U256_default_def Bytes32_default_def
        indexed_room_def full_inv_def tree_heights simp del: set_indexed_keys)
  with nullifiers.ins_new [of P "fs_nullifier_tree fs" n] assms(1) show ?thesis by (auto simp: full_inv_def)
qed

lemma full_balance_new: "fs_asset_tree fs = AssetTree_init P \<Longrightarrow> full_balance fs i = U256_default"
  by (simp add: full_balance_def AssetTree_init_def Sparse_new_def Sparse_get_leaf_def)

lemma const_hash:
  "two_to_one (\<lambda>_. h) = (\<lambda>a b. h)" "U256_leaf_hash (\<lambda>_. h) = (\<lambda>x. h)" "IndexedMerkleLeaf_hash (\<lambda>_. h) = (\<lambda>x. h)"
  "Tx_hash (\<lambda>_. h) = (\<lambda>x. h)" "Transfer_poseidon_hash (\<lambda>_. h) = (\<lambda>x. h)"
  by (simp_all add: fun_eq_iff two_to_one_def U256_leaf_hash_def IndexedMerkleLeaf_hash_def Tx_hash_def
      Transfer_poseidon_hash_def hash_inputs_u64_def hash_inputs_u32_def)

section \<open>Properties\<close>

text \<open>
C4: crediting follows the full state. Take a full private state whose trees represent their
contents, insert a fresh nullifier into its nullifier tree and prove the current balance of a
token. If the balance plus the amount fits in 256 bits, \<open>UpdatePrivateState::new\<close> accepts, and its
new private state is the private state of the full state in which that one balance grew by the
amount, the nullifier was added and the previous commitment recorded; the invariant is kept.
If the sum does not fit, the call panics.
\<close>

theorem credit_refines_full_state:
  assumes inv: "full_inv P fs" and ps: "to_private_state fs = (Ok ps :: (unit, _) outcome)"
    and ins: "NullifierTree_prove_and_insert P n (fs_nullifier_tree fs) = Ok (nt, np)"
    and prove: "Sparse_prove (fs_asset_tree fs) (ucast token_index) = (Ok ap :: (unit, _) outcome)"
  shows "if U256_val (full_balance fs token_index) + U256_val amount < 2 ^ 256
    then \<exists>v at u. U256_val v = U256_val (full_balance fs token_index) + U256_val amount \<and>
           Sparse_update (two_to_one P) (U256_leaf_hash P) (ucast token_index) v (fs_asset_tree fs) = (Ok at :: (unit, _) outcome) \<and>
           UpdatePrivateState_new P token_index amount n ps np (full_balance fs token_index) ap = Ok u \<and>
           to_private_state (credited fs at nt (PrivateState_commitment P ps)) =
             (Ok (ups_new_private_state u) :: (unit, _) outcome) \<and>
           full_inv P (credited fs at nt (PrivateState_commitment P ps)) \<and>
           nullifier_set nt = insert n (nullifier_set (fs_nullifier_tree fs))
    else UpdatePrivateState_new P token_index amount n ps np (full_balance fs token_index) ap = Panic"
proof -
  let ?at = "fs_asset_tree fs" and ?bal = "full_balance fs token_index"
  from inv have rep: "sparse_rep (two_to_one P) (U256_leaf_hash P) U256_default ?at" "s_height ?at = ASSET_TREE_HEIGHT"
    and nt: "indexed_inv P (fs_nullifier_tree fs)" by (auto simp: full_inv_def)
  have ps: "ps = private_state_of P fs" using ps by (simp add: to_private_state_inv [OF inv])
  have ap: "ap = asset_path P ?at token_index"
    using prove Sparse_prove_rep [where 'c = unit, OF rep(1), of "ucast token_index"] rep(2) token_in_tree [of token_index]
    by (simp del: unat_u32_u64)
  note np = nullifier_insert_ok [OF nt ins]
  have new: "UpdatePrivateState_new P token_index amount n ps np ?bal ap = and_then (U256_add ?bal amount) (\<lambda>v. Ok
      \<lparr>ups_token_index = token_index, ups_amount = amount, ups_nullifier = n, ups_prev_private_state = ps,
       ups_nullifier_proof = np, ups_prev_balance = ?bal, ups_asset_merkle_proof = ap, ups_new_private_state = ps\<lparr>
        ps_asset_tree_root := node (two_to_one P)
          ((asset_leaf_fun P ?at)(unat (ucast token_index :: u64) := U256_leaf_hash P v)) ASSET_TREE_HEIGHT 0,
        ps_nullifier_tree_root := nullifier_root P nt, ps_prev_private_commitment := PrivateState_commitment P ps\<rparr>\<rparr>)"
    unfolding ap
    by (rule UpdatePrivateState_new_on_path) (use np in \<open>simp_all add: ps private_state_of_def full_balance_def\<close>)
  show ?thesis
  proof (cases "U256_val ?bal + U256_val amount < 2 ^ 256")
    case True
    then obtain v where v: "U256_add ?bal amount = (Ok v :: (UpdatePrivateStateError, _) outcome)"
      using U256_add_ok by blast
    from asset_update_ok [where 'e = unit, OF rep, of token_index v] obtain at where
      at: "Sparse_update (two_to_one P) (U256_leaf_hash P) (ucast token_index) v ?at = (Ok at :: (unit, _) outcome)"
        "s_height at = ASSET_TREE_HEIGHT" "sparse_rep (two_to_one P) (U256_leaf_hash P) U256_default at"
        "node (two_to_one P) (asset_leaf_fun P at) ASSET_TREE_HEIGHT 0 =
         node (two_to_one P) ((asset_leaf_fun P ?at)(unat (ucast token_index :: u64) := U256_leaf_hash P v)) ASSET_TREE_HEIGHT 0"
      by blast
    have inv': "full_inv P (credited fs at nt (PrivateState_commitment P ps))"
      using inv at np by (simp add: full_inv_def credited_def)
    have "private_state_of P (credited fs at nt (PrivateState_commitment P ps)) = ps\<lparr>
        ps_asset_tree_root := node (two_to_one P) (asset_leaf_fun P at) ASSET_TREE_HEIGHT 0,
        ps_nullifier_tree_root := nullifier_root P nt, ps_prev_private_commitment := PrivateState_commitment P ps\<rparr>"
      by (simp add: ps private_state_of_def credited_def)
    then have "to_private_state (credited fs at nt (PrivateState_commitment P ps)) = Ok (ps\<lparr>
        ps_asset_tree_root := node (two_to_one P)
          ((asset_leaf_fun P ?at)(unat (ucast token_index :: u64) := U256_leaf_hash P v)) ASSET_TREE_HEIGHT 0,
        ps_nullifier_tree_root := nullifier_root P nt, ps_prev_private_commitment := PrivateState_commitment P ps\<rparr>)"
      using to_private_state_inv [OF inv'] by (simp only: at(4))
    moreover have "U256_val v = U256_val ?bal + U256_val amount" using v by simp
    ultimately show ?thesis
      using at(1) np inv' True unfolding new v and_then.simps by (metis (no_types, lifting) UpdatePrivateState.select_convs(8))
  next
    case False
    then have "U256_add ?bal amount = (Panic :: (UpdatePrivateStateError, _) outcome)"
      by (simp add: U256_add_Panic_iff not_less)
    with False new show ?thesis by simp
  qed
qed

theorem credit_refines_full_state_witness:
  "\<exists>fs ps nt np ap u at. FullPrivateState_new (\<lambda>_. PoseidonHashOut_default) (Salt PoseidonHashOut_default) =
       (Ok fs :: (unit, _) outcome) \<and>
     to_private_state fs = (Ok ps :: (unit, _) outcome) \<and>
     UpdatePrivateState_new (\<lambda>_. PoseidonHashOut_default) 3 (U256_from_u32 5) (Bytes32 0 0 0 0 0 0 0 9) ps np
       (full_balance fs 3) ap = Ok u \<and>
     to_private_state (credited fs at nt (PrivateState_commitment (\<lambda>_. PoseidonHashOut_default) ps)) =
       (Ok (ups_new_private_state u) :: (unit, _) outcome)"
proof -
  let ?P = "\<lambda>_ :: u64 list. PoseidonHashOut_default" and ?n = "Bytes32 0 0 0 0 0 0 0 9"
  obtain fs where fs: "FullPrivateState_new ?P (Salt PoseidonHashOut_default) = (Ok fs :: (unit, _) outcome)"
    "full_inv ?P fs" "fs_asset_tree fs = AssetTree_init ?P" "i_leaves (fs_nullifier_tree fs) = [IndexedMerkleLeaf_default]"
    using FullPrivateState_new_inv [where 'e = unit] by blast
  obtain nt np where ins: "NullifierTree_prove_and_insert ?P ?n (fs_nullifier_tree fs) = Ok (nt, np)"
    using new_state_accepts [OF fs(2,4), of ?n] by (auto simp: Bytes32_default_def)
  have "unat (ucast (3 :: u32) :: u64) < 2 ^ s_height (fs_asset_tree fs)"
    using fs(2) token_in_tree [of 3] by (simp add: full_inv_def)
  then obtain ap where ap: "Sparse_prove (fs_asset_tree fs) (ucast (3 :: u32)) = (Ok ap :: (unit, _) outcome)"
    using Sparse_prove_rep [OF conjunct1 [OF fs(2) [unfolded full_inv_def]]] by fast
  have "U256_val (full_balance fs 3) + U256_val (U256_from_u32 5) < 2 ^ 256"
    by (simp add: full_balance_new [OF fs(3)] U256_val_from_u32)
  from credit_refines_full_state [OF fs(2) to_private_state_inv [OF fs(2)] ins ap, of "U256_from_u32 5", unfolded if_P [OF this]]
    fs(1) to_private_state_inv [where 'a = unit, OF fs(2)]
  show ?thesis by fast
qed

text \<open>
C3: no credit can be taken twice, and none can lie about the balance. Let a full private state
satisfy the invariant and have private state \<open>ps\<close>. If \<open>UpdatePrivateState::new\<close> accepts any
nullifier proof and any asset proof against \<open>ps\<close>, then the nullifier was not in the tree, the
claimed previous balance is the balance of the token, and the new asset root is the root of the
asset tree with that balance raised by the amount. Hypotheses: proofs of the trees' heights, and no
collision of the hash among the pairs and leaves hashed on the claimed and on the actual paths.
\<close>

theorem credit_sound:
  assumes inv: "full_inv P fs" and ps: "to_private_state fs = (Ok ps :: (unit, _) outcome)"
    and new: "UpdatePrivateState_new P token_index amount n ps np bal ap = Ok u"
    and lens: "length ap = ASSET_TREE_HEIGHT" "length (low_leaf_proof np) = NULLIFIER_TREE_HEIGHT"
    and asset: "inj_on (case_prod (two_to_one P)) (asset_pairs P (fs_asset_tree fs) token_index bal ap)"
      "inj_on (U256_leaf_hash P) {bal, full_balance fs token_index}"
    and own: "Incremental_prove (fs_nullifier_tree fs) (low_leaf_index np) = (Ok q :: (unit, _) outcome)"
    and low: "inj_on (case_prod (two_to_one P))
      (hashed_pairs (two_to_one P) (unat (low_leaf_index np)) (IndexedMerkleLeaf_hash P (prev_low_leaf np)) (low_leaf_proof np) \<union>
       hashed_pairs (two_to_one P) (unat (low_leaf_index np))
         (IndexedMerkleLeaf_hash P (Indexed_get_leaf (fs_nullifier_tree fs) (low_leaf_index np))) q)"
      "inj_on (IndexedMerkleLeaf_hash P) {prev_low_leaf np, Indexed_get_leaf (fs_nullifier_tree fs) (low_leaf_index np)}"
  shows "n \<notin> nullifier_set (fs_nullifier_tree fs) \<and> bal = full_balance fs token_index \<and>
    (\<exists>v at. U256_val v = U256_val bal + U256_val amount \<and>
       Sparse_update (two_to_one P) (U256_leaf_hash P) (ucast token_index) v (fs_asset_tree fs) = (Ok at :: (unit, _) outcome) \<and>
       Sparse_get_root at = (Ok (ps_asset_tree_root (ups_new_private_state u)) :: (unit, _) outcome))"
proof -
  let ?at = "fs_asset_tree fs"
  from inv have rep: "sparse_rep (two_to_one P) (U256_leaf_hash P) U256_default ?at" "s_height ?at = ASSET_TREE_HEIGHT"
    and nt: "indexed_inv P (fs_nullifier_tree fs)" "i_height (fs_nullifier_tree fs) = NULLIFIER_TREE_HEIGHT"
    by (auto simp: full_inv_def)
  have ps: "ps = private_state_of P fs" using ps by (simp add: to_private_state_inv [OF inv])
  from new obtain nr v where nr: "NullifierProof_get_new_root P np (ps_nullifier_tree_root ps) n = Ok nr"
    and ver: "MerkleProof_verify (two_to_one P) (U256_leaf_hash P) ap bal (ucast token_index) (ps_asset_tree_root ps) = Ok ()"
    and v: "U256_add bal amount = (Ok v :: (UpdatePrivateStateError, _) outcome)"
    and u: "MerkleProof_get_root (two_to_one P) (U256_leaf_hash P) ap v (ucast token_index) =
      (Ok (ps_asset_tree_root (ups_new_private_state u)) :: (UpdatePrivateStateError, _) outcome)"
    by (auto simp: UpdatePrivateState_new_def Let_def)
  have root: "Incremental_get_root (fs_nullifier_tree fs) = (Ok (ps_nullifier_tree_root ps) :: (unit, _) outcome)"
    using nt(1) Incremental_get_root_rep unfolding ps private_state_of_def indexed_inv_def by fastforce
  from nr have "Insertion_get_new_root P np (nullifier_key n) 0 (ps_nullifier_tree_root ps) = Ok nr"
    by (simp add: NullifierProof_get_new_root_def)
  from insertion_key_absent [OF nt(1) root this _ own low] lens(2) nt(2)
  have n: "n \<notin> nullifier_set (fs_nullifier_tree fs)" by (simp add: nullifier_set_def nullifier_key_mem)
  have "ps_asset_tree_root ps = node (two_to_one P) (asset_leaf_fun P ?at) ASSET_TREE_HEIGHT 0"
    by (simp add: ps private_state_of_def)
  from asset_proof_authentic [OF ver [unfolded this] lens(1) asset(1) asset(2) [unfolded full_balance_def]]
  have bal: "bal = full_balance fs token_index" and ap: "ap = asset_path P ?at token_index"
    by (simp_all only: full_balance_def)
  from asset_update_ok [where 'e = unit, OF rep, of token_index v] obtain at where
    at: "Sparse_update (two_to_one P) (U256_leaf_hash P) (ucast token_index) v ?at = (Ok at :: (unit, _) outcome)"
      "s_height at = ASSET_TREE_HEIGHT" "sparse_rep (two_to_one P) (U256_leaf_hash P) U256_default at"
      "node (two_to_one P) (asset_leaf_fun P at) ASSET_TREE_HEIGHT 0 =
       node (two_to_one P) ((asset_leaf_fun P ?at)(unat (ucast token_index :: u64) := U256_leaf_hash P v)) ASSET_TREE_HEIGHT 0"
    by blast
  have "Sparse_get_root at = (Ok (ps_asset_tree_root (ups_new_private_state u)) :: (unit, _) outcome)"
    using u [unfolded ap asset_path_root] Sparse_get_root_rep [OF at(3)] by (simp only: at(2,4) outcome.inject)
  with at(1) have "\<exists>at. Sparse_update (two_to_one P) (U256_leaf_hash P) (ucast token_index) v ?at = (Ok at :: (unit, _) outcome) \<and>
      Sparse_get_root at = (Ok (ps_asset_tree_root (ups_new_private_state u)) :: (unit, _) outcome)" by blast
  with n bal v show ?thesis by auto
qed

theorem credit_sound_witness:
  "\<exists>fs ps np u. FullPrivateState_new (\<lambda>_. PoseidonHashOut_default) (Salt PoseidonHashOut_default) =
       (Ok fs :: (unit, _) outcome) \<and>
     to_private_state fs = (Ok ps :: (unit, _) outcome) \<and>
     UpdatePrivateState_new (\<lambda>_. PoseidonHashOut_default) 3 (U256_from_u32 5) (Bytes32 0 0 0 0 0 0 0 9) ps np
       U256_default (replicate 32 PoseidonHashOut_default) = Ok u \<and>
     Bytes32 0 0 0 0 0 0 0 9 \<notin> nullifier_set (fs_nullifier_tree fs)"
proof -
  let ?P = "\<lambda>_ :: u64 list. PoseidonHashOut_default" and ?h = PoseidonHashOut_default and ?n = "Bytes32 0 0 0 0 0 0 0 9"
  let ?np = "\<lparr>ins_index = 1, low_leaf_proof = replicate 32 ?h, leaf_proof = replicate 32 ?h, low_leaf_index = 0,
      prev_low_leaf = IndexedMerkleLeaf_default\<rparr>"
  obtain fs where fs: "FullPrivateState_new ?P (Salt ?h) = (Ok fs :: (unit, _) outcome)"
    "full_inv ?P fs" "fs_asset_tree fs = AssetTree_init ?P" "i_leaves (fs_nullifier_tree fs) = [IndexedMerkleLeaf_default]"
    using FullPrivateState_new_inv [where 'e = unit] by blast
  then have nt: "i_height (fs_nullifier_tree fs) = 32" "indexed_inv ?P (fs_nullifier_tree fs)"
    by (simp_all add: full_inv_def tree_heights)
  have roots: "ps_asset_tree_root (private_state_of ?P fs) = ?h" "ps_nullifier_tree_root (private_state_of ?P fs) = ?h"
    by (simp_all add: private_state_of_def const_hash node_const sparse_leaf_fun_def incremental_leaf_fun_def)
  have "\<exists>u. UpdatePrivateState_new ?P 3 (U256_from_u32 5) ?n (private_state_of ?P fs) ?np U256_default (replicate 32 ?h) = Ok u"
  proof -
    have "nullifier_key ?n \<noteq> U256_default" by (simp add: U256_default_def)
    then have key: "U256_default < nullifier_key ?n" by (rule U256_default_less)
    have "NullifierProof_get_new_root ?P ?np ?h ?n = Ok ?h"
      using key by (simp add: NullifierProof_get_new_root_def Insertion_get_new_root_def Let_def const_hash
          IndexedMerkleLeaf_default_def MerkleProof_verify_Ok_iff MerkleProof_get_root_root_of root_of_const not_le
          del: nullifier_key.simps)
    moreover obtain v where "U256_add U256_default (U256_from_u32 5) = (Ok v :: (UpdatePrivateStateError, _) outcome)"
      using U256_add_ok [of U256_default "U256_from_u32 5"]
      by (auto simp: U256_val_from_u32)
    ultimately show ?thesis
      unfolding UpdatePrivateState_new_def Let_def roots
      by (auto simp: const_hash MerkleProof_verify_Ok_iff MerkleProof_get_root_root_of root_of_const)
  qed
  then obtain u where u: "UpdatePrivateState_new ?P 3 (U256_from_u32 5) ?n (private_state_of ?P fs) ?np
      U256_default (replicate 32 ?h) = Ok u" by blast
  have own: "Incremental_prove (fs_nullifier_tree fs) (low_leaf_index ?np) = (Ok (replicate 32 ?h) :: (unit, _) outcome)"
    by (simp add: Incremental_prove_rep [OF conjunct1 [OF nt(2) [unfolded indexed_inv_def]], of 0] nt(1) const_hash
        siblings_of_const incremental_leaf_fun_def)
  have "Indexed_get_leaf (fs_nullifier_tree fs) 0 = IndexedMerkleLeaf_default"
    by (simp add: Indexed_get_leaf_def Incremental_get_leaf_def fs)
  moreover have "full_balance fs 3 = U256_default" by (rule full_balance_new [OF fs(3)])
  moreover have "inj_on f (hashed_pairs (\<lambda>a b. ?h) i ?h (replicate 32 ?h) \<union> hashed_pairs (\<lambda>a b. ?h) i ?h (replicate 32 ?h))"
    "inj_on f (asset_pairs ?P (fs_asset_tree fs) 3 U256_default (replicate 32 ?h))" for i and f :: "_ \<Rightarrow> PoseidonHashOut"
    using hashed_pairs_const [of ?h i 32] hashed_pairs_const [of ?h 3 32]
      path_pairs_const [of "asset_leaf_fun ?P (fs_asset_tree fs)" ?h 32 3]
    by (auto intro!: inj_on_hashed_const [where x = "(?h, ?h)"] simp: asset_pairs_def const_hash tree_heights sparse_leaf_fun_def)
  ultimately have "?n \<notin> nullifier_set (fs_nullifier_tree fs)"
    using credit_sound [OF fs(2) to_private_state_inv [OF fs(2)] u _ _ _ _ own] by (simp add: const_hash tree_heights)
  with fs(1) to_private_state_inv [where 'a = unit, OF fs(2)] u show ?thesis by blast
qed

text \<open>
C5: the nullifier tree over a whole run. From the initial tree, a list of nullifiers is accepted
exactly when the nullifiers are pairwise distinct, none is zero and there are fewer than \<open>2^32\<close>;
\<open>nullifiers()\<close> of the final tree then returns exactly that list, in order.
\<close>

theorem nullifier_run_iff:
  assumes "NullifierTree_init P = (Ok t :: (CommonError, _) outcome)"
  shows "(case try_fold (\<lambda>t n. and_then (NullifierTree_prove_and_insert P n t) (\<lambda>(t', p). Ok t')) t ns of
     Ok t' \<Rightarrow> NullifierTree_nullifiers t' = (Ok ns :: (CommonError, _) outcome) \<and>
       distinct ns \<and> Bytes32_default \<notin> set ns \<and> length ns < 2 ^ 32
   | _ \<Rightarrow> \<not> (distinct ns \<and> Bytes32_default \<notin> set ns \<and> length ns < 2 ^ 32))"
proof -
  have "NULLIFIER_TREE_HEIGHT < 64" by (simp add: tree_heights)
  from Indexed_new_inv [where 'e = CommonError, OF this, of P] assms
  have inv: "indexed_inv P t" and t: "i_height t = 32" "i_leaves t = [IndexedMerkleLeaf_default]"
    by (auto simp: NullifierTree_init_def tree_heights)
  have keys: "map key_nullifier (indexed_keys t) = [Bytes32_default]"
    by (simp add: t indexed_keys_def IndexedMerkleLeaf_default_def U256_default_def Bytes32_default_def)
  have "length ns \<le> indexed_room t \<longleftrightarrow> length ns < 2 ^ 32" by (auto simp: indexed_room_def t)
  with nullifiers.inserts_spec [OF inv, of ns] show ?thesis
    by (auto simp: nullifiers_keys keys drop_map [symmetric] split: outcome.splits)
qed

theorem nullifier_run_iff_witness:
  "\<exists>t. NullifierTree_init (\<lambda>_. PoseidonHashOut_default) = (Ok t :: (CommonError, _) outcome) \<and>
     \<not> is_ok (try_fold (\<lambda>t n. and_then (NullifierTree_prove_and_insert (\<lambda>_. PoseidonHashOut_default) n t) (\<lambda>(t', p). Ok t')) t
       [Bytes32 0 0 0 0 0 0 0 9, Bytes32 1 0 0 0 0 0 0 0, Bytes32 0 0 0 0 0 0 0 9])"
proof -
  let ?P = "\<lambda>_ :: u64 list. PoseidonHashOut_default"
  obtain t where t: "NullifierTree_init ?P = (Ok t :: (CommonError, _) outcome)"
    using Indexed_new_inv [where 'e = CommonError, of NULLIFIER_TREE_HEIGHT ?P]
    by (auto simp: NullifierTree_init_def tree_heights)
  with nullifier_run_iff [OF t, of "[Bytes32 0 0 0 0 0 0 0 9, Bytes32 1 0 0 0 0 0 0 0, Bytes32 0 0 0 0 0 0 0 9]"]
  show ?thesis by (auto simp del: try_fold.simps split: outcome.splits)
qed

end
