(* ===== verification/Spend.thy ===== *)
theory Spend
  imports Private_State
begin

text \<open>
  Spending: \<open>src/src/circuits/balance/spend_circuit.rs\<close>. A spend debits the sender's balances for up
  to 64 transfers, one asset proof per transfer, and records the transaction in the sent-transaction
  tree at the transaction's nonce. The theory has the native computation
  \<open>SpendWitness::to_public_inputs\<close> and relates it to balances as a function from token to amount.
\<close>

definition MAX_NUM_TRANSFERS_PER_TX :: nat where "MAX_NUM_TRANSFERS_PER_TX = 64"

definition TRANSFER_TREE_HEIGHT :: nat where "TRANSFER_TREE_HEIGHT = 6"

datatype SpendError =
    InvalidNumInputs
  | InvalidMerkleProof
  | InsufficientBalance
  | SpendInvalidData
  | FailedToProve
  | InvalidPublicInputs

record SpendPublicInputs =
  spi_prev_private_commitment :: PoseidonHashOut
  spi_new_private_commitment :: PoseidonHashOut
  spi_tx :: Tx
  spi_is_valid :: bool

definition SPEND_PUBLIC_INPUTS_LEN :: nat where
  "SPEND_PUBLIC_INPUTS_LEN = 4 * 2 + TX_LEN + 1"

definition SpendPublicInputs_from_pis_u64 :: "u64 list \<Rightarrow> (SpendError, SpendPublicInputs) outcome" where
  "SpendPublicInputs_from_pis_u64 pis =
     (if length pis < SPEND_PUBLIC_INPUTS_LEN then Err InvalidPublicInputs
      else
        and_then (map_err (\<lambda>_. InvalidPublicInputs) (PoseidonHashOut_from_u64_slice (subslice 0 4 pis))) (\<lambda>prev_private_commitment.
        and_then (map_err (\<lambda>_. InvalidPublicInputs) (PoseidonHashOut_from_u64_slice (subslice 4 8 pis))) (\<lambda>new_private_commitment.
        and_then (map_err (\<lambda>_. InvalidPublicInputs) (Tx_from_u64_slice (subslice 8 (8 + TX_LEN) pis))) (\<lambda>tx.
          let is_valid = (pis ! (8 + TX_LEN) \<noteq> 0)
          in Ok \<lparr>spi_prev_private_commitment = prev_private_commitment,
                 spi_new_private_commitment = new_private_commitment, spi_tx = tx, spi_is_valid = is_valid\<rparr>))))"

text \<open>\<open>SpendPublicInputsTarget::to_vec\<close>, on the values its targets carry.\<close>

definition SpendPublicInputs_to_vec :: "SpendPublicInputs \<Rightarrow> u64 list" where
  "SpendPublicInputs_to_vec p =
     hash_elements (spi_prev_private_commitment p) @ hash_elements (spi_new_private_commitment p) @
     Tx_to_u64_vec (spi_tx p) @ [if spi_is_valid p then 1 else 0]"

record SpendWitness =
  sw_tx_nonce :: u32
  sw_prev_private_state :: PrivateState
  sw_transfers :: "Transfer list"
  sw_before_balances :: "U256 list"
  sw_asset_merkle_proofs :: "PoseidonHashOut MerkleProof list"
  sw_sent_tx_merkle_proof :: "PoseidonHashOut MerkleProof"

text \<open>One iteration of the debit loop, from the current asset root to the next.\<close>

type_synonym debit_input = "U256 \<times> Transfer \<times> PoseidonHashOut MerkleProof"

definition spend_step ::
  "(u64 list \<Rightarrow> PoseidonHashOut) \<Rightarrow> PoseidonHashOut \<Rightarrow> debit_input \<Rightarrow> (SpendError, PoseidonHashOut) outcome" where
  "spend_step poseidon asset_tree_root = (\<lambda>(prev_balance, transfer, proof).
     and_then (map_err (\<lambda>_. InvalidMerkleProof)
       (MerkleProof_verify (two_to_one poseidon) (U256_leaf_hash poseidon) proof prev_balance
          (ucast (tr_token_index transfer)) asset_tree_root)) (\<lambda>_.
     if prev_balance < tr_amount transfer then Err InsufficientBalance
     else and_then (U256_sub prev_balance (tr_amount transfer)) (\<lambda>new_balance.
       MerkleProof_get_root (two_to_one poseidon) (U256_leaf_hash poseidon) proof new_balance
         (ucast (tr_token_index transfer)))))"

definition debit_inputs :: "SpendWitness \<Rightarrow> debit_input list" where
  "debit_inputs w = zip (sw_before_balances w) (zip (sw_transfers w) (sw_asset_merkle_proofs w))"

definition SpendWitness_to_public_inputs ::
  "(u64 list \<Rightarrow> PoseidonHashOut) \<Rightarrow> SpendWitness \<Rightarrow> (SpendError, SpendPublicInputs) outcome" where
  "SpendWitness_to_public_inputs poseidon w =
     (if length (sw_transfers w) \<noteq> MAX_NUM_TRANSFERS_PER_TX \<or> length (sw_before_balances w) \<noteq> MAX_NUM_TRANSFERS_PER_TX \<or>
         length (sw_asset_merkle_proofs w) \<noteq> MAX_NUM_TRANSFERS_PER_TX
      then Err InvalidNumInputs
      else
        let prev = sw_prev_private_state w in
        and_then (try_fold (spend_step poseidon) (ps_asset_tree_root prev) (debit_inputs w)) (\<lambda>asset_tree_root.
        and_then (map_err (\<lambda>_. SpendInvalidData) (get_merkle_root_from_leaves (two_to_one poseidon)
           (Transfer_poseidon_hash poseidon) Transfer_empty_leaf TRANSFER_TREE_HEIGHT (sw_transfers w))) (\<lambda>transfer_tree_root.
        let tx = \<lparr>tx_transfer_tree_root = transfer_tree_root, tx_nonce = sw_tx_nonce w\<rparr> in
        and_then (map_err (\<lambda>_. InvalidMerkleProof)
          (MerkleProof_verify (two_to_one poseidon) (Tx_hash poseidon) (sw_sent_tx_merkle_proof w) Tx_empty_leaf
             (ucast (sw_tx_nonce w)) (ps_sent_tx_tree_root prev))) (\<lambda>_.
        and_then (MerkleProof_get_root (two_to_one poseidon) (Tx_hash poseidon) (sw_sent_tx_merkle_proof w) tx
             (ucast (sw_tx_nonce w))) (\<lambda>sent_tx_tree_root.
        let new_private_state =
              \<lparr>ps_asset_tree_root = asset_tree_root, ps_nullifier_tree_root = ps_nullifier_tree_root prev,
               ps_sent_tx_tree_root = sent_tx_tree_root,
               ps_prev_private_commitment = PrivateState_commitment poseidon prev,
               ps_nonce = ps_nonce prev + 1, ps_salt = ps_salt prev\<rparr>;
            is_valid = (sw_tx_nonce w = ps_nonce prev)
        in Ok \<lparr>spi_prev_private_commitment = PrivateState_commitment poseidon prev,
               spi_new_private_commitment = PrivateState_commitment poseidon new_private_state,
               spi_tx = tx, spi_is_valid = is_valid\<rparr>)))))"

section \<open>Debits on balances\<close>

text \<open>
  The specification: balances are a function from token to amount, a transfer is debited if the
  balance covers it.
\<close>

definition U256_minus :: "U256 \<Rightarrow> U256 \<Rightarrow> U256" where
  "U256_minus a b = (case (U256_sub a b :: (unit, U256) outcome) of Ok c \<Rightarrow> c | _ \<Rightarrow> a)"

definition token_of :: "Transfer \<Rightarrow> nat" where
  "token_of t = unat (tr_token_index t)"

definition debited :: "(nat \<Rightarrow> U256) \<Rightarrow> Transfer \<Rightarrow> nat \<Rightarrow> U256" where
  "debited bal t = bal(token_of t := U256_minus (bal (token_of t)) (tr_amount t))"

fun debit_all :: "(nat \<Rightarrow> U256) \<Rightarrow> Transfer list \<Rightarrow> (nat \<Rightarrow> U256) option" where
  "debit_all bal [] = Some bal"
| "debit_all bal (t # ts) = (if bal (token_of t) < tr_amount t then None else debit_all (debited bal t) ts)"

fun token_total :: "Transfer list \<Rightarrow> nat \<Rightarrow> nat" where
  "token_total [] i = 0"
| "token_total (t # ts) i = (if token_of t = i then U256_val (tr_amount t) else 0) + token_total ts i"

lemma U256_minus_eqI: "U256_val a = U256_val b + U256_val c \<Longrightarrow> U256_minus a b = c"
proof -
  assume "U256_val a = U256_val b + U256_val c"
  then have "U256_sub a b = (Ok c :: (unit, _) outcome)" by simp
  then show ?thesis by (simp only: U256_minus_def outcome.case)
qed

lemma U256_sub_minus: "b \<le> a \<Longrightarrow> U256_sub a b = Ok (U256_minus a b)"
  using U256_sub_ok [of b a] by (auto dest: U256_minus_eqI)

lemma U256_val_minus: "b \<le> a \<Longrightarrow> U256_val a = U256_val b + U256_val (U256_minus a b)"
  using U256_sub_minus [of b a] by auto

lemma debit_all_total:
  "debit_all bal ts = Some bal' \<Longrightarrow> U256_val (bal' i) + token_total ts i = U256_val (bal i)"
proof (induction ts arbitrary: bal)
  case (Cons t ts)
  then have "tr_amount t \<le> bal (token_of t)" and "debit_all (debited bal t) ts = Some bal'"
    by (auto split: if_splits)
  with Cons.IH [of "debited bal t"] U256_val_minus show ?case by (fastforce simp: debited_def)
qed simp

lemma debit_all_None_iff: "debit_all bal ts = None \<longleftrightarrow> (\<exists>i. U256_val (bal i) < token_total ts i)"
proof (induction ts arbitrary: bal)
  case (Cons t ts)
  show ?case
  proof (cases "bal (token_of t) < tr_amount t")
    case True
    then have "U256_val (bal (token_of t)) < token_total (t # ts) (token_of t)" by (simp add: U256_less_val)
    with True show ?thesis by auto
  next
    case False
    then have "U256_val (bal (token_of t)) = U256_val (tr_amount t) + U256_val (U256_minus (bal (token_of t)) (tr_amount t))"
      by (simp add: U256_val_minus not_less)
    then have "U256_val (debited bal t i) < token_total ts i \<longleftrightarrow> U256_val (bal i) < token_total (t # ts) i" for i
      by (auto simp: debited_def)
    with False Cons.IH show ?thesis by simp
  qed
qed simp

section \<open>Roots of balances and of sent transactions\<close>

definition asset_root :: "(u64 list \<Rightarrow> PoseidonHashOut) \<Rightarrow> (nat \<Rightarrow> U256) \<Rightarrow> PoseidonHashOut" where
  "asset_root P bal = node (two_to_one P) (\<lambda>i. U256_leaf_hash P (bal i)) ASSET_TREE_HEIGHT 0"

definition sent_root :: "(u64 list \<Rightarrow> PoseidonHashOut) \<Rightarrow> (nat \<Rightarrow> Tx) \<Rightarrow> PoseidonHashOut" where
  "sent_root P sent = node (two_to_one P) (\<lambda>i. Tx_hash P (sent i)) SENT_TX_TREE_HEIGHT 0"

definition balance_path :: "(u64 list \<Rightarrow> PoseidonHashOut) \<Rightarrow> (nat \<Rightarrow> U256) \<Rightarrow> Transfer \<Rightarrow> PoseidonHashOut list" where
  "balance_path P bal t =
     siblings_of (two_to_one P) (\<lambda>i. U256_leaf_hash P (bal i)) 0 ASSET_TREE_HEIGHT (token_of t)"

lemma map_upd: "(\<lambda>i. f ((g(k := v)) i)) = (\<lambda>i. f (g i))(k := f v)"
  by (simp add: fun_eq_iff)

lemma token_of_u64: "unat (ucast (tr_token_index t) :: u64) = token_of t"
  by (simp add: token_of_def)

lemma token_of_less: "token_of t < 2 ^ ASSET_TREE_HEIGHT"
  using unat_lt_u32 [of "tr_token_index t"] by (simp add: token_of_def tree_heights)

lemma spend_step_on_path:
  "spend_step P (asset_root P bal) (bal (token_of t), t, balance_path P bal t) =
     (if bal (token_of t) < tr_amount t then Err InsufficientBalance else Ok (asset_root P (debited bal t)))"
proof -
  let ?f = "\<lambda>i. U256_leaf_hash P (bal i)" and ?i = "ucast (tr_token_index t) :: u64"
  have dom: "unat ?i < 2 ^ ASSET_TREE_HEIGHT" by (simp add: token_of_u64 token_of_less del: unat_u32_u64)
  have ht: "ASSET_TREE_HEIGHT \<le> 64" by (simp add: tree_heights)
  have "MerkleProof_verify (two_to_one P) (U256_leaf_hash P) (balance_path P bal t) (bal (token_of t)) ?i (asset_root P bal) = Ok ()"
    using verify_path [OF dom ht, of "two_to_one P" "U256_leaf_hash P" ?f "bal (token_of t)" "asset_root P bal"]
    by (simp add: balance_path_def asset_root_def token_of_u64 fun_upd_idem del: unat_u32_u64 fun_upd_apply node.simps)
  moreover have "MerkleProof_get_root (two_to_one P) (U256_leaf_hash P) (balance_path P bal t) v ?i =
      (Ok (asset_root P (bal(token_of t := v))) :: (SpendError, _) outcome)" for v
    using get_root_of_path [OF dom ht, of "two_to_one P" "U256_leaf_hash P" ?f v]
    by (simp add: balance_path_def asset_root_def token_of_u64 map_upd del: unat_u32_u64 fun_upd_apply node.simps)
  ultimately show ?thesis
    by (cases "bal (token_of t) < tr_amount t")
      (simp_all add: spend_step_def debited_def U256_sub_minus not_less del: U256_sub_Ok_iff)
qed

text \<open>The debit inputs a wallet that holds the balances supplies, and the loop on them.\<close>

fun honest_inputs :: "(u64 list \<Rightarrow> PoseidonHashOut) \<Rightarrow> (nat \<Rightarrow> U256) \<Rightarrow> Transfer list \<Rightarrow> debit_input list" where
  "honest_inputs P bal [] = []"
| "honest_inputs P bal (t # ts) = (bal (token_of t), t, balance_path P bal t) # honest_inputs P (debited bal t) ts"

lemma spend_loop_honest:
  "try_fold (spend_step P) (asset_root P bal) (honest_inputs P bal ts) =
     (case debit_all bal ts of None \<Rightarrow> Err InsufficientBalance | Some bal' \<Rightarrow> Ok (asset_root P bal'))"
  by (induction ts arbitrary: bal) (simp_all add: spend_step_on_path)

text \<open>What the loop hashes on arbitrary inputs: the claimed paths and the paths of the balances.\<close>

fun debit_pairs ::
  "(u64 list \<Rightarrow> PoseidonHashOut) \<Rightarrow> (nat \<Rightarrow> U256) \<Rightarrow> debit_input list \<Rightarrow> (PoseidonHashOut \<times> PoseidonHashOut) set" where
  "debit_pairs P bal [] = {}"
| "debit_pairs P bal ((b, t, p) # ws) =
     hashed_pairs (two_to_one P) (token_of t) (U256_leaf_hash P b) p \<union>
     path_pairs (two_to_one P) (\<lambda>i. U256_leaf_hash P (bal i)) ASSET_TREE_HEIGHT (token_of t) \<union>
     debit_pairs P (debited bal t) ws"

fun debit_leaves :: "(nat \<Rightarrow> U256) \<Rightarrow> debit_input list \<Rightarrow> U256 set" where
  "debit_leaves bal [] = {}"
| "debit_leaves bal ((b, t, p) # ws) = {b, bal (token_of t)} \<union> debit_leaves (debited bal t) ws"

lemma spend_step_authentic:
  assumes ok: "spend_step P (asset_root P bal) (b, t, p) = Ok r" and len: "length p = ASSET_TREE_HEIGHT"
    and pairs: "inj_on (case_prod (two_to_one P))
      (hashed_pairs (two_to_one P) (token_of t) (U256_leaf_hash P b) p \<union>
       path_pairs (two_to_one P) (\<lambda>i. U256_leaf_hash P (bal i)) ASSET_TREE_HEIGHT (token_of t))"
    and leaves: "inj_on (U256_leaf_hash P) {b, bal (token_of t)}"
  shows "b = bal (token_of t) \<and> p = balance_path P bal t"
proof -
  from ok have "MerkleProof_verify (two_to_one P) (U256_leaf_hash P) p b (ucast (tr_token_index t)) (asset_root P bal) = Ok ()"
    by (auto simp: spend_step_def)
  from proof_authentic [OF _ len this [unfolded asset_root_def]] pairs
  have "U256_leaf_hash P b = U256_leaf_hash P (bal (token_of t))" and "p = balance_path P bal t"
    by (simp_all add: token_of_u64 balance_path_def tree_heights del: unat_u32_u64)
  with inj_onD [OF leaves] show ?thesis by blast
qed

lemma spend_loop_authentic:
  assumes "try_fold (spend_step P) (asset_root P bal) ws = Ok r"
    and "list_all (\<lambda>(b, t, p). length p = ASSET_TREE_HEIGHT) ws"
    and "inj_on (case_prod (two_to_one P)) (debit_pairs P bal ws)"
    and "inj_on (U256_leaf_hash P) (debit_leaves bal ws)"
  shows "ws = honest_inputs P bal (map (\<lambda>w. fst (snd w)) ws)"
  using assms
proof (induction ws arbitrary: bal)
  case (Cons w ws)
  obtain b t p where w: "w = (b, t, p)" by (cases w)
  from Cons.prems(1) obtain r' where r': "spend_step P (asset_root P bal) (b, t, p) = Ok r'"
    and rest: "try_fold (spend_step P) r' ws = Ok r" by (auto simp: w)
  have bp: "b = bal (token_of t) \<and> p = balance_path P bal t"
    using Cons.prems by (intro spend_step_authentic [OF r']) (auto simp: w elim: inj_on_subset)
  with r' have "r' = asset_root P (debited bal t)" by (simp add: spend_step_on_path split: if_splits)
  with rest Cons.prems have "ws = honest_inputs P (debited bal t) (map (\<lambda>w. fst (snd w)) ws)"
    by (intro Cons.IH) (auto simp: w elim: inj_on_subset)
  with bp show ?case by (simp add: w)
qed simp

section \<open>The whole spend\<close>

text \<open>The transfers root: the complete tree over the 64 transfers.\<close>

definition transfer_root :: "(u64 list \<Rightarrow> PoseidonHashOut) \<Rightarrow> Transfer list \<Rightarrow> PoseidonHashOut" where
  "transfer_root P ts = node (two_to_one P)
     (incremental_leaf_fun (Transfer_poseidon_hash P) Transfer_empty_leaf ts) TRANSFER_TREE_HEIGHT 0"

lemma transfer_root_batch:
  assumes "length ts = MAX_NUM_TRANSFERS_PER_TX"
  shows "get_merkle_root_from_leaves (two_to_one P) (Transfer_poseidon_hash P) Transfer_empty_leaf TRANSFER_TREE_HEIGHT ts =
    Ok (transfer_root P ts)"
  using get_merkle_root_from_leaves_node [of TRANSFER_TREE_HEIGHT ts "two_to_one P" "Transfer_poseidon_hash P" Transfer_empty_leaf] assms
  by (simp add: transfer_root_def TRANSFER_TREE_HEIGHT_def MAX_NUM_TRANSFERS_PER_TX_def)

text \<open>
  \<open>commits P ps bal sent\<close>: the private state commits to these balances and sent transactions.
  \<open>spend_result\<close> is the private state after a spend, as a function of what it commits to.
\<close>

definition commits ::
  "(u64 list \<Rightarrow> PoseidonHashOut) \<Rightarrow> PrivateState \<Rightarrow> (nat \<Rightarrow> U256) \<Rightarrow> (nat \<Rightarrow> Tx) \<Rightarrow> bool" where
  "commits P ps bal sent \<longleftrightarrow> ps_asset_tree_root ps = asset_root P bal \<and> ps_sent_tx_tree_root ps = sent_root P sent"

definition spend_tx :: "(u64 list \<Rightarrow> PoseidonHashOut) \<Rightarrow> SpendWitness \<Rightarrow> Tx" where
  "spend_tx P w = \<lparr>tx_transfer_tree_root = transfer_root P (sw_transfers w), tx_nonce = sw_tx_nonce w\<rparr>"

definition spend_result ::
  "(u64 list \<Rightarrow> PoseidonHashOut) \<Rightarrow> PrivateState \<Rightarrow> (nat \<Rightarrow> U256) \<Rightarrow> (nat \<Rightarrow> Tx) \<Rightarrow> PrivateState" where
  "spend_result P ps bal sent =
     \<lparr>ps_asset_tree_root = asset_root P bal, ps_nullifier_tree_root = ps_nullifier_tree_root ps,
      ps_sent_tx_tree_root = sent_root P sent, ps_prev_private_commitment = PrivateState_commitment P ps,
      ps_nonce = ps_nonce ps + 1, ps_salt = ps_salt ps\<rparr>"

definition sent_path :: "(u64 list \<Rightarrow> PoseidonHashOut) \<Rightarrow> (nat \<Rightarrow> Tx) \<Rightarrow> u32 \<Rightarrow> PoseidonHashOut list" where
  "sent_path P sent n = siblings_of (two_to_one P) (\<lambda>i. Tx_hash P (sent i)) 0 SENT_TX_TREE_HEIGHT (unat n)"

lemma nonce_in_tree: "unat (ucast (n :: u32) :: u64) < 2 ^ SENT_TX_TREE_HEIGHT"
  using unat_lt_u32 [of n] by (simp add: tree_heights)

lemma sent_path_root:
  "MerkleProof_get_root (two_to_one P) (Tx_hash P) (sent_path P sent n) tx (ucast n) = Ok (sent_root P (sent(unat n := tx)))"
  using get_root_of_path [OF nonce_in_tree [of n], of "two_to_one P" "Tx_hash P" "\<lambda>i. Tx_hash P (sent i)" tx]
  by (simp add: sent_path_def sent_root_def map_upd tree_heights del: fun_upd_apply node.simps)

lemma sent_path_verify:
  "MerkleProof_verify (two_to_one P) (Tx_hash P) (sent_path P sent n) tx (ucast n) r = Ok () \<longleftrightarrow>
     sent_root P (sent(unat n := tx)) = r"
  using verify_path [OF nonce_in_tree [of n], of "two_to_one P" "Tx_hash P" "\<lambda>i. Tx_hash P (sent i)" tx]
  by (simp add: sent_path_def sent_root_def map_upd tree_heights del: fun_upd_apply node.simps)

lemma sent_proof_authentic:
  assumes ok: "MerkleProof_verify (two_to_one P) (Tx_hash P) p tx (ucast n) (sent_root P sent) = Ok ()"
    and len: "length p = SENT_TX_TREE_HEIGHT"
    and pairs: "inj_on (case_prod (two_to_one P)) (hashed_pairs (two_to_one P) (unat n) (Tx_hash P tx) p \<union>
      path_pairs (two_to_one P) (\<lambda>i. Tx_hash P (sent i)) SENT_TX_TREE_HEIGHT (unat n))"
    and leaves: "inj_on (Tx_hash P) {tx, sent (unat n)}"
  shows "sent (unat n) = tx \<and> p = sent_path P sent n"
proof -
  from proof_authentic [OF _ len ok [unfolded sent_root_def]] pairs
  have "Tx_hash P tx = Tx_hash P (sent (unat n))" and "p = sent_path P sent n"
    by (simp_all add: sent_path_def tree_heights)
  with inj_onD [OF leaves] show ?thesis by blast
qed

lemma debit_inputs_transfers:
  assumes "length (sw_before_balances w) = length (sw_transfers w)" "length (sw_asset_merkle_proofs w) = length (sw_transfers w)"
  shows "map (\<lambda>x. fst (snd x)) (debit_inputs w) = sw_transfers w"
proof -
  have "map (\<lambda>x. fst (snd x)) (debit_inputs w) = map fst (map snd (debit_inputs w))" by simp
  with assms show ?thesis by (simp only: debit_inputs_def) simp
qed

text \<open>The outcome of a spend whose inputs are those of the balances, up to the sent-transaction proof.\<close>

lemma spend_honest:
  assumes lens: "length (sw_transfers w) = MAX_NUM_TRANSFERS_PER_TX" "length (sw_before_balances w) = MAX_NUM_TRANSFERS_PER_TX"
      "length (sw_asset_merkle_proofs w) = MAX_NUM_TRANSFERS_PER_TX"
    and c: "commits P (sw_prev_private_state w) bal sent"
    and inputs: "debit_inputs w = honest_inputs P bal (sw_transfers w)"
    and path: "sw_sent_tx_merkle_proof w = sent_path P sent (sw_tx_nonce w)"
    and empty: "sent (unat (sw_tx_nonce w)) = Tx_empty_leaf"
  shows "SpendWitness_to_public_inputs P w = (case debit_all bal (sw_transfers w) of None \<Rightarrow> Err InsufficientBalance
    | Some bal' \<Rightarrow> Ok
       \<lparr>spi_prev_private_commitment = PrivateState_commitment P (sw_prev_private_state w),
        spi_new_private_commitment = PrivateState_commitment P
          (spend_result P (sw_prev_private_state w) bal' (sent(unat (sw_tx_nonce w) := spend_tx P w))),
        spi_tx = spend_tx P w, spi_is_valid = (sw_tx_nonce w = ps_nonce (sw_prev_private_state w))\<rparr>)"
proof -
  have "sent(unat (sw_tx_nonce w) := Tx_empty_leaf) = sent" using empty by (simp add: fun_upd_idem)
  then have "MerkleProof_verify (two_to_one P) (Tx_hash P) (sent_path P sent (sw_tx_nonce w)) Tx_empty_leaf
      (ucast (sw_tx_nonce w)) (sent_root P sent) = Ok ()" by (simp add: sent_path_verify del: fun_upd_apply)
  then show ?thesis
    using c by (simp add: SpendWitness_to_public_inputs_def lens commits_def inputs path spend_loop_honest Let_def
        transfer_root_batch sent_path_root spend_tx_def spend_result_def del: fun_upd_apply split: option.splits)
qed

text \<open>A full private state commits to its balances and sent transactions.\<close>

definition full_balances :: "FullPrivateState \<Rightarrow> nat \<Rightarrow> U256" where
  "full_balances fs i = Sparse_get_leaf U256_default (fs_asset_tree fs) (of_nat i)"

definition full_sent :: "FullPrivateState \<Rightarrow> nat \<Rightarrow> Tx" where
  "full_sent fs i = (let ls = i_leaves (fs_sent_tx_tree fs) in if i < length ls then ls ! i else Tx_empty_leaf)"

lemma full_commits: "full_inv P fs \<Longrightarrow> commits P (private_state_of P fs) (full_balances fs) (full_sent fs)"
  by (simp add: commits_def private_state_of_def asset_root_def sent_root_def full_inv_def full_balances_def full_sent_def
      sparse_leaf_fun_def [abs_def] incremental_leaf_fun_def [abs_def] Let_def)

definition spend_collision_free ::
  "(u64 list \<Rightarrow> PoseidonHashOut) \<Rightarrow> SpendWitness \<Rightarrow> (nat \<Rightarrow> U256) \<Rightarrow> (nat \<Rightarrow> Tx) \<Rightarrow> bool" where
  "spend_collision_free P w bal sent \<longleftrightarrow>
     inj_on (case_prod (two_to_one P)) (debit_pairs P bal (debit_inputs w)) \<and>
     inj_on (U256_leaf_hash P) (debit_leaves bal (debit_inputs w)) \<and>
     inj_on (case_prod (two_to_one P))
       (hashed_pairs (two_to_one P) (unat (sw_tx_nonce w)) (Tx_hash P Tx_empty_leaf) (sw_sent_tx_merkle_proof w) \<union>
        path_pairs (two_to_one P) (\<lambda>i. Tx_hash P (sent i)) SENT_TX_TREE_HEIGHT (unat (sw_tx_nonce w))) \<and>
     inj_on (Tx_hash P) {Tx_empty_leaf, sent (unat (sw_tx_nonce w))}"

definition spend_proof_lengths :: "SpendWitness \<Rightarrow> bool" where
  "spend_proof_lengths w \<longleftrightarrow> list_all (\<lambda>p. length p = ASSET_TREE_HEIGHT) (sw_asset_merkle_proofs w) \<and>
     length (sw_sent_tx_merkle_proof w) = SENT_TX_TREE_HEIGHT"

lemma spend_authentic:
  assumes ok: "SpendWitness_to_public_inputs P w = Ok pis" and c: "commits P (sw_prev_private_state w) bal sent"
    and len: "spend_proof_lengths w" and cf: "spend_collision_free P w bal sent"
  shows "debit_inputs w = honest_inputs P bal (sw_transfers w)"
    and "sw_sent_tx_merkle_proof w = sent_path P sent (sw_tx_nonce w)"
    and "sent (unat (sw_tx_nonce w)) = Tx_empty_leaf"
proof -
  from ok have lens: "length (sw_before_balances w) = length (sw_transfers w)"
      "length (sw_asset_merkle_proofs w) = length (sw_transfers w)"
    and loop: "\<exists>r. try_fold (spend_step P) (asset_root P bal) (debit_inputs w) = Ok r"
    and sent: "MerkleProof_verify (two_to_one P) (Tx_hash P) (sw_sent_tx_merkle_proof w) Tx_empty_leaf
      (ucast (sw_tx_nonce w)) (sent_root P sent) = Ok ()"
    using c by (auto simp: SpendWitness_to_public_inputs_def Let_def commits_def split: if_splits)
  have "list_all (\<lambda>(b, t, p). length p = ASSET_TREE_HEIGHT) (debit_inputs w)"
    using len by (auto simp: spend_proof_lengths_def debit_inputs_def list_all_iff dest!: set_zip_rightD)
  with loop spend_loop_authentic [of P bal "debit_inputs w"] cf debit_inputs_transfers [OF lens]
  show "debit_inputs w = honest_inputs P bal (sw_transfers w)" by (auto simp: spend_collision_free_def)
  from sent_proof_authentic [OF sent] len cf
  show "sw_sent_tx_merkle_proof w = sent_path P sent (sw_tx_nonce w)" "sent (unat (sw_tx_nonce w)) = Tx_empty_leaf"
    by (auto simp: spend_collision_free_def spend_proof_lengths_def)
qed

section \<open>Properties\<close>

text \<open>
C1: no spend exceeds the balances. Let the private state commit to balances \<open>bal\<close> and sent
transactions \<open>sent\<close>. If \<open>to_public_inputs\<close> accepts a witness, with any balances and proofs in it, then
for every token the transfers of that token sum to at most its balance, the new commitment is that
of the state whose balances are lowered by exactly these sums and in which the transaction was
written at its nonce, a slot that was empty; the nonce is incremented modulo \<open>2^32\<close>, nullifiers and
salt are kept, the previous commitment is recorded, and the validity flag says whether the nonce of
the transaction was the nonce of the state. Hypotheses: proofs of the trees' heights, and no collision
of the hash on what is hashed.
\<close>

theorem spend_sound:
  assumes "SpendWitness_to_public_inputs P w = Ok pis" and "commits P (sw_prev_private_state w) bal sent"
    and "spend_proof_lengths w" and "spend_collision_free P w bal sent"
  shows "\<exists>bal'. (\<forall>i. U256_val (bal' i) + token_total (sw_transfers w) i = U256_val (bal i)) \<and>
    sent (unat (sw_tx_nonce w)) = Tx_empty_leaf \<and>
    pis = \<lparr>spi_prev_private_commitment = PrivateState_commitment P (sw_prev_private_state w),
      spi_new_private_commitment = PrivateState_commitment P
        (spend_result P (sw_prev_private_state w) bal' (sent(unat (sw_tx_nonce w) := spend_tx P w))),
      spi_tx = spend_tx P w, spi_is_valid = (sw_tx_nonce w = ps_nonce (sw_prev_private_state w))\<rparr>"
proof -
  note auth = spend_authentic [OF assms]
  have lens: "length (sw_transfers w) = MAX_NUM_TRANSFERS_PER_TX" "length (sw_before_balances w) = MAX_NUM_TRANSFERS_PER_TX"
      "length (sw_asset_merkle_proofs w) = MAX_NUM_TRANSFERS_PER_TX"
    using assms(1) by (auto simp: SpendWitness_to_public_inputs_def split: if_splits)
  show ?thesis
  proof (cases "debit_all bal (sw_transfers w)")
    case None
    with assms(1) show ?thesis by (simp add: spend_honest [OF lens assms(2) auth])
  next
    case (Some bal')
    with assms(1) debit_all_total [OF Some] auth(3) show ?thesis
      by (intro exI [of _ bal']) (simp add: spend_honest [OF lens assms(2) auth] del: fun_upd_apply)
  qed
qed

text \<open>The witness of both: 64 empty transfers from empty balances.\<close>

definition idle_spend :: SpendWitness where
  "idle_spend =
     \<lparr>sw_tx_nonce = 0,
      sw_prev_private_state = \<lparr>ps_asset_tree_root = PoseidonHashOut_default, ps_nullifier_tree_root = PoseidonHashOut_default,
        ps_sent_tx_tree_root = PoseidonHashOut_default, ps_prev_private_commitment = PoseidonHashOut_default,
        ps_nonce = 0, ps_salt = Salt PoseidonHashOut_default\<rparr>,
      sw_transfers = replicate 64 Transfer_empty_leaf, sw_before_balances = replicate 64 U256_default,
      sw_asset_merkle_proofs = replicate 64 (replicate 32 PoseidonHashOut_default),
      sw_sent_tx_merkle_proof = replicate 32 PoseidonHashOut_default\<rparr>"

lemma debited_idle: "debited (\<lambda>_. U256_default) Transfer_empty_leaf = (\<lambda>_. U256_default)"
  by (simp add: debited_def Transfer_empty_leaf_def U256_minus_eqI fun_eq_iff)

lemma honest_idle:
  "honest_inputs (\<lambda>_. h) (\<lambda>_. U256_default) (replicate n Transfer_empty_leaf) =
     replicate n (U256_default, Transfer_empty_leaf, replicate 32 h)"
  by (induction n) (simp_all add: debited_idle balance_path_def const_hash siblings_of_const tree_heights)

lemma idle_spend_setup:
  "commits (\<lambda>_. PoseidonHashOut_default) (sw_prev_private_state idle_spend) (\<lambda>_. U256_default) (\<lambda>_. Tx_empty_leaf)"
  "debit_inputs idle_spend = honest_inputs (\<lambda>_. PoseidonHashOut_default) (\<lambda>_. U256_default) (sw_transfers idle_spend)"
  "sw_sent_tx_merkle_proof idle_spend = sent_path (\<lambda>_. PoseidonHashOut_default) (\<lambda>_. Tx_empty_leaf) (sw_tx_nonce idle_spend)"
  "token_total (sw_transfers idle_spend) i = 0"
proof -
  show "commits (\<lambda>_. PoseidonHashOut_default) (sw_prev_private_state idle_spend) (\<lambda>_. U256_default) (\<lambda>_. Tx_empty_leaf)"
    by (simp add: commits_def idle_spend_def asset_root_def sent_root_def const_hash node_const)
  show "debit_inputs idle_spend = honest_inputs (\<lambda>_. PoseidonHashOut_default) (\<lambda>_. U256_default) (sw_transfers idle_spend)"
    by (simp add: idle_spend_def debit_inputs_def honest_idle zip_replicate)
  show "sw_sent_tx_merkle_proof idle_spend = sent_path (\<lambda>_. PoseidonHashOut_default) (\<lambda>_. Tx_empty_leaf) (sw_tx_nonce idle_spend)"
    by (simp add: idle_spend_def sent_path_def const_hash siblings_of_const tree_heights)
  have "token_total (replicate n Transfer_empty_leaf) i = 0" for n
    by (induction n) (simp_all add: Transfer_empty_leaf_def)
  then show "token_total (sw_transfers idle_spend) i = 0" by (simp add: idle_spend_def)
qed

lemma idle_lens:
  "length (sw_transfers idle_spend) = MAX_NUM_TRANSFERS_PER_TX" "length (sw_before_balances idle_spend) = MAX_NUM_TRANSFERS_PER_TX"
  "length (sw_asset_merkle_proofs idle_spend) = MAX_NUM_TRANSFERS_PER_TX" "spend_proof_lengths idle_spend"
  by (simp_all add: idle_spend_def MAX_NUM_TRANSFERS_PER_TX_def spend_proof_lengths_def tree_heights list_all_iff)

lemma debit_sets_idle:
  "debit_pairs (\<lambda>_. h) (\<lambda>_. U256_default) (replicate n (U256_default, Transfer_empty_leaf, replicate 32 h)) \<subseteq> {(h, h)}"
  "debit_leaves (\<lambda>_. U256_default) (replicate n (U256_default, Transfer_empty_leaf, replicate 32 h)) \<subseteq> {U256_default}"
  by (induction n) (simp_all add: debited_idle const_hash hashed_pairs_const path_pairs_const)

lemma idle_spend_ok: "\<exists>pis. SpendWitness_to_public_inputs (\<lambda>_. PoseidonHashOut_default) idle_spend = Ok pis"
proof -
  have "debit_all (\<lambda>_. U256_default) (sw_transfers idle_spend) \<noteq> None"
    by (simp add: debit_all_None_iff idle_spend_setup del: not_None_eq)
  then show ?thesis
    using spend_honest [OF idle_lens(1-3) idle_spend_setup(1-3)] by (auto simp del: fun_upd_apply)
qed

theorem spend_sound_witness:
  "\<exists>pis bal'. SpendWitness_to_public_inputs (\<lambda>_. PoseidonHashOut_default) idle_spend = Ok pis \<and>
     U256_val (bal' (0 :: nat)) + token_total (sw_transfers idle_spend) 0 = U256_val U256_default"
proof -
  let ?P = "\<lambda>_ :: u64 list. PoseidonHashOut_default" and ?h = PoseidonHashOut_default
  obtain pis where pis: "SpendWitness_to_public_inputs ?P idle_spend = Ok pis" using idle_spend_ok by blast
  have "debit_inputs idle_spend = replicate 64 (U256_default, Transfer_empty_leaf, replicate 32 ?h)"
    by (simp add: idle_spend_def debit_inputs_def zip_replicate)
  then have "spend_collision_free ?P idle_spend (\<lambda>_. U256_default) (\<lambda>_. Tx_empty_leaf)"
    unfolding spend_collision_free_def
    using debit_sets_idle [where h = ?h and n = 64] hashed_pairs_const [of ?h 0 32] path_pairs_const [of "\<lambda>i. ?h" ?h 32 0]
    by (auto intro!: inj_on_hashed_const [where x = "(?h, ?h)"] inj_on_hashed_const [where x = U256_default]
        simp: const_hash tree_heights) (auto simp: idle_spend_def inj_on_def)
  from spend_sound [OF pis idle_spend_setup(1) idle_lens(4) this] pis show ?thesis by blast
qed

text \<open>
C2: a spend with the proofs of the wallet's own state succeeds exactly when the balances cover it.
For 64 transfers, with before-balances and proofs taken from the balances as they evolve and an
empty sent-transaction slot at the nonce, \<open>to_public_inputs\<close> returns the public inputs of the debited
state if for every token the transfers sum to at most its balance, and \<open>InsufficientBalance\<close>
otherwise; it never panics.
\<close>

theorem spend_complete:
  assumes "length (sw_transfers w) = MAX_NUM_TRANSFERS_PER_TX" "length (sw_before_balances w) = MAX_NUM_TRANSFERS_PER_TX"
      "length (sw_asset_merkle_proofs w) = MAX_NUM_TRANSFERS_PER_TX"
    and "commits P (sw_prev_private_state w) bal sent"
    and "debit_inputs w = honest_inputs P bal (sw_transfers w)"
    and "sw_sent_tx_merkle_proof w = sent_path P sent (sw_tx_nonce w)"
    and "sent (unat (sw_tx_nonce w)) = Tx_empty_leaf"
  shows "if \<forall>i. token_total (sw_transfers w) i \<le> U256_val (bal i)
    then \<exists>bal'. (\<forall>i. U256_val (bal' i) + token_total (sw_transfers w) i = U256_val (bal i)) \<and>
      SpendWitness_to_public_inputs P w = Ok
       \<lparr>spi_prev_private_commitment = PrivateState_commitment P (sw_prev_private_state w),
        spi_new_private_commitment = PrivateState_commitment P
          (spend_result P (sw_prev_private_state w) bal' (sent(unat (sw_tx_nonce w) := spend_tx P w))),
        spi_tx = spend_tx P w, spi_is_valid = (sw_tx_nonce w = ps_nonce (sw_prev_private_state w))\<rparr>
    else SpendWitness_to_public_inputs P w = Err InsufficientBalance"
  unfolding spend_honest [OF assms]
  using debit_all_None_iff [of bal "sw_transfers w"] debit_all_total [of bal "sw_transfers w"]
  by (cases "debit_all bal (sw_transfers w)") (auto simp: not_less not_le)

theorem spend_complete_witness:
  "is_ok (SpendWitness_to_public_inputs (\<lambda>_. PoseidonHashOut_default) idle_spend)"
proof -
  have "\<forall>i. token_total (sw_transfers idle_spend) i \<le> U256_val U256_default" by (simp add: idle_spend_setup(4))
  with spend_complete [OF idle_lens(1-3) idle_spend_setup(1-3) refl] show ?thesis
    unfolding is_ok_iff by (simp only: if_True simp_thms) blast
qed

end
