(* ===== verification/Circuits.thy ===== *)
theory Circuits
  imports Spend
begin

text \<open>
  The circuits that mirror the native balance computations: \<open>U256Target\<close> of
  \<open>src/src/ethereum_types/u256.rs\<close>, \<open>IndexedInsertionProofTarget\<close> of
  \<open>src/src/utils/trees/indexed_merkle_tree/insertion.rs\<close>, \<open>UpdatePrivateStateTarget\<close> and
  \<open>SpendCircuit\<close>. A circuit is modelled on the values its targets carry: it returns \<open>Some\<close> of the
  values it computes when its constraints hold, and \<open>None\<close> when they cannot be satisfied. The gadgets
  of the circuit builder (crates plonky2 and plonky2_u32) are parameters, their documented
  behaviour is \<open>gadget_laws\<close>.
\<close>

record u32_gadgets =
  g_split_le :: "nat \<Rightarrow> nat \<Rightarrow> bool list"
  g_add_many_u32 :: "u32 list \<Rightarrow> u32 \<times> u32"
  g_sub_u32 :: "u32 \<Rightarrow> u32 \<Rightarrow> u32 \<Rightarrow> u32 \<times> u32"
  g_list_le :: "u32 list \<Rightarrow> u32 list \<Rightarrow> bool"

definition gadget_laws :: "u32_gadgets \<Rightarrow> bool" where
  "gadget_laws g \<longleftrightarrow>
     (\<forall>x n. x < 2 ^ n \<longrightarrow> length (g_split_le g x n) = n \<and> horner_sum of_bool 2 (g_split_le g x n) = x) \<and>
     (\<forall>c a b. let (r, c') = g_add_many_u32 g [c, a, b] in unat r + 2 ^ 32 * unat c' = unat c + unat a + unat b) \<and>
     (\<forall>a b c. unat c \<le> 1 \<longrightarrow> (let (r, c') = g_sub_u32 g a b c in
        unat c' \<le> 1 \<and> unat a + 2 ^ 32 * unat c' = unat b + unat c + unat r)) \<and>
     (\<forall>xs ys. length xs = length ys \<longrightarrow> (g_list_le g xs ys \<longleftrightarrow> limbs_val_le xs \<le> limbs_val_le ys))"

definition constrain :: "bool \<Rightarrow> 'a option \<Rightarrow> 'a option" where
  "constrain c m = (if c then m else None)"

fun ok_value :: "('e, 'a) outcome \<Rightarrow> 'a option" where
  "ok_value (Ok a) = Some a"
| "ok_value _ = None"

section \<open>U256Target\<close>

fun add_limbs_target :: "u32_gadgets \<Rightarrow> u32 \<Rightarrow> (u32 \<times> u32) list \<Rightarrow> u32 list \<times> u32" where
  "add_limbs_target g carry [] = ([], carry)"
| "add_limbs_target g carry ((a, b) # ps) =
     (let (new_limb, new_carry) = g_add_many_u32 g [carry, a, b];
          (combined_limbs, carry') = add_limbs_target g new_carry ps
      in (new_limb # combined_limbs, carry'))"

definition U256Target_add :: "u32_gadgets \<Rightarrow> U256 \<Rightarrow> U256 \<Rightarrow> U256 option" where
  "U256Target_add g a b =
     (let (combined_limbs, carry) = add_limbs_target g 0 (zip (rev (U256_to_u32_vec a)) (rev (U256_to_u32_vec b)))
      in constrain (carry = 0) (ok_value (U256_from_u32_slice (rev combined_limbs))))"

fun sub_limbs_target :: "u32_gadgets \<Rightarrow> u32 \<Rightarrow> (u32 \<times> u32) list \<Rightarrow> u32 list \<times> u32" where
  "sub_limbs_target g borrow [] = ([], borrow)"
| "sub_limbs_target g borrow ((a, b) # ps) =
     (let (result, new_borrow) = g_sub_u32 g a b borrow;
          (result_limbs, borrow') = sub_limbs_target g new_borrow ps
      in (result # result_limbs, borrow'))"

definition U256Target_sub :: "u32_gadgets \<Rightarrow> U256 \<Rightarrow> U256 \<Rightarrow> U256 option" where
  "U256Target_sub g a b =
     (let (result_limbs, borrow) = sub_limbs_target g 0 (zip (rev (U256_to_u32_vec a)) (rev (U256_to_u32_vec b)))
      in constrain (borrow = 0) (ok_value (U256_from_u32_slice (rev result_limbs))))"

definition U256Target_is_le :: "u32_gadgets \<Rightarrow> U256 \<Rightarrow> U256 \<Rightarrow> bool" where
  "U256Target_is_le g a b = g_list_le g (rev (U256_to_u32_vec a)) (rev (U256_to_u32_vec b))"

definition U256Target_is_lt :: "u32_gadgets \<Rightarrow> U256 \<Rightarrow> U256 \<Rightarrow> bool" where
  "U256Target_is_lt g a b = (U256Target_is_le g a b \<and> \<not> U256_to_u32_vec a = U256_to_u32_vec b)"

lemma add_limbs_target_spec:
  assumes "gadget_laws g" "add_limbs_target g carry ps = (rs, carry')"
  shows "length rs = length ps \<and> limbs_val_le rs + 2 ^ (32 * length ps) * unat carry' =
      limbs_val_le (map fst ps) + limbs_val_le (map snd ps) + unat carry"
  using assms(2)
proof (induction ps arbitrary: carry rs)
  case (Cons p ps)
  obtain a b where p: "p = (a, b)" by fastforce
  obtain r c where rc: "g_add_many_u32 g [carry, a, b] = (r, c)" by fastforce
  obtain rs' where rec: "add_limbs_target g c ps = (rs', carry')" and rs: "rs = r # rs'"
    using Cons.prems by (auto simp: p rc split: prod.splits)
  have "unat r + 2 ^ 32 * unat c = unat carry + unat a + unat b"
    using assms(1) rc unfolding gadget_laws_def by (metis (mono_tags, lifting) case_prod_conv)
  with Cons.IH [OF rec] show ?case by (simp add: rs p power_add algebra_simps)
qed simp

lemma sub_limbs_target_spec:
  assumes "gadget_laws g" "sub_limbs_target g borrow ps = (rs, borrow')" "unat borrow \<le> 1"
  shows "length rs = length ps \<and> unat borrow' \<le> 1 \<and> limbs_val_le (map fst ps) + 2 ^ (32 * length ps) * unat borrow' =
      limbs_val_le (map snd ps) + unat borrow + limbs_val_le rs"
  using assms(2,3)
proof (induction ps arbitrary: borrow rs)
  case (Cons p ps)
  obtain a b where p: "p = (a, b)" by fastforce
  obtain r c where rc: "g_sub_u32 g a b borrow = (r, c)" by fastforce
  obtain rs' where rec: "sub_limbs_target g c ps = (rs', borrow')" and rs: "rs = r # rs'"
    using Cons.prems by (auto simp: p rc split: prod.splits)
  have "unat c \<le> 1 \<and> unat a + 2 ^ 32 * unat c = unat b + unat borrow + unat r"
    using assms(1) rc Cons.prems(2) unfolding gadget_laws_def by (metis (mono_tags, lifting) case_prod_conv)
  with Cons.IH [OF rec] show ?case by (simp add: rs p power_add algebra_simps)
qed simp

lemma ok_value_Some_iff [simp]: "ok_value m = Some a \<longleftrightarrow> m = Ok a"
  by (cases m) auto

lemma constrain_Some_iff [simp]: "constrain c m = Some a \<longleftrightarrow> c \<and> m = Some a"
  by (simp add: constrain_def)

lemma U256_val_le: "limbs_val_le (rev (U256_to_u32_vec a)) = U256_val a"
  by (simp add: U256_val_def limbs_val_be_def)

lemma U256_of_limbs:
  "length rs = 8 \<Longrightarrow> U256_from_u32_slice (rev rs) = Ok c \<longleftrightarrow> U256_val c = limbs_val_le rs"
  using U256_from_u32_slice_ok_val [of rs] by auto (metis U256_val_inject)

lemma U256Target_add_Some_iff:
  assumes "gadget_laws g"
  shows "U256Target_add g a b = Some c \<longleftrightarrow> U256_val c = U256_val a + U256_val b"
proof -
  obtain rs carry where r: "add_limbs_target g 0 (zip (rev (U256_to_u32_vec a)) (rev (U256_to_u32_vec b))) = (rs, carry)"
    by fastforce
  from add_limbs_target_spec [OF assms r] have len: "length rs = 8"
    and sum: "limbs_val_le rs + 2 ^ 256 * unat carry = U256_val a + U256_val b" by (simp_all add: U256_val_le)
  have "carry = 0 \<longleftrightarrow> U256_val a + U256_val b < 2 ^ 256"
    using sum limbs_val_le_bound [of rs] len by (cases "unat carry") (auto simp: unat_eq_0)
  with sum U256_val_bound [of c] show ?thesis by (auto simp: U256Target_add_def r U256_of_limbs [OF len])
qed

lemma U256Target_sub_Some_iff:
  assumes "gadget_laws g"
  shows "U256Target_sub g a b = Some c \<longleftrightarrow> U256_val a = U256_val b + U256_val c"
proof -
  obtain rs borrow where r: "sub_limbs_target g 0 (zip (rev (U256_to_u32_vec a)) (rev (U256_to_u32_vec b))) = (rs, borrow)"
    by fastforce
  from sub_limbs_target_spec [OF assms r] have len: "length rs = 8"
    and diff: "U256_val a + 2 ^ 256 * unat borrow = U256_val b + limbs_val_le rs" by (simp_all add: U256_val_le)
  have "borrow = 0 \<longleftrightarrow> U256_val b \<le> U256_val a"
    using diff limbs_val_le_bound [of rs] len by (cases "unat borrow") (auto simp: unat_eq_0)
  with diff show ?thesis by (auto simp: U256Target_sub_def r U256_of_limbs [OF len])
qed

lemma U256Target_is_lt_iff: "gadget_laws g \<Longrightarrow> U256Target_is_lt g a b \<longleftrightarrow> a < b"
  by (simp add: U256Target_is_lt_def U256Target_is_le_def gadget_laws_def U256_val_le u256.to_inj U256_le_val [symmetric] less_le)

section \<open>Insertion proofs in-circuit\<close>

text \<open>\<open>split_le\<close> constrains the index to the number of bits of the proof.\<close>

definition IndexedInsertionProofTarget_get_new_root ::
  "u32_gadgets \<Rightarrow> (u64 list \<Rightarrow> PoseidonHashOut) \<Rightarrow> IndexedInsertionProof \<Rightarrow> U256 \<Rightarrow> u64 \<Rightarrow> PoseidonHashOut
     \<Rightarrow> PoseidonHashOut option" where
  "IndexedInsertionProofTarget_get_new_root g poseidon p k v prev_root =
     (let H = two_to_one poseidon; leaf_hash = IndexedMerkleLeaf_hash poseidon; prev_low = prev_low_leaf p;
          is_key_lower_bounded = U256Target_is_lt g (leaf_key prev_low) k;
          is_key_upper_bounded = U256Target_is_lt g k (leaf_next_key prev_low);
          is_next_key_zero = (U256_to_u32_vec (leaf_next_key prev_low) = replicate 8 0);
          low = unat (low_leaf_index p); index = unat (ins_index p);
          new_low_leaf = new_low_leaf_of prev_low (ins_index p) k;
          temp_root = MerkleProofTarget_get_root (g_split_le g) H leaf_hash (low_leaf_proof p) new_low_leaf low
      in constrain (is_key_lower_bounded \<and> (is_key_upper_bounded \<or> is_next_key_zero) \<and>
           low < 2 ^ length (low_leaf_proof p) \<and> index < 2 ^ length (leaf_proof p) \<and>
           MerkleProofTarget_verify (g_split_le g) H leaf_hash (low_leaf_proof p) prev_low low prev_root \<and>
           MerkleProofTarget_verify (g_split_le g) H leaf_hash (leaf_proof p) IndexedMerkleLeaf_empty_leaf index temp_root)
         (Some (MerkleProofTarget_get_root (g_split_le g) H leaf_hash (leaf_proof p) (inserted_leaf_of prev_low k v) index)))"

definition NullifierInsertionProofTarget_get_new_root ::
  "u32_gadgets \<Rightarrow> (u64 list \<Rightarrow> PoseidonHashOut) \<Rightarrow> IndexedInsertionProof \<Rightarrow> PoseidonHashOut \<Rightarrow> Bytes32
     \<Rightarrow> PoseidonHashOut option" where
  "NullifierInsertionProofTarget_get_new_root g poseidon p prev_root nullifier =
     Option.bind (ok_value (U256_from_u32_slice (Bytes32_to_u32_vec nullifier))) (\<lambda>k.
       IndexedInsertionProofTarget_get_new_root g poseidon p k 0 prev_root)"

lemma target_root:
  assumes "gadget_laws g" "i < 2 ^ length ss"
  shows "MerkleProofTarget_get_root (g_split_le g) H leaf_hash ss leaf i = root_of H i (leaf_hash leaf) ss"
  using assms by (simp add: MerkleProofTarget_get_root_def swapped_loop_root_of gadget_laws_def)

lemma target_get_root_native:
  assumes "gadget_laws g" "length ss \<le> 64" "unat i < 2 ^ length ss"
  shows "MerkleProof_get_root H leaf_hash ss leaf i = Ok (MerkleProofTarget_get_root (g_split_le g) H leaf_hash ss leaf (unat i))"
  using assms by (simp add: target_root MerkleProof_get_root_root_of)

lemma target_verify_native:
  assumes "gadget_laws g" "length ss \<le> 64"
  shows "unat i < 2 ^ length ss \<and> MerkleProofTarget_verify (g_split_le g) H leaf_hash ss leaf (unat i) r \<longleftrightarrow>
    MerkleProof_verify H leaf_hash ss leaf i r = Ok ()"
  using assms by (auto simp: target_root MerkleProofTarget_verify_def MerkleProof_verify_Ok_iff)

lemma insertion_target_native:
  assumes laws: "gadget_laws g" and len: "length (low_leaf_proof p) \<le> 64" "length (leaf_proof p) \<le> 64"
  shows "IndexedInsertionProofTarget_get_new_root g P p k v prev_root = Some r \<longleftrightarrow>
    Insertion_get_new_root P p k v prev_root = Ok r"
proof -
  have zero: "U256_to_u32_vec x = replicate 8 0 \<longleftrightarrow> x = U256_default" for x
    by (cases x) (simp add: U256_default_def eval_nat_numeral)
  let ?H = "two_to_one P" and ?lh = "IndexedMerkleLeaf_hash P" and ?low = "prev_low_leaf p"
  have "IndexedInsertionProofTarget_get_new_root g P p k v prev_root = Some r \<longleftrightarrow>
      leaf_key ?low < k \<and> (k < leaf_next_key ?low \<or> leaf_next_key ?low = U256_default) \<and>
      unat (low_leaf_index p) < 2 ^ length (low_leaf_proof p) \<and> unat (ins_index p) < 2 ^ length (leaf_proof p) \<and>
      root_of ?H (unat (low_leaf_index p)) (?lh ?low) (low_leaf_proof p) = prev_root \<and>
      root_of ?H (unat (ins_index p)) (?lh IndexedMerkleLeaf_empty_leaf) (leaf_proof p) =
        root_of ?H (unat (low_leaf_index p)) (?lh (new_low_leaf_of ?low (ins_index p) k)) (low_leaf_proof p) \<and>
      root_of ?H (unat (ins_index p)) (?lh (inserted_leaf_of ?low k v)) (leaf_proof p) = r"
    using laws by (auto simp: IndexedInsertionProofTarget_get_new_root_def Let_def U256Target_is_lt_iff zero
        MerkleProofTarget_verify_def target_root)
  also have "\<dots> \<longleftrightarrow> Insertion_get_new_root P p k v prev_root = Ok r"
    using len by (auto simp: Insertion_get_new_root_def Let_def MerkleProof_verify_Ok_iff MerkleProof_get_root_root_of not_le)
  finally show ?thesis .
qed

section \<open>Crediting in-circuit\<close>

definition UpdatePrivateStateTarget_new ::
  "u32_gadgets \<Rightarrow> (u64 list \<Rightarrow> PoseidonHashOut) \<Rightarrow> u32 \<Rightarrow> U256 \<Rightarrow> Bytes32 \<Rightarrow> PrivateState \<Rightarrow> IndexedInsertionProof \<Rightarrow> U256
     \<Rightarrow> PoseidonHashOut list \<Rightarrow> PrivateState option" where
  "UpdatePrivateStateTarget_new g poseidon token_index amount nullifier prev_private_state nullifier_proof prev_balance
       asset_merkle_proof =
     (let H = two_to_one poseidon; leaf_hash = U256_leaf_hash poseidon;
          prev_private_commitment = PrivateState_commitment poseidon prev_private_state in
      Option.bind (NullifierInsertionProofTarget_get_new_root g poseidon nullifier_proof
                     (ps_nullifier_tree_root prev_private_state) nullifier) (\<lambda>new_nullifier_tree_root.
      constrain (unat token_index < 2 ^ length asset_merkle_proof \<and>
                 MerkleProofTarget_verify (g_split_le g) H leaf_hash asset_merkle_proof prev_balance (unat token_index)
                   (ps_asset_tree_root prev_private_state))
      (Option.bind (U256Target_add g prev_balance amount) (\<lambda>new_asset_leaf.
        Some \<lparr>ps_asset_tree_root =
                MerkleProofTarget_get_root (g_split_le g) H leaf_hash asset_merkle_proof new_asset_leaf (unat token_index),
              ps_nullifier_tree_root = new_nullifier_tree_root,
              ps_sent_tx_tree_root = ps_sent_tx_tree_root prev_private_state,
              ps_prev_private_commitment = prev_private_commitment,
              ps_nonce = ps_nonce prev_private_state, ps_salt = ps_salt prev_private_state\<rparr>))))"

section \<open>Spending in-circuit\<close>

text \<open>
  The values of the targets. The nonce of the transaction is range checked to 32 bits; the nonce of the previous
  private state is an unconstrained field element, to which the circuit adds one in the field.
\<close>

record PrivateStateTarget =
  pt_asset_tree_root :: PoseidonHashOut
  pt_nullifier_tree_root :: PoseidonHashOut
  pt_sent_tx_tree_root :: PoseidonHashOut
  pt_prev_private_commitment :: PoseidonHashOut
  pt_nonce :: u64
  pt_salt :: Salt

record SpendTarget =
  stt_tx_nonce :: u32
  stt_prev_private_state :: PrivateStateTarget
  stt_transfers :: "Transfer list"
  stt_before_balances :: "U256 list"
  stt_asset_merkle_proofs :: "PoseidonHashOut MerkleProof list"
  stt_sent_tx_merkle_proof :: "PoseidonHashOut MerkleProof"

definition PrivateStateTarget_set_witness :: "PrivateState \<Rightarrow> PrivateStateTarget" where
  "PrivateStateTarget_set_witness ps =
     \<lparr>pt_asset_tree_root = ps_asset_tree_root ps, pt_nullifier_tree_root = ps_nullifier_tree_root ps,
      pt_sent_tx_tree_root = ps_sent_tx_tree_root ps, pt_prev_private_commitment = ps_prev_private_commitment ps,
      pt_nonce = ucast (ps_nonce ps), pt_salt = ps_salt ps\<rparr>"

definition SpendTarget_set_witness :: "SpendWitness \<Rightarrow> SpendTarget" where
  "SpendTarget_set_witness w =
     \<lparr>stt_tx_nonce = sw_tx_nonce w, stt_prev_private_state = PrivateStateTarget_set_witness (sw_prev_private_state w),
      stt_transfers = sw_transfers w, stt_before_balances = sw_before_balances w,
      stt_asset_merkle_proofs = sw_asset_merkle_proofs w, stt_sent_tx_merkle_proof = sw_sent_tx_merkle_proof w\<rparr>"

definition PrivateStateTarget_commitment :: "(u64 list \<Rightarrow> PoseidonHashOut) \<Rightarrow> PrivateStateTarget \<Rightarrow> PoseidonHashOut" where
  "PrivateStateTarget_commitment poseidon ps =
     hash_inputs_u64 poseidon (hash_elements (pt_asset_tree_root ps) @ hash_elements (pt_nullifier_tree_root ps) @
       hash_elements (pt_sent_tx_tree_root ps) @ hash_elements (pt_prev_private_commitment ps) @
       [pt_nonce ps] @ Salt_to_u64_vec (pt_salt ps))"

text \<open>\<open>builder.add_const(x, F::ONE)\<close> on a canonical field element.\<close>

definition field_add_one :: "u64 \<Rightarrow> u64" where
  "field_add_one x = (x + 1) mod GOLDILOCKS_ORDER"

definition spend_step_target ::
  "u32_gadgets \<Rightarrow> (u64 list \<Rightarrow> PoseidonHashOut) \<Rightarrow> PoseidonHashOut \<Rightarrow> debit_input \<Rightarrow> PoseidonHashOut option" where
  "spend_step_target g poseidon asset_tree_root = (\<lambda>(before_balance, transfer, proof).
     let H = two_to_one poseidon; leaf_hash = U256_leaf_hash poseidon; index = unat (tr_token_index transfer) in
     constrain (index < 2 ^ length proof \<and>
                MerkleProofTarget_verify (g_split_le g) H leaf_hash proof before_balance index asset_tree_root)
       (Option.bind (U256Target_sub g before_balance (tr_amount transfer)) (\<lambda>new_balance.
          Some (MerkleProofTarget_get_root (g_split_le g) H leaf_hash proof new_balance index))))"

fun spend_loop_target ::
  "u32_gadgets \<Rightarrow> (u64 list \<Rightarrow> PoseidonHashOut) \<Rightarrow> PoseidonHashOut \<Rightarrow> debit_input list \<Rightarrow> PoseidonHashOut option" where
  "spend_loop_target g poseidon asset_tree_root [] = Some asset_tree_root"
| "spend_loop_target g poseidon asset_tree_root (x # xs) =
     Option.bind (spend_step_target g poseidon asset_tree_root x) (\<lambda>r. spend_loop_target g poseidon r xs)"

definition SpendCircuit_new ::
  "u32_gadgets \<Rightarrow> (u64 list \<Rightarrow> PoseidonHashOut) \<Rightarrow> SpendTarget \<Rightarrow> SpendPublicInputs option" where
  "SpendCircuit_new g poseidon t =
     (let H = two_to_one poseidon; prev = stt_prev_private_state t; nonce = unat (stt_tx_nonce t);
          sent_tx_merkle_proof = stt_sent_tx_merkle_proof t in
      constrain (length (stt_transfers t) = MAX_NUM_TRANSFERS_PER_TX \<and> length (stt_before_balances t) = MAX_NUM_TRANSFERS_PER_TX \<and>
                 length (stt_asset_merkle_proofs t) = MAX_NUM_TRANSFERS_PER_TX)
      (Option.bind (spend_loop_target g poseidon (pt_asset_tree_root prev)
           (zip (stt_before_balances t) (zip (stt_transfers t) (stt_asset_merkle_proofs t)))) (\<lambda>asset_tree_root.
       Option.bind (ok_value (get_merkle_root_from_leaves_circuit H H (Transfer_poseidon_hash poseidon) Transfer_empty_leaf
           TRANSFER_TREE_HEIGHT (stt_transfers t) :: (unit, _) outcome)) (\<lambda>transfer_tree_root.
       let tx = \<lparr>tx_transfer_tree_root = transfer_tree_root, tx_nonce = stt_tx_nonce t\<rparr> in
       constrain (nonce < 2 ^ length sent_tx_merkle_proof \<and>
                  MerkleProofTarget_verify (g_split_le g) H (Tx_hash poseidon) sent_tx_merkle_proof Tx_empty_leaf nonce
                    (pt_sent_tx_tree_root prev))
       (let sent_tx_tree_root = MerkleProofTarget_get_root (g_split_le g) H (Tx_hash poseidon) sent_tx_merkle_proof tx nonce;
            prev_private_commitment = PrivateStateTarget_commitment poseidon prev;
            new_nonce = field_add_one (pt_nonce prev);
            new_private_state =
              \<lparr>pt_asset_tree_root = asset_tree_root, pt_nullifier_tree_root = pt_nullifier_tree_root prev,
               pt_sent_tx_tree_root = sent_tx_tree_root, pt_prev_private_commitment = prev_private_commitment,
               pt_nonce = new_nonce, pt_salt = pt_salt prev\<rparr>
        in Some \<lparr>spi_prev_private_commitment = prev_private_commitment,
                 spi_new_private_commitment = PrivateStateTarget_commitment poseidon new_private_state,
                 spi_tx = tx, spi_is_valid = (ucast (stt_tx_nonce t) = pt_nonce prev)\<rparr>)))))"

section \<open>The circuits agree with the native computations\<close>

lemma bind_Some_iff: "Option.bind m f = Some b \<longleftrightarrow> (\<exists>a. m = Some a \<and> f a = Some b)"
  by (cases m) auto

lemma ex_and_then_Ok: "(\<exists>u. and_then m f = Ok u \<and> Q u) \<longleftrightarrow> (\<exists>a. m = Ok a \<and> (\<exists>u. f a = Ok u \<and> Q u))"
  by auto

lemma target_verify_u32:
  fixes i :: u32
  assumes "gadget_laws g" "length ss \<le> 64"
  shows "unat i < 2 ^ length ss \<and> MerkleProofTarget_verify (g_split_le g) H leaf_hash ss leaf (unat i) r \<longleftrightarrow>
    MerkleProof_verify H leaf_hash ss leaf (ucast i) r = Ok ()"
  using target_verify_native [OF assms, of "ucast i"] by simp

lemma target_get_root_u32:
  fixes i :: u32
  assumes "gadget_laws g" "length ss \<le> 64" "unat i < 2 ^ length ss"
  shows "MerkleProof_get_root H leaf_hash ss leaf (ucast i) =
    (Ok (MerkleProofTarget_get_root (g_split_le g) H leaf_hash ss leaf (unat i)) :: ('e, _) outcome)"
  using target_get_root_native [OF assms(1,2), of "ucast i"] assms(3) by simp

lemma spend_step_target_native:
  assumes laws: "gadget_laws g" and len: "length p \<le> 64"
  shows "spend_step_target g P root (b, t, p) = Some r \<longleftrightarrow> spend_step P root (b, t, p) = Ok r"
proof -
  note v = target_verify_u32 [OF laws len, of "tr_token_index t" "two_to_one P" "U256_leaf_hash P" b root]
  have "spend_step P root (b, t, p) = Ok r \<longleftrightarrow>
      (MerkleProof_verify (two_to_one P) (U256_leaf_hash P) p b (ucast (tr_token_index t)) root = Ok () \<and>
       (\<exists>nb. U256_val b = U256_val (tr_amount t) + U256_val nb \<and>
          MerkleProof_get_root (two_to_one P) (U256_leaf_hash P) p nb (ucast (tr_token_index t)) = (Ok r :: (SpendError, _) outcome)))"
    by (auto simp: spend_step_def U256_less_val)
  also have "\<dots> \<longleftrightarrow> spend_step_target g P root (b, t, p) = Some r"
    using v target_get_root_u32 [where 'e = SpendError, OF laws len, of "tr_token_index t" "two_to_one P" "U256_leaf_hash P"]
    by (auto simp: spend_step_target_def bind_Some_iff U256Target_sub_Some_iff [OF laws])
  finally show ?thesis by simp
qed

lemma spend_loop_target_native:
  assumes "gadget_laws g" "list_all (\<lambda>(b, t, p). length p \<le> 64) ws"
  shows "spend_loop_target g P root ws = Some r \<longleftrightarrow> try_fold (spend_step P) root ws = Ok r"
  using assms(2)
proof (induction ws arbitrary: root)
  case (Cons w ws)
  obtain b t p where w: "w = (b, t, p)" by (cases w)
  with Cons show ?case by (simp add: bind_Some_iff spend_step_target_native [OF assms(1)])
qed simp

lemma field_add_one_word:
  fixes n :: u32
  shows "field_add_one (ucast n) = (if n = - 1 then 2 ^ 32 else ucast (n + 1))"
proof (cases "n = - 1")
  case True
  then have "(ucast n :: u64) = 0xFFFFFFFF" by (simp add: unsigned_minus_1_eq_mask mask_eq_exp_minus_1)
  then show ?thesis using True by (simp add: field_add_one_def GOLDILOCKS_ORDER_def)
next
  case False
  then have "unat n \<noteq> 4294967295" by (auto simp: word_unat_eq_iff unsigned_minus_1_eq_mask mask_eq_exp_minus_1)
  then have "unat n + 1 < 4294967296" using unat_lt_u32 [of n] by linarith
  then show ?thesis using False
    by (simp add: field_add_one_def GOLDILOCKS_ORDER_def word_unat_eq_iff unat_word_ariths unat_mod)
qed

lemma PrivateStateTarget_commitment_native:
  "PrivateStateTarget_commitment P (PrivateStateTarget_set_witness ps) = PrivateState_commitment P ps"
  by (simp add: PrivateStateTarget_commitment_def PrivateState_commitment_def PrivateState_to_u64_vec_def
      PrivateStateTarget_set_witness_def)

lemma transfer_root_circuit:
  assumes "length ts = MAX_NUM_TRANSFERS_PER_TX"
  shows "get_merkle_root_from_leaves_circuit (two_to_one P) (two_to_one P) (Transfer_poseidon_hash P) Transfer_empty_leaf
    TRANSFER_TREE_HEIGHT ts = Ok (transfer_root P ts)"
  using get_merkle_root_from_leaves_circuit_node [of TRANSFER_TREE_HEIGHT ts "two_to_one P" "Transfer_poseidon_hash P" Transfer_empty_leaf] assms
  by (simp add: transfer_root_def TRANSFER_TREE_HEIGHT_def MAX_NUM_TRANSFERS_PER_TX_def)

text \<open>A concrete set of gadgets that obeys the laws.\<close>

definition reference_gadgets :: u32_gadgets where
  "reference_gadgets =
     \<lparr>g_split_le = (\<lambda>x n. map (\<lambda>k. odd (x div 2 ^ k)) [0..<n]),
      g_add_many_u32 = (\<lambda>xs. let s = sum_list (map unat xs) in (of_nat s, of_nat (s div 2 ^ 32))),
      g_sub_u32 = (\<lambda>a b c. (a - b - c, if unat a < unat b + unat c then 1 else 0)),
      g_list_le = (\<lambda>xs ys. limbs_val_le xs \<le> limbs_val_le ys)\<rparr>"

lemma horner_bits: "x < 2 ^ n \<Longrightarrow> horner_sum of_bool 2 (map (\<lambda>k. odd (x div 2 ^ k)) [0..<n]) = (x :: nat)"
  by (simp add: horner_sum_bit_eq_take_bit [where a = x and n = n, unfolded bit_iff_odd [abs_def]] take_bit_nat_eq_self)

lemma reference_gadgets_laws: "gadget_laws reference_gadgets"
  unfolding gadget_laws_def
proof (intro conjI allI impI)
  fix x n :: nat
  assume "x < 2 ^ n"
  then show "length (g_split_le reference_gadgets x n) = n" "horner_sum of_bool 2 (g_split_le reference_gadgets x n) = x"
    by (simp_all add: reference_gadgets_def horner_bits)
next
  fix c a b :: u32
  have "(unat c + (unat a + unat b)) div 4294967296 < 4294967296"
    using unat_lt_u32 [of a] unat_lt_u32 [of b] unat_lt_u32 [of c] by (simp add: div_less_iff_less_mult)
  then show "let (r, c') = g_add_many_u32 reference_gadgets [c, a, b] in unat r + 2 ^ 32 * unat c' = unat c + unat a + unat b"
    by (simp add: reference_gadgets_def Let_def unat_word_ariths mod_simps)
next
  fix a b c :: u32
  assume "unat c \<le> 1"
  then show "let (r, c') = g_sub_u32 reference_gadgets a b c in unat c' \<le> 1 \<and> unat a + 2 ^ 32 * unat c' = unat b + unat c + unat r"
    using unat_lt_u32 [of a] unat_lt_u32 [of b]
    by (auto simp: reference_gadgets_def Let_def unat_sub_if' word_size)
qed (simp add: reference_gadgets_def)

section \<open>Properties\<close>

text \<open>
  The public inputs the circuit computes from the targets of a native witness: those of the native computation, with
  the new commitment to a state whose nonce is the successor in the field.
\<close>

definition spend_outputs :: "(u64 list \<Rightarrow> PoseidonHashOut) \<Rightarrow> SpendWitness \<Rightarrow> SpendPublicInputs \<Rightarrow> SpendPublicInputs \<Rightarrow> bool" where
  "spend_outputs P w q pis \<longleftrightarrow>
     (\<exists>ps. spi_new_private_commitment q = PrivateState_commitment P ps \<and> ps_nonce ps = ps_nonce (sw_prev_private_state w) + 1 \<and>
        pis = q\<lparr>spi_new_private_commitment := PrivateStateTarget_commitment P
          ((PrivateStateTarget_set_witness ps)\<lparr>pt_nonce := field_add_one (ucast (ps_nonce (sw_prev_private_state w)))\<rparr>)\<rparr>)"

lemma spend_circuit_outputs:
  assumes "gadget_laws g" "spend_proof_lengths w"
  shows "case SpendWitness_to_public_inputs P w of
      Ok q \<Rightarrow> \<exists>pis. SpendCircuit_new g P (SpendTarget_set_witness w) = Some pis \<and> spend_outputs P w q pis
    | _ \<Rightarrow> SpendCircuit_new g P (SpendTarget_set_witness w) = None"
proof (cases "length (sw_transfers w) = MAX_NUM_TRANSFERS_PER_TX \<and> length (sw_before_balances w) = MAX_NUM_TRANSFERS_PER_TX \<and>
    length (sw_asset_merkle_proofs w) = MAX_NUM_TRANSFERS_PER_TX")
  case True
  have "list_all (\<lambda>(b, t, p). length p \<le> 64) (debit_inputs w)"
    using assms(2) by (auto simp: spend_proof_lengths_def debit_inputs_def list_all_iff tree_heights dest!: set_zip_rightD)
  note loop = spend_loop_target_native [OF assms(1) this, of P "ps_asset_tree_root (sw_prev_private_state w)"]
  have len: "length (sw_sent_tx_merkle_proof w) \<le> 64" "unat (sw_tx_nonce w) < 2 ^ length (sw_sent_tx_merkle_proof w)"
    using assms(2) unat_lt_u32 [of "sw_tx_nonce w"] by (simp_all add: spend_proof_lengths_def tree_heights)
  note sent = target_verify_u32 [OF assms(1) len(1), of "sw_tx_nonce w" "two_to_one P" "Tx_hash P" Tx_empty_leaf
      "ps_sent_tx_tree_root (sw_prev_private_state w)"]
  note root = target_get_root_u32 [OF assms(1) len, where 'e = SpendError, of "two_to_one P" "Tx_hash P"]
  let ?loop = "try_fold (spend_step P) (ps_asset_tree_root (sw_prev_private_state w)) (debit_inputs w)"
  let ?sent = "MerkleProof_verify (two_to_one P) (Tx_hash P) (sw_sent_tx_merkle_proof w) Tx_empty_leaf (ucast (sw_tx_nonce w))
    (ps_sent_tx_tree_root (sw_prev_private_state w))"
  note defs = SpendCircuit_new_def SpendTarget_set_witness_def debit_inputs_def [symmetric] Let_def transfer_root_circuit
    SpendWitness_to_public_inputs_def transfer_root_batch
  show ?thesis
  proof (cases "\<exists>a. ?loop = Ok a \<and> ?sent = Ok ()")
    case ok: True
    then obtain a where a: "?loop = Ok a" "?sent = Ok ()" by blast
    with True len(2) sent loop [of a] show ?thesis
      by (simp add: defs root PrivateStateTarget_set_witness_def)
        (auto simp: spend_outputs_def PrivateStateTarget_set_witness_def
          PrivateStateTarget_commitment_native [unfolded PrivateStateTarget_set_witness_def])
  next
    case False
    then have "SpendWitness_to_public_inputs P w \<noteq> Ok q" for q by (auto simp: SpendWitness_to_public_inputs_def Let_def)
    moreover have "SpendCircuit_new g P (SpendTarget_set_witness w) = None"
    proof (cases "spend_loop_target g P (ps_asset_tree_root (sw_prev_private_state w)) (debit_inputs w)")
      case (Some a)
      with loop [of a] False have "?sent \<noteq> Ok ()" by auto
      with Some sent len(2) True show ?thesis by (simp add: defs PrivateStateTarget_set_witness_def constrain_def)
    qed (simp add: defs PrivateStateTarget_set_witness_def constrain_def)
    ultimately show ?thesis by (cases "SpendWitness_to_public_inputs P w") auto
  qed
next
  case False
  then show ?thesis
    by (auto simp: SpendCircuit_new_def SpendTarget_set_witness_def SpendWitness_to_public_inputs_def Let_def constrain_def)
qed

lemma spend_outputs_same:
  assumes "spend_outputs P w q r" "ps_nonce (sw_prev_private_state w) \<noteq> - 1"
  shows "r = q"
proof -
  from assms(1) obtain ps where ps: "spi_new_private_commitment q = PrivateState_commitment P ps"
    "ps_nonce ps = ps_nonce (sw_prev_private_state w) + 1"
    "r = q\<lparr>spi_new_private_commitment := PrivateStateTarget_commitment P
      ((PrivateStateTarget_set_witness ps)\<lparr>pt_nonce := field_add_one (ucast (ps_nonce (sw_prev_private_state w)))\<rparr>)\<rparr>"
    by (auto simp: spend_outputs_def)
  have "(PrivateStateTarget_set_witness ps)\<lparr>pt_nonce := field_add_one (ucast (ps_nonce (sw_prev_private_state w)))\<rparr> =
      PrivateStateTarget_set_witness ps"
    using assms(2) ps(2) by (simp add: field_add_one_word PrivateStateTarget_set_witness_def)
  with ps(1,3) show ?thesis by (cases q) (simp add: PrivateStateTarget_commitment_native)
qed

lemma spend_circuit_valid:
  assumes "SpendCircuit_new g P t = Some pis" "spi_is_valid pis"
  shows "\<exists>w. t = SpendTarget_set_witness w"
proof -
  from assms have "ucast (stt_tx_nonce t) = pt_nonce (stt_prev_private_state t)"
    by (auto simp: SpendCircuit_new_def Let_def bind_Some_iff constrain_def split: if_splits)
  then show ?thesis
    by (cases t; cases "stt_prev_private_state t")
      (auto simp: SpendTarget_set_witness_def PrivateStateTarget_set_witness_def
        intro!: exI [of _ "\<lparr>sw_tx_nonce = stt_tx_nonce t, sw_prev_private_state =
          \<lparr>ps_asset_tree_root = pt_asset_tree_root (stt_prev_private_state t),
           ps_nullifier_tree_root = pt_nullifier_tree_root (stt_prev_private_state t),
           ps_sent_tx_tree_root = pt_sent_tx_tree_root (stt_prev_private_state t),
           ps_prev_private_commitment = pt_prev_private_commitment (stt_prev_private_state t),
           ps_nonce = stt_tx_nonce t, ps_salt = pt_salt (stt_prev_private_state t)\<rparr>,
          sw_transfers = stt_transfers t, sw_before_balances = stt_before_balances t,
          sw_asset_merkle_proofs = stt_asset_merkle_proofs t, sw_sent_tx_merkle_proof = stt_sent_tx_merkle_proof t\<rparr>"])
qed

text \<open>
C29: the spend circuit agrees with the native computation, for proofs of the trees' heights, when the builder's gadgets
obey their laws. On the targets of a native witness whose previous nonce is below the largest 32-bit value, the circuit
accepts given public inputs if and only if the native computation returns them. At the largest nonce it accepts if and
only if the native computation returns, and differs only in the new commitment: the native code wraps the new nonce to
zero, the circuit commits to \<open>2^32\<close>. The previous nonce is an unconstrained field element in the circuit; on any
targets, public inputs with the validity flag set are accepted only if some native witness has these targets.
\<close>

theorem spend_circuit_matches_native:
  assumes "gadget_laws g" and "spend_proof_lengths w"
  shows "(ps_nonce (sw_prev_private_state w) \<noteq> - 1 \<longrightarrow>
      (SpendCircuit_new g P (SpendTarget_set_witness w) = Some pis \<longleftrightarrow> SpendWitness_to_public_inputs P w = Ok pis)) \<and>
    (ps_nonce (sw_prev_private_state w) = - 1 \<longrightarrow>
      (case SpendWitness_to_public_inputs P w of
         Ok q \<Rightarrow> \<exists>ps. spi_new_private_commitment q = PrivateState_commitment P ps \<and> ps_nonce ps = 0 \<and>
           SpendCircuit_new g P (SpendTarget_set_witness w) = Some (q\<lparr>spi_new_private_commitment :=
             PrivateStateTarget_commitment P ((PrivateStateTarget_set_witness ps)\<lparr>pt_nonce := 2 ^ 32\<rparr>)\<rparr>)
       | _ \<Rightarrow> SpendCircuit_new g P (SpendTarget_set_witness w) = None)) \<and>
    (SpendCircuit_new g P t = Some pis \<and> spi_is_valid pis \<longrightarrow> (\<exists>w'. t = SpendTarget_set_witness w'))"
proof (intro conjI impI)
  note out = spend_circuit_outputs [OF assms, of P]
  show "SpendCircuit_new g P (SpendTarget_set_witness w) = Some pis \<longleftrightarrow> SpendWitness_to_public_inputs P w = Ok pis"
    if "ps_nonce (sw_prev_private_state w) \<noteq> - 1"
    using out by (cases "SpendWitness_to_public_inputs P w") (auto dest: spend_outputs_same [OF _ that])
  show "case SpendWitness_to_public_inputs P w of
         Ok q \<Rightarrow> \<exists>ps. spi_new_private_commitment q = PrivateState_commitment P ps \<and> ps_nonce ps = 0 \<and>
           SpendCircuit_new g P (SpendTarget_set_witness w) = Some (q\<lparr>spi_new_private_commitment :=
             PrivateStateTarget_commitment P ((PrivateStateTarget_set_witness ps)\<lparr>pt_nonce := 2 ^ 32\<rparr>)\<rparr>)
       | _ \<Rightarrow> SpendCircuit_new g P (SpendTarget_set_witness w) = None"
    if "ps_nonce (sw_prev_private_state w) = - 1"
    using out that by (cases "SpendWitness_to_public_inputs P w") (auto simp: spend_outputs_def field_add_one_word)
  show "\<exists>w'. t = SpendTarget_set_witness w'" if "SpendCircuit_new g P t = Some pis \<and> spi_is_valid pis"
    using spend_circuit_valid that by blast
qed

theorem spend_circuit_matches_native_witness:
  "\<exists>pis. SpendCircuit_new reference_gadgets (\<lambda>_. PoseidonHashOut_default) (SpendTarget_set_witness idle_spend) = Some pis"
  using idle_spend_ok spend_circuit_matches_native [OF reference_gadgets_laws idle_lens(4)]
  by (auto simp: idle_spend_def)

text \<open>
C30: the credit circuit computes a new private state if and only if the native step accepts and
returns that state; in particular the circuit is unsatisfiable where the native addition panics.
\<close>

theorem credit_circuit_matches_native:
  assumes "gadget_laws g" and "length ap \<le> 64" and "length (low_leaf_proof np) \<le> 64" and "length (leaf_proof np) \<le> 64"
  shows "UpdatePrivateStateTarget_new g P token_index amount n ps np bal ap = Some ps' \<longleftrightarrow>
    (\<exists>u. UpdatePrivateState_new P token_index amount n ps np bal ap = Ok u \<and> ups_new_private_state u = ps')"
proof -
  note asset = target_verify_u32 [OF assms(1,2), of token_index "two_to_one P" "U256_leaf_hash P" bal]
  have key: "U256_from_u32_slice (Bytes32_to_u32_vec n) = Ok (nullifier_key n)"
    by (cases n) (simp add: U256_from_u32_slice_def)
  have nullifier: "NullifierInsertionProofTarget_get_new_root g P np r n = Some r' \<longleftrightarrow>
      NullifierProof_get_new_root P np r n = Ok r'" for r r'
    by (simp add: NullifierInsertionProofTarget_get_new_root_def NullifierProof_get_new_root_def key
        insertion_target_native [OF assms(1,3,4)])
  have "(\<exists>u. UpdatePrivateState_new P token_index amount n ps np bal ap = Ok u \<and> ups_new_private_state u = ps') \<longleftrightarrow>
      (\<exists>nr v ar. NullifierProof_get_new_root P np (ps_nullifier_tree_root ps) n = Ok nr \<and>
         MerkleProof_verify (two_to_one P) (U256_leaf_hash P) ap bal (ucast token_index) (ps_asset_tree_root ps) = Ok () \<and>
         U256_val v = U256_val bal + U256_val amount \<and>
         MerkleProof_get_root (two_to_one P) (U256_leaf_hash P) ap v (ucast token_index) =
           (Ok ar :: (UpdatePrivateStateError, _) outcome) \<and>
         ps' = ps\<lparr>ps_asset_tree_root := ar, ps_nullifier_tree_root := nr,
                  ps_prev_private_commitment := PrivateState_commitment P ps\<rparr>)"
    by (simp add: UpdatePrivateState_new_def Let_def ex_and_then_Ok eq_commute [of ps'] del: and_then_Ok_iff)
  also have "\<dots> \<longleftrightarrow> UpdatePrivateStateTarget_new g P token_index amount n ps np bal ap = Some ps'"
    using target_get_root_u32 [where 'e = UpdatePrivateStateError, OF assms(1,2), of token_index "two_to_one P" "U256_leaf_hash P"]
    by (cases ps; cases ps')
      (auto simp: UpdatePrivateStateTarget_new_def Let_def bind_Some_iff nullifier asset [symmetric] U256Target_add_Some_iff [OF assms(1)])
  finally show ?thesis by simp
qed

theorem credit_circuit_matches_native_witness:
  "UpdatePrivateStateTarget_new reference_gadgets (\<lambda>_. PoseidonHashOut_default) 0 U256_max Bytes32_default
     (sw_prev_private_state idle_spend)
     \<lparr>ins_index = 1, low_leaf_proof = [], leaf_proof = [], low_leaf_index = 0, prev_low_leaf = IndexedMerkleLeaf_default\<rparr>
     U256_max [] = None"
proof -
  let ?P = "\<lambda>_ :: u64 list. PoseidonHashOut_default" and ?ps = "sw_prev_private_state idle_spend"
  let ?np = "\<lparr>ins_index = 1, low_leaf_proof = [], leaf_proof = [], low_leaf_index = 0, prev_low_leaf = IndexedMerkleLeaf_default\<rparr>"
  have "U256_max \<noteq> U256_default" by (simp add: U256_max_def U256_default_def)
  then have "0 < U256_val U256_max" by (metis U256_val_default U256_val_inject neq0_conv)
  then have "U256_val v \<noteq> U256_val U256_max + U256_val U256_max" for v
    using U256_le_max [of v] by (simp add: U256_le_val)
  then have "UpdatePrivateState_new ?P 0 U256_max Bytes32_default ?ps ?np U256_max [] \<noteq> Ok u" for u
    by (auto simp: UpdatePrivateState_new_def Let_def)
  then have "UpdatePrivateStateTarget_new reference_gadgets ?P 0 U256_max Bytes32_default ?ps ?np U256_max [] \<noteq> Some ps'" for ps'
    using credit_circuit_matches_native [OF reference_gadgets_laws, of "[]" ?np] by simp
  then show ?thesis by (simp add: not_Some_eq [symmetric] del: not_Some_eq)
qed

end
