(* ===== verification/Public_State.thy ===== *)
theory Public_State
  imports Leaf_Trees Transfers
begin

text \<open>
  The public side of the rollup, of \<open>src/src/common\<close>: the member, send and channel leaves with their
  trees (\<open>trees/key_tree.rs\<close>, \<open>trees/channel_tree.rs\<close>), the transaction trees (\<open>trees/tx_v2_tree.rs\<close>),
  the block header (\<open>block.rs\<close>), the channel message (\<open>channel_message.rs\<close>) and the encoding of
  \<open>PublicState\<close> (\<open>public_state.rs\<close>). The default of a channel leaf holds the roots of two empty
  trees, so it is an outcome like every root; the lemmas give its value. Error payloads that are
  formatted text are dropped.
\<close>

unbundle bit_operations_syntax

section \<open>Heights\<close>

abbreviation BLOCK_NUMBER_BITS :: nat where
  "BLOCK_NUMBER_BITS \<equiv> 63"

definition PUBLIC_STATE_TREE_HEIGHT :: nat where
  "PUBLIC_STATE_TREE_HEIGHT = BLOCK_NUMBER_BITS"

definition DEPOSIT_TREE_HEIGHT :: nat where
  "DEPOSIT_TREE_HEIGHT = 63"

abbreviation CHANNEL_ID_BITS :: nat where
  "CHANNEL_ID_BITS \<equiv> 32"

definition SEND_TREE_HEIGHT :: nat where
  "SEND_TREE_HEIGHT = 32"

definition CHANNEL_TREE_HEIGHT :: nat where
  "CHANNEL_TREE_HEIGHT = CHANNEL_ID_BITS"

definition MEMBER_TREE_HEIGHT :: nat where
  "MEMBER_TREE_HEIGHT = 3"

abbreviation WALLET_MEMBER_TREE_HEIGHT :: nat where
  "WALLET_MEMBER_TREE_HEIGHT \<equiv> 10"

definition TX_TREE_HEIGHT :: nat where
  "TX_TREE_HEIGHT = CHANNEL_ID_BITS"

lemmas public_heights =
  PUBLIC_STATE_TREE_HEIGHT_def DEPOSIT_TREE_HEIGHT_def
  SEND_TREE_HEIGHT_def CHANNEL_TREE_HEIGHT_def MEMBER_TREE_HEIGHT_def
  TX_TREE_HEIGHT_def

section \<open>Member, send and channel leaves\<close>

record MemberLeaf =
  ml_pk_g :: PoseidonHashOut
  ml_pk_b :: PoseidonHashOut
  ml_regev_pk_digest :: PoseidonHashOut

abbreviation MEMBER_LEAF_DOMAIN :: u64 where
  "MEMBER_LEAF_DOMAIN \<equiv> 0x4d424c46"

definition MemberLeaf_to_u64_vec :: "MemberLeaf \<Rightarrow> u64 list" where
  "MemberLeaf_to_u64_vec l =
     [MEMBER_LEAF_DOMAIN] @ hash_elements (ml_pk_g l) @ hash_elements (ml_pk_b l) @
     hash_elements (ml_regev_pk_digest l)"

definition MemberLeaf_empty_leaf :: MemberLeaf where
  "MemberLeaf_empty_leaf =
     \<lparr>ml_pk_g = PoseidonHashOut_default, ml_pk_b = PoseidonHashOut_default,
      ml_regev_pk_digest = PoseidonHashOut_default\<rparr>"

definition MemberLeaf_hash :: "(u64 list \<Rightarrow> PoseidonHashOut) \<Rightarrow> MemberLeaf \<Rightarrow> PoseidonHashOut" where
  "MemberLeaf_hash poseidon l = hash_inputs_u64 poseidon (MemberLeaf_to_u64_vec l)"

type_synonym MemberTree = "(PoseidonHashOut, MemberLeaf) IncrementalMerkleTree"

definition MemberTree_init :: "(u64 list \<Rightarrow> PoseidonHashOut) \<Rightarrow> MemberTree" where
  "MemberTree_init poseidon =
     Incremental_new (two_to_one poseidon) (MemberLeaf_hash poseidon) MemberLeaf_empty_leaf MEMBER_TREE_HEIGHT"

definition MemberTree_init_wallet_membership :: "(u64 list \<Rightarrow> PoseidonHashOut) \<Rightarrow> MemberTree" where
  "MemberTree_init_wallet_membership poseidon =
     Incremental_new (two_to_one poseidon) (MemberLeaf_hash poseidon) MemberLeaf_empty_leaf
       WALLET_MEMBER_TREE_HEIGHT"

record SendLeaf =
  sl_prev :: BlockNumber
  sl_cur :: BlockNumber
  sl_tx_tree_root :: Bytes32

definition SendLeaf_to_u64_vec :: "SendLeaf \<Rightarrow> u64 list" where
  "SendLeaf_to_u64_vec l =
     U63_to_u64_vec (sl_prev l) @ U63_to_u64_vec (sl_cur l) @ to_u64_vec Bytes32_to_u32_vec (sl_tx_tree_root l)"

definition SendLeaf_empty_leaf :: SendLeaf where
  "SendLeaf_empty_leaf = \<lparr>sl_prev = U63 0, sl_cur = U63 0, sl_tx_tree_root = Bytes32_default\<rparr>"

definition SendLeaf_hash :: "(u64 list \<Rightarrow> PoseidonHashOut) \<Rightarrow> SendLeaf \<Rightarrow> PoseidonHashOut" where
  "SendLeaf_hash poseidon l = hash_inputs_u64 poseidon (SendLeaf_to_u64_vec l)"

type_synonym SendTree = "(PoseidonHashOut, SendLeaf) IncrementalMerkleTree"

definition SendTree_init :: "(u64 list \<Rightarrow> PoseidonHashOut) \<Rightarrow> SendTree" where
  "SendTree_init poseidon =
     Incremental_new (two_to_one poseidon) (SendLeaf_hash poseidon) SendLeaf_empty_leaf SEND_TREE_HEIGHT"

abbreviation CHANNEL_LEAF_DOMAIN :: u64 where
  "CHANNEL_LEAF_DOMAIN \<equiv> 0x43484c46"

record ChannelLeaf =
  cl_index :: u32
  cl_prev :: BlockNumber
  cl_send_tree_root :: PoseidonHashOut
  cl_member_pubkeys_root :: PoseidonHashOut

definition ChannelLeaf_default :: "(u64 list \<Rightarrow> PoseidonHashOut) \<Rightarrow> ('e, ChannelLeaf) outcome" where
  "ChannelLeaf_default poseidon =
     and_then (Incremental_get_root (SendTree_init poseidon)) (\<lambda>send_tree_root.
     and_then (Incremental_get_root (MemberTree_init poseidon)) (\<lambda>member_pubkeys_root.
       Ok \<lparr>cl_index = 0, cl_prev = U63 0, cl_send_tree_root = send_tree_root,
           cl_member_pubkeys_root = member_pubkeys_root\<rparr>))"

definition ChannelLeaf_to_u64_vec :: "ChannelLeaf \<Rightarrow> u64 list" where
  "ChannelLeaf_to_u64_vec l =
     [CHANNEL_LEAF_DOMAIN, ucast (cl_index l)] @ U63_to_u64_vec (cl_prev l) @
     hash_elements (cl_send_tree_root l) @ hash_elements (cl_member_pubkeys_root l)"

definition ChannelLeaf_hash :: "(u64 list \<Rightarrow> PoseidonHashOut) \<Rightarrow> ChannelLeaf \<Rightarrow> PoseidonHashOut" where
  "ChannelLeaf_hash poseidon l = hash_inputs_u64 poseidon (ChannelLeaf_to_u64_vec l)"

type_synonym ChannelTree = "(PoseidonHashOut, ChannelLeaf) SparseMerkleTree"

definition ChannelTree_init :: "(u64 list \<Rightarrow> PoseidonHashOut) \<Rightarrow> ('e, ChannelTree) outcome" where
  "ChannelTree_init poseidon =
     and_then (ChannelLeaf_default poseidon) (\<lambda>empty_leaf.
       Ok (Sparse_new (two_to_one poseidon) (ChannelLeaf_hash poseidon) empty_leaf CHANNEL_TREE_HEIGHT))"

type_synonym DepositTree = "(PoseidonHashOut, Deposit) IncrementalMerkleTree"

definition DepositTree_init :: "(u64 list \<Rightarrow> PoseidonHashOut) \<Rightarrow> DepositTree" where
  "DepositTree_init poseidon =
     Incremental_new (two_to_one poseidon) (Deposit_poseidon_hash poseidon) Deposit_empty_leaf DEPOSIT_TREE_HEIGHT"

section \<open>Transaction trees\<close>

text \<open>The loop \<open>for (index, x) in xs.iter().enumerate() { tree.update(index, x) }\<close>.\<close>

fun enumerate_update ::
  "(PoseidonHashOut \<Rightarrow> PoseidonHashOut \<Rightarrow> PoseidonHashOut) \<Rightarrow> ('v \<Rightarrow> PoseidonHashOut) \<Rightarrow> nat \<Rightarrow> 'v list
     \<Rightarrow> (PoseidonHashOut, 'v) SparseMerkleTree \<Rightarrow> ('e, (PoseidonHashOut, 'v) SparseMerkleTree) outcome" where
  "enumerate_update H leaf_hash index [] tree = Ok tree"
| "enumerate_update H leaf_hash index (x # xs) tree =
     and_then (Sparse_update H leaf_hash (of_nat index) x tree) (\<lambda>tree'.
       enumerate_update H leaf_hash (Suc index) xs tree')"

definition compute_channel_action_root ::
  "(u64 list \<Rightarrow> PoseidonHashOut) \<Rightarrow> ChannelAction list \<Rightarrow> ('e, PoseidonHashOut) outcome" where
  "compute_channel_action_root poseidon actions =
     and_then (enumerate_update (two_to_one poseidon) (ChannelAction_hash poseidon) 0 actions
       (Sparse_new (two_to_one poseidon) (ChannelAction_hash poseidon) ChannelAction_default TX_TREE_HEIGHT))
       Sparse_get_root"

definition compute_tx_v2_root ::
  "(u64 list \<Rightarrow> PoseidonHashOut) \<Rightarrow> TxV2 list \<Rightarrow> ('e, PoseidonHashOut) outcome" where
  "compute_tx_v2_root poseidon txs =
     and_then (enumerate_update (two_to_one poseidon) (TxV2_hash poseidon) 0 txs
       (Sparse_new (two_to_one poseidon) (TxV2_hash poseidon) TxV2_empty_leaf TX_TREE_HEIGHT))
       Sparse_get_root"

section \<open>Block header\<close>

datatype BlockError = InvalidNumUsers

record Block =
  blk_num_users :: u32
  blk_channel_id :: u32
  blk_timestamp :: u64
  blk_key_ids :: "u32 list"
  blk_tx_tree_root :: Bytes32
  blk_deposit_hash_chain :: Bytes32
  blk_channel_reg_hash_chain :: Bytes32

definition Block_default :: Block where
  "Block_default =
     \<lparr>blk_num_users = 0, blk_channel_id = 0, blk_timestamp = 0, blk_key_ids = [],
      blk_tx_tree_root = Bytes32_default, blk_deposit_hash_chain = Bytes32_default,
      blk_channel_reg_hash_chain = Bytes32_default\<rparr>"

text \<open>\<open>Vec::resize\<close>: truncate or pad with a value.\<close>

definition resize :: "nat \<Rightarrow> 'a \<Rightarrow> 'a list \<Rightarrow> 'a list" where
  "resize n x xs = take n xs @ replicate (n - length xs) x"

definition Block_new ::
  "u32 \<Rightarrow> u32 \<Rightarrow> u32 list \<Rightarrow> u64 \<Rightarrow> Bytes32 \<Rightarrow> Bytes32 \<Rightarrow> Bytes32 \<Rightarrow> (BlockError, Block) outcome" where
  "Block_new num_users channel_id key_ids timestamp tx_tree_root deposit_hash_chain channel_reg_hash_chain =
     (if (of_nat (length key_ids) :: u32) > num_users then Err InvalidNumUsers
      else Ok \<lparr>blk_num_users = num_users, blk_channel_id = channel_id, blk_timestamp = timestamp,
        blk_key_ids = resize (unat num_users) 0 key_ids, blk_tx_tree_root = tx_tree_root,
        blk_deposit_hash_chain = deposit_hash_chain, blk_channel_reg_hash_chain = channel_reg_hash_chain\<rparr>)"

definition Block_new_with_channel ::
  "u32 \<Rightarrow> u32 \<Rightarrow> u32 list \<Rightarrow> u64 \<Rightarrow> Bytes32 \<Rightarrow> Bytes32 \<Rightarrow> Bytes32 \<Rightarrow> (BlockError, Block) outcome" where
  "Block_new_with_channel = Block_new"

definition Block_new_with_tx_v2s ::
  "(u64 list \<Rightarrow> PoseidonHashOut) \<Rightarrow> u32 \<Rightarrow> u32 \<Rightarrow> u32 list \<Rightarrow> u64 \<Rightarrow> TxV2 list \<Rightarrow> Bytes32 \<Rightarrow> Bytes32
     \<Rightarrow> (BlockError, Block) outcome" where
  "Block_new_with_tx_v2s poseidon num_users channel_id key_ids timestamp txs deposit_hash_chain channel_reg_hash_chain =
     and_then (compute_tx_v2_root poseidon txs) (\<lambda>root.
     and_then (Bytes32_from_hash_out root) (\<lambda>tx_tree_root.
       Block_new_with_channel num_users channel_id key_ids timestamp tx_tree_root deposit_hash_chain
         channel_reg_hash_chain))"

definition Block_words :: "Block \<Rightarrow> Bytes32 \<Rightarrow> u32 list" where
  "Block_words b prev_hash =
     Bytes32_to_u32_vec prev_hash @ [blk_channel_id b] @ U64_to_u32_vec (U64_from_u64 (blk_timestamp b)) @
     blk_key_ids b @ Bytes32_to_u32_vec (blk_tx_tree_root b) @ Bytes32_to_u32_vec (blk_deposit_hash_chain b) @
     Bytes32_to_u32_vec (blk_channel_reg_hash_chain b)"

definition Block_hash_with_prev_hash ::
  "(u32 list \<Rightarrow> u32 list) \<Rightarrow> Block \<Rightarrow> Bytes32 \<Rightarrow> (BlockError, Bytes32) outcome" where
  "Block_hash_with_prev_hash keccak b prev_hash =
     (if (of_nat (length (blk_key_ids b)) :: u32) \<noteq> blk_num_users b then Err InvalidNumUsers
      else unwrap (Bytes32_from_u32_slice (keccak (Block_words b prev_hash))))"

section \<open>Channel message\<close>

record Allocation =
  al_recipient :: Bytes32
  al_token_index :: u32
  al_amount :: U256

definition Allocation_to_u32_vec :: "Allocation \<Rightarrow> u32 list" where
  "Allocation_to_u32_vec a =
     Bytes32_to_u32_vec (al_recipient a) @ [al_token_index a] @ U256_to_u32_vec (al_amount a)"

abbreviation CHANNEL_MESSAGE_MAGIC :: u32 where
  "CHANNEL_MESSAGE_MAGIC \<equiv> 0x494D5043"

record ChannelMessage =
  cm_channel_id :: ChannelId
  cm_sequence :: u64
  cm_allocations :: "Allocation list"
  cm_tx_tree_root :: Bytes32

definition allocations_hash :: "(u32 list \<Rightarrow> u32 list) \<Rightarrow> ChannelMessage \<Rightarrow> ('e, Bytes32) outcome" where
  "allocations_hash keccak m =
     (let inputs = concat (map Allocation_to_u32_vec (cm_allocations m)) in
      if inputs = [] then Ok Bytes32_default else unwrap (Bytes32_from_u32_slice (keccak inputs)))"

definition signing_hash :: "(u32 list \<Rightarrow> u32 list) \<Rightarrow> ChannelMessage \<Rightarrow> ('e, Bytes32) outcome" where
  "signing_hash keccak m =
     and_then (allocations_hash keccak m) (\<lambda>allocations_hash.
       unwrap (Bytes32_from_u32_slice (keccak
         ([CHANNEL_MESSAGE_MAGIC] @ ChannelId_to_u32_vec (cm_channel_id m) @
          [ucast (cm_sequence m), ucast (drop_bit 32 (cm_sequence m))] @
          Bytes32_to_u32_vec allocations_hash @ Bytes32_to_u32_vec (cm_tx_tree_root m)))))"

definition close_action_payload_hash ::
  "(u64 list \<Rightarrow> PoseidonHashOut) \<Rightarrow> (u32 list \<Rightarrow> u32 list) \<Rightarrow> ChannelMessage \<Rightarrow> ('e, PoseidonHashOut) outcome" where
  "close_action_payload_hash poseidon keccak m =
     and_then (allocations_hash keccak m) (\<lambda>allocations_hash.
       Ok (hash_inputs_u32 poseidon
         (ChannelId_to_u32_vec (cm_channel_id m) @
          [ucast (cm_sequence m), ucast (drop_bit 32 (cm_sequence m))] @
          Bytes32_to_u32_vec allocations_hash @ Bytes32_to_u32_vec (cm_tx_tree_root m))))"

definition to_channel_close_action ::
  "(u64 list \<Rightarrow> PoseidonHashOut) \<Rightarrow> (u32 list \<Rightarrow> u32 list) \<Rightarrow> ChannelMessage \<Rightarrow> Bytes32
     \<Rightarrow> ('e, ChannelAction) outcome" where
  "to_channel_close_action poseidon keccak m seal =
     and_then (signing_hash keccak m) (\<lambda>tx_hash.
     and_then (close_action_payload_hash poseidon keccak m) (\<lambda>payload_hash.
       Ok \<lparr>ca_kind = ChannelClose, ca_source_channel_id = cm_channel_id m,
           ca_destination_channel_id = ChannelId_dummy, ca_tx_hash = tx_hash, ca_seal = seal,
           ca_payload_hash = payload_hash\<rparr>))"

definition to_channel_close_tx_v2 ::
  "(u64 list \<Rightarrow> PoseidonHashOut) \<Rightarrow> (u32 list \<Rightarrow> u32 list) \<Rightarrow> ChannelMessage \<Rightarrow> Bytes32 \<Rightarrow> u32
     \<Rightarrow> ('e, TxV2) outcome" where
  "to_channel_close_tx_v2 poseidon keccak m seal nonce =
     and_then (to_channel_close_action poseidon keccak m seal) (\<lambda>action.
     and_then (compute_channel_action_root poseidon [action]) (\<lambda>channel_action_root.
       Ok \<lparr>v2_tx_class = ChannelActionClass, v2_transfer_tree_root = PoseidonHashOut_default,
           v2_nonce = nonce, v2_channel_action_root = channel_action_root\<rparr>))"

definition channel_close_tx_v2_root ::
  "(u64 list \<Rightarrow> PoseidonHashOut) \<Rightarrow> (u32 list \<Rightarrow> u32 list) \<Rightarrow> ChannelMessage \<Rightarrow> Bytes32 \<Rightarrow> u32
     \<Rightarrow> ('e, PoseidonHashOut) outcome" where
  "channel_close_tx_v2_root poseidon keccak m seal nonce =
     and_then (to_channel_close_tx_v2 poseidon keccak m seal nonce) (\<lambda>tx. compute_tx_v2_root poseidon [tx])"

section \<open>Public state\<close>

definition PUBLIC_STATE_U64_LEN :: nat where
  "PUBLIC_STATE_U64_LEN = 1 + 2 + 3 * 4"

datatype PublicStateError =
    PS_InvalidLength nat nat
  | PS_BlockNumber U63Error
  | PS_Timestamp EthereumTypeError
  | PS_PoseidonHash string PoseidonHashOutError

record PublicState =
  pst_block_number :: BlockNumber
  pst_timestamp :: u64
  pst_account_tree_root :: PoseidonHashOut
  pst_deposit_tree_root :: PoseidonHashOut
  pst_prev_public_state_root :: PoseidonHashOut

definition PublicState_to_u64_vec :: "PublicState \<Rightarrow> u64 list" where
  "PublicState_to_u64_vec s =
     U63_to_u64_vec (pst_block_number s) @ to_u64_vec U64_to_u32_vec (U64_from_u64 (pst_timestamp s)) @
     hash_elements (pst_account_tree_root s) @ hash_elements (pst_deposit_tree_root s) @
     hash_elements (pst_prev_public_state_root s)"

definition PublicState_from_u64_slice :: "u64 list \<Rightarrow> (PublicStateError, PublicState) outcome" where
  "PublicState_from_u64_slice values =
     (if length values \<noteq> PUBLIC_STATE_U64_LEN
      then Err (PS_InvalidLength PUBLIC_STATE_U64_LEN (length values))
      else
        and_then (map_err PS_BlockNumber (U63_new (values ! 0))) (\<lambda>block_number.
        and_then (map_err PS_Timestamp (from_u64_slice U64_from_u32_slice (subslice 1 3 values))) (\<lambda>timestamp.
        and_then (map_err (PS_PoseidonHash ''account_tree_root'')
            (PoseidonHashOut_from_u64_slice (subslice 3 7 values))) (\<lambda>account_tree_root.
        and_then (map_err (PS_PoseidonHash ''deposit_tree_root'')
            (PoseidonHashOut_from_u64_slice (subslice 7 11 values))) (\<lambda>deposit_tree_root.
        and_then (map_err (PS_PoseidonHash ''prev_public_state_root'')
            (PoseidonHashOut_from_u64_slice (subslice 11 15 values))) (\<lambda>prev_public_state_root.
          Ok \<lparr>pst_block_number = block_number, pst_timestamp = u64_from_U64 timestamp,
              pst_account_tree_root = account_tree_root, pst_deposit_tree_root = deposit_tree_root,
              pst_prev_public_state_root = prev_public_state_root\<rparr>))))))"

definition PublicState_poseidon_hash :: "(u64 list \<Rightarrow> PoseidonHashOut) \<Rightarrow> PublicState \<Rightarrow> PoseidonHashOut" where
  "PublicState_poseidon_hash poseidon s = hash_inputs_u64 poseidon (PublicState_to_u64_vec s)"

definition PublicState_empty_leaf :: PublicState where
  "PublicState_empty_leaf =
     \<lparr>pst_block_number = U63 0, pst_timestamp = 0, pst_account_tree_root = PoseidonHashOut_default,
      pst_deposit_tree_root = PoseidonHashOut_default, pst_prev_public_state_root = PoseidonHashOut_default\<rparr>"

type_synonym PublicStateTree = "(PoseidonHashOut, PublicState) IncrementalMerkleTree"

definition PublicStateTree_init :: "(u64 list \<Rightarrow> PoseidonHashOut) \<Rightarrow> PublicStateTree" where
  "PublicStateTree_init poseidon =
     Incremental_new (two_to_one poseidon) (PublicState_poseidon_hash poseidon) PublicState_empty_leaf
       PUBLIC_STATE_TREE_HEIGHT"

definition PublicState_default :: "(u64 list \<Rightarrow> PoseidonHashOut) \<Rightarrow> ('e, PublicState) outcome" where
  "PublicState_default poseidon =
     and_then (ChannelTree_init poseidon) (\<lambda>channel_tree.
     and_then (Sparse_get_root channel_tree) (\<lambda>account_tree_root.
     and_then (Incremental_get_root (DepositTree_init poseidon)) (\<lambda>deposit_tree_root.
     and_then (Incremental_get_root (PublicStateTree_init poseidon)) (\<lambda>prev_public_state_root.
       Ok \<lparr>pst_block_number = U63 0, pst_timestamp = 0, pst_account_tree_root = account_tree_root,
           pst_deposit_tree_root = deposit_tree_root, pst_prev_public_state_root = prev_public_state_root\<rparr>))))"

section \<open>Roots of the trees\<close>

text \<open>The root of an append-only tree of a given height over a list of leaves.\<close>

definition list_root ::
  "(u64 list \<Rightarrow> PoseidonHashOut) \<Rightarrow> ('v \<Rightarrow> PoseidonHashOut) \<Rightarrow> 'v \<Rightarrow> nat \<Rightarrow> 'v list \<Rightarrow> PoseidonHashOut" where
  "list_root P leaf_hash e ht ls = node (two_to_one P) (incremental_leaf_fun leaf_hash e ls) ht 0"

lemma incremental_root:
  "incremental_rep (two_to_one P) leaf_hash e t \<Longrightarrow>
   Incremental_get_root t = Ok (list_root P leaf_hash e (i_height t) (i_leaves t))"
  by (simp add: Incremental_get_root_rep list_root_def)

lemma new_incremental:
  "i_leaves (Incremental_new H leaf_hash e ht) = []" "i_height (Incremental_new H leaf_hash e ht) = ht"
  by (simp_all add: Incremental_new_def)

lemma new_sparse: "s_height (Sparse_new H leaf_hash e ht) = ht"
  by (simp add: Sparse_new_def)

lemma new_incremental_root:
  "ht < 64 \<Longrightarrow> Incremental_get_root (Incremental_new (two_to_one P) leaf_hash e ht) = Ok (list_root P leaf_hash e ht [])"
  using incremental_root [OF Incremental_new_rep, of ht P leaf_hash e] by (simp add: new_incremental)

abbreviation send_root :: "(u64 list \<Rightarrow> PoseidonHashOut) \<Rightarrow> SendLeaf list \<Rightarrow> PoseidonHashOut" where
  "send_root P \<equiv> list_root P (SendLeaf_hash P) SendLeaf_empty_leaf SEND_TREE_HEIGHT"

abbreviation member_root :: "(u64 list \<Rightarrow> PoseidonHashOut) \<Rightarrow> MemberLeaf list \<Rightarrow> PoseidonHashOut" where
  "member_root P \<equiv> list_root P (MemberLeaf_hash P) MemberLeaf_empty_leaf MEMBER_TREE_HEIGHT"

definition empty_channel_leaf :: "(u64 list \<Rightarrow> PoseidonHashOut) \<Rightarrow> ChannelLeaf" where
  "empty_channel_leaf P =
     \<lparr>cl_index = 0, cl_prev = U63 0, cl_send_tree_root = send_root P [], cl_member_pubkeys_root = member_root P []\<rparr>"

lemma ChannelLeaf_default_value [simp]: "ChannelLeaf_default P = Ok (empty_channel_leaf P)"
  by (simp add: ChannelLeaf_default_def SendTree_init_def MemberTree_init_def new_incremental_root public_heights
      empty_channel_leaf_def)

section \<open>Encodings\<close>

lemma length_PublicState_to_u64_vec [simp]: "length (PublicState_to_u64_vec s) = PUBLIC_STATE_U64_LEN"
  by (simp add: PublicState_to_u64_vec_def PUBLIC_STATE_U64_LEN_def U63_to_u64_vec_def)

text \<open>The public states a decoder can build: a block number below \<open>2^63\<close> and canonical roots.\<close>

definition PublicState_valid :: "PublicState \<Rightarrow> bool" where
  "PublicState_valid s \<longleftrightarrow> U63_valid (pst_block_number s) \<and> canonical (pst_account_tree_root s) \<and>
     canonical (pst_deposit_tree_root s) \<and> canonical (pst_prev_public_state_root s)"

lemma u64_from_U64_eq_iff: "u64_from_U64 x = v \<longleftrightarrow> x = U64_from_u64 v"
  by (metis U64_u64_round u64_U64_round)

lemma PublicState_from_u64_slice_Ok_iff:
  "PublicState_from_u64_slice xs = Ok s \<longleftrightarrow> PublicState_valid s \<and> PublicState_to_u64_vec s = xs"
proof (cases "length xs = PUBLIC_STATE_U64_LEN")
  case True
  then have "length xs = 15" by (simp add: PUBLIC_STATE_U64_LEN_def)
  then have "PublicState_to_u64_vec s = xs \<longleftrightarrow> as_u64 (pst_block_number s) = xs ! 0 \<and>
      to_u64_vec U64_to_u32_vec (U64_from_u64 (pst_timestamp s)) = subslice 1 3 xs \<and>
      hash_elements (pst_account_tree_root s) = subslice 3 7 xs \<and>
      hash_elements (pst_deposit_tree_root s) = subslice 7 11 xs \<and>
      hash_elements (pst_prev_public_state_root s) = subslice 11 15 xs"
    by (subst eq_drop_0)
      (simp add: PublicState_to_u64_vec_def U63_to_u64_vec_def split_encoding
        last_eq_drop [of "hash_elements _", OF length_hash_elements] numeral_2_eq_2 [symmetric] del: drop0)
  moreover have "as_u64 (pst_block_number s) = xs ! 0 \<longleftrightarrow> pst_block_number s = U63 (xs ! 0)"
    by (cases "pst_block_number s") simp
  ultimately show ?thesis
    using True
    by (cases s) (auto simp: PublicState_from_u64_slice_def PoseidonHashOut_from_u64_slice_Ok_iff U63_new_Ok_iff
        u64limb.from_u64_ok_iff PublicState_valid_def u64_from_U64_eq_iff)
qed (auto simp: PublicState_from_u64_slice_def)

section \<open>Signed messages\<close>

definition allocation_words :: "ChannelMessage \<Rightarrow> u32 list" where
  "allocation_words m = concat (map Allocation_to_u32_vec (cm_allocations m))"

definition message_words :: "ChannelMessage \<Rightarrow> Bytes32 \<Rightarrow> u32 list" where
  "message_words m allocations =
     [CHANNEL_MESSAGE_MAGIC] @ ChannelId_to_u32_vec (cm_channel_id m) @
     [ucast (cm_sequence m), ucast (drop_bit 32 (cm_sequence m))] @
     Bytes32_to_u32_vec allocations @ Bytes32_to_u32_vec (cm_tx_tree_root m)"

lemma Allocation_to_u32_vec_inject: "Allocation_to_u32_vec a = Allocation_to_u32_vec b \<longleftrightarrow> a = b"
  by (cases a; cases b) (auto simp: Allocation_to_u32_vec_def bytes32.to_inj u256.to_inj)

lemma length_Allocation_to_u32_vec [simp]: "length (Allocation_to_u32_vec a) = 17"
  by (simp add: Allocation_to_u32_vec_def)

lemma allocation_words_inject:
  assumes "allocation_words m = allocation_words m'"
  shows "cm_allocations m = cm_allocations m'"
proof -
  have "chunks 17 (concat (map Allocation_to_u32_vec as)) = map Allocation_to_u32_vec as" for as
    by (rule chunks_concat) auto
  with assms have "map Allocation_to_u32_vec (cm_allocations m) = map Allocation_to_u32_vec (cm_allocations m')"
    by (metis allocation_words_def)
  moreover have "inj Allocation_to_u32_vec" by (simp add: inj_on_def Allocation_to_u32_vec_inject)
  ultimately show ?thesis by (simp add: inj_map_eq_map)
qed

lemma halves_inject:
  assumes "(ucast x :: u32) = ucast y" "(ucast (drop_bit 32 x) :: u32) = ucast (drop_bit 32 y)"
  shows "x = (y :: u64)"
  using assms by (metis U64_from_u64_def u64_U64_round)

lemma message_words_inject:
  "message_words m h = message_words m' h' \<longleftrightarrow>
     h = h' \<and> cm_channel_id m = cm_channel_id m' \<and> cm_sequence m = cm_sequence m' \<and> cm_tx_tree_root m = cm_tx_tree_root m'"
  by (cases "cm_channel_id m"; cases "cm_channel_id m'")
    (auto simp: message_words_def ChannelId_to_u32_vec_def bytes32.to_inj intro: halves_inject)

lemma allocations_hash_Ok:
  assumes "allocations_hash keccak m = Ok h"
  shows "if cm_allocations m = [] then h = Bytes32_default else keccak (allocation_words m) = Bytes32_to_u32_vec h"
proof -
  have "allocation_words m = [] \<longleftrightarrow> cm_allocations m = []"
    by (auto simp: allocation_words_def Allocation_to_u32_vec_def)
  with assms show ?thesis
    by (auto simp: allocations_hash_def Let_def allocation_words_def [symmetric] bytes32.from_ok_iff split: if_splits)
qed

lemma allocations_hash_inject:
  assumes "allocations_hash keccak m = Ok h" "allocations_hash keccak m' = Ok h"
    and "inj_on keccak {allocation_words m, allocation_words m'}"
    and "Bytes32_to_u32_vec Bytes32_default \<notin> keccak ` {allocation_words m, allocation_words m'}"
  shows "cm_allocations m = cm_allocations m'"
  using allocations_hash_Ok [OF assms(1)] allocations_hash_Ok [OF assms(2)] assms(3,4) allocation_words_inject [of m m']
  by (fastforce split: if_splits dest: inj_onD)

section \<open>Properties\<close>

text \<open>
What members sign identifies the channel message. Two messages with the same signing hash are the
same message (channel, sequence number, allocations and transaction root), unless \<open>keccak\<close> collides
on the words it is applied to or returns the zero digest that stands for an empty allocation list.
\<close>

theorem channel_message_binding:
  assumes "signing_hash keccak m = (Ok h :: ('e, _) outcome)" and "signing_hash keccak m' = (Ok h :: ('e, _) outcome)"
    and "allocations_hash keccak m = (Ok a :: ('e, _) outcome)" and "allocations_hash keccak m' = (Ok a' :: ('e, _) outcome)"
    and "inj_on keccak {message_words m a, message_words m' a'}"
    and "inj_on keccak {allocation_words m, allocation_words m'}"
    and "Bytes32_to_u32_vec Bytes32_default \<notin> keccak ` {allocation_words m, allocation_words m'}"
  shows "m = m'"
proof -
  have "keccak (message_words m a) = keccak (message_words m' a')"
    using assms(1-4) by (auto simp: signing_hash_def message_words_def bytes32.from_ok_iff)
  from inj_onD [OF assms(5) this] have eq: "a = a' \<and> cm_channel_id m = cm_channel_id m' \<and>
      cm_sequence m = cm_sequence m' \<and> cm_tx_tree_root m = cm_tx_tree_root m'"
    by (simp add: message_words_inject)
  then have "cm_allocations m = cm_allocations m'"
    using allocations_hash_inject [of keccak m a m', OF assms(3) _ assms(6,7)] assms(4) by simp
  with eq show ?thesis by (auto intro: ChannelMessage.equality)
qed

theorem channel_message_binding_witness:
  "\<exists>m h. signing_hash (\<lambda>_. replicate 8 1) m = (Ok h :: (unit, _) outcome) \<and> cm_sequence m = 5 \<and>
     m = \<lparr>cm_channel_id = ChannelId 1, cm_sequence = 5, cm_allocations = [], cm_tx_tree_root = Bytes32_default\<rparr>"
proof -
  let ?m = "\<lparr>cm_channel_id = ChannelId 1, cm_sequence = 5, cm_allocations = [], cm_tx_tree_root = Bytes32_default\<rparr>"
  have "allocations_hash (\<lambda>_. replicate 8 1) ?m = (Ok Bytes32_default :: (unit, _) outcome)"
    by (simp add: allocations_hash_def)
  moreover from this obtain h where "signing_hash (\<lambda>_. replicate 8 1) ?m = (Ok h :: (unit, _) outcome)"
    by (simp add: signing_hash_def Bytes32_from_u32_slice_def)
  ultimately show ?thesis
    using channel_message_binding [of "\<lambda>_. replicate 8 1" ?m h ?m Bytes32_default Bytes32_default, where 'e = unit]
    by (auto simp: Bytes32_default_def)
qed

text \<open>
The decoder of a public state accepts exactly the encodings of public states with a block number
below \<open>2^63\<close> and canonical roots; a wrong length, an out-of-range word or a non-canonical root is an
error, never a panic.
\<close>

theorem public_state_decode_iff:
  "(PublicState_from_u64_slice xs = Ok s \<longleftrightarrow> PublicState_valid s \<and> xs = PublicState_to_u64_vec s) \<and>
   PublicState_from_u64_slice xs \<noteq> Panic"
proof -
  have "PoseidonHashOut_from_u64_slice ys \<noteq> Panic" "U63_new w \<noteq> Panic" for ys w
    by (simp_all add: PoseidonHashOut_from_u64_slice_def U63_new_def split: option.splits)
  then have "PublicState_from_u64_slice xs \<noteq> Panic"
    by (auto simp: PublicState_from_u64_slice_def and_then_Panic_iff u64limb.from_u64_never_panics)
  then show ?thesis by (auto simp: PublicState_from_u64_slice_Ok_iff)
qed

end
