(* ===== verification/Block_State.thy ===== *)
theory Block_State
  imports Public_State
begin

text \<open>
  \<open>FullPublicState\<close> of \<open>src/src/common/public_state.rs\<close>: the state behind the public state, advanced
  by \<open>add_block\<close> and \<open>add_deposit\<close>. A method that takes \<open>&mut self\<close> returns its result together with
  the state it leaves, also on an error, so that partial updates are visible. The specification
  keeps, per channel, the list of send intervals: consecutive, strictly increasing, closed by the
  last block in which the channel sent.
\<close>

section \<open>State and operations\<close>

datatype FullPublicStateError =
    TooManyKeyIds nat
  | UserIdError ChannelIdError
  | FPS_BlockError BlockError

record FullPublicState =
  fp_supported_user_counts :: "u32 list"
  fp_block_number :: BlockNumber
  fp_channel_tree :: ChannelTree
  fp_send_leaves :: "ChannelId \<Rightarrow> SendLeaf list option"
  fp_deposit_tree :: DepositTree
  fp_public_state_tree :: PublicStateTree
  fp_blocks :: "Block list"
  fp_deposits :: "Deposit list"
  fp_block_hash_chain :: Bytes32
  fp_deposit_hash_chain :: Bytes32
  fp_channel_reg_hash_chain :: Bytes32

text \<open>A fallible computation inside a method: an error or a panic ends the method in the current state.\<close>

fun with_state :: "'s \<Rightarrow> ('e, 'a) outcome \<Rightarrow> ('a \<Rightarrow> ('e, 'b) outcome \<times> 's) \<Rightarrow> ('e, 'b) outcome \<times> 's" where
  "with_state s (Ok a) f = f a"
| "with_state s (Err e) f = (Err e, s)"
| "with_state s Panic f = (Panic, s)"

definition FullPublicState_new ::
  "(u64 list \<Rightarrow> PoseidonHashOut) \<Rightarrow> u32 list \<Rightarrow> ('e, FullPublicState) outcome" where
  "FullPublicState_new poseidon supported_user_counts =
     and_then (ChannelTree_init poseidon) (\<lambda>channel_tree.
       Ok \<lparr>fp_supported_user_counts = supported_user_counts, fp_block_number = U63 0,
           fp_channel_tree = channel_tree, fp_send_leaves = Map.empty,
           fp_deposit_tree = DepositTree_init poseidon, fp_public_state_tree = PublicStateTree_init poseidon,
           fp_blocks = [Block_default], fp_deposits = [], fp_block_hash_chain = Bytes32_default,
           fp_deposit_hash_chain = Bytes32_default, fp_channel_reg_hash_chain = Bytes32_default\<rparr>)"

definition to_public_state :: "FullPublicState \<Rightarrow> ('e, PublicState) outcome" where
  "to_public_state s =
     (let timestamp = (if fp_blocks s = [] then 0 else blk_timestamp (last (fp_blocks s))) in
      and_then (Sparse_get_root (fp_channel_tree s)) (\<lambda>account_tree_root.
      and_then (Incremental_get_root (fp_deposit_tree s)) (\<lambda>deposit_tree_root.
      and_then (Incremental_get_root (fp_public_state_tree s)) (\<lambda>prev_public_state_root.
        Ok \<lparr>pst_block_number = fp_block_number s, pst_timestamp = timestamp,
            pst_account_tree_root = account_tree_root, pst_deposit_tree_root = deposit_tree_root,
            pst_prev_public_state_root = prev_public_state_root\<rparr>))))"

definition get_num_users :: "nat \<Rightarrow> u32 list \<Rightarrow> u32 option" where
  "get_num_users len supported_user_counts = find (\<lambda>num_users. of_nat len \<le> num_users) supported_user_counts"

text \<open>One pass of the loop over \<open>key_ids\<close>; \<open>SendTree::push\<close> is \<open>push_send\<close>.\<close>

abbreviation push_send ::
  "(u64 list \<Rightarrow> PoseidonHashOut) \<Rightarrow> SendTree \<Rightarrow> SendLeaf \<Rightarrow> ('e, SendTree) outcome" where
  "push_send poseidon t l \<equiv> Incremental_push (two_to_one poseidon) (SendLeaf_hash poseidon) l t"

definition add_block_key ::
  "(u64 list \<Rightarrow> PoseidonHashOut) \<Rightarrow> u64 \<Rightarrow> u32 \<Rightarrow> Bytes32 \<Rightarrow> u32 \<Rightarrow> FullPublicState
     \<Rightarrow> (FullPublicStateError, unit) outcome \<times> FullPublicState" where
  "add_block_key poseidon block_number channel_id_u32 tx_tree_root key_id s =
     (if key_id = 0 then (Ok (), s)
      else
        with_state s (map_err UserIdError (ChannelId_new (ucast channel_id_u32))) (\<lambda>channel_id.
        let send_leaves = (case fp_send_leaves s channel_id of Some ls \<Rightarrow> ls | None \<Rightarrow> []);
            prev = (if send_leaves = [] then U63 0 else sl_cur (last send_leaves))
        in with_state s (unwrap (U63_new block_number)) (\<lambda>current_block.
        if prev = current_block then (Ok (), s)
        else
          with_state s (try_fold (push_send poseidon) (SendTree_init poseidon) send_leaves) (\<lambda>send_tree.
          with_state s (ChannelLeaf_default poseidon) (\<lambda>empty_leaf.
          let current_user_leaf = Sparse_get_leaf empty_leaf (fp_channel_tree s) (ChannelId_as_u64 channel_id)
          in with_state s (Incremental_get_root send_tree) (\<lambda>send_tree_root.
          let channel_leaf =
            \<lparr>cl_index = of_nat (length (i_leaves send_tree)), cl_prev = prev, cl_send_tree_root = send_tree_root,
             cl_member_pubkeys_root = cl_member_pubkeys_root current_user_leaf\<rparr>
          in if current_user_leaf \<noteq> channel_leaf then (Panic, s)
          else
            let new_send_leaf = \<lparr>sl_prev = prev, sl_cur = current_block, sl_tx_tree_root = tx_tree_root\<rparr>
            in with_state s (push_send poseidon send_tree new_send_leaf) (\<lambda>send_tree'.
            let s' = s\<lparr>fp_send_leaves := (fp_send_leaves s)(channel_id \<mapsto> send_leaves @ [new_send_leaf])\<rparr>
            in with_state s' (Incremental_get_root send_tree') (\<lambda>new_root.
            let new_user_leaf =
              \<lparr>cl_index = of_nat (length (i_leaves send_tree')), cl_prev = current_block,
               cl_send_tree_root = new_root,
               cl_member_pubkeys_root = cl_member_pubkeys_root current_user_leaf\<rparr>
            in with_state s' (Sparse_update (two_to_one poseidon) (ChannelLeaf_hash poseidon)
                 (ChannelId_as_u64 channel_id) new_user_leaf (fp_channel_tree s')) (\<lambda>channel_tree.
                 (Ok (), s'\<lparr>fp_channel_tree := channel_tree\<rparr>))))))))))"

fun add_block_keys ::
  "(u64 list \<Rightarrow> PoseidonHashOut) \<Rightarrow> u64 \<Rightarrow> u32 \<Rightarrow> Bytes32 \<Rightarrow> u32 list \<Rightarrow> FullPublicState
     \<Rightarrow> (FullPublicStateError, unit) outcome \<times> FullPublicState" where
  "add_block_keys poseidon block_number channel_id tx_tree_root [] s = (Ok (), s)"
| "add_block_keys poseidon block_number channel_id tx_tree_root (key_id # key_ids) s =
     (case add_block_key poseidon block_number channel_id tx_tree_root key_id s of
        (Ok _, s') \<Rightarrow> add_block_keys poseidon block_number channel_id tx_tree_root key_ids s'
      | (Err e, s') \<Rightarrow> (Err e, s')
      | (Panic, s') \<Rightarrow> (Panic, s'))"

definition add_block_with_channel ::
  "(u64 list \<Rightarrow> PoseidonHashOut) \<Rightarrow> (u32 list \<Rightarrow> u32 list) \<Rightarrow> u32 \<Rightarrow> u32 list \<Rightarrow> u64 \<Rightarrow> Bytes32 \<Rightarrow> FullPublicState
     \<Rightarrow> (FullPublicStateError, unit) outcome \<times> FullPublicState" where
  "add_block_with_channel poseidon keccak channel_id key_ids timestamp tx_tree_root s =
     with_state s (ok_or (TooManyKeyIds (length key_ids))
         (get_num_users (length key_ids) (fp_supported_user_counts s))) (\<lambda>num_users.
     with_state s (map_err FPS_BlockError (Block_new_with_channel num_users channel_id key_ids timestamp
         tx_tree_root (fp_deposit_hash_chain s) (fp_channel_reg_hash_chain s))) (\<lambda>block.
     let block_number = as_u64 (fp_block_number s) + 1
     in with_state s (unwrap (U63_new block_number)) (\<lambda>next_block_number.
     with_state s (if list_ex (\<lambda>key_id. key_id \<noteq> 0) key_ids
                   then map_err UserIdError (and_then (ChannelId_new (ucast channel_id)) (\<lambda>_. Ok ()))
                   else Ok ()) (\<lambda>_.
     with_state s (unwrap (Block_hash_with_prev_hash keccak block (fp_block_hash_chain s)))
       (\<lambda>next_block_hash_chain.
     with_state s (to_public_state s) (\<lambda>prev_public_state.
     with_state s (Incremental_push (two_to_one poseidon) (PublicState_poseidon_hash poseidon)
         prev_public_state (fp_public_state_tree s)) (\<lambda>public_state_tree.
       add_block_keys poseidon block_number channel_id tx_tree_root key_ids
         (s\<lparr>fp_public_state_tree := public_state_tree, fp_block_number := next_block_number,
             fp_blocks := fp_blocks s @ [block], fp_block_hash_chain := next_block_hash_chain\<rparr>))))))))"

definition add_block ::
  "(u64 list \<Rightarrow> PoseidonHashOut) \<Rightarrow> (u32 list \<Rightarrow> u32 list) \<Rightarrow> u32 \<Rightarrow> u32 list \<Rightarrow> u64 \<Rightarrow> Bytes32 \<Rightarrow> FullPublicState
     \<Rightarrow> (FullPublicStateError, unit) outcome \<times> FullPublicState" where
  "add_block poseidon keccak channel_id key_ids timestamp tx_tree_root s =
     add_block_with_channel poseidon keccak channel_id key_ids timestamp tx_tree_root s"

definition add_block_with_tx_tree_root_v2 ::
  "(u64 list \<Rightarrow> PoseidonHashOut) \<Rightarrow> (u32 list \<Rightarrow> u32 list) \<Rightarrow> u32 \<Rightarrow> u32 list \<Rightarrow> u64 \<Rightarrow> PoseidonHashOut
     \<Rightarrow> FullPublicState \<Rightarrow> (FullPublicStateError, unit) outcome \<times> FullPublicState" where
  "add_block_with_tx_tree_root_v2 poseidon keccak channel_id key_ids timestamp tx_tree_root s =
     with_state s (Bytes32_from_hash_out tx_tree_root) (\<lambda>root.
       add_block_with_channel poseidon keccak channel_id key_ids timestamp root s)"

definition add_block_with_tx_v2s ::
  "(u64 list \<Rightarrow> PoseidonHashOut) \<Rightarrow> (u32 list \<Rightarrow> u32 list) \<Rightarrow> u32 \<Rightarrow> u32 list \<Rightarrow> u64 \<Rightarrow> TxV2 list
     \<Rightarrow> FullPublicState \<Rightarrow> (FullPublicStateError, unit) outcome \<times> FullPublicState" where
  "add_block_with_tx_v2s poseidon keccak channel_id key_ids timestamp txs s =
     with_state s (compute_tx_v2_root poseidon txs) (\<lambda>root.
       add_block_with_tx_tree_root_v2 poseidon keccak channel_id key_ids timestamp root s)"

definition add_channel_close_block ::
  "(u64 list \<Rightarrow> PoseidonHashOut) \<Rightarrow> (u32 list \<Rightarrow> u32 list) \<Rightarrow> u32 \<Rightarrow> u32 list \<Rightarrow> u64 \<Rightarrow> ChannelMessage \<Rightarrow> Bytes32 \<Rightarrow> u32
     \<Rightarrow> FullPublicState \<Rightarrow> (FullPublicStateError, unit) outcome \<times> FullPublicState" where
  "add_channel_close_block poseidon keccak channel_id key_ids timestamp channel_message seal nonce s =
     with_state s (to_channel_close_tx_v2 poseidon keccak channel_message seal nonce) (\<lambda>close_tx.
       add_block_with_tx_v2s poseidon keccak channel_id key_ids timestamp [close_tx] s)"

definition add_deposit ::
  "(u64 list \<Rightarrow> PoseidonHashOut) \<Rightarrow> (u32 list \<Rightarrow> u32 list) \<Rightarrow> Address \<Rightarrow> Bytes32 \<Rightarrow> u32 \<Rightarrow> U256 \<Rightarrow> Bytes32
     \<Rightarrow> FullPublicState \<Rightarrow> (FullPublicStateError, unit) outcome \<times> FullPublicState" where
  "add_deposit poseidon keccak depositor recipient token_index amount aux_data s =
     with_state s (unwrap (U63_add (fp_block_number s) 1)) (\<lambda>block_number.
     with_state s (unwrap (U63_new (of_nat (length (fp_deposits s))))) (\<lambda>deposit_index.
     let deposit = \<lparr>dep_deposit_index = deposit_index, dep_block_number = block_number, dep_depositor = depositor,
           dep_recipient = recipient, dep_token_index = token_index, dep_amount = amount, dep_aux_data = aux_data\<rparr>;
         s1 = s\<lparr>fp_deposits := fp_deposits s @ [deposit]\<rparr>
     in with_state s1 (Incremental_push (two_to_one poseidon) (Deposit_poseidon_hash poseidon) deposit
          (fp_deposit_tree s1)) (\<lambda>deposit_tree.
     let s2 = s1\<lparr>fp_deposit_tree := deposit_tree\<rparr>
     in with_state s2 (Deposit_hash_with_prev_hash keccak deposit (fp_deposit_hash_chain s2)) (\<lambda>chain.
          (Ok (), s2\<lparr>fp_deposit_hash_chain := chain\<rparr>)))))"

section \<open>Send intervals\<close>

text \<open>
  The send leaves of a channel are intervals: each starts at the block that closed the previous one
  and is closed by the later block in which the channel sent.
\<close>

definition send_leaves_of :: "FullPublicState \<Rightarrow> ChannelId \<Rightarrow> SendLeaf list" where
  "send_leaves_of s c = (case fp_send_leaves s c of Some ls \<Rightarrow> ls | None \<Rightarrow> [])"

definition last_send :: "SendLeaf list \<Rightarrow> BlockNumber" where
  "last_send ls = (if ls = [] then U63 0 else sl_cur (last ls))"

fun send_chain :: "BlockNumber \<Rightarrow> SendLeaf list \<Rightarrow> bool" where
  "send_chain b [] \<longleftrightarrow> True"
| "send_chain b (l # ls) \<longleftrightarrow> sl_prev l = b \<and> b < sl_cur l \<and> send_chain (sl_cur l) ls"

lemma last_send_append [simp]: "last_send (ls @ [l]) = sl_cur l"
  by (simp add: last_send_def)

lemma send_chain_append:
  "send_chain b (ls @ [l]) \<longleftrightarrow>
     send_chain b ls \<and> sl_prev l = (if ls = [] then b else sl_cur (last ls)) \<and> sl_prev l < sl_cur l"
  by (induction ls arbitrary: b) auto

lemma send_chain_snoc:
  "send_chain (U63 0) ls \<Longrightarrow> last_send ls < b \<Longrightarrow>
   send_chain (U63 0) (ls @ [\<lparr>sl_prev = last_send ls, sl_cur = b, sl_tx_tree_root = r\<rparr>])"
  by (simp add: send_chain_append last_send_def)

text \<open>The intervals of a chain do not overlap: no send of the channel lies strictly inside one.\<close>

lemma send_chain_ge:
  "send_chain b ls \<Longrightarrow> l \<in> set ls \<Longrightarrow> b \<le> sl_prev l \<and> sl_prev l < sl_cur l"
  by (induction ls arbitrary: b) (fastforce dest: less_imp_le order_trans)+

lemma send_chain_le_last:
  "send_chain b ls \<Longrightarrow> l \<in> set ls \<Longrightarrow> sl_cur l \<le> last_send ls"
proof (induction ls arbitrary: b)
  case (Cons k ks)
  then show ?case
    by (cases "ks = []") (auto simp: last_send_def dest: send_chain_ge [of _ _ "last ks"] intro: order_trans less_imp_le)
qed simp

lemma send_chain_gap:
  assumes "send_chain b ls" "l \<in> set ls" "m \<in> set ls"
  shows "sl_cur m \<le> sl_prev l \<or> sl_cur l \<le> sl_cur m"
  using assms
proof (induction ls arbitrary: b)
  case (Cons k ks)
  have later: "sl_cur k \<le> sl_prev x \<and> sl_prev x < sl_cur x" if "x \<in> set ks" for x
    using Cons.prems(1) send_chain_ge that by auto
  from Cons.prems(2,3) consider "l = k" "m = k" | "l = k" "m \<in> set ks" | "l \<in> set ks" "m = k"
    | "l \<in> set ks" "m \<in> set ks"
    by auto
  then show ?case
    using Cons.IH [of "sl_cur k"] Cons.prems(1) later [of l] later [of m]
    by cases (auto intro: order_trans less_imp_le)
qed simp

section \<open>Invariant\<close>

definition channel_summary ::
  "(u64 list \<Rightarrow> PoseidonHashOut) \<Rightarrow> SendLeaf list \<Rightarrow> PoseidonHashOut \<Rightarrow> ChannelLeaf" where
  "channel_summary P ls m =
     \<lparr>cl_index = of_nat (length ls), cl_prev = last_send ls, cl_send_tree_root = send_root P ls,
      cl_member_pubkeys_root = m\<rparr>"

definition channel_leaf_at :: "(u64 list \<Rightarrow> PoseidonHashOut) \<Rightarrow> FullPublicState \<Rightarrow> ChannelId \<Rightarrow> ChannelLeaf" where
  "channel_leaf_at P s c = Sparse_get_leaf (empty_channel_leaf P) (fp_channel_tree s) (ChannelId_as_u64 c)"

abbreviation channel_rep :: "(u64 list \<Rightarrow> PoseidonHashOut) \<Rightarrow> ChannelTree \<Rightarrow> bool" where
  "channel_rep P \<equiv> sparse_rep (two_to_one P) (ChannelLeaf_hash P) (empty_channel_leaf P)"

abbreviation members_at :: "(u64 list \<Rightarrow> PoseidonHashOut) \<Rightarrow> FullPublicState \<Rightarrow> ChannelId \<Rightarrow> PoseidonHashOut" where
  "members_at P s c \<equiv> cl_member_pubkeys_root (channel_leaf_at P s c)"

definition channel_ok :: "(u64 list \<Rightarrow> PoseidonHashOut) \<Rightarrow> FullPublicState \<Rightarrow> ChannelId \<Rightarrow> bool" where
  "channel_ok P s c \<longleftrightarrow> send_chain (U63 0) (send_leaves_of s c) \<and>
     last_send (send_leaves_of s c) \<le> fp_block_number s \<and> length (send_leaves_of s c) \<le> 2 ^ SEND_TREE_HEIGHT \<and>
     channel_leaf_at P s c =
       channel_summary P (send_leaves_of s c) (cl_member_pubkeys_root (channel_leaf_at P s c))"

definition channels_inv :: "(u64 list \<Rightarrow> PoseidonHashOut) \<Rightarrow> FullPublicState \<Rightarrow> bool" where
  "channels_inv P s \<longleftrightarrow> channel_rep P (fp_channel_tree s) \<and> s_height (fp_channel_tree s) = CHANNEL_TREE_HEIGHT \<and>
     (\<forall>c. channel_ok P s c)"

definition history_inv :: "(u64 list \<Rightarrow> PoseidonHashOut) \<Rightarrow> FullPublicState \<Rightarrow> bool" where
  "history_inv P s \<longleftrightarrow>
     incremental_rep (two_to_one P) (PublicState_poseidon_hash P) PublicState_empty_leaf (fp_public_state_tree s) \<and>
     i_height (fp_public_state_tree s) = PUBLIC_STATE_TREE_HEIGHT \<and> U63_valid (fp_block_number s) \<and>
     length (i_leaves (fp_public_state_tree s)) = unat (as_u64 (fp_block_number s)) \<and>
     length (fp_blocks s) = Suc (unat (as_u64 (fp_block_number s))) \<and>
     map pst_block_number (i_leaves (fp_public_state_tree s)) =
       map (\<lambda>i. U63 (of_nat i)) [0..<unat (as_u64 (fp_block_number s))]"

definition deposits_inv :: "(u64 list \<Rightarrow> PoseidonHashOut) \<Rightarrow> FullPublicState \<Rightarrow> bool" where
  "deposits_inv P s \<longleftrightarrow>
     incremental_rep (two_to_one P) (Deposit_poseidon_hash P) Deposit_empty_leaf (fp_deposit_tree s) \<and>
     i_height (fp_deposit_tree s) = DEPOSIT_TREE_HEIGHT \<and> i_leaves (fp_deposit_tree s) = fp_deposits s \<and>
     map dep_deposit_index (fp_deposits s) = map (\<lambda>i. U63 (of_nat i)) [0..<length (fp_deposits s)] \<and>
     list_all (\<lambda>d. dep_block_number d \<le> U63 (as_u64 (fp_block_number s) + 1)) (fp_deposits s)"

definition public_inv :: "(u64 list \<Rightarrow> PoseidonHashOut) \<Rightarrow> FullPublicState \<Rightarrow> bool" where
  "public_inv P s \<longleftrightarrow> channels_inv P s \<and> history_inv P s \<and> deposits_inv P s"

lemma channel_in_tree: "unat (ChannelId_as_u64 c) < 2 ^ CHANNEL_TREE_HEIGHT"
  using unat_lt_u32 [of "channel_id_of c"] by (simp add: ChannelId_as_u64_def public_heights)

lemma ChannelId_as_u64_inject [simp]: "ChannelId_as_u64 c = ChannelId_as_u64 d \<longleftrightarrow> c = d"
  by (cases c; cases d) (simp add: ChannelId_as_u64_def)

text \<open>The states between two iterations of the key loop.\<close>

definition sent :: "FullPublicState \<Rightarrow> ChannelId \<Rightarrow> SendLeaf \<Rightarrow> ChannelTree \<Rightarrow> FullPublicState" where
  "sent s c l t =
     s\<lparr>fp_send_leaves := (fp_send_leaves s)(c \<mapsto> send_leaves_of s c @ [l]), fp_channel_tree := t\<rparr>"

lemma send_leaves_of_sent [simp]:
  "send_leaves_of (sent s c l t) d = (if d = c then send_leaves_of s c @ [l] else send_leaves_of s d)"
  by (simp add: send_leaves_of_def sent_def)

lemma sent_fields [simp]:
  "fp_block_number (sent s c l t) = fp_block_number s" "fp_channel_tree (sent s c l t) = t"
  "fp_public_state_tree (sent s c l t) = fp_public_state_tree s" "fp_deposits (sent s c l t) = fp_deposits s"
  "fp_blocks (sent s c l t) = fp_blocks s" "fp_block_hash_chain (sent s c l t) = fp_block_hash_chain s"
  "fp_deposit_hash_chain (sent s c l t) = fp_deposit_hash_chain s"
  "fp_channel_reg_hash_chain (sent s c l t) = fp_channel_reg_hash_chain s"
  by (simp_all add: sent_def)

lemma send_tree_rebuilt:
  assumes "length ls \<le> 2 ^ SEND_TREE_HEIGHT"
  shows "\<exists>t. try_fold (push_send P) (SendTree_init P) ls = (Ok t :: ('e, _) outcome) \<and> i_height t = SEND_TREE_HEIGHT \<and>
    i_leaves t = ls \<and> incremental_rep (two_to_one P) (SendLeaf_hash P) SendLeaf_empty_leaf t \<and>
    Incremental_get_root t = (Ok (send_root P ls) :: ('f, _) outcome)"
proof -
  have rep: "incremental_rep (two_to_one P) (SendLeaf_hash P) SendLeaf_empty_leaf (SendTree_init P)"
    by (simp add: SendTree_init_def Incremental_new_rep public_heights)
  have init: "i_leaves (SendTree_init P) = []" "i_height (SendTree_init P) = SEND_TREE_HEIGHT"
    by (simp_all add: SendTree_init_def new_incremental)
  obtain t where t: "try_fold (push_send P) (SendTree_init P) ls = (Ok t :: ('e, _) outcome)"
    "i_height t = SEND_TREE_HEIGHT" "i_leaves t = ls" "incremental_rep (two_to_one P) (SendLeaf_hash P) SendLeaf_empty_leaf t"
    using Incremental_pushes [OF rep, of ls, where 'e = 'e] assms by (auto simp: init)
  then show ?thesis by (auto simp: incremental_root [OF t(4)])
qed

lemma send_tree_extended:
  assumes "i_height t = SEND_TREE_HEIGHT" "i_leaves t = ls" "length ls < 2 ^ SEND_TREE_HEIGHT"
    "incremental_rep (two_to_one P) (SendLeaf_hash P) SendLeaf_empty_leaf t"
  shows "\<exists>t'. push_send P t l = (Ok t' :: ('e, _) outcome) \<and> i_leaves t' = ls @ [l] \<and>
    Incremental_get_root t' = (Ok (send_root P (ls @ [l])) :: ('f, _) outcome)"
proof -
  obtain t' where t': "push_send P t l = (Ok t' :: ('e, _) outcome)" "i_leaves t' = ls @ [l]"
    "incremental_rep (two_to_one P) (SendLeaf_hash P) SendLeaf_empty_leaf t'" "i_height t' = SEND_TREE_HEIGHT"
    using Incremental_push_rep [OF assms(4), of l, where 'e = 'e] assms by auto
  then show ?thesis by (auto simp: incremental_root [OF t'(3)])
qed

lemma channel_ok_other:
  assumes "channel_ok P s d" "d \<noteq> c" "s_leaves t = (s_leaves (fp_channel_tree s))(ChannelId_as_u64 c \<mapsto> v)"
  shows "channel_ok P (sent s c l t) d"
proof -
  have "channel_leaf_at P (sent s c l t) d = channel_leaf_at P s d"
    using assms(2,3) by (simp add: channel_leaf_at_def Sparse_get_leaf_def)
  with assms(1,2) show ?thesis by (simp add: channel_ok_def)
qed

lemma channel_ok_sent:
  assumes ok: "channel_ok P s c" and room: "length (send_leaves_of s c) < 2 ^ SEND_TREE_HEIGHT"
    and new: "last_send (send_leaves_of s c) < fp_block_number s"
    and l: "l = \<lparr>sl_prev = last_send (send_leaves_of s c), sl_cur = fp_block_number s, sl_tx_tree_root = r\<rparr>"
    and t: "s_leaves t = (s_leaves (fp_channel_tree s))(ChannelId_as_u64 c \<mapsto>
      channel_summary P (send_leaves_of s c @ [l]) m)"
  shows "channel_ok P (sent s c l t) c"
proof -
  have "channel_leaf_at P (sent s c l t) c = channel_summary P (send_leaves_of s c @ [l]) m"
    by (simp add: channel_leaf_at_def Sparse_get_leaf_def t)
  moreover have "send_chain (U63 0) (send_leaves_of s c @ [l])"
    using send_chain_snoc [OF _ new] ok by (simp add: channel_ok_def l)
  moreover have "length (send_leaves_of s c @ [l]) \<le> 2 ^ SEND_TREE_HEIGHT" using room by simp
  ultimately show ?thesis
    by (simp add: channel_ok_def channel_summary_def) (simp add: l)
qed

lemma add_block_key_step:
  assumes inv: "channels_inv P s" and c: "channel_id_of c \<noteq> 0" and valid: "U63_valid (fp_block_number s)"
    and room: "length (send_leaves_of s c) < 2 ^ SEND_TREE_HEIGHT" and key: "key_id \<noteq> 0"
    and new: "last_send (send_leaves_of s c) \<noteq> fp_block_number s"
  shows "\<exists>l t. add_block_key P (as_u64 (fp_block_number s)) (channel_id_of c) r key_id s = (Ok (), sent s c l t) \<and>
    channels_inv P (sent s c l t) \<and> members_at P (sent s c l t) = members_at P s \<and>
    l = \<lparr>sl_prev = last_send (send_leaves_of s c), sl_cur = fp_block_number s, sl_tx_tree_root = r\<rparr>"
proof -
  let ?ls = "send_leaves_of s c"
  define l where "l = \<lparr>sl_prev = last_send ?ls, sl_cur = fp_block_number s, sl_tx_tree_root = r\<rparr>"
  define m where "m = cl_member_pubkeys_root (channel_leaf_at P s c)"
  have cur: "sl_cur l = fp_block_number s" by (simp add: l_def)
  have ok: "channel_ok P s d" for d using inv by (simp add: channels_inv_def)
  have rep: "channel_rep P (fp_channel_tree s)" "s_height (fp_channel_tree s) = CHANNEL_TREE_HEIGHT"
    using inv by (simp_all add: channels_inv_def)
  have lt: "last_send ?ls < fp_block_number s"
    using ok [of c] new by (simp add: channel_ok_def less_le)
  have id: "ChannelId_new (ucast (channel_id_of c)) = Ok c"
    using c by (simp add: ChannelId_new_Ok_iff ChannelId_as_u64_def)
  have bn: "U63_new (as_u64 (fp_block_number s)) = Ok (fp_block_number s)"
    using valid by (cases "fp_block_number s") (simp add: U63_new_Ok_iff)
  obtain st where st: "try_fold (push_send P) (SendTree_init P) ?ls = (Ok st :: (FullPublicStateError, _) outcome)"
    "i_height st = SEND_TREE_HEIGHT" "i_leaves st = ?ls"
    "incremental_rep (two_to_one P) (SendLeaf_hash P) SendLeaf_empty_leaf st"
    "Incremental_get_root st = (Ok (send_root P ?ls) :: (FullPublicStateError, _) outcome)"
    using send_tree_rebuilt [of ?ls P] room by (metis less_imp_le)
  obtain st' where st': "push_send P st l = (Ok st' :: (FullPublicStateError, _) outcome)" "i_leaves st' = ?ls @ [l]"
    "Incremental_get_root st' = (Ok (send_root P (?ls @ [l])) :: (FullPublicStateError, _) outcome)"
    using send_tree_extended [OF st(2,3) room st(4), of l] by metis
  obtain t where t: "Sparse_update (two_to_one P) (ChannelLeaf_hash P) (ChannelId_as_u64 c)
        (channel_summary P (?ls @ [l]) m) (fp_channel_tree s) = (Ok t :: (FullPublicStateError, _) outcome)"
      "s_height t = CHANNEL_TREE_HEIGHT" "channel_rep P t"
      "s_leaves t = (s_leaves (fp_channel_tree s))(ChannelId_as_u64 c \<mapsto> channel_summary P (?ls @ [l]) m)"
    using Sparse_update_rep [OF rep(1), of "ChannelId_as_u64 c"] channel_in_tree [of c] unfolding rep(2) by metis
  have leaf: "Sparse_get_leaf (empty_channel_leaf P) (fp_channel_tree s) (ChannelId_as_u64 c) = channel_summary P ?ls m"
    using ok [of c] by (simp add: channel_ok_def channel_leaf_at_def m_def)
  have "add_block_key P (as_u64 (fp_block_number s)) (channel_id_of c) r key_id s = (Ok (), sent s c l t)"
    using key new st st' t(1)
    unfolding add_block_key_def send_leaves_of_def [symmetric] last_send_def [symmetric] id bn ChannelLeaf_default_value
    by (simp add: leaf Let_def channel_summary_def cur l_def [symmetric] sent_def)
  moreover have "channels_inv P (sent s c l t)"
    using channel_ok_sent [OF ok room lt l_def t(4)] channel_ok_other [OF ok _ t(4)] t(2,3)
    unfolding channels_inv_def by (metis sent_fields(2))
  moreover have "members_at P (sent s c l t) = members_at P s"
    by (auto simp: fun_eq_iff channel_leaf_at_def Sparse_get_leaf_def t(4) channel_summary_def m_def)
  ultimately show ?thesis using l_def by blast
qed

lemma add_block_keys_idle:
  assumes "list_all (\<lambda>k. k = 0) ks"
  shows "add_block_keys P bn cid r ks s = (Ok (), s)"
  using assms by (induction ks) (auto simp: add_block_key_def)

lemma add_block_keys_done:
  assumes "channel_id_of c \<noteq> 0" "U63_valid (fp_block_number s)" "last_send (send_leaves_of s c) = fp_block_number s"
  shows "add_block_keys P (as_u64 (fp_block_number s)) (channel_id_of c) r ks s = (Ok (), s)"
proof -
  have id: "ChannelId_new (ucast (channel_id_of c)) = Ok c"
    using assms(1) by (simp add: ChannelId_new_Ok_iff ChannelId_as_u64_def)
  have bn: "U63_new (as_u64 (fp_block_number s)) = Ok (fp_block_number s)"
    using assms(2) by (cases "fp_block_number s") (simp add: U63_new_Ok_iff)
  have "add_block_key P (as_u64 (fp_block_number s)) (channel_id_of c) r k s = (Ok (), s)" for k
    using assms(3)
    unfolding add_block_key_def send_leaves_of_def [symmetric] last_send_def [symmetric] id bn by simp
  then show ?thesis by (induction ks) simp_all
qed

lemma add_block_keys_run:
  assumes inv: "channels_inv P s" and c: "channel_id_of c \<noteq> 0" and valid: "U63_valid (fp_block_number s)"
    and room: "length (send_leaves_of s c) < 2 ^ SEND_TREE_HEIGHT"
    and new: "last_send (send_leaves_of s c) \<noteq> fp_block_number s" and some: "list_ex (\<lambda>k. k \<noteq> 0) ks"
  shows "\<exists>l t. add_block_keys P (as_u64 (fp_block_number s)) (channel_id_of c) r ks s = (Ok (), sent s c l t) \<and>
    channels_inv P (sent s c l t) \<and> members_at P (sent s c l t) = members_at P s \<and>
    l = \<lparr>sl_prev = last_send (send_leaves_of s c), sl_cur = fp_block_number s, sl_tx_tree_root = r\<rparr>"
  using some
proof (induction ks)
  case (Cons k ks)
  show ?case
  proof (cases "k = 0")
    case True
    with Cons show ?thesis by (simp add: add_block_key_def)
  next
    case False
    from add_block_key_step [OF inv c valid room this new, of r]
    obtain l t where step: "add_block_key P (as_u64 (fp_block_number s)) (channel_id_of c) r k s = (Ok (), sent s c l t)"
      "channels_inv P (sent s c l t)" "members_at P (sent s c l t) = members_at P s"
      "l = \<lparr>sl_prev = last_send (send_leaves_of s c), sl_cur = fp_block_number s, sl_tx_tree_root = r\<rparr>"
      by blast
    have "add_block_keys P (as_u64 (fp_block_number (sent s c l t))) (channel_id_of c) r ks (sent s c l t) =
        (Ok (), sent s c l t)"
      using valid by (intro add_block_keys_done [OF c]) (simp_all add: step(4))
    with step show ?thesis by auto
  qed
qed simp

section \<open>Adding a block\<close>

definition public_state_of :: "(u64 list \<Rightarrow> PoseidonHashOut) \<Rightarrow> FullPublicState \<Rightarrow> PublicState" where
  "public_state_of P s =
     \<lparr>pst_block_number = fp_block_number s,
      pst_timestamp = (if fp_blocks s = [] then 0 else blk_timestamp (last (fp_blocks s))),
      pst_account_tree_root = node (two_to_one P)
        (sparse_leaf_fun (ChannelLeaf_hash P) (empty_channel_leaf P) (fp_channel_tree s)) CHANNEL_TREE_HEIGHT 0,
      pst_deposit_tree_root =
        list_root P (Deposit_poseidon_hash P) Deposit_empty_leaf DEPOSIT_TREE_HEIGHT (fp_deposits s),
      pst_prev_public_state_root = list_root P (PublicState_poseidon_hash P) PublicState_empty_leaf
        PUBLIC_STATE_TREE_HEIGHT (i_leaves (fp_public_state_tree s))\<rparr>"

lemma to_public_state_inv:
  assumes "public_inv P s"
  shows "to_public_state s = Ok (public_state_of P s)"
proof -
  note inv = assms [unfolded public_inv_def channels_inv_def history_inv_def deposits_inv_def]
  have reps: "channel_rep P (fp_channel_tree s)"
    "incremental_rep (two_to_one P) (PublicState_poseidon_hash P) PublicState_empty_leaf (fp_public_state_tree s)"
    "incremental_rep (two_to_one P) (Deposit_poseidon_hash P) Deposit_empty_leaf (fp_deposit_tree s)"
    using inv by blast+
  show ?thesis
    using inv by (simp add: to_public_state_def Sparse_get_root_rep [OF reps(1)] incremental_root [OF reps(2)]
        incremental_root [OF reps(3)] public_state_of_def)
qed

lemma length_resize [simp]: "length (resize n x xs) = n"
  by (simp add: resize_def)

lemma get_num_users_fits: "get_num_users n counts = Some k \<Longrightarrow> of_nat n \<le> k"
  by (auto simp: get_num_users_def find_Some_iff)

lemma block_hash_total:
  assumes "\<And>xs. length (keccak xs) = 8" "Block_new n cid ks ts r d g = Ok b"
  shows "\<exists>h. Block_hash_with_prev_hash keccak b prev = Ok h"
  using assms bytes32.from_total [of "keccak (Block_words b prev)"]
  by (auto simp: Block_new_def Block_hash_with_prev_hash_def split: if_splits)

definition Block_valid :: "Block \<Rightarrow> bool" where
  "Block_valid b \<longleftrightarrow> length (blk_key_ids b) = unat (blk_num_users b)"

text \<open>The state after the header of a block is recorded and before its senders are.\<close>

definition headed :: "FullPublicState \<Rightarrow> PublicStateTree \<Rightarrow> BlockNumber \<Rightarrow> Block \<Rightarrow> Bytes32 \<Rightarrow> FullPublicState" where
  "headed s t bn b h =
     s\<lparr>fp_public_state_tree := t, fp_block_number := bn, fp_blocks := fp_blocks s @ [b], fp_block_hash_chain := h\<rparr>"

lemma headed_fields [simp]:
  "fp_block_number (headed s t bn b h) = bn" "fp_channel_tree (headed s t bn b h) = fp_channel_tree s"
  "send_leaves_of (headed s t bn b h) = send_leaves_of s" "fp_deposits (headed s t bn b h) = fp_deposits s"
  by (auto simp: headed_def send_leaves_of_def)

lemma channels_inv_headed:
  assumes "channels_inv P s" "fp_block_number s \<le> bn"
  shows "channels_inv P (headed s t bn b h)"
proof -
  have "channel_leaf_at P (headed s t bn b h) = channel_leaf_at P s"
    by (auto simp: channel_leaf_at_def)
  with assms show ?thesis
    unfolding channels_inv_def channel_ok_def headed_fields by (metis order_trans)
qed

lemma next_block_number:
  assumes "unat (as_u64 bn) + 1 < 2 ^ 63"
  shows "\<exists>bn'. U63_new (as_u64 bn + 1) = Ok bn' \<and> U63_valid bn' \<and> as_u64 bn' = as_u64 bn + 1 \<and>
    unat (as_u64 bn') = unat (as_u64 bn) + 1 \<and> bn < bn'"
proof -
  have u: "unat (as_u64 bn + 1) = unat (as_u64 bn) + 1"
    using assms by (simp add: unat_word_ariths)
  then show ?thesis
    using assms by (auto simp: U63_new_Ok_iff U63_valid_unat less_U63_def word_less_nat_alt)
qed

lemma history_inv_headed:
  assumes inv: "history_inv P s" and bn: "unat (as_u64 bn') = unat (as_u64 (fp_block_number s)) + 1" "U63_valid bn'"
    and t: "i_leaves t = i_leaves (fp_public_state_tree s) @ [ps]" "i_height t = PUBLIC_STATE_TREE_HEIGHT"
      "incremental_rep (two_to_one P) (PublicState_poseidon_hash P) PublicState_empty_leaf t"
    and ps: "pst_block_number ps = fp_block_number s"
  shows "history_inv P (headed s t bn' b h)"
proof -
  have "U63 (of_nat (unat (as_u64 (fp_block_number s)))) = fp_block_number s"
    by (cases "fp_block_number s") simp
  then show ?thesis
    using inv bn t ps by (simp add: history_inv_def headed_def)
qed

lemma deposits_inv_headed:
  assumes "deposits_inv P s" "as_u64 bn' = as_u64 (fp_block_number s) + 1" "U63_valid bn'"
    "unat (as_u64 bn') = unat (as_u64 (fp_block_number s)) + 1"
  shows "deposits_inv P (headed s t bn' b h)"
proof -
  have "U63 (as_u64 (fp_block_number s) + 1) \<le> U63 (as_u64 bn' + 1)"
    using assms(2,3,4) by (auto simp: less_eq_U63_def word_le_nat_alt U63_valid_unat unat_word_ariths)
  with assms(1) show ?thesis
    by (auto simp: deposits_inv_def headed_def list_all_iff intro: order_trans)
qed

lemma add_block_header:
  assumes inv: "public_inv P s" and keccak: "\<And>xs. length (keccak xs) = 8"
    and bn: "unat (as_u64 (fp_block_number s)) + 1 < 2 ^ 63"
    and users: "get_num_users (length ks) (fp_supported_user_counts s) = Some n"
    and cid: "\<not> (list_ex (\<lambda>k. k \<noteq> 0) ks \<and> cid = 0)"
  shows "\<exists>t bn' b h. add_block P keccak cid ks ts r s =
      add_block_keys P (as_u64 bn') cid r ks (headed s t bn' b h) \<and>
    public_inv P (headed s t bn' b h) \<and> U63_valid bn' \<and> fp_block_number s < bn' \<and>
    unat (as_u64 bn') = unat (as_u64 (fp_block_number s)) + 1 \<and>
    i_leaves t = i_leaves (fp_public_state_tree s) @ [public_state_of P s] \<and> Block_valid b \<and>
    Block_new n cid ks ts r (fp_deposit_hash_chain s) (fp_channel_reg_hash_chain s) = Ok b \<and>
    Block_hash_with_prev_hash keccak b (fp_block_hash_chain s) = Ok h"
proof -
  from next_block_number [OF bn] obtain bn' where bn': "U63_new (as_u64 (fp_block_number s) + 1) = Ok bn'"
    "U63_valid bn'" "as_u64 bn' = as_u64 (fp_block_number s) + 1" "fp_block_number s < bn'"
    "unat (as_u64 bn') = unat (as_u64 (fp_block_number s)) + 1" by blast
  have "\<not> n < of_nat (length ks)" using get_num_users_fits [OF users] by simp
  then obtain b where b: "Block_new n cid ks ts r (fp_deposit_hash_chain s) (fp_channel_reg_hash_chain s) = Ok b"
    by (auto simp: Block_new_def)
  from block_hash_total [of keccak, OF keccak this] obtain h where
    h: "Block_hash_with_prev_hash keccak b (fp_block_hash_chain s) = Ok h" by blast
  have hist: "history_inv P s" "channels_inv P s" "deposits_inv P s" using inv by (simp_all add: public_inv_def)
  have room: "length (i_leaves (fp_public_state_tree s)) < 2 ^ i_height (fp_public_state_tree s)"
    and rep: "incremental_rep (two_to_one P) (PublicState_poseidon_hash P) PublicState_empty_leaf (fp_public_state_tree s)"
    using hist(1) bn by (simp_all add: history_inv_def public_heights)
  from Incremental_push_rep [OF rep, of "public_state_of P s"] room obtain t where
    t: "Incremental_push (two_to_one P) (PublicState_poseidon_hash P) (public_state_of P s) (fp_public_state_tree s) =
        (Ok t :: (FullPublicStateError, _) outcome)" "i_height t = i_height (fp_public_state_tree s)"
      "i_leaves t = i_leaves (fp_public_state_tree s) @ [public_state_of P s]"
      "incremental_rep (two_to_one P) (PublicState_poseidon_hash P) PublicState_empty_leaf t" by auto
  have "ChannelId_new (ucast cid) = Ok (ChannelId cid)" if "cid \<noteq> 0"
    using that by (simp add: ChannelId_new_Ok_iff ChannelId_as_u64_def)
  then have "add_block P keccak cid ks ts r s = add_block_keys P (as_u64 bn') cid r ks (headed s t bn' b h)"
    using cid by (auto simp: add_block_def add_block_with_channel_def users Block_new_with_channel_def b h bn'(1,3)
        t(1) to_public_state_inv [OF inv] headed_def Let_def)
  moreover have "public_inv P (headed s t bn' b h)"
    unfolding public_inv_def
    using channels_inv_headed [OF hist(2) less_imp_le [OF bn'(4)]] deposits_inv_headed [OF hist(3) bn'(3,2,5)]
      history_inv_headed [OF hist(1) bn'(5,2) t(3) _ t(4)] t(2) hist(1)
    by (simp add: history_inv_def public_state_of_def)
  moreover have "Block_valid b" using b by (auto simp: Block_new_def Block_valid_def split: if_splits)
  ultimately show ?thesis using bn' t(3) h b by blast
qed

lemma public_inv_sent:
  assumes "public_inv P s" "channels_inv P (sent s c l t)"
  shows "public_inv P (sent s c l t)"
  using assms by (simp add: public_inv_def history_inv_def deposits_inv_def sent_def)

lemma add_block_run:
  assumes inv: "public_inv P s" and keccak: "\<And>xs. length (keccak xs) = 8"
    and bn: "unat (as_u64 (fp_block_number s)) + 1 < 2 ^ 63"
    and room: "list_ex (\<lambda>k. k \<noteq> 0) ks \<Longrightarrow> length (send_leaves_of s (ChannelId cid)) < 2 ^ SEND_TREE_HEIGHT"
    and users: "get_num_users (length ks) (fp_supported_user_counts s) = Some n"
    and cid: "\<not> (list_ex (\<lambda>k. k \<noteq> 0) ks \<and> cid = 0)"
  shows "\<exists>s' b. add_block P keccak cid ks ts r s = (Ok (), s') \<and> public_inv P s' \<and>
    fp_blocks s' = fp_blocks s @ [b] \<and> Block_valid b \<and>
    Block_new n cid ks ts r (fp_deposit_hash_chain s) (fp_channel_reg_hash_chain s) = Ok b \<and>
    members_at P s' = members_at P s \<and> fp_deposit_hash_chain s' = fp_deposit_hash_chain s \<and>
    fp_channel_reg_hash_chain s' = fp_channel_reg_hash_chain s \<and>
    Block_hash_with_prev_hash keccak b (fp_block_hash_chain s) = Ok (fp_block_hash_chain s') \<and>
    unat (as_u64 (fp_block_number s')) = unat (as_u64 (fp_block_number s)) + 1 \<and>
    i_leaves (fp_public_state_tree s') = i_leaves (fp_public_state_tree s) @ [public_state_of P s] \<and>
    fp_deposits s' = fp_deposits s \<and>
    (\<forall>d. send_leaves_of s' d = send_leaves_of s d @
       (if d = ChannelId cid \<and> list_ex (\<lambda>k. k \<noteq> 0) ks
        then [\<lparr>sl_prev = last_send (send_leaves_of s d), sl_cur = fp_block_number s', sl_tx_tree_root = r\<rparr>]
        else []))"
proof -
  from add_block_header [of P s keccak, OF inv keccak bn users cid] obtain t bn' b h where
    run: "add_block P keccak cid ks ts r s = add_block_keys P (as_u64 bn') cid r ks (headed s t bn' b h)"
    and inv': "public_inv P (headed s t bn' b h)" and bn': "U63_valid bn'" "fp_block_number s < bn'"
      "unat (as_u64 bn') = unat (as_u64 (fp_block_number s)) + 1"
    and t: "i_leaves t = i_leaves (fp_public_state_tree s) @ [public_state_of P s]" "Block_valid b"
      "Block_new n cid ks ts r (fp_deposit_hash_chain s) (fp_channel_reg_hash_chain s) = Ok b"
      "Block_hash_with_prev_hash keccak b (fp_block_hash_chain s) = Ok h" by blast
  let ?s = "headed s t bn' b h" and ?c = "ChannelId cid"
  have tree: "fp_public_state_tree ?s = t" "fp_blocks ?s = fp_blocks s @ [b]" "fp_block_hash_chain ?s = h"
    "fp_deposit_hash_chain ?s = fp_deposit_hash_chain s" "fp_channel_reg_hash_chain ?s = fp_channel_reg_hash_chain s"
    "members_at P ?s = members_at P s"
    by (simp_all add: headed_def channel_leaf_at_def fun_eq_iff)
  show ?thesis
  proof (cases "list_ex (\<lambda>k. k \<noteq> 0) ks")
    case active: True
    have "last_send (send_leaves_of s ?c) \<le> fp_block_number s"
      using inv by (simp add: public_inv_def channels_inv_def channel_ok_def)
    with bn'(2) have new: "last_send (send_leaves_of ?s ?c) \<noteq> fp_block_number ?s" by auto
    have ch: "channels_inv P ?s" using inv' by (simp add: public_inv_def)
    from add_block_keys_run [OF ch, of ?c ks r] cid active new bn'(1) room [OF active] obtain l t' where
      "add_block P keccak cid ks ts r s = (Ok (), sent ?s ?c l t')" "channels_inv P (sent ?s ?c l t')"
      "members_at P (sent ?s ?c l t') = members_at P s"
      "l = \<lparr>sl_prev = last_send (send_leaves_of s ?c), sl_cur = bn', sl_tx_tree_root = r\<rparr>"
      using run tree(6) by auto
    with public_inv_sent [OF inv'] bn'(3) t tree active show ?thesis by auto
  next
    case idle: False
    then have "list_all (\<lambda>k. k = 0) ks" by (simp add: list_ex_iff list_all_iff)
    with add_block_keys_idle [OF this] run have "add_block P keccak cid ks ts r s = (Ok (), ?s)" by simp
    with inv' bn'(3) t tree idle show ?thesis by auto
  qed
qed

text \<open>A full send tree makes the method panic, so a successful call had room.\<close>

lemma add_block_key_full:
  assumes inv: "channels_inv P s" and c: "channel_id_of c \<noteq> 0" and valid: "U63_valid (fp_block_number s)"
    and full: "length (send_leaves_of s c) = 2 ^ SEND_TREE_HEIGHT" and key: "key_id \<noteq> 0"
    and new: "last_send (send_leaves_of s c) \<noteq> fp_block_number s"
  shows "fst (add_block_key P (as_u64 (fp_block_number s)) (channel_id_of c) r key_id s) = Panic"
proof -
  let ?ls = "send_leaves_of s c"
  have ok: "channel_ok P s c" using inv by (simp add: channels_inv_def)
  have id: "ChannelId_new (ucast (channel_id_of c)) = Ok c"
    using c by (simp add: ChannelId_new_Ok_iff ChannelId_as_u64_def)
  have bn: "U63_new (as_u64 (fp_block_number s)) = Ok (fp_block_number s)"
    using valid by (cases "fp_block_number s") (simp add: U63_new_Ok_iff)
  obtain st where st: "try_fold (push_send P) (SendTree_init P) ?ls = (Ok st :: (FullPublicStateError, _) outcome)"
    "i_height st = SEND_TREE_HEIGHT" "i_leaves st = ?ls"
    "incremental_rep (two_to_one P) (SendLeaf_hash P) SendLeaf_empty_leaf st"
    "Incremental_get_root st = (Ok (send_root P ?ls) :: (FullPublicStateError, _) outcome)"
    using send_tree_rebuilt [of ?ls P] full by (metis order_refl)
  have "push_send P st l = (Panic :: (FullPublicStateError, _) outcome)" for l
    using Incremental_push_rep [OF st(4), of l] st(2,3) full by simp
  with key new st(1,5) show ?thesis
    unfolding add_block_key_def send_leaves_of_def [symmetric] last_send_def [symmetric] id bn ChannelLeaf_default_value
    by (simp add: Let_def)
qed

lemma add_block_keys_full:
  assumes "channels_inv P s" "channel_id_of c \<noteq> 0" "U63_valid (fp_block_number s)"
    "length (send_leaves_of s c) = 2 ^ SEND_TREE_HEIGHT" "last_send (send_leaves_of s c) \<noteq> fp_block_number s"
    "list_ex (\<lambda>k. k \<noteq> 0) ks"
  shows "fst (add_block_keys P (as_u64 (fp_block_number s)) (channel_id_of c) r ks s) = Panic"
  using assms(6)
proof (induction ks)
  case (Cons k ks)
  show ?case
  proof (cases "k = 0")
    case True
    with Cons show ?thesis by (simp add: add_block_key_def)
  next
    case False
    from add_block_key_full [OF assms(1-4) this assms(5), of r]
    show ?thesis by (auto split: prod.splits)
  qed
qed simp

lemma add_block_Ok_bounds:
  assumes inv: "public_inv P s" and keccak: "\<And>xs. length (keccak xs) = 8"
    and ok: "add_block P keccak cid ks ts r s = (Ok (), s')"
  shows "unat (as_u64 (fp_block_number s)) + 1 < 2 ^ 63"
    and "\<exists>n. get_num_users (length ks) (fp_supported_user_counts s) = Some n"
    and "\<not> (list_ex (\<lambda>k. k \<noteq> 0) ks \<and> cid = 0)"
    and "list_ex (\<lambda>k. k \<noteq> 0) ks \<Longrightarrow> length (send_leaves_of s (ChannelId cid)) < 2 ^ SEND_TREE_HEIGHT"
proof -
  have with_Ok: "\<exists>a. m = Ok a \<and> f a = (Ok (), s')" if "with_state s m f = (Ok (), s')"
    for m :: "(FullPublicStateError, 'x) outcome" and f :: "'x \<Rightarrow> (FullPublicStateError, unit) outcome \<times> FullPublicState"
    using that by (cases m) auto
  show users: "\<exists>n. get_num_users (length ks) (fp_supported_user_counts s) = Some n"
    using ok by (cases "get_num_users (length ks) (fp_supported_user_counts s)")
      (auto simp: add_block_def add_block_with_channel_def)
  show bn: "unat (as_u64 (fp_block_number s)) + 1 < 2 ^ 63"
  proof -
    from ok have "\<exists>x. U63_new (as_u64 (fp_block_number s) + 1) = Ok x"
      by (auto simp: add_block_def add_block_with_channel_def Let_def dest!: with_Ok)
    moreover have "U63_valid (fp_block_number s)" using inv by (simp add: public_inv_def history_inv_def)
    ultimately show ?thesis
      by (auto simp: U63_new_Ok_iff U63_valid_unat unat_word_ariths)
  qed
  show cid: "\<not> (list_ex (\<lambda>k. k \<noteq> 0) ks \<and> cid = 0)"
    using ok by (auto simp: add_block_def add_block_with_channel_def Let_def ChannelId_new_def validate_components_def
        dest!: with_Ok)
  show "length (send_leaves_of s (ChannelId cid)) < 2 ^ SEND_TREE_HEIGHT" if active: "list_ex (\<lambda>k. k \<noteq> 0) ks"
  proof (rule ccontr)
    assume "\<not> ?thesis"
    moreover have ch: "channel_ok P s (ChannelId cid)" using inv by (simp add: public_inv_def channels_inv_def)
    ultimately have full: "length (send_leaves_of s (ChannelId cid)) = 2 ^ SEND_TREE_HEIGHT"
      by (simp add: channel_ok_def)
    from users obtain n where n: "get_num_users (length ks) (fp_supported_user_counts s) = Some n" by blast
    from add_block_header [of P s keccak, OF inv keccak bn n cid] obtain t bn' b h where
      "add_block P keccak cid ks ts r s = add_block_keys P (as_u64 bn') cid r ks (headed s t bn' b h)"
      "public_inv P (headed s t bn' b h)" "U63_valid bn'" and lt: "fp_block_number s < bn'" by blast
    moreover from lt ch have "last_send (send_leaves_of s (ChannelId cid)) \<noteq> bn'" by (auto simp: channel_ok_def)
    ultimately show False
      using add_block_keys_full [of P "headed s t bn' b h" "ChannelId cid" ks r] arg_cong [OF ok, of fst] full active cid
      by (auto simp: public_inv_def)
  qed
qed

section \<open>Deposits and reachable states\<close>

lemma FullPublicState_new_inv:
  assumes "FullPublicState_new P counts = Ok s"
  shows "public_inv P s"
proof -
  have "channel_ok P s c" for c
  proof -
    have "send_leaves_of s c = []" "channel_leaf_at P s c = empty_channel_leaf P"
      using assms by (auto simp: FullPublicState_new_def ChannelTree_init_def send_leaves_of_def channel_leaf_at_def
          Sparse_get_leaf_def Sparse_new_def)
    then show ?thesis
      by (simp add: channel_ok_def channel_summary_def last_send_def empty_channel_leaf_def less_eq_U63_def)
  qed
  then show ?thesis
    using assms
    by (auto simp: public_inv_def channels_inv_def history_inv_def deposits_inv_def FullPublicState_new_def
        ChannelTree_init_def DepositTree_init_def PublicStateTree_init_def Sparse_new_rep Incremental_new_rep
        new_incremental new_sparse public_heights U63_valid_unat)
qed

lemma channels_inv_cong:
  assumes "fp_channel_tree s' = fp_channel_tree s" "fp_send_leaves s' = fp_send_leaves s"
    "fp_block_number s' = fp_block_number s"
  shows "channels_inv P s' = channels_inv P s"
  using assms by (simp add: channels_inv_def channel_ok_def send_leaves_of_def channel_leaf_at_def)

lemma deposit_hash_total:
  assumes "\<And>xs. length (keccak xs) = 8"
  shows "\<exists>h. Deposit_hash_with_prev_hash keccak d prev = Ok h"
  using bytes32.from_total [OF assms] by (auto simp: Deposit_hash_with_prev_hash_def)

lemma add_deposit_run:
  assumes inv: "public_inv P s" and keccak: "\<And>xs. length (keccak xs) = 8"
    and bn: "unat (as_u64 (fp_block_number s)) + 1 < 2 ^ 63" and room: "length (fp_deposits s) < 2 ^ 63"
  shows "\<exists>s' d bn'. add_deposit P keccak a rc ti am aux s = (Ok (), s') \<and> public_inv P s' \<and>
    fp_deposits s' = fp_deposits s @ [d] \<and> fp_blocks s' = fp_blocks s \<and>
    fp_block_hash_chain s' = fp_block_hash_chain s \<and> fp_block_number s' = fp_block_number s \<and>
    unat (as_u64 bn') = unat (as_u64 (fp_block_number s)) + 1 \<and>
    d = \<lparr>dep_deposit_index = U63 (of_nat (length (fp_deposits s))), dep_block_number = bn', dep_depositor = a,
         dep_recipient = rc, dep_token_index = ti, dep_amount = am, dep_aux_data = aux\<rparr> \<and>
    send_leaves_of s' = send_leaves_of s \<and> fp_channel_tree s' = fp_channel_tree s \<and>
    fp_public_state_tree s' = fp_public_state_tree s \<and> fp_supported_user_counts s' = fp_supported_user_counts s \<and>
    fp_channel_reg_hash_chain s' = fp_channel_reg_hash_chain s \<and>
    Deposit_hash_with_prev_hash keccak d (fp_deposit_hash_chain s) =
      (Ok (fp_deposit_hash_chain s') :: (FullPublicStateError, _) outcome)"
proof -
  from next_block_number [OF bn] obtain bn' where bn': "U63_valid bn'" "as_u64 bn' = as_u64 (fp_block_number s) + 1"
    "unat (as_u64 bn') = unat (as_u64 (fp_block_number s)) + 1" by blast
  then have add: "U63_add (fp_block_number s) 1 = Ok bn'" by (simp add: U63_add_Ok_iff)
  have idx: "U63_new (of_nat (length (fp_deposits s))) = Ok (U63 (of_nat (length (fp_deposits s))))"
    using room by (simp add: U63_new_Ok_iff U63_valid_unat)
  define d where "d = \<lparr>dep_deposit_index = U63 (of_nat (length (fp_deposits s))), dep_block_number = bn', dep_depositor = a,
         dep_recipient = rc, dep_token_index = ti, dep_amount = am, dep_aux_data = aux\<rparr>"
  have D: "deposits_inv P s" using inv by (simp add: public_inv_def)
  then have rep: "incremental_rep (two_to_one P) (Deposit_poseidon_hash P) Deposit_empty_leaf (fp_deposit_tree s)"
    and tree: "i_leaves (fp_deposit_tree s) = fp_deposits s" "i_height (fp_deposit_tree s) = DEPOSIT_TREE_HEIGHT"
    by (simp_all add: deposits_inv_def)
  from Incremental_push_rep [OF rep, of d] room obtain t where
    t: "Incremental_push (two_to_one P) (Deposit_poseidon_hash P) d (fp_deposit_tree s) = (Ok t :: (FullPublicStateError, _) outcome)"
      "i_height t = DEPOSIT_TREE_HEIGHT" "i_leaves t = fp_deposits s @ [d]"
      "incremental_rep (two_to_one P) (Deposit_poseidon_hash P) Deposit_empty_leaf t"
    by (auto simp: tree public_heights)
  from deposit_hash_total [of keccak, OF keccak] obtain h where
    h: "Deposit_hash_with_prev_hash keccak d (fp_deposit_hash_chain s) = (Ok h :: (FullPublicStateError, _) outcome)" by blast
  let ?s = "s\<lparr>fp_deposits := fp_deposits s @ [d], fp_deposit_tree := t, fp_deposit_hash_chain := h\<rparr>"
  have run: "add_deposit P keccak a rc ti am aux s = (Ok (), ?s)"
    using t(1) h unfolding add_deposit_def add idx by (simp add: Let_def d_def [symmetric])
  have "deposits_inv P ?s"
    using D t bn'(2) by (simp add: deposits_inv_def d_def less_eq_U63_def)
  then have "public_inv P ?s"
    using inv channels_inv_cong [of ?s s P] by (simp add: public_inv_def history_inv_def)
  with run show ?thesis
    using bn'(3) d_def h by (auto simp: send_leaves_of_def fun_eq_iff)
qed

text \<open>The histories of the two operations, from the state of \<open>new\<close>.\<close>

inductive public_step ::
  "(u64 list \<Rightarrow> PoseidonHashOut) \<Rightarrow> (u32 list \<Rightarrow> u32 list) \<Rightarrow> FullPublicState \<Rightarrow> FullPublicState \<Rightarrow> bool"
  for P keccak where
  block: "add_block P keccak cid ks ts r s = (Ok (), s') \<Longrightarrow> public_step P keccak s s'"
| deposit: "add_deposit P keccak a rc ti am aux s = (Ok (), s') \<Longrightarrow> public_step P keccak s s'"

inductive public_reachable ::
  "(u64 list \<Rightarrow> PoseidonHashOut) \<Rightarrow> (u32 list \<Rightarrow> u32 list) \<Rightarrow> FullPublicState \<Rightarrow> bool"
  for P keccak where
  init: "FullPublicState_new P counts = (Ok s :: (unit, _) outcome) \<Longrightarrow> public_reachable P keccak s"
| step: "public_reachable P keccak s \<Longrightarrow> public_step P keccak s s' \<Longrightarrow> public_reachable P keccak s'"

lemma add_deposit_Ok_bounds:
  assumes inv: "public_inv P s" and ok: "add_deposit P keccak a rc ti am aux s = (Ok (), s')"
  shows "unat (as_u64 (fp_block_number s)) + 1 < 2 ^ 63" and "length (fp_deposits s) < 2 ^ 63"
proof -
  have "\<exists>x. U63_add (fp_block_number s) 1 = Ok x"
    using ok by (cases "U63_add (fp_block_number s) 1") (auto simp: add_deposit_def)
  then show "unat (as_u64 (fp_block_number s)) + 1 < 2 ^ 63"
    by (auto simp: U63_add_Ok_iff U63_valid_unat)
  have "\<exists>x. U63_new (of_nat (length (fp_deposits s))) = Ok x"
    using ok by (cases "U63_new (of_nat (length (fp_deposits s)))"; cases "U63_add (fp_block_number s) 1")
      (auto simp: add_deposit_def)
  moreover have "length (fp_deposits s) \<le> 2 ^ 63"
  proof -
    have "deposits_inv P s" using inv by (simp add: public_inv_def)
    then show ?thesis by (metis deposits_inv_def incremental_rep_def DEPOSIT_TREE_HEIGHT_def)
  qed
  ultimately show "length (fp_deposits s) < 2 ^ 63"
    by (auto simp: U63_new_Ok_iff U63_valid_unat)
qed

lemma public_step_inv:
  assumes "public_step P keccak s s'" "public_inv P s" "\<And>xs. length (keccak xs) = 8"
  shows "public_inv P s' \<and> fp_block_number s \<le> fp_block_number s' \<and>
    (\<exists>ds. fp_deposits s' = fp_deposits s @ ds) \<and> (\<forall>c. \<exists>ls. send_leaves_of s' c = send_leaves_of s c @ ls)"
  using assms(1)
proof cases
  case (block cid ks ts r)
  note bounds = add_block_Ok_bounds [of P s keccak, OF assms(2,3) block]
  from bounds(2) obtain n where "get_num_users (length ks) (fp_supported_user_counts s) = Some n" by blast
  from add_block_run [of P s keccak, OF assms(2,3) bounds(1) bounds(4) this bounds(3), of ts r] block
  show ?thesis by (auto simp: less_eq_U63_def word_le_nat_alt)
next
  case (deposit a rc ti am aux)
  note bounds = add_deposit_Ok_bounds [OF assms(2) deposit]
  from add_deposit_run [of P s keccak, OF assms(2,3) bounds, of a rc ti am aux] deposit
  show ?thesis by auto
qed

lemma public_reachable_inv:
  assumes "public_reachable P keccak s" "\<And>xs. length (keccak xs) = 8"
  shows "public_inv P s"
  using assms(1) by induction (auto intro: FullPublicState_new_inv dest: public_step_inv [OF _ _ assms(2)])

section \<open>What a history of sends promises\<close>

text \<open>
  The interface between the public state and the balance steps: which blocks a channel sent in, the
  intervals its send tree records and the block of its last send. A recorded interval has no send
  strictly inside, and no send comes after the last one.
\<close>

locale send_history =
  fixes inv :: "'s \<Rightarrow> bool"
    and sends :: "'s \<Rightarrow> 'c \<Rightarrow> 'b :: linorder set"
    and interval :: "'s \<Rightarrow> 'c \<Rightarrow> 'b \<Rightarrow> 'b \<Rightarrow> bool"
    and last_sent :: "'s \<Rightarrow> 'c \<Rightarrow> 'b"
  assumes interval_gap: "inv s \<Longrightarrow> interval s c p q \<Longrightarrow> b \<in> sends s c \<Longrightarrow> b \<le> p \<or> q \<le> b"
    and interval_end: "inv s \<Longrightarrow> interval s c p q \<Longrightarrow> q \<in> sends s c"
    and sends_le_last: "inv s \<Longrightarrow> b \<in> sends s c \<Longrightarrow> b \<le> last_sent s c"
begin

lemma window_without_send:
  assumes "inv s" and "r < last_sent s c \<Longrightarrow> \<exists>p q. interval s c p q \<and> p \<le> r \<and> r' < q"
  shows "{b \<in> sends s c. r < b \<and> b \<le> r'} = {}"
proof -
  have False if b: "b \<in> sends s c" "r < b" "b \<le> r'" for b
  proof -
    have "r < last_sent s c" using sends_le_last [OF assms(1) b(1)] b(2) by simp
    then obtain p q where "interval s c p q" "p \<le> r" "r' < q" using assms(2) by blast
    with interval_gap [OF assms(1) _ b(1)] b(2,3) show False by fastforce
  qed
  then show ?thesis by blast
qed

lemma window_with_one_send:
  assumes "inv s" "interval s c p q" "p \<le> r" "r < q"
  shows "{b \<in> sends s c. r < b \<and> b \<le> q} = {q}"
  using interval_gap [OF assms(1,2)] interval_end [OF assms(1,2)] assms(3,4) by fastforce

lemma last_ends_window: "inv s \<Longrightarrow> interval s c p q \<Longrightarrow> q \<le> last_sent s c"
  by (blast intro: sends_le_last interval_end)

end

definition send_blocks :: "FullPublicState \<Rightarrow> ChannelId \<Rightarrow> BlockNumber set" where
  "send_blocks s c = sl_cur ` set (send_leaves_of s c)"

definition send_interval :: "FullPublicState \<Rightarrow> ChannelId \<Rightarrow> BlockNumber \<Rightarrow> BlockNumber \<Rightarrow> bool" where
  "send_interval s c p q \<longleftrightarrow> (\<exists>l \<in> set (send_leaves_of s c). sl_prev l = p \<and> sl_cur l = q)"

interpretation history: send_history "public_inv P" send_blocks send_interval "\<lambda>s c. last_send (send_leaves_of s c)"
  for P
proof
  fix s c p q b
  assume "public_inv P s"
  then have chain: "send_chain (U63 0) (send_leaves_of s c)"
    by (simp add: public_inv_def channels_inv_def channel_ok_def)
  show "send_interval s c p q \<Longrightarrow> b \<in> send_blocks s c \<Longrightarrow> b \<le> p \<or> q \<le> b"
    using send_chain_gap [OF chain] by (auto simp: send_interval_def send_blocks_def)
  show "send_interval s c p q \<Longrightarrow> q \<in> send_blocks s c"
    by (auto simp: send_interval_def send_blocks_def)
  show "b \<in> send_blocks s c \<Longrightarrow> b \<le> last_send (send_leaves_of s c)"
    using send_chain_le_last [OF chain] by (auto simp: send_blocks_def)
qed

section \<open>The block hash chain\<close>

definition block_chain ::
  "(u32 list \<Rightarrow> u32 list) \<Rightarrow> Bytes32 \<Rightarrow> Block list \<Rightarrow> (BlockError, Bytes32) outcome" where
  "block_chain keccak h bs = try_fold (\<lambda>h b. Block_hash_with_prev_hash keccak b h) h bs"

fun chain_words :: "(u32 list \<Rightarrow> u32 list) \<Rightarrow> Bytes32 \<Rightarrow> Block list \<Rightarrow> u32 list set" where
  "chain_words keccak h [] = {}"
| "chain_words keccak h (b # bs) =
     insert (Block_words b h)
       (case Block_hash_with_prev_hash keccak b h of Ok h' \<Rightarrow> chain_words keccak h' bs | _ \<Rightarrow> {})"

lemma Block_words_inject:
  assumes "Block_valid b" "Block_valid b'" "Block_words b h = Block_words b' h'"
  shows "b = b' \<and> h = h'"
proof -
  have "length (Block_words b h) = length (Block_words b' h')" using assms(3) by simp
  then have len: "length (blk_key_ids b) = length (blk_key_ids b')" by (simp add: Block_words_def)
  then have "blk_num_users b = blk_num_users b'"
    using assms(1,2) by (simp add: Block_valid_def word_unat_eq_iff)
  moreover have "h = h' \<and> blk_channel_id b = blk_channel_id b' \<and>
      U64_from_u64 (blk_timestamp b) = U64_from_u64 (blk_timestamp b') \<and> blk_key_ids b = blk_key_ids b' \<and>
      blk_tx_tree_root b = blk_tx_tree_root b' \<and> blk_deposit_hash_chain b = blk_deposit_hash_chain b' \<and>
      blk_channel_reg_hash_chain b = blk_channel_reg_hash_chain b'"
    using assms(3) len by (simp add: Block_words_def bytes32.to_inj u64limb.to_inj)
  ultimately show ?thesis by (auto intro: Block.equality dest: arg_cong [of _ _ u64_from_U64])
qed

lemma block_hash_Ok:
  assumes "Block_hash_with_prev_hash keccak b h = Ok k"
  shows "keccak (Block_words b h) = Bytes32_to_u32_vec k"
  using assms by (auto simp: Block_hash_with_prev_hash_def bytes32.from_ok_iff split: if_splits)

lemma block_chain_inject:
  assumes "length bs = length bs'" "block_chain keccak h bs = Ok k" "block_chain keccak h' bs' = Ok k"
    and "list_all Block_valid bs" "list_all Block_valid bs'"
    and "inj_on keccak (chain_words keccak h bs \<union> chain_words keccak h' bs')"
  shows "h = h' \<and> bs = bs'"
  using assms
proof (induction bs bs' arbitrary: h h' rule: list_induct2)
  case Nil
  then show ?case by (simp add: block_chain_def)
next
  case (Cons b bs b' bs')
  then obtain k1 k1' where k1: "Block_hash_with_prev_hash keccak b h = Ok k1" "block_chain keccak k1 bs = Ok k"
    "Block_hash_with_prev_hash keccak b' h' = Ok k1'" "block_chain keccak k1' bs' = Ok k"
    by (auto simp: block_chain_def)
  have sub: "chain_words keccak h (b # bs) = insert (Block_words b h) (chain_words keccak k1 bs)"
    "chain_words keccak h' (b' # bs') = insert (Block_words b' h') (chain_words keccak k1' bs')"
    using k1 by simp_all
  have "inj_on keccak (chain_words keccak k1 bs \<union> chain_words keccak k1' bs')"
    using Cons.prems(5) unfolding sub by (rule inj_on_subset) blast
  with Cons.IH [OF k1(2,4)] Cons.prems(3,4) have same: "k1 = k1'" "bs = bs'" by auto
  have "keccak (Block_words b h) = keccak (Block_words b' h')"
    using block_hash_Ok [OF k1(1)] block_hash_Ok [OF k1(3)] same by simp
  from inj_onD [OF Cons.prems(5) [unfolded sub] this] have "Block_words b h = Block_words b' h'" by simp
  with Block_words_inject [of b b' h h'] Cons.prems(3,4) same show ?case by simp
qed

lemma public_reachable_chain:
  assumes "public_reachable P keccak s" "\<And>xs. length (keccak xs) = 8"
  shows "\<exists>bs. fp_blocks s = Block_default # bs \<and> list_all Block_valid bs \<and>
    block_chain keccak Bytes32_default bs = Ok (fp_block_hash_chain s) \<and>
    length bs = unat (as_u64 (fp_block_number s))"
  using assms(1)
proof induction
  case (init counts s)
  then show ?case by (auto simp: FullPublicState_new_def ChannelTree_init_def block_chain_def)
next
  case (step s s')
  then obtain bs where bs: "fp_blocks s = Block_default # bs" "list_all Block_valid bs"
    "block_chain keccak Bytes32_default bs = Ok (fp_block_hash_chain s)" "length bs = unat (as_u64 (fp_block_number s))"
    by blast
  have inv: "public_inv P s" using public_reachable_inv [of P keccak, OF step.hyps(1) assms(2)] .
  from step.hyps(2) show ?case
  proof cases
    case (block cid ks ts r)
    note bounds = add_block_Ok_bounds [of P s keccak, OF inv assms(2) block]
    from bounds(2) obtain n where "get_num_users (length ks) (fp_supported_user_counts s) = Some n" by blast
    from add_block_run [of P s keccak, OF inv assms(2) bounds(1) bounds(4) this bounds(3), of ts r] block bs
    show ?thesis by (auto simp: block_chain_def try_fold_append)
  next
    case (deposit a rc ti am aux)
    note bounds = add_deposit_Ok_bounds [OF inv deposit]
    from add_deposit_run [of P s keccak, OF inv assms(2) bounds, of a rc ti am aux] deposit bs
    show ?thesis by auto
  qed
qed

lemma Block_new_fields:
  "Block_new n cid ks ts r d g = Ok b \<Longrightarrow>
   b = \<lparr>blk_num_users = n, blk_channel_id = cid, blk_timestamp = ts, blk_key_ids = resize (unat n) 0 ks,
     blk_tx_tree_root = r, blk_deposit_hash_chain = d, blk_channel_reg_hash_chain = g\<rparr>"
  by (auto simp: Block_new_def split: if_splits)

text \<open>What one step does to the recorded history.\<close>

definition block_added ::
  "(u64 list \<Rightarrow> PoseidonHashOut) \<Rightarrow> (u32 list \<Rightarrow> u32 list) \<Rightarrow> FullPublicState \<Rightarrow> FullPublicState \<Rightarrow> bool" where
  "block_added P keccak s s' \<longleftrightarrow> (\<exists>cid ks ts r. add_block P keccak cid ks ts r s = (Ok (), s'))"

lemma public_step_history:
  assumes "public_step P keccak s s'" "public_inv P s" "\<And>xs. length (keccak xs) = 8"
  shows "(block_added P keccak s s' \<and>
      i_leaves (fp_public_state_tree s') = i_leaves (fp_public_state_tree s) @ [public_state_of P s] \<and>
      (\<exists>b. fp_blocks s' = fp_blocks s @ [b]) \<and> fp_deposits s' = fp_deposits s \<and>
      fp_deposit_hash_chain s' = fp_deposit_hash_chain s) \<or>
    (i_leaves (fp_public_state_tree s') = i_leaves (fp_public_state_tree s) \<and> fp_blocks s' = fp_blocks s \<and>
      (\<exists>d. fp_deposits s' = fp_deposits s @ [d] \<and> Deposit_hash_with_prev_hash keccak d (fp_deposit_hash_chain s) =
        (Ok (fp_deposit_hash_chain s') :: (FullPublicStateError, _) outcome)))"
  using assms(1)
proof cases
  case (block cid ks ts r)
  note bounds = add_block_Ok_bounds [of P s keccak, OF assms(2,3) block]
  from bounds(2) obtain n where "get_num_users (length ks) (fp_supported_user_counts s) = Some n" by blast
  from add_block_run [of P s keccak, OF assms(2,3) bounds(1) bounds(4) this bounds(3), of ts r] block
  show ?thesis unfolding block_added_def by auto
next
  case (deposit a rc ti am aux)
  note bounds = add_deposit_Ok_bounds [OF assms(2) deposit]
  from add_deposit_run [of P s keccak, OF assms(2,3) bounds, of a rc ti am aux] deposit
  show ?thesis by auto
qed

text \<open>Leaf \<open>i\<close> of the history tree is the public state in which block \<open>i + 1\<close> was added.\<close>

lemma history_leaf:
  assumes "public_reachable P keccak s" "\<And>xs. length (keccak xs) = 8" "i < length (i_leaves (fp_public_state_tree s))"
  shows "\<exists>s0 s1. public_reachable P keccak s0 \<and> block_added P keccak s0 s1 \<and> (public_step P keccak)\<^sup>*\<^sup>* s1 s \<and>
    i_leaves (fp_public_state_tree s) ! i = public_state_of P s0 \<and> fp_block_number s0 = U63 (of_nat i)"
  using assms(1,3)
proof induction
  case (init counts s)
  then show ?case by (auto simp: FullPublicState_new_def ChannelTree_init_def PublicStateTree_init_def Incremental_new_def)
next
  case (step s s')
  have inv: "public_inv P s" using public_reachable_inv [of P keccak, OF step.hyps(1) assms(2)] .
  then have bn: "fp_block_number s = U63 (of_nat (length (i_leaves (fp_public_state_tree s))))"
    by (cases "fp_block_number s") (auto simp: public_inv_def history_inv_def)
  note hist = public_step_history [of P keccak, OF step.hyps(2) inv assms(2)]
  show ?case
  proof (cases "i < length (i_leaves (fp_public_state_tree s))")
    case True
    from step.IH [OF this] obtain s0 s1 where s0: "public_reachable P keccak s0" "block_added P keccak s0 s1"
      "(public_step P keccak)\<^sup>*\<^sup>* s1 s" "i_leaves (fp_public_state_tree s) ! i = public_state_of P s0"
      "fp_block_number s0 = U63 (of_nat i)" by blast
    have "i_leaves (fp_public_state_tree s') ! i = i_leaves (fp_public_state_tree s) ! i"
      using hist True by (auto simp: nth_append)
    with s0 rtranclp.rtrancl_into_rtrancl [of "public_step P keccak" _ s s', OF _ step.hyps(2)] show ?thesis by metis
  next
    case False
    with hist step.prems have "block_added P keccak s s'" "i = length (i_leaves (fp_public_state_tree s))"
      "i_leaves (fp_public_state_tree s') ! i = public_state_of P s" by (auto simp: nth_append less_Suc_eq)
    with step.hyps(1) bn show ?thesis by blast
  qed
qed

lemma public_reachable_deposits:
  assumes "public_reachable P keccak s" "\<And>xs. length (keccak xs) = 8"
  shows "try_fold (\<lambda>h d. Deposit_hash_with_prev_hash keccak d h) Bytes32_default (fp_deposits s) =
    (Ok (fp_deposit_hash_chain s) :: (FullPublicStateError, _) outcome)"
  using assms(1)
proof induction
  case (init counts s)
  then show ?case by (auto simp: FullPublicState_new_def ChannelTree_init_def)
next
  case (step s s')
  from public_step_history [of P keccak, OF step.hyps(2) public_reachable_inv [of P keccak, OF step.hyps(1) assms(2)] assms(2)]
    step.IH show ?case by (auto simp: try_fold_append)
qed

section \<open>Properties\<close>

text \<open>
C10: \<open>add_block\<close> on a consistent state. Too many keys, or a zero channel identifier with an active key,
is an error that leaves the state as it was. Otherwise the block is added: the list of blocks gets exactly the
block \<open>Block::new\<close> makes of the smallest supported size, the arguments and the two hash chains of the state,
padded to that size and with its timestamp; the block hash chain absorbs it; the block number grows by one; the
previous public state is appended to the history tree; and the channel gets exactly one new send interval, from
its last send to the new block, if some key is active, whatever the number of active keys. Every other channel,
the members of every channel, the deposits and the two other hash chains stay as they were. The consistency
assertion on the channel leaf never fires and the result is consistent again.
\<close>

theorem add_block_spec:
  assumes inv: "public_inv P s" and keccak: "\<And>xs. length (keccak xs) = 8"
    and bn: "unat (as_u64 (fp_block_number s)) + 1 < 2 ^ 63"
    and room: "length (send_leaves_of s (ChannelId cid)) < 2 ^ SEND_TREE_HEIGHT"
  shows "case get_num_users (length ks) (fp_supported_user_counts s) of
      None \<Rightarrow> add_block P keccak cid ks ts r s = (Err (TooManyKeyIds (length ks)), s)
    | Some n \<Rightarrow>
        if list_ex (\<lambda>k. k \<noteq> 0) ks \<and> cid = 0
        then add_block P keccak cid ks ts r s = (Err (UserIdError InvalidChannelId), s)
        else \<exists>s' b. add_block P keccak cid ks ts r s = (Ok (), s') \<and> public_inv P s' \<and>
          fp_blocks s' = fp_blocks s @ [b] \<and> Block_valid b \<and>
          Block_new n cid ks ts r (fp_deposit_hash_chain s) (fp_channel_reg_hash_chain s) = Ok b \<and>
          b = \<lparr>blk_num_users = n, blk_channel_id = cid, blk_timestamp = ts, blk_key_ids = resize (unat n) 0 ks,
               blk_tx_tree_root = r, blk_deposit_hash_chain = fp_deposit_hash_chain s,
               blk_channel_reg_hash_chain = fp_channel_reg_hash_chain s\<rparr> \<and>
          Block_hash_with_prev_hash keccak b (fp_block_hash_chain s) = Ok (fp_block_hash_chain s') \<and>
          members_at P s' = members_at P s \<and> fp_deposit_hash_chain s' = fp_deposit_hash_chain s \<and>
          fp_channel_reg_hash_chain s' = fp_channel_reg_hash_chain s \<and>
          unat (as_u64 (fp_block_number s')) = unat (as_u64 (fp_block_number s)) + 1 \<and>
          i_leaves (fp_public_state_tree s') = i_leaves (fp_public_state_tree s) @ [public_state_of P s] \<and>
          fp_deposits s' = fp_deposits s \<and>
          (\<forall>d. send_leaves_of s' d = send_leaves_of s d @
             (if d = ChannelId cid \<and> list_ex (\<lambda>k. k \<noteq> 0) ks
              then [\<lparr>sl_prev = last_send (send_leaves_of s d), sl_cur = fp_block_number s', sl_tx_tree_root = r\<rparr>]
              else []))"
proof (cases "get_num_users (length ks) (fp_supported_user_counts s)")
  case None
  then show ?thesis by (simp add: add_block_def add_block_with_channel_def)
next
  case (Some n)
  show ?thesis
  proof (cases "list_ex (\<lambda>k. k \<noteq> 0) ks \<and> cid = 0")
    case True
    have "\<not> n < of_nat (length ks)" using get_num_users_fits [OF Some] by simp
    moreover have "ChannelId_new 0 = Err InvalidChannelId"
      by (simp add: ChannelId_new_def validate_components_def)
    ultimately show ?thesis
      using True next_block_number [OF bn]
      by (auto simp: Some add_block_def add_block_with_channel_def Block_new_with_channel_def Block_new_def Let_def)
  next
    case False
    show ?thesis
      unfolding Some option.case if_not_P [OF False]
      using add_block_run [of P s keccak, OF inv keccak bn room Some False] by (fastforce dest: Block_new_fields)
  qed
qed

text \<open>A first block of channel 7 on the empty state, for the witnesses.\<close>

lemma first_block:
  "\<exists>s s'. FullPublicState_new (\<lambda>_. PoseidonHashOut_default) [2] = (Ok s :: (unit, _) outcome) \<and>
     public_inv (\<lambda>_. PoseidonHashOut_default) s \<and> fp_block_number s = U63 0 \<and> fp_supported_user_counts s = [2] \<and>
     (\<forall>c. send_leaves_of s c = []) \<and>
     add_block (\<lambda>_. PoseidonHashOut_default) (\<lambda>_. replicate 8 0) 7 [10, 11] 5 Bytes32_default s = (Ok (), s') \<and> length (fp_blocks s') = 2"
proof -
  obtain s where s: "FullPublicState_new (\<lambda>_. PoseidonHashOut_default) [2] = (Ok s :: (unit, _) outcome)"
    by (auto simp: FullPublicState_new_def ChannelTree_init_def)
  have inv: "public_inv (\<lambda>_. PoseidonHashOut_default) s" by (rule FullPublicState_new_inv [OF s])
  have s0: "fp_block_number s = U63 0" "fp_supported_user_counts s = [2]" "send_leaves_of s c = []" "fp_blocks s = [Block_default]" for c
    using s by (auto simp: FullPublicState_new_def ChannelTree_init_def send_leaves_of_def)
  from add_block_run [of _ s "\<lambda>_. replicate 8 0" "[10, 11]" 7 2, OF inv] s s0 inv show ?thesis
    by (fastforce simp: public_heights get_num_users_def)
qed

lemma second_state:
  "\<exists>s. public_reachable (\<lambda>_. PoseidonHashOut_default) (\<lambda>_. replicate 8 0) s \<and> length (fp_blocks s) = 2"
  using first_block public_reachable.init public_reachable.step public_step.block by metis

theorem add_block_spec_witness:
  "\<exists>s s'. FullPublicState_new (\<lambda>_. PoseidonHashOut_default) [2] = (Ok s :: (unit, _) outcome) \<and>
     add_block (\<lambda>_. PoseidonHashOut_default) (\<lambda>_. replicate 8 0) 7 [10, 11] 5 Bytes32_default s = (Ok (), s') \<and>
     map sl_prev (send_leaves_of s' (ChannelId 7)) = [U63 0] \<and> length (fp_deposits s') = length (fp_deposits s)"
proof -
  from first_block obtain s s' where s: "FullPublicState_new (\<lambda>_. PoseidonHashOut_default) [2] = (Ok s :: (unit, _) outcome)"
    "public_inv (\<lambda>_. PoseidonHashOut_default) s" "fp_block_number s = U63 0" "fp_supported_user_counts s = [2]"
    "\<And>c. send_leaves_of s c = []"
    "add_block (\<lambda>_. PoseidonHashOut_default) (\<lambda>_. replicate 8 0) 7 [10, 11] 5 Bytes32_default s = (Ok (), s')" by blast
  with add_block_spec [of _ s "\<lambda>_. replicate 8 0" 7 "[10, 11]" 5 Bytes32_default, OF s(2)] show ?thesis
    by (auto simp: public_heights get_num_users_def last_send_def)
qed

text \<open>
C9: in every state reachable from \<open>new\<close> by blocks and deposits, the public state commits to the
history. The list of blocks is the default block followed by one well-formed block per block number, and the block
hash chain is theirs. A channel's leaf summarises its send intervals (their number, the last block, their root),
which are consecutive and end by the current block. The history tree has one leaf per block, and leaf \<open>i\<close> is
the whole public state, roots included, of the reachable state with number \<open>i\<close> in which block \<open>i + 1\<close>
was added on the way to this one. The deposit tree holds the recorded deposits in order, deposit \<open>i\<close> carries index
\<open>i\<close>, and the deposit hash chain is theirs.
\<close>

theorem reachable_history:
  assumes "public_reachable P keccak s" and "\<And>xs. length (keccak xs) = 8"
  shows "to_public_state s = (Ok (public_state_of P s) :: ('e, _) outcome) \<and>
    (\<exists>bs. fp_blocks s = Block_default # bs \<and> list_all Block_valid bs \<and> length bs = unat (as_u64 (fp_block_number s)) \<and>
       block_chain keccak Bytes32_default bs = Ok (fp_block_hash_chain s)) \<and>
    channel_leaf_at P s c = channel_summary P (send_leaves_of s c) (cl_member_pubkeys_root (channel_leaf_at P s c)) \<and>
    send_chain (U63 0) (send_leaves_of s c) \<and> last_send (send_leaves_of s c) \<le> fp_block_number s \<and>
    length (i_leaves (fp_public_state_tree s)) = unat (as_u64 (fp_block_number s)) \<and>
    (\<forall>i < unat (as_u64 (fp_block_number s)). \<exists>s0 s1. public_reachable P keccak s0 \<and> block_added P keccak s0 s1 \<and>
       (public_step P keccak)\<^sup>*\<^sup>* s1 s \<and> fp_block_number s0 = U63 (of_nat i) \<and>
       i_leaves (fp_public_state_tree s) ! i = public_state_of P s0) \<and>
    i_leaves (fp_deposit_tree s) = fp_deposits s \<and>
    map dep_deposit_index (fp_deposits s) = map (\<lambda>i. U63 (of_nat i)) [0..<length (fp_deposits s)] \<and>
    try_fold (\<lambda>h d. Deposit_hash_with_prev_hash keccak d h) Bytes32_default (fp_deposits s) =
      (Ok (fp_deposit_hash_chain s) :: (FullPublicStateError, _) outcome)"
proof -
  have inv: "public_inv P s" using public_reachable_inv [of P keccak, OF assms] .
  then have "channel_ok P s c" "history_inv P s" "deposits_inv P s" by (simp_all add: public_inv_def channels_inv_def)
  then show ?thesis
    using to_public_state_inv [OF inv] public_reachable_chain [of P keccak, OF assms] history_leaf [of P keccak, OF assms]
      public_reachable_deposits [of P keccak, OF assms]
    unfolding channel_ok_def history_inv_def deposits_inv_def by metis
qed

theorem reachable_history_witness:
  "\<exists>s. public_reachable (\<lambda>_. PoseidonHashOut_default) (\<lambda>_. replicate 8 0) s \<and> length (fp_blocks s) = 2 \<and>
     send_chain (U63 0) (send_leaves_of s (ChannelId 7))"
proof -
  from second_state obtain s where s: "public_reachable (\<lambda>_. PoseidonHashOut_default) (\<lambda>_. replicate 8 0) s"
    "length (fp_blocks s) = 2" by blast
  from reachable_history [of "\<lambda>_. PoseidonHashOut_default" "\<lambda>_. replicate 8 0" s "ChannelId 7", OF s(1)] s
  show ?thesis by auto
qed

text \<open>
C11: the block hash chain identifies the block history. Two reachable states with the same block
number and the same hash chain have recorded the same blocks, unless \<open>keccak\<close> collides on two of the
headers hashed in their histories.
\<close>

theorem block_chain_binding:
  assumes "public_reachable P keccak s" and "public_reachable P keccak s'" and "\<And>xs. length (keccak xs) = 8"
    and "fp_block_number s = fp_block_number s'" and "fp_block_hash_chain s = fp_block_hash_chain s'"
    and "inj_on keccak (chain_words keccak Bytes32_default (tl (fp_blocks s)) \<union>
                        chain_words keccak Bytes32_default (tl (fp_blocks s')))"
  shows "fp_blocks s = fp_blocks s'"
proof -
  from public_reachable_chain [of P keccak, OF assms(1,3)] public_reachable_chain [of P keccak, OF assms(2,3)]
  obtain bs bs' where "fp_blocks s = Block_default # bs" "list_all Block_valid bs"
      "block_chain keccak Bytes32_default bs = Ok (fp_block_hash_chain s)" "length bs = unat (as_u64 (fp_block_number s))"
      "fp_blocks s' = Block_default # bs'" "list_all Block_valid bs'"
      "block_chain keccak Bytes32_default bs' = Ok (fp_block_hash_chain s')" "length bs' = unat (as_u64 (fp_block_number s'))"
    by blast
  with block_chain_inject [of bs bs' keccak Bytes32_default "fp_block_hash_chain s" Bytes32_default] assms(4,5,6)
  show ?thesis by simp
qed

theorem block_chain_binding_witness:
  "\<exists>s s'. public_reachable (\<lambda>_. PoseidonHashOut_default) (\<lambda>_. replicate 8 0) s \<and>
     public_reachable (\<lambda>_. PoseidonHashOut_default) (\<lambda>_. replicate 8 0) s' \<and>
     length (fp_blocks s) = 2 \<and> fp_blocks s = fp_blocks s'"
proof -
  from second_state obtain s where s: "public_reachable (\<lambda>_. PoseidonHashOut_default) (\<lambda>_. replicate 8 0) s"
    "length (fp_blocks s) = 2" by blast
  from s(2) obtain b b' where b: "fp_blocks s = [b, b']" by (auto simp: length_Suc_conv numeral_2_eq_2)
  have "chain_words (\<lambda>_. replicate 8 0) Bytes32_default (tl (fp_blocks s)) = {Block_words b' Bytes32_default}"
    by (simp add: b split: outcome.splits)
  with block_chain_binding [of "\<lambda>_. PoseidonHashOut_default" "\<lambda>_. replicate 8 0" s s, OF s(1) s(1)] s
  show ?thesis by auto
qed

end
