(* ===== verification/Balance_Common.thy ===== *)
theory Balance_Common
  imports Spend Block_State
begin

text \<open>
  The shared parts of the balance circuits, of \<open>src/src/circuits/balance/common\<close> and
  \<open>src/src/circuits/balance/balance_pis.rs\<close>: recipients, the receive window, the account state, the
  public-state update, the settlement of a transaction, the transfer and deposit witnesses, and the
  public inputs of a balance proof, in their native form. A proof is its public inputs together with
  opaque data, and the verifier of a circuit is a parameter. Formatted error payloads are dropped.
\<close>

section \<open>Recipients\<close>

abbreviation USER_ID_DOMAIN :: u64 where
  "USER_ID_DOMAIN \<equiv> 0x55494400"

abbreviation USER_ID_TAG :: u8 where
  "USER_ID_TAG \<equiv> 1"

abbreviation ADDRESS_TAG :: u8 where
  "ADDRESS_TAG \<equiv> 2"

datatype RecipientError = InvalidRecipient

definition calculate_recipient_from_user_id ::
  "(u64 list \<Rightarrow> PoseidonHashOut) \<Rightarrow> ChannelId \<Rightarrow> Salt \<Rightarrow> ('e, Bytes32) outcome" where
  "calculate_recipient_from_user_id poseidon channel_id salt =
     (let inputs = [USER_ID_DOMAIN, ChannelId_as_u64 channel_id] @ Salt_to_u64_vec salt in
      and_then (Bytes32_from_hash_out (hash_inputs_u64 poseidon inputs)) (\<lambda>hash.
        let hash_bits = (to_bytes_be Bytes32_to_u32_vec hash)[0 := USER_ID_TAG]
        in unwrap (from_bytes_be 8 Bytes32_from_u32_slice hash_bits)))"

definition calculate_recipient_from_address :: "Address \<Rightarrow> ('e, Bytes32) outcome" where
  "calculate_recipient_from_address address =
     (let limbs = take 3 (replicate 8 0) @ Address_to_u32_vec address in
      and_then (unwrap (Bytes32_from_u32_slice limbs)) (\<lambda>padded_address.
        let bytes = (to_bytes_be Bytes32_to_u32_vec padded_address)[0 := ADDRESS_TAG]
        in unwrap (from_bytes_be 8 Bytes32_from_u32_slice bytes)))"

definition extract_address_from_recipient :: "Bytes32 \<Rightarrow> (RecipientError, Address) outcome" where
  "extract_address_from_recipient recipient =
     (let bytes = to_bytes_be Bytes32_to_u32_vec recipient in
      if bytes ! 0 \<noteq> ADDRESS_TAG then Err InvalidRecipient
      else and_then (unwrap (from_bytes_be 5 Address_from_u32_slice (subslice 12 32 bytes))) (\<lambda>address.
        and_then (calculate_recipient_from_address address) (\<lambda>canonical.
          if recipient \<noteq> canonical then Err InvalidRecipient else Ok address)))"

section \<open>Receive window\<close>

text \<open>\<open>tail\<close> is the compile-time feature \<open>authenticated-tail-receive\<close>.\<close>

definition requires_send_interval :: "bool \<Rightarrow> BlockNumber \<Rightarrow> BlockNumber \<Rightarrow> bool" where
  "requires_send_interval tail last_block previous =
     (if tail then last_block > previous else last_block \<noteq> U63 0)"

section \<open>Account state\<close>

datatype AccountStateError = InvalidSendMerkleProof | InvalidUserMerkleProof

record AccountState =
  as_channel_id :: ChannelId
  as_account_tree_root :: PoseidonHashOut
  as_send_leaf :: SendLeaf
  as_send_leaf_index :: u32
  as_send_merkle_proof :: "PoseidonHashOut MerkleProof"
  as_channel_leaf :: ChannelLeaf
  as_user_merkle_proof :: "PoseidonHashOut MerkleProof"

definition AccountState_verify ::
  "(u64 list \<Rightarrow> PoseidonHashOut) \<Rightarrow> AccountState \<Rightarrow> (AccountStateError, unit) outcome" where
  "AccountState_verify poseidon a =
     and_then (map_err (\<lambda>_. InvalidSendMerkleProof)
       (MerkleProof_verify (two_to_one poseidon) (SendLeaf_hash poseidon) (as_send_merkle_proof a)
          (as_send_leaf a) (ucast (as_send_leaf_index a)) (cl_send_tree_root (as_channel_leaf a)))) (\<lambda>_.
     map_err (\<lambda>_. InvalidUserMerkleProof)
       (MerkleProof_verify (two_to_one poseidon) (ChannelLeaf_hash poseidon) (as_user_merkle_proof a)
          (as_channel_leaf a) (ChannelId_as_u64 (as_channel_id a)) (as_account_tree_root a)))"

definition AccountState_new ::
  "(u64 list \<Rightarrow> PoseidonHashOut) \<Rightarrow> ChannelId \<Rightarrow> PoseidonHashOut \<Rightarrow> SendLeaf \<Rightarrow> u32 \<Rightarrow> PoseidonHashOut MerkleProof
     \<Rightarrow> ChannelLeaf \<Rightarrow> PoseidonHashOut MerkleProof \<Rightarrow> (AccountStateError, AccountState) outcome" where
  "AccountState_new poseidon channel_id account_tree_root send_leaf send_leaf_index send_merkle_proof channel_leaf
     user_merkle_proof =
     (let state = \<lparr>as_channel_id = channel_id, as_account_tree_root = account_tree_root, as_send_leaf = send_leaf,
        as_send_leaf_index = send_leaf_index, as_send_merkle_proof = send_merkle_proof,
        as_channel_leaf = channel_leaf, as_user_merkle_proof = user_merkle_proof\<rparr>
      in and_then (AccountState_verify poseidon state) (\<lambda>_. Ok state))"

section \<open>Public-state update\<close>

datatype UpdatePublicStateError = UPub_InvalidMerkleProof

record UpdatePublicState =
  up_new :: PublicState
  up_old :: PublicState
  up_merkle_proof :: "PoseidonHashOut MerkleProof"

definition MerkleProof_dummy :: "nat \<Rightarrow> PoseidonHashOut MerkleProof" where
  "MerkleProof_dummy ht = replicate ht PoseidonHashOut_default"

definition UpdatePublicState_new ::
  "(u64 list \<Rightarrow> PoseidonHashOut) \<Rightarrow> PublicState \<Rightarrow> PublicState \<Rightarrow> PoseidonHashOut MerkleProof option
     \<Rightarrow> (UpdatePublicStateError, UpdatePublicState) outcome" where
  "UpdatePublicState_new poseidon new old merkle_proof =
     (if new = old
      then Ok \<lparr>up_new = new, up_old = old, up_merkle_proof = MerkleProof_dummy PUBLIC_STATE_TREE_HEIGHT\<rparr>
      else and_then (ok_or UPub_InvalidMerkleProof merkle_proof) (\<lambda>merkle_proof.
        and_then (MerkleProof_get_root (two_to_one poseidon) (PublicState_poseidon_hash poseidon) merkle_proof old
            (as_u64 (pst_block_number old))) (\<lambda>calculated.
          if calculated \<noteq> pst_prev_public_state_root new then Err UPub_InvalidMerkleProof
          else Ok \<lparr>up_new = new, up_old = old, up_merkle_proof = merkle_proof\<rparr>)))"

definition UpdatePublicState_verify ::
  "(u64 list \<Rightarrow> PoseidonHashOut) \<Rightarrow> UpdatePublicState \<Rightarrow> (UpdatePublicStateError, unit) outcome" where
  "UpdatePublicState_verify poseidon u =
     (if up_new u = up_old u then Ok ()
      else and_then (MerkleProof_get_root (two_to_one poseidon) (PublicState_poseidon_hash poseidon)
          (up_merkle_proof u) (up_old u) (as_u64 (pst_block_number (up_old u)))) (\<lambda>calculated.
        if calculated \<noteq> pst_prev_public_state_root (up_new u) then Err UPub_InvalidMerkleProof else Ok ()))"

section \<open>Proofs and transaction settlement\<close>

text \<open>A proof with its public inputs, given by their canonical representatives.\<close>

record 'p ProofWithPublicInputs =
  pr_proof :: 'p
  pr_public_inputs :: "u64 list"

datatype TxSettlementError =
    TS_InvalidSpendProof
  | TS_InvalidTxMerkleProof
  | TS_InvalidTxV2MerkleProof
  | TS_InvalidAccountState AccountStateError
  | TS_InvalidUserId
  | TS_InvalidPublicState
  | TS_InconsistentWitness

record 'p TxSettlement =
  ts_channel_id :: ChannelId
  ts_tx :: Tx
  ts_public_state :: PublicState
  ts_account_state :: AccountState
  ts_tx_merkle_proof :: "PoseidonHashOut MerkleProof"
  ts_tx_v2_merkle_proof :: "PoseidonHashOut MerkleProof option"
  ts_tx_v2 :: "TxV2 option"
  ts_spend_proof :: "'p ProofWithPublicInputs"

definition verify_tx_v2 ::
  "(u64 list \<Rightarrow> PoseidonHashOut) \<Rightarrow> ChannelId \<Rightarrow> Tx \<Rightarrow> PoseidonHashOut \<Rightarrow> TxV2 \<Rightarrow> PoseidonHashOut MerkleProof
     \<Rightarrow> (TxSettlementError, unit) outcome" where
  "verify_tx_v2 poseidon channel_id tx tx_tree_root tx_v2 tx_v2_merkle_proof =
     and_then (map_err (\<lambda>_. TS_InvalidTxV2MerkleProof)
       (MerkleProof_verify (two_to_one poseidon) (TxV2_hash poseidon) tx_v2_merkle_proof tx_v2
          (ChannelId_as_u64 channel_id) tx_tree_root)) (\<lambda>_.
     if v2_tx_class tx_v2 \<noteq> UserTransfer then Err TS_InconsistentWitness
     else if v2_channel_action_root tx_v2 \<noteq> PoseidonHashOut_default then Err TS_InconsistentWitness
     else if v2_transfer_tree_root tx_v2 \<noteq> tx_transfer_tree_root tx then Err TS_InconsistentWitness
     else if v2_nonce tx_v2 \<noteq> tx_nonce tx then Err TS_InconsistentWitness
     else Ok ())"

definition new_with_optional_tx_v2 ::
  "(u64 list \<Rightarrow> PoseidonHashOut) \<Rightarrow> ('p ProofWithPublicInputs \<Rightarrow> bool) \<Rightarrow> ChannelId \<Rightarrow> Tx \<Rightarrow> PublicState \<Rightarrow> AccountState
     \<Rightarrow> PoseidonHashOut MerkleProof \<Rightarrow> PoseidonHashOut MerkleProof option \<Rightarrow> TxV2 option \<Rightarrow> 'p ProofWithPublicInputs
     \<Rightarrow> (TxSettlementError, 'p TxSettlement) outcome" where
  "new_with_optional_tx_v2 poseidon spend_verify channel_id tx public_state account_state tx_merkle_proof
     tx_v2_merkle_proof tx_v2 spend_proof =
     (if \<not> spend_verify spend_proof then Err TS_InvalidSpendProof
      else
        and_then (map_err TS_InvalidAccountState (AccountState_verify poseidon account_state)) (\<lambda>_.
        if as_channel_id account_state \<noteq> channel_id then Err TS_InvalidUserId
        else if as_account_tree_root account_state \<noteq> pst_account_tree_root public_state
        then Err TS_InvalidPublicState
        else
          let tx_tree_root = reduce_to_hash_out (sl_tx_tree_root (as_send_leaf account_state)) in
          and_then (case (tx_v2, tx_v2_merkle_proof) of
              (Some v2, Some p) \<Rightarrow> verify_tx_v2 poseidon channel_id tx tx_tree_root v2 p
            | (None, None) \<Rightarrow>
                map_err (\<lambda>_. TS_InvalidTxMerkleProof)
                  (MerkleProof_verify (two_to_one poseidon) (Tx_hash poseidon) tx_merkle_proof tx
                     (ChannelId_as_u64 channel_id) tx_tree_root)
            | _ \<Rightarrow> Err TS_InconsistentWitness) (\<lambda>_.
          and_then (map_err (\<lambda>_. TS_InvalidSpendProof)
              (SpendPublicInputs_from_pis_u64 (pr_public_inputs spend_proof))) (\<lambda>spend_pis.
          if spi_tx spend_pis \<noteq> tx then Err TS_InvalidSpendProof
          else Ok \<lparr>ts_channel_id = channel_id, ts_tx = tx, ts_public_state = public_state,
                   ts_account_state = account_state, ts_tx_merkle_proof = tx_merkle_proof,
                   ts_tx_v2_merkle_proof = tx_v2_merkle_proof, ts_tx_v2 = tx_v2, ts_spend_proof = spend_proof\<rparr>))))"

definition TxSettlement_new ::
  "(u64 list \<Rightarrow> PoseidonHashOut) \<Rightarrow> ('p ProofWithPublicInputs \<Rightarrow> bool) \<Rightarrow> ChannelId \<Rightarrow> Tx \<Rightarrow> PublicState \<Rightarrow> AccountState
     \<Rightarrow> PoseidonHashOut MerkleProof \<Rightarrow> 'p ProofWithPublicInputs \<Rightarrow> (TxSettlementError, 'p TxSettlement) outcome" where
  "TxSettlement_new poseidon spend_verify channel_id tx public_state account_state tx_merkle_proof spend_proof =
     new_with_optional_tx_v2 poseidon spend_verify channel_id tx public_state account_state tx_merkle_proof
       None None spend_proof"

definition TxSettlement_new_with_tx_v2 ::
  "(u64 list \<Rightarrow> PoseidonHashOut) \<Rightarrow> ('p ProofWithPublicInputs \<Rightarrow> bool) \<Rightarrow> ChannelId \<Rightarrow> Tx \<Rightarrow> PublicState \<Rightarrow> AccountState
     \<Rightarrow> PoseidonHashOut MerkleProof \<Rightarrow> PoseidonHashOut MerkleProof \<Rightarrow> TxV2 \<Rightarrow> 'p ProofWithPublicInputs
     \<Rightarrow> (TxSettlementError, 'p TxSettlement) outcome" where
  "TxSettlement_new_with_tx_v2 poseidon spend_verify channel_id tx public_state account_state tx_merkle_proof
     tx_v2_merkle_proof tx_v2 spend_proof =
     new_with_optional_tx_v2 poseidon spend_verify channel_id tx public_state account_state tx_merkle_proof
       (Some tx_v2_merkle_proof) (Some tx_v2) spend_proof"

definition tx_block_number :: "'p TxSettlement \<Rightarrow> BlockNumber" where
  "tx_block_number t = sl_cur (as_send_leaf (ts_account_state t))"

definition send_block_number_before_tx :: "'p TxSettlement \<Rightarrow> BlockNumber" where
  "send_block_number_before_tx t = sl_prev (as_send_leaf (ts_account_state t))"

definition TxSettlement_spend_pis :: "'p TxSettlement \<Rightarrow> (TxSettlementError, SpendPublicInputs) outcome" where
  "TxSettlement_spend_pis t =
     map_err (\<lambda>_. TS_InvalidSpendProof) (SpendPublicInputs_from_pis_u64 (pr_public_inputs (ts_spend_proof t)))"

section \<open>Transfer and deposit witnesses\<close>

datatype TransferWitnessError = InvalidTransferMerkleProof

record TransferWitness =
  tw_transfer_tree_root :: PoseidonHashOut
  tw_transfer :: Transfer
  tw_transfer_index :: u32
  tw_transfer_merkle_proof :: "PoseidonHashOut MerkleProof"

definition TransferWitness_verify ::
  "(u64 list \<Rightarrow> PoseidonHashOut) \<Rightarrow> TransferWitness \<Rightarrow> (TransferWitnessError, unit) outcome" where
  "TransferWitness_verify poseidon w =
     map_err (\<lambda>_. InvalidTransferMerkleProof)
       (MerkleProof_verify (two_to_one poseidon) (Transfer_poseidon_hash poseidon) (tw_transfer_merkle_proof w)
          (tw_transfer w) (ucast (tw_transfer_index w)) (tw_transfer_tree_root w))"

definition TransferWitness_new ::
  "(u64 list \<Rightarrow> PoseidonHashOut) \<Rightarrow> PoseidonHashOut \<Rightarrow> Transfer \<Rightarrow> u32 \<Rightarrow> PoseidonHashOut MerkleProof
     \<Rightarrow> (TransferWitnessError, TransferWitness) outcome" where
  "TransferWitness_new poseidon transfer_tree_root transfer transfer_index transfer_merkle_proof =
     (let witness = \<lparr>tw_transfer_tree_root = transfer_tree_root, tw_transfer = transfer,
        tw_transfer_index = transfer_index, tw_transfer_merkle_proof = transfer_merkle_proof\<rparr>
      in and_then (TransferWitness_verify poseidon witness) (\<lambda>_. Ok witness))"

datatype DepositWitnessError = InvalidDepositIndex | InvalidDepositMerkleProof | DW_InvalidRecipient

record DepositWitness =
  dw_channel_id :: ChannelId
  dw_deposit_tree_root :: PoseidonHashOut
  dw_deposit_salt :: Salt
  dw_deposit :: Deposit
  dw_deposit_merkle_proof :: "PoseidonHashOut MerkleProof"

definition DepositWitness_verify ::
  "(u64 list \<Rightarrow> PoseidonHashOut) \<Rightarrow> DepositWitness \<Rightarrow> (DepositWitnessError, unit) outcome" where
  "DepositWitness_verify poseidon w =
     (let deposit_index = as_u64 (dep_deposit_index (dw_deposit w)) in
      if deposit_index \<ge> push_bit DEPOSIT_TREE_HEIGHT 1 then Err InvalidDepositIndex
      else
        and_then (map_err (\<lambda>_. InvalidDepositMerkleProof)
          (MerkleProof_verify (two_to_one poseidon) (Deposit_poseidon_hash poseidon) (dw_deposit_merkle_proof w)
             (dw_deposit w) deposit_index (dw_deposit_tree_root w))) (\<lambda>_.
        and_then (calculate_recipient_from_user_id poseidon (dw_channel_id w) (dw_deposit_salt w))
          (\<lambda>expected_recipient.
          if dep_recipient (dw_deposit w) \<noteq> expected_recipient then Err DW_InvalidRecipient else Ok ())))"

definition DepositWitness_new ::
  "(u64 list \<Rightarrow> PoseidonHashOut) \<Rightarrow> ChannelId \<Rightarrow> PoseidonHashOut \<Rightarrow> Salt \<Rightarrow> Deposit \<Rightarrow> PoseidonHashOut MerkleProof
     \<Rightarrow> (DepositWitnessError, DepositWitness) outcome" where
  "DepositWitness_new poseidon channel_id deposit_tree_root deposit_salt deposit deposit_merkle_proof =
     (let witness = \<lparr>dw_channel_id = channel_id, dw_deposit_tree_root = deposit_tree_root,
        dw_deposit_salt = deposit_salt, dw_deposit = deposit, dw_deposit_merkle_proof = deposit_merkle_proof\<rparr>
      in and_then (DepositWitness_verify poseidon witness) (\<lambda>_. Ok witness))"

section \<open>Balance public inputs\<close>

definition BALANCE_PUBLIC_INPUTS_LEN :: nat where
  "BALANCE_PUBLIC_INPUTS_LEN = 1 + PUBLIC_STATE_U64_LEN + 1 + 4 + 8"

datatype BalancePublicInputsError = BP_InvalidLength | BP_ParseError string

record BalancePublicInputs =
  bp_channel_id :: ChannelId
  bp_public_state :: PublicState
  bp_block_r :: BlockNumber
  bp_private_commitment :: PoseidonHashOut
  bp_settled_tx_chain :: Bytes32

definition BalancePublicInputs_new ::
  "(u64 list \<Rightarrow> PoseidonHashOut) \<Rightarrow> ChannelId \<Rightarrow> Salt \<Rightarrow> ('e, BalancePublicInputs) outcome" where
  "BalancePublicInputs_new poseidon channel_id salt =
     and_then (PublicState_default poseidon) (\<lambda>public_state.
     and_then (PrivateState_new poseidon salt) (\<lambda>private_state.
       Ok \<lparr>bp_channel_id = channel_id, bp_public_state = public_state, bp_block_r = U63 0,
           bp_private_commitment = PrivateState_commitment poseidon private_state,
           bp_settled_tx_chain = Bytes32_default\<rparr>))"

definition BalancePublicInputs_to_u64_vec :: "BalancePublicInputs \<Rightarrow> u64 list" where
  "BalancePublicInputs_to_u64_vec p =
     [ChannelId_as_u64 (bp_channel_id p)] @ PublicState_to_u64_vec (bp_public_state p) @
     U63_to_u64_vec (bp_block_r p) @ hash_elements (bp_private_commitment p) @
     to_u64_vec Bytes32_to_u32_vec (bp_settled_tx_chain p)"

definition BalancePublicInputs_from_u64 :: "u64 list \<Rightarrow> (BalancePublicInputsError, BalancePublicInputs) outcome" where
  "BalancePublicInputs_from_u64 pis =
     (if length pis \<noteq> BALANCE_PUBLIC_INPUTS_LEN then Err BP_InvalidLength
      else
        and_then (map_err (\<lambda>_. BP_ParseError ''channel_id'') (ChannelId_new (pis ! 0))) (\<lambda>channel_id.
        and_then (map_err (\<lambda>_. BP_ParseError ''public_state'')
            (PublicState_from_u64_slice (subslice 1 16 pis))) (\<lambda>public_state.
        and_then (map_err (\<lambda>_. BP_ParseError ''block_r'') (U63_new (pis ! 16))) (\<lambda>block_r.
        and_then (unwrap (PoseidonHashOut_from_u64_slice (subslice 17 21 pis))) (\<lambda>private_commitment.
        and_then (map_err (\<lambda>_. BP_ParseError ''settled_tx_chain'')
            (from_u64_slice Bytes32_from_u32_slice (subslice 21 29 pis))) (\<lambda>settled_tx_chain.
          Ok \<lparr>bp_channel_id = channel_id, bp_public_state = public_state, bp_block_r = block_r,
              bp_private_commitment = private_commitment, bp_settled_tx_chain = settled_tx_chain\<rparr>))))))"

text \<open>
  Verifier data (\<open>src/src/utils/cyclic.rs\<close>): a digest and the cap of a Merkle tree, whose number of
  elements \<open>cap_len\<close> is fixed by the circuit configuration.
\<close>

record VerifierOnlyCircuitData =
  vd_circuit_digest :: PoseidonHashOut
  vd_constants_sigmas_cap :: "PoseidonHashOut list"

definition vd_vec_len :: "nat \<Rightarrow> nat" where
  "vd_vec_len cap_len = 4 + 4 * cap_len"

definition vd_to_vec :: "nat \<Rightarrow> VerifierOnlyCircuitData \<Rightarrow> ('e, u64 list) outcome" where
  "vd_to_vec cap_len vd =
     (if length (vd_constants_sigmas_cap vd) < cap_len then Panic
      else Ok (hash_elements (vd_circuit_digest vd) @
               concat (map (\<lambda>i. hash_elements (vd_constants_sigmas_cap vd ! i)) [0..<cap_len])))"

datatype CyclicError = NotEnoughPublicInputs

definition vd_from_pis_slice :: "nat \<Rightarrow> u64 list \<Rightarrow> (CyclicError, VerifierOnlyCircuitData) outcome" where
  "vd_from_pis_slice cap_len pis =
     (let len = length pis in
      if len < 4 + 4 * cap_len then Err NotEnoughPublicInputs
      else Ok
        \<lparr>vd_circuit_digest = hash_out_of_list (map (\<lambda>i. pis ! (len - 4 - 4 * cap_len + i)) [0..<4]),
         vd_constants_sigmas_cap =
           map (\<lambda>i. hash_out_of_list (map (\<lambda>j. pis ! (len - 4 * (cap_len - i) + j)) [0..<4])) [0..<cap_len]\<rparr>)"

record BalanceFullPublicInputs =
  fpi_pis :: BalancePublicInputs
  fpi_vd :: VerifierOnlyCircuitData

definition BalanceFullPublicInputs_to_u64_vec :: "nat \<Rightarrow> BalanceFullPublicInputs \<Rightarrow> ('e, u64 list) outcome" where
  "BalanceFullPublicInputs_to_u64_vec cap_len f =
     and_then (vd_to_vec cap_len (fpi_vd f)) (\<lambda>vd. Ok (BalancePublicInputs_to_u64_vec (fpi_pis f) @ vd))"

definition BalanceFullPublicInputs_commitment ::
  "(u64 list \<Rightarrow> PoseidonHashOut) \<Rightarrow> nat \<Rightarrow> BalanceFullPublicInputs \<Rightarrow> ('e, PoseidonHashOut) outcome" where
  "BalanceFullPublicInputs_commitment poseidon cap_len f =
     and_then (BalanceFullPublicInputs_to_u64_vec cap_len f) (\<lambda>inputs. Ok (hash_inputs_u64 poseidon inputs))"

definition BalanceFullPublicInputs_from_u64_slice ::
  "nat \<Rightarrow> u64 list \<Rightarrow> (BalancePublicInputsError, BalanceFullPublicInputs) outcome" where
  "BalanceFullPublicInputs_from_u64_slice cap_len inputs =
     (let vd_len = vd_vec_len cap_len in
      if length inputs \<noteq> BALANCE_PUBLIC_INPUTS_LEN + vd_len then Err BP_InvalidLength
      else
        let vd_slice = subslice BALANCE_PUBLIC_INPUTS_LEN (BALANCE_PUBLIC_INPUTS_LEN + vd_len) inputs in
        and_then (BalancePublicInputs_from_u64 (subslice 0 BALANCE_PUBLIC_INPUTS_LEN inputs)) (\<lambda>pis.
        and_then (map_err (\<lambda>_. BP_ParseError ''verifier data'')
            (vd_from_pis_slice cap_len (map from_canonical_u64 vd_slice))) (\<lambda>vd.
          Ok \<lparr>fpi_pis = pis, fpi_vd = vd\<rparr>)))"

section \<open>Facts on recipients\<close>

text \<open>The recipients of addresses: a tag, eleven zero bytes and the bytes of the address.\<close>

abbreviation bytes32_bytes :: "Bytes32 \<Rightarrow> u8 list" where
  "bytes32_bytes \<equiv> to_bytes_be Bytes32_to_u32_vec"

abbreviation address_bytes :: "Address \<Rightarrow> u8 list" where
  "address_bytes \<equiv> to_bytes_be Address_to_u32_vec"

lemma bytes32_bytes_inject: "bytes32_bytes a = bytes32_bytes b \<longleftrightarrow> a = b"
  by (metis bytes32.from_to_bytes outcome.inject(1))

lemma address_bytes_inject: "address_bytes a = address_bytes b \<longleftrightarrow> a = b"
  by (metis address.from_to_bytes outcome.inject(1))

lemma length_address_bytes [simp]: "length (address_bytes a) = 20"
  using address.length_bytes by simp

lemma length_bytes32_bytes [simp]: "length (bytes32_bytes b) = 32"
  using bytes32.length_bytes by simp

lemma unwrap_bytes32:
  assumes "length bytes = 32"
  shows "unwrap (from_bytes_be 8 Bytes32_from_u32_slice bytes) = (Ok r :: ('e, _) outcome) \<longleftrightarrow> bytes32_bytes r = bytes"
  using assms by (simp add: bytes32.from_bytes_ok_iff)

lemma unwrap_bytes32_total:
  assumes "length bytes = 32"
  shows "\<exists>r. unwrap (from_bytes_be 8 Bytes32_from_u32_slice bytes) = (Ok r :: ('e, _) outcome)"
  using assms bytes32.from_bytes_total [of bytes] by auto

lemma recipient_from_address_Ok_iff:
  "calculate_recipient_from_address a = (Ok r :: ('e, _) outcome) \<longleftrightarrow>
     bytes32_bytes r = ADDRESS_TAG # replicate 11 0 @ address_bytes a"
proof -
  obtain a0 a1 a2 a3 a4 where a: "a = Address a0 a1 a2 a3 a4" by (cases a)
  have "bytes32_bytes (Bytes32 0 0 0 a0 a1 a2 a3 a4) = replicate 12 0 @ address_bytes a"
    by (simp add: a to_bytes_be_def u32_to_be_bytes_def numeral_eq_Suc)
  then have tagged: "(bytes32_bytes (Bytes32 0 0 0 a0 a1 a2 a3 a4))[0 := ADDRESS_TAG] =
      ADDRESS_TAG # replicate 11 0 @ address_bytes a"
    by (simp add: numeral_eq_Suc)
  have len: "length (ADDRESS_TAG # replicate 11 0 @ address_bytes a) = 32" by simp
  have "Bytes32_from_u32_slice (take 3 (replicate 8 0) @ Address_to_u32_vec a) = Ok (Bytes32 0 0 0 a0 a1 a2 a3 a4)"
    by (simp add: a Bytes32_from_u32_slice_def numeral_eq_Suc)
  then show ?thesis
    unfolding calculate_recipient_from_address_def Let_def
    by (simp only: unwrap.simps and_then.simps tagged unwrap_bytes32 [OF len])
qed

lemma recipient_from_address_total: "\<exists>r. calculate_recipient_from_address a = (Ok r :: ('e, _) outcome)"
proof -
  have "length (ADDRESS_TAG # replicate 11 0 @ address_bytes a) = 32" by simp
  from unwrap_bytes32_total [OF this] obtain r where
    "bytes32_bytes r = ADDRESS_TAG # replicate 11 0 @ address_bytes a"
    using unwrap_bytes32 [OF \<open>length _ = 32\<close>] by blast
  then show ?thesis using recipient_from_address_Ok_iff by blast
qed

lemma recipient_from_user_id:
  "\<exists>r. calculate_recipient_from_user_id P c salt = (Ok r :: ('e, _) outcome) \<and> bytes32_bytes r ! 0 = USER_ID_TAG"
proof -
  obtain h where h: "Bytes32_from_hash_out (hash_inputs_u64 P ([USER_ID_DOMAIN, ChannelId_as_u64 c] @ Salt_to_u64_vec salt)) =
      (Ok h :: ('e, _) outcome)"
    using Bytes32_from_hash_out_total by blast
  have len: "length ((bytes32_bytes h)[0 := USER_ID_TAG]) = 32" by simp
  from unwrap_bytes32_total [OF this] obtain r where
    r: "unwrap (from_bytes_be 8 Bytes32_from_u32_slice ((bytes32_bytes h)[0 := USER_ID_TAG])) = (Ok r :: ('e, _) outcome)" by blast
  then have "bytes32_bytes r = (bytes32_bytes h)[0 := USER_ID_TAG]" by (simp only: unwrap_bytes32 [OF len])
  then have "bytes32_bytes r ! 0 = USER_ID_TAG" by simp
  with r h show ?thesis by (simp add: calculate_recipient_from_user_id_def Let_def)
qed

lemma extract_address_Ok_iff:
  "extract_address_from_recipient r = Ok a \<longleftrightarrow> calculate_recipient_from_address a = (Ok r :: (RecipientError, _) outcome)"
proof
  assume "extract_address_from_recipient r = Ok a"
  then show "calculate_recipient_from_address a = (Ok r :: (RecipientError, _) outcome)"
    by (auto simp: extract_address_from_recipient_def Let_def split: if_splits)
next
  assume r: "calculate_recipient_from_address a = (Ok r :: (RecipientError, _) outcome)"
  then have b: "bytes32_bytes r = ADDRESS_TAG # replicate 11 0 @ address_bytes a"
    by (simp add: recipient_from_address_Ok_iff)
  then have "subslice 12 32 (bytes32_bytes r) = address_bytes a" by (simp add: subslice_def)
  with b r show "extract_address_from_recipient r = Ok a"
    by (simp add: extract_address_from_recipient_def Let_def address.from_to_bytes)
qed

lemma extract_address_never_panics: "extract_address_from_recipient r \<noteq> Panic"
proof -
  have "length (subslice 12 32 (bytes32_bytes r)) = 20" by (simp add: subslice_def)
  then obtain a where "from_bytes_be 5 Address_from_u32_slice (subslice 12 32 (bytes32_bytes r)) = Ok a"
    using address.from_bytes_total [of "subslice 12 32 (bytes32_bytes r)"] by auto
  moreover obtain r' where "calculate_recipient_from_address a = (Ok r' :: (RecipientError, _) outcome)"
    using recipient_from_address_total by blast
  ultimately show ?thesis by (simp add: extract_address_from_recipient_def Let_def)
qed

section \<open>Facts on the public inputs\<close>

definition BalancePublicInputs_valid :: "BalancePublicInputs \<Rightarrow> bool" where
  "BalancePublicInputs_valid p \<longleftrightarrow> channel_id_of (bp_channel_id p) \<noteq> 0 \<and> PublicState_valid (bp_public_state p) \<and>
     U63_valid (bp_block_r p) \<and> canonical (bp_private_commitment p)"

lemma balance_pis_len: "BALANCE_PUBLIC_INPUTS_LEN = 29"
  by (simp add: BALANCE_PUBLIC_INPUTS_LEN_def PUBLIC_STATE_U64_LEN_def)

lemma length_BalancePublicInputs_to_u64_vec [simp]:
  "length (BalancePublicInputs_to_u64_vec p) = BALANCE_PUBLIC_INPUTS_LEN"
  by (simp add: BalancePublicInputs_to_u64_vec_def BALANCE_PUBLIC_INPUTS_LEN_def PUBLIC_STATE_U64_LEN_def
      U63_to_u64_vec_def)

lemma BalancePublicInputs_words:
  assumes "length xs = BALANCE_PUBLIC_INPUTS_LEN"
  shows "BalancePublicInputs_to_u64_vec p = xs \<longleftrightarrow> ChannelId_as_u64 (bp_channel_id p) = xs ! 0 \<and>
    PublicState_to_u64_vec (bp_public_state p) = subslice 1 16 xs \<and> bp_block_r p = U63 (xs ! 16) \<and>
    hash_elements (bp_private_commitment p) = subslice 17 21 xs \<and>
    to_u64_vec Bytes32_to_u32_vec (bp_settled_tx_chain p) = subslice 21 29 xs"
proof -
  have len: "length xs = 29" using assms by (simp add: balance_pis_len)
  have "length (PublicState_to_u64_vec (bp_public_state p)) = 15" by (simp add: PUBLIC_STATE_U64_LEN_def)
  with len have "BalancePublicInputs_to_u64_vec p = xs \<longleftrightarrow> ChannelId_as_u64 (bp_channel_id p) = xs ! 0 \<and>
      PublicState_to_u64_vec (bp_public_state p) = subslice 1 16 xs \<and> as_u64 (bp_block_r p) = xs ! 16 \<and>
      hash_elements (bp_private_commitment p) = subslice 17 21 xs \<and>
      to_u64_vec Bytes32_to_u32_vec (bp_settled_tx_chain p) = subslice 21 29 xs"
    by (subst eq_drop_0)
      (simp add: BalancePublicInputs_to_u64_vec_def U63_to_u64_vec_def split_encoding
        last_eq_drop [of "to_u64_vec Bytes32_to_u32_vec _", OF bytes32.length_u64]
        append_eq_drop [of "PublicState_to_u64_vec _" 15] del: drop0 length_PublicState_to_u64_vec)
  moreover have "as_u64 (bp_block_r p) = xs ! 16 \<longleftrightarrow> bp_block_r p = U63 (xs ! 16)"
    by (cases "bp_block_r p") simp
  ultimately show ?thesis by simp
qed

lemma BalancePublicInputs_from_u64_Ok_iff:
  "BalancePublicInputs_from_u64 xs = Ok p \<longleftrightarrow> BalancePublicInputs_valid p \<and> BalancePublicInputs_to_u64_vec p = xs"
proof (cases "length xs = BALANCE_PUBLIC_INPUTS_LEN")
  case True
  show ?thesis
    unfolding BalancePublicInputs_words [OF True]
    using True
    by (cases p) (auto simp: BalancePublicInputs_from_u64_def ChannelId_new_Ok_iff PublicState_from_u64_slice_Ok_iff
        U63_new_Ok_iff PoseidonHashOut_from_u64_slice_Ok_iff bytes32.from_u64_ok_iff BalancePublicInputs_valid_def)
qed (auto simp: BalancePublicInputs_from_u64_def)

lemma PublicState_from_u64_slice_never_panics: "PublicState_from_u64_slice xs \<noteq> Panic"
proof -
  have "PoseidonHashOut_from_u64_slice ys \<noteq> Panic" "U63_new w \<noteq> Panic" for ys w
    by (simp_all add: PoseidonHashOut_from_u64_slice_def U63_new_def split: option.splits)
  then show ?thesis
    by (auto simp: PublicState_from_u64_slice_def and_then_Panic_iff u64limb.from_u64_never_panics)
qed

lemma vd_round_trip:
  assumes "length (vd_constants_sigmas_cap vd) = cap_len" "vd_to_vec cap_len vd = (Ok ws :: ('e, _) outcome)"
  shows "vd_from_pis_slice cap_len ws = Ok vd \<and> length ws = vd_vec_len cap_len"
proof -
  let ?cap = "vd_constants_sigmas_cap vd"
  have "map (\<lambda>i. hash_elements (?cap ! i)) [0..<cap_len] = map hash_elements ?cap"
    by (rule nth_equalityI) (use assms(1) in simp_all)
  then have ws: "ws = hash_elements (vd_circuit_digest vd) @ concat (map hash_elements ?cap)"
    using assms by (simp add: vd_to_vec_def)
  have clen: "length (concat (map hash_elements xs)) = 4 * length xs" for xs by (induction xs) auto
  have at: "concat (map hash_elements xs) ! (4 * i + j) = hash_elements (xs ! i) ! j" if "i < length xs" "j < 4" for xs i j
    using that
  proof (induction xs arbitrary: i)
    case (Cons x xs)
    then show ?case by (cases i) (auto simp: nth_append)
  qed simp
  have len: "length ws = 4 + 4 * cap_len" using assms(1) by (simp add: ws clen)
  have digest: "map (\<lambda>i. ws ! (length ws - 4 - 4 * cap_len + i)) [0..<4] = hash_elements (vd_circuit_digest vd)"
    by (rule nth_equalityI) (simp_all add: ws nth_append clen assms(1))
  have elem: "map (\<lambda>j. ws ! (length ws - 4 * (cap_len - i) + j)) [0..<4] = hash_elements (?cap ! i)"
    if "i < cap_len" for i
  proof (rule nth_equalityI)
    fix j assume "j < length (map (\<lambda>j. ws ! (length ws - 4 * (cap_len - i) + j)) [0..<4])"
    then have "j < 4" by simp
    moreover have "length ws - 4 * (cap_len - i) + j = 4 + (4 * i + j)" using that len by simp
    ultimately show "map (\<lambda>j. ws ! (length ws - 4 * (cap_len - i) + j)) [0..<4] ! j = hash_elements (?cap ! i) ! j"
      using at [of i ?cap j] that assms(1) by (simp add: ws nth_append)
  qed simp
  have "map (\<lambda>i. hash_out_of_list (map (\<lambda>j. ws ! (length ws - 4 * (cap_len - i) + j)) [0..<4])) [0..<cap_len] = ?cap"
    by (rule nth_equalityI) (use assms(1) elem in simp_all)
  then show ?thesis
    using digest len by (simp add: vd_from_pis_slice_def vd_vec_len_def Let_def)
qed

lemma full_pis_round_trip:
  assumes "BalancePublicInputs_valid (fpi_pis f)" "length (vd_constants_sigmas_cap (fpi_vd f)) = cap_len"
    and "canonical (vd_circuit_digest (fpi_vd f))" "list_all canonical (vd_constants_sigmas_cap (fpi_vd f))"
  shows "\<exists>ws. BalanceFullPublicInputs_to_u64_vec cap_len f = (Ok ws :: ('e, _) outcome) \<and>
    BalanceFullPublicInputs_from_u64_slice cap_len ws = Ok f"
proof -
  obtain vs where vs: "vd_to_vec cap_len (fpi_vd f) = (Ok vs :: ('e, _) outcome)"
    using assms(2) by (auto simp: vd_to_vec_def)
  have "map from_canonical_u64 vs = vs"
  proof (rule map_idI)
    fix w
    assume "w \<in> set vs"
    moreover from vs have "vs = hash_elements (vd_circuit_digest (fpi_vd f)) @
        concat (map (\<lambda>i. hash_elements (vd_constants_sigmas_cap (fpi_vd f) ! i)) [0..<cap_len])"
      by (auto simp: vd_to_vec_def split: if_splits)
    ultimately have "w < GOLDILOCKS_ORDER"
      using assms(2,3,4) by (auto simp: canonical_def list_all_length)
    then show "from_canonical_u64 w = w"
      by (simp add: from_canonical_u64_def word_less_nat_alt word_unat_eq_iff unat_mod)
  qed
  moreover have "subslice BALANCE_PUBLIC_INPUTS_LEN (BALANCE_PUBLIC_INPUTS_LEN + vd_vec_len cap_len)
      (BalancePublicInputs_to_u64_vec (fpi_pis f) @ vs) = vs"
    "subslice 0 BALANCE_PUBLIC_INPUTS_LEN (BalancePublicInputs_to_u64_vec (fpi_pis f) @ vs) =
      BalancePublicInputs_to_u64_vec (fpi_pis f)"
    using vd_round_trip [OF assms(2) vs] by (simp_all add: subslice_def)
  moreover have "BalancePublicInputs_from_u64 (BalancePublicInputs_to_u64_vec (fpi_pis f)) = Ok (fpi_pis f)"
    using assms(1) by (simp add: BalancePublicInputs_from_u64_Ok_iff)
  ultimately show ?thesis
    using vs vd_round_trip [OF assms(2) vs]
    by (auto simp: BalanceFullPublicInputs_to_u64_vec_def BalanceFullPublicInputs_from_u64_slice_def Let_def)
qed

section \<open>Properties\<close>

text \<open>
Recipients and addresses correspond one to one. Extracting an address succeeds exactly on the
recipient computed from that address (so bytes 1 to 11 are zero), never panics, and rejects every
recipient computed from a channel identifier and a salt.
\<close>

theorem recipient_round_trip:
  "(extract_address_from_recipient r = Ok a \<longleftrightarrow>
      calculate_recipient_from_address a = (Ok r :: (RecipientError, _) outcome)) \<and>
   (\<exists>r'. calculate_recipient_from_address a = (Ok r' :: (RecipientError, _) outcome)) \<and>
   extract_address_from_recipient r \<noteq> Panic \<and>
   and_then (calculate_recipient_from_user_id P c salt) extract_address_from_recipient = Err InvalidRecipient"
proof -
  obtain u where "calculate_recipient_from_user_id P c salt = (Ok u :: (RecipientError, _) outcome)"
    "bytes32_bytes u ! 0 = USER_ID_TAG"
    using recipient_from_user_id by blast
  then show ?thesis
    using extract_address_Ok_iff recipient_from_address_total extract_address_never_panics
    by (auto simp: extract_address_from_recipient_def)
qed

text \<open>
C33: the decoder of balance public inputs accepts exactly the encodings of well-formed public inputs.
It panics exactly when everything before the private commitment is well formed and the commitment is
not canonical; every other malformed input is reported as an error.
\<close>

theorem balance_pis_decode:
  "(BalancePublicInputs_from_u64 xs = Ok p \<longleftrightarrow>
      BalancePublicInputs_valid p \<and> xs = BalancePublicInputs_to_u64_vec p) \<and>
   (BalancePublicInputs_from_u64 xs = Panic \<longleftrightarrow>
      length xs = BALANCE_PUBLIC_INPUTS_LEN \<and> is_ok (ChannelId_new (xs ! 0)) \<and>
      is_ok (PublicState_from_u64_slice (subslice 1 16 xs)) \<and> is_ok (U63_new (xs ! 16)) \<and>
      \<not> is_ok (PoseidonHashOut_from_u64_slice (subslice 17 21 xs)))"
proof -
  have total: "ChannelId_new w \<noteq> Panic" "U63_new w \<noteq> Panic" for w
    by (simp_all add: ChannelId_new_def validate_components_def U63_new_def and_then_Panic_iff)
  have "unwrap m = Panic \<longleftrightarrow> \<not> is_ok m" for m :: "(PoseidonHashOutError, PoseidonHashOut) outcome"
    by (cases m) auto
  then have "BalancePublicInputs_from_u64 xs = Panic \<longleftrightarrow>
      length xs = BALANCE_PUBLIC_INPUTS_LEN \<and> is_ok (ChannelId_new (xs ! 0)) \<and>
      is_ok (PublicState_from_u64_slice (subslice 1 16 xs)) \<and> is_ok (U63_new (xs ! 16)) \<and>
      \<not> is_ok (PoseidonHashOut_from_u64_slice (subslice 17 21 xs))"
    using PublicState_from_u64_slice_never_panics bytes32.from_u64_never_panics total
    by (auto simp: BalancePublicInputs_from_u64_def and_then_Panic_iff is_ok_iff)
  then show ?thesis by (auto simp: BalancePublicInputs_from_u64_Ok_iff)
qed

end
