(* ===== verification/Regev.thy ===== *)
theory Regev
  imports Transfers
begin

text \<open>
  The Regev layer of hidden channel balances (\<open>src/regev/params.rs\<close>, \<open>keys.rs\<close>, \<open>encrypt.rs\<close> and
  \<open>hash_words\<close> of \<open>mod.rs\<close>): parameters, public keys and ciphertexts with their canonicality
  checks and screens, their digests, homomorphic addition and the decoding of decrypted amounts.

  Key generation, encryption and the lattice decryption are functions of the crate
  \<open>regev_plonky3\<close>; decryption is the parameter \<open>decrypt\<close>, which returns one digit per
  coefficient. Natural numbers stand for its digits; \<open>decrypt_amount\<close> casts them to 128 bits.
  Error payload texts are dropped, the variants are kept.
\<close>

section \<open>Parameters\<close>

definition REGEV_N :: nat where
  "REGEV_N = 2048"

definition REGEV_Q :: u32 where
  "REGEV_Q = 2013265921"

abbreviation MAX_HOMO_ADDS_BEFORE_REFRESH :: u32 where
  "MAX_HOMO_ADDS_BEFORE_REFRESH \<equiv> 64"

abbreviation REGEV_CT_DOMAIN :: u32 where
  "REGEV_CT_DOMAIN \<equiv> 0x494d5243"

abbreviation REGEV_PK_DOMAIN :: u32 where
  "REGEV_PK_DOMAIN \<equiv> 0x494d524b"

abbreviation REGEV_PK_ROOT_DOMAIN :: u32 where
  "REGEV_PK_ROOT_DOMAIN \<equiv> 0x494d5252"

abbreviation REGEV_PK_POSEIDON_DOMAIN :: u64 where
  "REGEV_PK_POSEIDON_DOMAIN \<equiv> 0x494d5250"

abbreviation DEGENERATE_SMALL_BOUND :: u32 where
  "DEGENERATE_SMALL_BOUND \<equiv> push_bit 20 1"

datatype RegevError =
    InvalidPk | InvalidSk | InvalidCiphertext | DecryptOverflow | InvalidWitness | ProofCodec
  | RegevProofVerification | PurposeMismatch

definition hash_words :: "(u32 list \<Rightarrow> u32 list) \<Rightarrow> u32 list \<Rightarrow> ('e, Bytes32) outcome" where
  "hash_words keccak words = unwrap (Bytes32_from_u32_slice (keccak words))"

section \<open>Ciphertexts\<close>

record RegevCiphertext =
  ct_c1 :: "u32 list"
  ct_c2 :: "u32 list"

definition RegevCiphertext_padding :: RegevCiphertext where
  "RegevCiphertext_padding = \<lparr>ct_c1 = replicate REGEV_N 0, ct_c2 = replicate REGEV_N 0\<rparr>"

definition RegevCiphertext_validate :: "RegevCiphertext \<Rightarrow> (RegevError, unit) outcome" where
  "RegevCiphertext_validate ct =
     (if length (ct_c1 ct) \<noteq> REGEV_N \<or> length (ct_c2 ct) \<noteq> REGEV_N then Err InvalidCiphertext
      else case find (\<lambda>c. c \<ge> REGEV_Q) (ct_c1 ct @ ct_c2 ct) of
        Some _ \<Rightarrow> Err InvalidCiphertext
      | None \<Rightarrow> Ok ())"

definition small_coefficient :: "u32 \<Rightarrow> bool" where
  "small_coefficient c \<longleftrightarrow> c \<le> DEGENERATE_SMALL_BOUND \<or> REGEV_Q - c \<le> DEGENERATE_SMALL_BOUND"

definition reject_key_independent :: "RegevCiphertext \<Rightarrow> (RegevError, unit) outcome" where
  "reject_key_independent ct =
     and_then (RegevCiphertext_validate ct) (\<lambda>_.
       if list_all small_coefficient (ct_c1 ct) then Err InvalidCiphertext else Ok ())"

definition validate_balance_exit_shape :: "RegevCiphertext \<Rightarrow> (RegevError, unit) outcome" where
  "validate_balance_exit_shape ct =
     and_then (RegevCiphertext_validate ct) (\<lambda>_.
       if list_all (\<lambda>c. c = 0) (ct_c1 ct) \<and> list_ex (\<lambda>c. c \<noteq> 0) (ct_c2 ct)
       then Err InvalidCiphertext else Ok ())"

definition RegevCiphertext_digest :: "(u32 list \<Rightarrow> u32 list) \<Rightarrow> RegevCiphertext \<Rightarrow> ('e, Bytes32) outcome" where
  "RegevCiphertext_digest keccak ct =
     (if \<not> is_ok (RegevCiphertext_validate ct) then Panic
      else hash_words keccak ([REGEV_CT_DOMAIN, of_nat (length (ct_c1 ct))] @ ct_c1 ct @ ct_c2 ct))"

definition add_coefficient :: "u32 \<Rightarrow> u32 \<Rightarrow> u32" where
  "add_coefficient x y = ucast ((ucast x + ucast y :: u64) mod ucast REGEV_Q)"

definition add_ciphertexts :: "RegevCiphertext \<Rightarrow> RegevCiphertext \<Rightarrow> (RegevError, RegevCiphertext) outcome" where
  "add_ciphertexts a b =
     and_then (RegevCiphertext_validate a) (\<lambda>_.
     and_then (RegevCiphertext_validate b) (\<lambda>_.
       Ok \<lparr>ct_c1 = map2 add_coefficient (ct_c1 a) (ct_c1 b), ct_c2 = map2 add_coefficient (ct_c2 a) (ct_c2 b)\<rparr>))"

text \<open>The digit loop of \<open>decrypt_amount\<close>: \<open>i\<close> is the position, \<open>value\<close> the 128-bit accumulator.\<close>

fun decode_digits :: "nat \<Rightarrow> 128 word \<Rightarrow> nat list \<Rightarrow> (RegevError, 128 word) outcome" where
  "decode_digits i acc [] = Ok acc"
| "decode_digits i acc (d # ds) =
     (if d = 0 then decode_digits (Suc i) acc ds
      else if i \<ge> 64 then Err DecryptOverflow
      else decode_digits (Suc i) (acc + push_bit i (of_nat d)) ds)"

text \<open>
  A secret key is the list of its coefficients, each the two's complement byte of an \<open>i8\<close>.
  The conversion of the ciphertext to the types of \<open>regev_plonky3\<close> validates it first.
\<close>

definition decrypt_amount ::
  "(u8 list \<Rightarrow> RegevCiphertext \<Rightarrow> nat list) \<Rightarrow> u8 list \<Rightarrow> RegevCiphertext \<Rightarrow> (RegevError, u64) outcome" where
  "decrypt_amount decrypt sk ct =
     (if length sk \<noteq> REGEV_N then Err InvalidSk
      else
        and_then (RegevCiphertext_validate ct) (\<lambda>_.
        and_then (decode_digits 0 0 (decrypt sk ct)) (\<lambda>amount.
          if unat amount < 2 ^ 64 then Ok (ucast amount) else Err DecryptOverflow)))"

section \<open>Public keys\<close>

record RegevPk =
  rk_a :: "u32 list"
  rk_b :: "u32 list"

definition RegevPk_padding :: RegevPk where
  "RegevPk_padding = \<lparr>rk_a = replicate REGEV_N 0, rk_b = replicate REGEV_N 0\<rparr>"

definition RegevPk_validate :: "RegevPk \<Rightarrow> (RegevError, unit) outcome" where
  "RegevPk_validate pk =
     (if length (rk_a pk) \<noteq> REGEV_N \<or> length (rk_b pk) \<noteq> REGEV_N then Err InvalidPk
      else case find (\<lambda>c. c \<ge> REGEV_Q) (rk_a pk @ rk_b pk) of
        Some _ \<Rightarrow> Err InvalidPk
      | None \<Rightarrow> Ok ())"

definition degenerate_poly :: "u32 list \<Rightarrow> bool" where
  "degenerate_poly poly \<longleftrightarrow>
     length (filter (\<lambda>c. c \<noteq> 0) poly) \<le> 1 \<or> list_all (\<lambda>c. c = poly ! 0) poly \<or> list_all small_coefficient poly"

definition reject_degenerate :: "RegevPk \<Rightarrow> (RegevError, unit) outcome" where
  "reject_degenerate pk =
     and_then (RegevPk_validate pk) (\<lambda>_.
       if degenerate_poly (rk_a pk) then Err InvalidPk
       else if degenerate_poly (rk_b pk) then Err InvalidPk
       else Ok ())"

definition RegevPk_digest :: "(u32 list \<Rightarrow> u32 list) \<Rightarrow> RegevPk \<Rightarrow> ('e, Bytes32) outcome" where
  "RegevPk_digest keccak pk =
     (if \<not> is_ok (RegevPk_validate pk) then Panic
      else hash_words keccak ([REGEV_PK_DOMAIN, of_nat REGEV_N] @ rk_a pk @ rk_b pk))"

definition RegevPk_poseidon_digest :: "(u64 list \<Rightarrow> PoseidonHashOut) \<Rightarrow> RegevPk \<Rightarrow> ('e, PoseidonHashOut) outcome" where
  "RegevPk_poseidon_digest poseidon pk =
     (if \<not> is_ok (RegevPk_validate pk) then Panic
      else Ok (hash_inputs_u64 poseidon ([REGEV_PK_POSEIDON_DOMAIN, of_nat REGEV_N] @ map ucast (rk_a pk) @ map ucast (rk_b pk))))"

definition regev_pk_root :: "(u32 list \<Rightarrow> u32 list) \<Rightarrow> RegevPk list \<Rightarrow> ('e, Bytes32) outcome" where
  "regev_pk_root keccak pks =
     and_then (try_map (RegevPk_digest keccak) pks) (\<lambda>digests.
       hash_words keccak ([REGEV_PK_ROOT_DOMAIN, of_nat (length pks)] @ concat (map Bytes32_to_u32_vec digests)))"

section \<open>Canonical polynomials\<close>

definition canonical_poly :: "u32 list \<Rightarrow> bool" where
  "canonical_poly xs \<longleftrightarrow> length xs = REGEV_N \<and> (\<forall>c \<in> set xs. c < REGEV_Q)"

definition canonical_ct :: "RegevCiphertext \<Rightarrow> bool" where
  "canonical_ct ct \<longleftrightarrow> canonical_poly (ct_c1 ct) \<and> canonical_poly (ct_c2 ct)"

lemma find_large:
  "(case find (\<lambda>c. c \<ge> REGEV_Q) xs of None \<Rightarrow> x | Some _ \<Rightarrow> y) = (if \<forall>c \<in> set xs. c < REGEV_Q then x else y)"
  by (induction xs) auto

lemma RegevCiphertext_validate_value:
  "RegevCiphertext_validate ct = (if canonical_ct ct then Ok () else Err InvalidCiphertext)"
  unfolding RegevCiphertext_validate_def canonical_ct_def canonical_poly_def find_large by auto

lemma RegevPk_validate_value:
  "RegevPk_validate pk = (if canonical_poly (rk_a pk) \<and> canonical_poly (rk_b pk) then Ok () else Err InvalidPk)"
  unfolding RegevPk_validate_def canonical_poly_def find_large by auto

lemma canonical_zero [simp]: "canonical_poly (replicate REGEV_N 0)"
  by (simp add: canonical_poly_def REGEV_N_def REGEV_Q_def)

lemma canonical_padding [simp]: "canonical_ct RegevCiphertext_padding"
  by (simp add: canonical_ct_def RegevCiphertext_padding_def)

lemma unat_add_coefficient:
  assumes "x < REGEV_Q" "y < REGEV_Q"
  shows "unat (add_coefficient x y) = (unat x + unat y) mod 2013265921"
proof -
  have q: "unat REGEV_Q = 2013265921" by (simp add: REGEV_Q_def)
  have "unat x < 2013265921" "unat y < 2013265921" using assms q by (simp_all add: word_less_nat_alt)
  moreover from this have "unat (ucast x + ucast y :: u64) = unat x + unat y"
    by (simp add: unat_plus_if')
  ultimately have "unat ((ucast x + ucast y :: u64) mod ucast REGEV_Q) = (unat x + unat y) mod 2013265921"
    by (simp add: unat_mod_distrib q)
  moreover have "(unat x + unat y) mod 2013265921 < 2 ^ 32"
    by (rule less_trans [of _ 2013265921]) simp_all
  ultimately show ?thesis
    by (simp add: add_coefficient_def unat_ucast_mod)
qed

lemma add_coefficient_canonical: "x < REGEV_Q \<Longrightarrow> y < REGEV_Q \<Longrightarrow> add_coefficient x y < REGEV_Q"
  by (simp add: word_less_nat_alt unat_add_coefficient REGEV_Q_def)

lemma add_coefficient_commute: "add_coefficient x y = add_coefficient y x"
  by (simp add: add_coefficient_def add.commute)

lemma add_coefficient_zero: "x < REGEV_Q \<Longrightarrow> add_coefficient 0 x = x"
  by (rule word_unat_eq_iff [THEN iffD2]) (simp add: unat_add_coefficient REGEV_Q_def word_less_nat_alt)

lemma add_coefficient_assoc:
  assumes "x < REGEV_Q" "y < REGEV_Q" "z < REGEV_Q"
  shows "add_coefficient (add_coefficient x y) z = add_coefficient x (add_coefficient y z)"
  using assms
  by (intro word_unat_eq_iff [THEN iffD2]) (simp add: unat_add_coefficient add_coefficient_canonical mod_simps ac_simps)

lemma add_ciphertexts_value:
  "canonical_ct a \<Longrightarrow> canonical_ct b \<Longrightarrow> add_ciphertexts a b =
     Ok \<lparr>ct_c1 = map2 add_coefficient (ct_c1 a) (ct_c1 b), ct_c2 = map2 add_coefficient (ct_c2 a) (ct_c2 b)\<rparr>"
  by (simp add: add_ciphertexts_def RegevCiphertext_validate_value)

lemma canonical_map2:
  "canonical_poly xs \<Longrightarrow> canonical_poly ys \<Longrightarrow> canonical_poly (map2 add_coefficient xs ys)"
  by (auto simp: canonical_poly_def dest: set_zip_leftD set_zip_rightD intro!: add_coefficient_canonical)

lemma map2_add_commute: "length xs = length ys \<Longrightarrow> map2 add_coefficient xs ys = map2 add_coefficient ys xs"
  by (rule nth_equalityI) (simp_all add: add_coefficient_commute)

lemma map2_add_zero: "canonical_poly xs \<Longrightarrow> map2 add_coefficient (replicate REGEV_N 0) xs = xs"
  by (rule nth_equalityI) (simp_all add: canonical_poly_def add_coefficient_zero)

lemma map2_add_assoc:
  assumes "canonical_poly xs" "canonical_poly ys" "canonical_poly zs"
  shows "map2 add_coefficient (map2 add_coefficient xs ys) zs = map2 add_coefficient xs (map2 add_coefficient ys zs)"
  using assms by (intro nth_equalityI) (simp_all add: canonical_poly_def add_coefficient_assoc)

section \<open>Decoding of amounts\<close>

primrec digits_value :: "nat list \<Rightarrow> nat" where
  "digits_value [] = 0"
| "digits_value (d # ds) = d + 2 * digits_value ds"

lemma digits_value_bound: "\<forall>d \<in> set ds. d < 256 \<Longrightarrow> digits_value ds + 255 \<le> 255 * 2 ^ length ds"
  by (induction ds) fastforce+

lemma digits_value_zero: "digits_value ds = 0 \<longleftrightarrow> (\<forall>d \<in> set ds. d = 0)"
  by (induction ds) auto

lemma digits_value_add:
  "length xs = length ys \<Longrightarrow> digits_value (map2 (+) xs ys) = digits_value xs + digits_value ys"
  by (induction xs ys rule: list_induct2) simp_all

lemma decode_digits_tail:
  "64 \<le> i \<Longrightarrow> decode_digits i acc ds = (if digits_value ds = 0 then Ok acc else Err DecryptOverflow)"
  by (induction ds arbitrary: i) auto

lemma digits_value_split: "digits_value ds = digits_value (take n ds) + 2 ^ n * digits_value (drop n ds)"
  by (induction ds arbitrary: n) (simp, case_tac n, simp, simp only: digits_value.simps take_Suc_Cons drop_Suc_Cons power_Suc, metis add.assoc distrib_left mult.assoc)

lemma unat_add_digit:
  assumes "d < 256" "i < 64" "unat acc < 256 * 2 ^ i"
  shows "unat (acc + push_bit i (of_nat d) :: 128 word) = unat acc + d * 2 ^ i"
proof -
  have p: "(2::nat) ^ i \<le> 2 ^ 63" using assms(2) by (intro power_increasing) simp_all
  have "d * 2 ^ i \<le> 256 * 2 ^ i" using assms(1) by simp
  then have "unat acc + d * 2 ^ i < 512 * 2 ^ i" using assms(3) by linarith
  also have "\<dots> \<le> 512 * 2 ^ 63" using p by simp
  finally have bound: "unat acc + d * 2 ^ i < 2 ^ 128" by (rule less_trans) simp
  then have "d * 2 ^ i < 2 ^ 128" by simp
  then have "unat (of_nat (d * 2 ^ i) :: 128 word) = d * 2 ^ i"
    by (simp add: unat_of_nat take_bit_nat_eq_self_iff del: of_nat_mult of_nat_power)
  moreover have "(push_bit i (of_nat d) :: 128 word) = of_nat (d * 2 ^ i)" by (simp add: push_bit_eq_mult)
  ultimately have "unat (push_bit i (of_nat d) :: 128 word) = d * 2 ^ i" by simp
  with bound show ?thesis by (simp add: unat_plus_if')
qed

lemma decode_digits_value:
  assumes "\<forall>d \<in> set ds. d < 256" "i \<le> 64" "unat acc < 256 * 2 ^ i"
  shows "decode_digits i acc ds =
    (if digits_value (drop (64 - i) ds) = 0
     then Ok (of_nat (unat acc + digits_value ds * 2 ^ i)) else Err DecryptOverflow)"
  using assms
proof (induction ds arbitrary: i acc)
  case (Cons d ds)
  consider "i = 64" | "i < 64" using Cons.prems(2) by linarith
  then show ?case
  proof cases
    case 1
    then show ?thesis by (auto simp: decode_digits_tail simp del: decode_digits.simps)
  next
    case 2
    let ?acc = "acc + push_bit i (of_nat d)"
    have d: "d < 256" using Cons.prems(1) by simp
    have acc: "unat ?acc = unat acc + d * 2 ^ i" by (rule unat_add_digit [OF d 2 Cons.prems(3)])
    have "d * 2 ^ i \<le> 256 * 2 ^ i" using d by (intro mult_right_mono) simp_all
    then have "unat ?acc < 256 * 2 ^ Suc i" using Cons.prems(3) acc unfolding power_Suc by linarith
    then have "decode_digits (Suc i) ?acc ds =
      (if digits_value (drop (64 - Suc i) ds) = 0
       then Ok (of_nat (unat ?acc + digits_value ds * 2 ^ Suc i)) else Err DecryptOverflow)"
      using Cons.prems(1) 2 by (intro Cons.IH) simp_all
    moreover have "decode_digits i acc (d # ds) = decode_digits (Suc i) ?acc ds" using 2 by simp
    moreover have "drop (64 - i) (d # ds) = drop (64 - Suc i) ds" using 2 by (simp add: drop_Cons')
    ultimately show ?thesis by (simp only: acc) (simp add: algebra_simps)
  qed
qed simp

lemma ucast_of_nat_u64: "n < 2 ^ 64 \<Longrightarrow> ucast (of_nat n :: 128 word) = (of_nat n :: u64)"
  by (simp add: word_unat_eq_iff unat_ucast_mod unat_of_nat take_bit_nat_def)

lemma decrypt_amount_value:
  assumes "\<forall>d \<in> set (decrypt sk ct). d < 256" "length sk = REGEV_N" "canonical_ct ct"
  shows "decrypt_amount decrypt sk ct =
    (if digits_value (decrypt sk ct) < 2 ^ 64 then Ok (of_nat (digits_value (decrypt sk ct))) else Err DecryptOverflow)"
proof -
  let ?ds = "decrypt sk ct"
  have decode: "decode_digits 0 0 ?ds =
      (if digits_value (drop 64 ?ds) = 0 then Ok (of_nat (digits_value ?ds)) else Err DecryptOverflow)"
    using decode_digits_value [of ?ds 0 0] assms(1) by simp
  show ?thesis
  proof (cases "digits_value (drop 64 ?ds) = 0")
    case True
    have "\<forall>d \<in> set (take 64 ?ds). d < 256" using assms(1) by (auto dest: in_set_takeD)
    from digits_value_bound [OF this] have "digits_value (take 64 ?ds) \<le> 255 * 2 ^ length (take 64 ?ds)" by linarith
    also have "\<dots> \<le> 255 * 2 ^ 64" by (intro mult_left_mono power_increasing) simp_all
    finally have "digits_value ?ds < 2 ^ 128"
      using True by (subst digits_value_split [of _ 64]) simp
    then have "unat (of_nat (digits_value ?ds) :: 128 word) = digits_value ?ds" by (simp add: unat_of_nat take_bit_nat_eq_self_iff)
    then show ?thesis
      using True assms(2,3) decode by (simp add: decrypt_amount_def RegevCiphertext_validate_value ucast_of_nat_u64)
  next
    case False
    then have "2 ^ 64 * 1 \<le> 2 ^ 64 * digits_value (drop 64 ?ds)" by (intro mult_left_mono) simp_all
    then have "\<not> digits_value ?ds < 2 ^ 64" by (subst digits_value_split [of _ 64]) linarith
    then show ?thesis
      using False assms(2,3) decode by (simp add: decrypt_amount_def RegevCiphertext_validate_value)
  qed
qed

section \<open>Properties\<close>

text \<open>
C35: homomorphic addition keeps ciphertexts canonical. On ciphertexts of two polynomials of 2048 coefficients below
\<open>q\<close> it returns another such ciphertext, which validates and whose coefficients are the sums modulo \<open>q\<close>; the
order of the operands and of repeated additions does not matter, and the padding ciphertext is its zero. If either
operand is not of this form the addition is refused as invalid.
\<close>

theorem add_ciphertexts_canonical:
  "(canonical_ct a \<and> canonical_ct b \<and> canonical_ct c \<longrightarrow>
     (\<exists>ab. add_ciphertexts a b = Ok ab \<and> canonical_ct ab \<and> RegevCiphertext_validate ab = Ok () \<and> add_ciphertexts b a = Ok ab \<and>
       (\<forall>i < REGEV_N. unat (ct_c1 ab ! i) = (unat (ct_c1 a ! i) + unat (ct_c1 b ! i)) mod unat REGEV_Q \<and>
          unat (ct_c2 ab ! i) = (unat (ct_c2 a ! i) + unat (ct_c2 b ! i)) mod unat REGEV_Q) \<and>
       add_ciphertexts ab c = and_then (add_ciphertexts b c) (add_ciphertexts a) \<and>
       add_ciphertexts RegevCiphertext_padding a = Ok a)) \<and>
   (\<not> canonical_ct a \<or> \<not> canonical_ct b \<longrightarrow> add_ciphertexts a b = Err InvalidCiphertext)"
proof (intro conjI impI)
  assume "\<not> canonical_ct a \<or> \<not> canonical_ct b"
  then show "add_ciphertexts a b = Err InvalidCiphertext"
    by (auto simp: add_ciphertexts_def RegevCiphertext_validate_value)
next
  assume can: "canonical_ct a \<and> canonical_ct b \<and> canonical_ct c"
  let ?ab = "\<lparr>ct_c1 = map2 add_coefficient (ct_c1 a) (ct_c1 b), ct_c2 = map2 add_coefficient (ct_c2 a) (ct_c2 b)\<rparr>"
  let ?bc = "\<lparr>ct_c1 = map2 add_coefficient (ct_c1 b) (ct_c1 c), ct_c2 = map2 add_coefficient (ct_c2 b) (ct_c2 c)\<rparr>"
  from can have polys: "canonical_poly (ct_c1 x)" "canonical_poly (ct_c2 x)" if "x \<in> {a, b, c}" for x
    using that by (auto simp: canonical_ct_def)
  then have sums: "canonical_ct ?ab" "canonical_ct ?bc" by (simp_all add: canonical_ct_def canonical_map2)
  have q: "unat REGEV_Q = 2013265921" by (simp add: REGEV_Q_def)
  have lt: "ct_c1 x ! i < REGEV_Q" "ct_c2 x ! i < REGEV_Q" "i < length (ct_c1 x)" "i < length (ct_c2 x)"
    if "x \<in> {a, b}" "i < REGEV_N" for x i
    using polys [of x] that by (auto simp: canonical_poly_def)
  have "add_ciphertexts b a = Ok ?ab"
    using polys by (simp add: add_ciphertexts_value can map2_add_commute canonical_poly_def)
  moreover have "add_ciphertexts ?ab c = and_then (add_ciphertexts b c) (add_ciphertexts a)"
    using polys by (simp add: add_ciphertexts_value can sums map2_add_assoc)
  moreover have "add_ciphertexts RegevCiphertext_padding a = Ok a"
    using polys by (simp add: add_ciphertexts_value can) (simp add: RegevCiphertext_padding_def map2_add_zero)
  ultimately show "\<exists>ab. add_ciphertexts a b = Ok ab \<and> canonical_ct ab \<and> RegevCiphertext_validate ab = Ok () \<and> add_ciphertexts b a = Ok ab \<and>
       (\<forall>i < REGEV_N. unat (ct_c1 ab ! i) = (unat (ct_c1 a ! i) + unat (ct_c1 b ! i)) mod unat REGEV_Q \<and>
          unat (ct_c2 ab ! i) = (unat (ct_c2 a ! i) + unat (ct_c2 b ! i)) mod unat REGEV_Q) \<and>
       add_ciphertexts ab c = and_then (add_ciphertexts b c) (add_ciphertexts a) \<and>
       add_ciphertexts RegevCiphertext_padding a = Ok a"
    using lt by (intro exI [of _ ?ab]) (simp add: add_ciphertexts_value can sums RegevCiphertext_validate_value
        unat_add_coefficient q)
qed

theorem add_ciphertexts_canonical_witness:
  "add_ciphertexts RegevCiphertext_padding RegevCiphertext_padding = Ok RegevCiphertext_padding \<and>
   add_ciphertexts RegevCiphertext_padding \<lparr>ct_c1 = replicate REGEV_N REGEV_Q, ct_c2 = replicate REGEV_N 0\<rparr> = Err InvalidCiphertext"
proof -
  have "\<not> canonical_ct \<lparr>ct_c1 = replicate REGEV_N REGEV_Q, ct_c2 = replicate REGEV_N 0\<rparr>"
    by (simp add: canonical_ct_def canonical_poly_def REGEV_N_def)
  then show ?thesis
    using add_ciphertexts_canonical [of RegevCiphertext_padding RegevCiphertext_padding RegevCiphertext_padding]
      add_ciphertexts_canonical [of RegevCiphertext_padding "\<lparr>ct_c1 = replicate REGEV_N REGEV_Q, ct_c2 = replicate REGEV_N 0\<rparr>"]
    by auto
qed

text \<open>
C36: decoding of amounts is exact and additive. If decryption returns digits below 256, the decoder
returns the weighted sum of the digits when it fits in 64 bits and reports an overflow otherwise, and the
128-bit accumulator never wraps. If the digits of a homomorphic sum are the sums of the digits, its decoded
amount is the sum of the amounts, or an overflow error when that sum does not fit.
\<close>

theorem decrypt_amount_additive:
  assumes "length sk = REGEV_N"
    and "add_ciphertexts a b = Ok c"
    and digits: "\<forall>ct \<in> {a, b, c}. length (decrypt sk ct) = REGEV_N \<and> (\<forall>d \<in> set (decrypt sk ct). d < 256)"
    and sum: "decrypt sk c = map2 (+) (decrypt sk a) (decrypt sk b)"
    and amounts: "decrypt_amount decrypt sk a = Ok x" "decrypt_amount decrypt sk b = Ok y"
  shows "unat x = digits_value (decrypt sk a) \<and>
    decrypt_amount decrypt sk c = (if unat x + unat y < 2 ^ 64 then Ok (x + y) else Err DecryptOverflow)"
proof -
  have ab: "canonical_ct a" "canonical_ct b"
    using assms(2) by (auto simp: add_ciphertexts_def RegevCiphertext_validate_value and_then_Ok_iff split: if_splits)
  then have "c = \<lparr>ct_c1 = map2 add_coefficient (ct_c1 a) (ct_c1 b), ct_c2 = map2 add_coefficient (ct_c2 a) (ct_c2 b)\<rparr>"
    using assms(2) by (simp add: add_ciphertexts_value)
  then have c: "canonical_ct c" using ab by (simp add: canonical_ct_def canonical_map2)
  have val: "decrypt_amount decrypt sk ct = (if digits_value (decrypt sk ct) < 2 ^ 64
      then Ok (of_nat (digits_value (decrypt sk ct))) else Err DecryptOverflow)" if "ct \<in> {a, b, c}" for ct
    using that ab c digits assms(1) by (intro decrypt_amount_value) auto
  have xy: "unat x = digits_value (decrypt sk a)" "unat y = digits_value (decrypt sk b)"
    "x = of_nat (digits_value (decrypt sk a))" "y = of_nat (digits_value (decrypt sk b))"
    using amounts val [of a] val [of b] by (auto simp: unat_of_nat take_bit_nat_eq_self_iff split: if_splits)
  have "digits_value (decrypt sk c) = digits_value (decrypt sk a) + digits_value (decrypt sk b)"
    using digits by (simp add: sum digits_value_add)
  then show ?thesis using val [of c] xy by simp
qed

theorem decrypt_amount_additive_witness:
  "\<exists>ct ct'. add_ciphertexts ct ct = Ok ct' \<and>
     decrypt_amount (\<lambda>_ ct. map unat (ct_c1 ct)) (replicate REGEV_N 0) ct = Ok 3 \<and>
     decrypt_amount (\<lambda>_ ct. map unat (ct_c1 ct)) (replicate REGEV_N 0) ct' = Ok 6"
proof -
  let ?p = "\<lambda>v. v # replicate (REGEV_N - 1) 0"
  let ?ct = "\<lambda>v. \<lparr>ct_c1 = ?p v, ct_c2 = replicate REGEV_N 0\<rparr>"
  let ?dec = "\<lambda>(_ :: u8 list) ct. map unat (ct_c1 ct)"
  let ?sk = "replicate REGEV_N (0 :: u8)"
  have len: "Suc (REGEV_N - Suc 0) = REGEV_N" by (simp add: REGEV_N_def)
  have can: "canonical_ct (?ct 3)" by (simp add: canonical_ct_def canonical_poly_def len) (simp add: REGEV_Q_def)
  have zero: "add_coefficient 0 0 = 0" "add_coefficient 3 3 = 6" by (simp_all add: add_coefficient_def REGEV_Q_def)
  have sum: "add_ciphertexts (?ct 3) (?ct 3) = Ok (?ct 6)"
    by (simp add: add_ciphertexts_value can zip_replicate zero del: One_nat_def)
  have val: "digits_value (replicate n 0) = 0" for n
    by (simp add: digits_value_zero)
  have three: "decrypt_amount ?dec ?sk (?ct 3) = Ok 3"
    using decrypt_amount_value [of ?dec ?sk "?ct 3"] can by (simp add: val)
  have "\<forall>ct \<in> {?ct 3, ?ct 3, ?ct 6}. length (?dec ?sk ct) = REGEV_N \<and> (\<forall>d \<in> set (?dec ?sk ct). d < 256)"
    by (simp add: len)
  moreover have "?dec ?sk (?ct 6) = map2 (+) (?dec ?sk (?ct 3)) (?dec ?sk (?ct 3))"
    by (simp add: zip_replicate)
  ultimately have "decrypt_amount ?dec ?sk (?ct 6) = Ok 6"
    using decrypt_amount_additive [OF _ sum _ _ three three] by simp
  with sum three show ?thesis by blast
qed

end
