(* ===== verification/Balance_State.thy ===== *)
theory Balance_State
  imports Regev Public_State
begin

text \<open>
  The signed balance state of a channel (\<open>src/common/balance_state.rs\<close>): the matrix of balance
  ciphertexts with its sparse wire format, the slot tree and the header hash \<open>h1\<close>, validation, token
  registration and the hash chain of settled transactions.

  The fixed-size arrays of the source are lists; \<open>BalanceState_shape\<close> states their lengths, which
  the Rust types guarantee. Error payload texts are dropped, the variants are kept. Keccak and poseidon
  are parameters.
\<close>

section \<open>Constants and errors\<close>

definition MAX_CHANNEL_MEMBERS :: nat where
  "MAX_CHANNEL_MEMBERS = 1024"

definition MAX_SIG_CLUSTER :: nat where
  "MAX_SIG_CLUSTER = 8"

definition MAX_CHANNEL_TOKENS :: nat where
  "MAX_CHANNEL_TOKENS = 10"

definition BALANCE_SLOT_TREE_HEIGHT :: nat where
  "BALANCE_SLOT_TREE_HEIGHT = 10"

abbreviation BALANCE_STATE_DOMAIN_V2 :: u32 where
  "BALANCE_STATE_DOMAIN_V2 \<equiv> 0x494d4232"

abbreviation BALANCE_SLOT_LEAF_DOMAIN_V2 :: u32 where
  "BALANCE_SLOT_LEAF_DOMAIN_V2 \<equiv> 0x494d5332"

abbreviation BALANCE_STATE_HASH_DOMAIN :: u32 where
  "BALANCE_STATE_HASH_DOMAIN \<equiv> 0x494d4248"

abbreviation TX_LEAF_DOMAIN :: u32 where
  "TX_LEAF_DOMAIN \<equiv> 0x494d544c"

abbreviation SETTLED_TX_CHAIN_DOMAIN :: u32 where
  "SETTLED_TX_CHAIN_DOMAIN \<equiv> 0x494d5443"

abbreviation UNAPPLIED_INCOMING_DOMAIN :: u32 where
  "UNAPPLIED_INCOMING_DOMAIN \<equiv> 0x494d5549"

datatype ChannelError =
    InvalidIdLength | InvalidIdValue | InvalidCloseBinding | InvalidChannelRecord | InvalidSignatureSet
  | InvalidBalanceState | InvalidInterChannelTx

text \<open>\<open>split_u64\<close> of \<open>channel.rs\<close>: the high word first.\<close>

definition split_u64_words :: "u64 \<Rightarrow> u32 list" where
  "split_u64_words v = [ucast (drop_bit 32 v), ucast v]"

section \<open>Token matrices and their wire format\<close>

definition zero_ciphertext :: RegevCiphertext where
  "zero_ciphertext = RegevCiphertext_padding"

definition zero_ciphertext_digest :: "(u32 list \<Rightarrow> u32 list) \<Rightarrow> ('e, Bytes32) outcome" where
  "zero_ciphertext_digest keccak = RegevCiphertext_digest keccak zero_ciphertext"

definition zero_token_row :: "RegevCiphertext list" where
  "zero_token_row = replicate MAX_CHANNEL_TOKENS zero_ciphertext"

text \<open>A \<open>BTreeMap<u8, _>\<close> of the wire format is the list of its entries in key order.\<close>

type_synonym 'a sparse_row = "(u8 \<times> 'a) list"

datatype TokenMatrixError = TooManySlotRows nat | TokenPositionOutOfRange nat

definition sparse_row :: "('a \<Rightarrow> bool) \<Rightarrow> 'a list \<Rightarrow> 'a sparse_row" where
  "sparse_row keep row = map (\<lambda>(t, x). (of_nat t, x)) (filter (\<lambda>(t, x). keep x) (enumerate 0 row))"

function pop_empty_rows :: "'a sparse_row list \<Rightarrow> 'a sparse_row list" where
  "pop_empty_rows sparse =
     (if sparse \<noteq> [] \<and> last sparse = [] then pop_empty_rows (butlast sparse) else sparse)"
  by pat_completeness auto
termination
  by (relation "measure length") auto

declare pop_empty_rows.simps [simp del]

definition load_row :: "'a \<Rightarrow> 'a sparse_row \<Rightarrow> 'a list" where
  "load_row zero row =
     map (\<lambda>t. case map_of row (of_nat t) of Some x \<Rightarrow> x | None \<Rightarrow> zero) [0..<MAX_CHANNEL_TOKENS]"

definition load_rows :: "'a \<Rightarrow> 'a sparse_row list \<Rightarrow> (TokenMatrixError, 'a list list) outcome" where
  "load_rows zero sparse =
     (if length sparse > MAX_CHANNEL_MEMBERS then Err (TooManySlotRows (length sparse))
      else
        and_then (try_map (\<lambda>(slot, row).
            if list_ex (\<lambda>(t, _). unat t \<ge> MAX_CHANNEL_TOKENS) row then Err (TokenPositionOutOfRange slot)
            else Ok (load_row zero row)) (enumerate 0 sparse)) (\<lambda>rows.
          Ok (resize MAX_CHANNEL_MEMBERS (replicate MAX_CHANNEL_TOKENS zero) rows)))"

definition ciphertexts_serialize :: "RegevCiphertext list list \<Rightarrow> RegevCiphertext sparse_row list" where
  "ciphertexts_serialize rows = pop_empty_rows (map (sparse_row (\<lambda>ct. ct \<noteq> zero_ciphertext)) rows)"

definition ciphertexts_deserialize ::
  "RegevCiphertext sparse_row list \<Rightarrow> (TokenMatrixError, RegevCiphertext list list) outcome" where
  "ciphertexts_deserialize sparse = load_rows zero_ciphertext sparse"

definition pending_adds_serialize :: "u32 list list \<Rightarrow> u32 sparse_row list" where
  "pending_adds_serialize rows = pop_empty_rows (map (sparse_row (\<lambda>adds. adds \<noteq> 0)) rows)"

definition pending_adds_deserialize :: "u32 sparse_row list \<Rightarrow> (TokenMatrixError, u32 list list) outcome" where
  "pending_adds_deserialize sparse = load_rows 0 sparse"

section \<open>Balance state\<close>

record BalanceState =
  bs_channel_id :: ChannelId
  bs_member_count :: u8
  bs_delegate_count :: u16
  bs_enc_balances :: "RegevCiphertext list list"
  bs_regev_pk_digests :: "Bytes32 list"
  bs_recipients :: "Address list"
  bs_settled_tx_chain :: Bytes32
  bs_settled_tx_accumulator_root :: Bytes32
  bs_state_version :: u64
  bs_pending_adds :: "u32 list list"
  bs_token_registry :: "u32 list"
  bs_token_count :: u8

definition pad_enc_balances :: "RegevCiphertext list list \<Rightarrow> ('e, RegevCiphertext list list) outcome" where
  "pad_enc_balances active =
     (if length active \<le> MAX_CHANNEL_MEMBERS then Ok (resize MAX_CHANNEL_MEMBERS zero_token_row active) else Panic)"

definition pad_enc_balances_token0 :: "RegevCiphertext list \<Rightarrow> ('e, RegevCiphertext list list) outcome" where
  "pad_enc_balances_token0 active = pad_enc_balances (map (\<lambda>ct. zero_token_row[0 := ct]) active)"

definition pad_pending_adds :: "u32 list list \<Rightarrow> ('e, u32 list list) outcome" where
  "pad_pending_adds active =
     (if length active \<le> MAX_CHANNEL_MEMBERS
      then Ok (resize MAX_CHANNEL_MEMBERS (replicate MAX_CHANNEL_TOKENS 0) active) else Panic)"

definition pad_pending_adds_token0 :: "u32 list \<Rightarrow> ('e, u32 list list) outcome" where
  "pad_pending_adds_token0 active = pad_pending_adds (map (\<lambda>adds. (replicate MAX_CHANNEL_TOKENS 0)[0 := adds]) active)"

definition single_token_registry :: "u32 \<Rightarrow> u32 list" where
  "single_token_registry token_index = (replicate MAX_CHANNEL_TOKENS 0)[0 := token_index]"

definition pad_slots :: "'a \<Rightarrow> 'a list \<Rightarrow> 'a list" where
  "pad_slots d active = map (\<lambda>i. if i < length active then active ! i else d) [0..<MAX_CHANNEL_MEMBERS]"

definition pad_regev_pk_digests :: "Bytes32 list \<Rightarrow> Bytes32 list" where
  "pad_regev_pk_digests active = pad_slots Bytes32_default active"

definition pad_recipients :: "Address list \<Rightarrow> Address list" where
  "pad_recipients active = pad_slots Address_default active"

section \<open>Slot leaves, slot tree and header hash\<close>

definition balance_slot_leaf_preimage :: "Bytes32 \<Rightarrow> Bytes32 list \<Rightarrow> u32 list \<Rightarrow> Address \<Rightarrow> u32 list" where
  "balance_slot_leaf_preimage regev_pk_digest enc_balance_digests pending_adds recipient =
     [BALANCE_SLOT_LEAF_DOMAIN_V2] @ Bytes32_to_u32_vec regev_pk_digest @
     concat (map Bytes32_to_u32_vec enc_balance_digests) @ pending_adds @ Address_to_u32_vec recipient"

definition balance_slot_leaf_hash ::
  "(u64 list \<Rightarrow> PoseidonHashOut) \<Rightarrow> Bytes32 \<Rightarrow> Bytes32 list \<Rightarrow> u32 list \<Rightarrow> Address \<Rightarrow> PoseidonHashOut" where
  "balance_slot_leaf_hash poseidon regev_pk_digest enc_balance_digests pending_adds recipient =
     hash_inputs_u32 poseidon (balance_slot_leaf_preimage regev_pk_digest enc_balance_digests pending_adds recipient)"

definition token_ct_digests :: "(u32 list \<Rightarrow> u32 list) \<Rightarrow> RegevCiphertext list \<Rightarrow> ('e, Bytes32 list) outcome" where
  "token_ct_digests keccak row =
     try_map (\<lambda>t. if row ! t = zero_ciphertext then zero_ciphertext_digest keccak
                  else RegevCiphertext_digest keccak (row ! t)) [0..<MAX_CHANNEL_TOKENS]"

definition is_padding_slot :: "BalanceState \<Rightarrow> nat \<Rightarrow> bool" where
  "is_padding_slot s i \<longleftrightarrow>
     bs_regev_pk_digests s ! i = Bytes32_default \<and> bs_pending_adds s ! i = replicate MAX_CHANNEL_TOKENS 0 \<and>
     bs_recipients s ! i = Address_default \<and> list_all (\<lambda>ct. ct = zero_ciphertext) (bs_enc_balances s ! i)"

definition slot_leaf_hashes ::
  "(u64 list \<Rightarrow> PoseidonHashOut) \<Rightarrow> (u32 list \<Rightarrow> u32 list) \<Rightarrow> BalanceState \<Rightarrow> ('e, PoseidonHashOut list) outcome" where
  "slot_leaf_hashes poseidon keccak s =
     (if length (bs_enc_balances s) \<noteq> MAX_CHANNEL_MEMBERS then Panic
      else if length (bs_pending_adds s) \<noteq> MAX_CHANNEL_MEMBERS then Panic
      else
        and_then (try_map (\<lambda>_. zero_ciphertext_digest keccak) [0..<MAX_CHANNEL_TOKENS]) (\<lambda>zero_row_digests.
        let padding_leaf = balance_slot_leaf_hash poseidon Bytes32_default zero_row_digests
              (replicate MAX_CHANNEL_TOKENS 0) Address_default
        in try_map (\<lambda>i.
             if is_padding_slot s i then Ok padding_leaf
             else
               and_then (token_ct_digests keccak (bs_enc_balances s ! i)) (\<lambda>digests.
                 Ok (balance_slot_leaf_hash poseidon (bs_regev_pk_digests s ! i) digests
                       (bs_pending_adds s ! i) (bs_recipients s ! i)))) [0..<MAX_CHANNEL_MEMBERS]))"

text \<open>The slot tree holds hashes, and a hash is its own leaf hash.\<close>

definition slot_tree ::
  "(u64 list \<Rightarrow> PoseidonHashOut) \<Rightarrow> (u32 list \<Rightarrow> u32 list) \<Rightarrow> BalanceState
     \<Rightarrow> ('e, (PoseidonHashOut, PoseidonHashOut) IncrementalMerkleTree) outcome" where
  "slot_tree poseidon keccak s =
     and_then (slot_leaf_hashes poseidon keccak s) (\<lambda>leaves.
       try_fold (\<lambda>tree leaf. Incremental_push (two_to_one poseidon) (\<lambda>h. h) leaf tree)
         (Incremental_new (two_to_one poseidon) (\<lambda>h. h) PoseidonHashOut_default BALANCE_SLOT_TREE_HEIGHT) leaves)"

definition hash_pairs :: "('h \<Rightarrow> 'h \<Rightarrow> 'h) \<Rightarrow> 'h list \<Rightarrow> ('e, 'h list) outcome" where
  "hash_pairs H level =
     try_map (\<lambda>pair. if length pair < 2 then Panic else Ok (H (pair ! 0) (pair ! 1))) (chunks 2 level)"

lemma length_chunks_two: "length (chunks 2 xs) = (length xs + 1) div 2"
proof (induction "length xs" arbitrary: xs rule: less_induct)
  case less
  show ?case
  proof (cases "xs = []")
    case False
    then have "length (chunks 2 (drop 2 xs)) = (length (drop 2 xs) + 1) div 2" by (intro less) simp
    moreover have "0 < length xs" using False by simp
    then have "Suc (Suc (length xs - 2) div 2) = Suc (length xs) div 2" by presburger
    ultimately show ?thesis using False by (subst chunks.simps) simp
  qed simp
qed

function level_loop :: "('h \<Rightarrow> 'h \<Rightarrow> 'h) \<Rightarrow> 'h list \<Rightarrow> ('e, 'h) outcome" where
  "level_loop H level =
     (if length level > 1 then
        (case hash_pairs H level :: ('e, 'h list) outcome of
           Ok level' \<Rightarrow> level_loop H level'
         | Err e \<Rightarrow> Err e
         | Panic \<Rightarrow> Panic)
      else if level = [] then Panic else Ok (level ! 0))"
  by pat_completeness auto
termination
  by (relation "measure (\<lambda>(H, level). length level)")
    (auto simp: hash_pairs_def try_map_Ok_iff length_chunks_two dest!: list_all2_lengthD)

declare level_loop.simps [simp del]

definition slot_tree_root ::
  "(u64 list \<Rightarrow> PoseidonHashOut) \<Rightarrow> (u32 list \<Rightarrow> u32 list) \<Rightarrow> BalanceState \<Rightarrow> ('e, PoseidonHashOut) outcome" where
  "slot_tree_root poseidon keccak s =
     and_then (slot_leaf_hashes poseidon keccak s) (level_loop (two_to_one poseidon))"

definition h1_words :: "BalanceState \<Rightarrow> PoseidonHashOut \<Rightarrow> u64 list" where
  "h1_words s root =
     [ucast BALANCE_STATE_DOMAIN_V2, ucast (ChannelId_to_u32_vec (bs_channel_id s) ! 0), ucast (bs_member_count s),
      ucast (bs_delegate_count s), ucast (bs_token_count s)] @
     map ucast (bs_token_registry s) @ hash_elements root @
     map ucast (Bytes32_to_u32_vec (bs_settled_tx_chain s)) @
     map ucast (Bytes32_to_u32_vec (bs_settled_tx_accumulator_root s)) @
     map ucast (split_u64_words (bs_state_version s))"

definition h1_header_preimage ::
  "(u64 list \<Rightarrow> PoseidonHashOut) \<Rightarrow> (u32 list \<Rightarrow> u32 list) \<Rightarrow> BalanceState \<Rightarrow> ('e, u64 list) outcome" where
  "h1_header_preimage poseidon keccak s =
     and_then (slot_tree_root poseidon keccak s) (\<lambda>root. Ok (h1_words s root))"

definition h1 ::
  "(u64 list \<Rightarrow> PoseidonHashOut) \<Rightarrow> (u32 list \<Rightarrow> u32 list) \<Rightarrow> BalanceState \<Rightarrow> ('e, Bytes32) outcome" where
  "h1 poseidon keccak s =
     and_then (h1_header_preimage poseidon keccak s) (\<lambda>preimage.
       Bytes32_from_hash_out (hash_inputs_u64 poseidon preimage))"

section \<open>Validation\<close>

text \<open>A \<open>for\<close> loop without state whose body may fail.\<close>

fun try_each :: "('x \<Rightarrow> ('e, unit) outcome) \<Rightarrow> 'x list \<Rightarrow> ('e, unit) outcome" where
  "try_each f [] = Ok ()"
| "try_each f (x # xs) = and_then (f x) (\<lambda>_. try_each f xs)"

lemma try_each_Ok_iff: "try_each f xs = Ok () \<longleftrightarrow> (\<forall>x \<in> set xs. f x = Ok ())"
  by (induction xs) auto

lemma try_each_enumerate:
  "try_each (\<lambda>(i, x). f i x) (enumerate n xs) = Ok () \<longleftrightarrow> (\<forall>i < length xs. f (n + i) (xs ! i) = Ok ())"
  by (induction xs arbitrary: n) (auto simp: less_Suc_eq_0_disj)

definition validate_ciphertext :: "nat \<Rightarrow> nat \<Rightarrow> nat \<Rightarrow> nat \<times> RegevCiphertext \<Rightarrow> (ChannelError, unit) outcome" where
  "validate_ciphertext active token_count index = (\<lambda>(t, ct).
     and_then (map_err (\<lambda>_. InvalidBalanceState) (RegevCiphertext_validate ct)) (\<lambda>_.
     if index \<ge> active \<and> ct \<noteq> zero_ciphertext then Err InvalidBalanceState
     else if t \<ge> token_count \<and> ct \<noteq> zero_ciphertext then Err InvalidBalanceState
     else Ok ()))"

definition validate_recipient :: "nat \<Rightarrow> nat \<times> Address \<Rightarrow> (ChannelError, unit) outcome" where
  "validate_recipient active = (\<lambda>(index, r).
     if index < active \<and> r = Address_default then Err InvalidBalanceState
     else if index \<ge> active \<and> r \<noteq> Address_default then Err InvalidBalanceState
     else Ok ())"

definition validate_adds :: "nat \<Rightarrow> nat \<Rightarrow> nat \<Rightarrow> nat \<times> u32 \<Rightarrow> (ChannelError, unit) outcome" where
  "validate_adds active token_count index = (\<lambda>(t, adds).
     if adds > MAX_HOMO_ADDS_BEFORE_REFRESH then Err InvalidBalanceState
     else if index \<ge> active \<and> adds \<noteq> 0 then Err InvalidBalanceState
     else if t \<ge> token_count \<and> adds \<noteq> 0 then Err InvalidBalanceState
     else Ok ())"

definition BalanceState_validate :: "BalanceState \<Rightarrow> (ChannelError, unit) outcome" where
  "BalanceState_validate s =
     (if length (bs_enc_balances s) \<noteq> MAX_CHANNEL_MEMBERS \<or> length (bs_pending_adds s) \<noteq> MAX_CHANNEL_MEMBERS
      then Err InvalidBalanceState
      else
        let token_count = unat (bs_token_count s) in
        if \<not> (1 \<le> token_count \<and> token_count \<le> MAX_CHANNEL_TOKENS) then Err InvalidBalanceState
        else if list_ex (\<lambda>i. list_ex (\<lambda>j. bs_token_registry s ! i = bs_token_registry s ! j) [Suc i..<token_count])
                  [0..<token_count] then Err InvalidBalanceState
        else if list_ex (\<lambda>index. index \<noteq> 0) (drop token_count (bs_token_registry s)) then Err InvalidBalanceState
        else
          let count = unat (bs_member_count s) in
          if count < 2 \<or> count > MAX_SIG_CLUSTER then Err InvalidBalanceState
          else
            let active = count + unat (bs_delegate_count s) in
            if \<not> active \<le> MAX_CHANNEL_MEMBERS then Err InvalidBalanceState
            else
              and_then (try_each (\<lambda>(index, row). try_each (validate_ciphertext active token_count index) (enumerate 0 row))
                (enumerate 0 (bs_enc_balances s))) (\<lambda>_.
              and_then (try_each (\<lambda>(index, d). if index \<ge> active \<and> d \<noteq> Bytes32_default then Err InvalidBalanceState else Ok ())
                (enumerate 0 (bs_regev_pk_digests s))) (\<lambda>_.
              and_then (try_each (validate_recipient active) (enumerate 0 (bs_recipients s))) (\<lambda>_.
                try_each (\<lambda>(index, row). try_each (validate_adds active token_count index) (enumerate 0 row))
                  (enumerate 0 (bs_pending_adds s))))))"

section \<open>Token registration\<close>

text \<open>\<open>&mut self\<close> methods return the updated state with their result.\<close>

definition apply_token_register :: "u32 \<Rightarrow> BalanceState \<Rightarrow> (ChannelError, BalanceState) outcome" where
  "apply_token_register token_index s =
     (let count = unat (bs_token_count s) in
      if count \<ge> MAX_CHANNEL_TOKENS then Err InvalidBalanceState
      else if list_ex (\<lambda>x. x = token_index) (take count (bs_token_registry s)) then Err InvalidBalanceState
      else Ok (s\<lparr>bs_token_registry := (bs_token_registry s)[count := token_index],
                bs_token_count := bs_token_count s + 1, bs_state_version := bs_state_version s + 1\<rparr>))"

definition verify_token_register_transition ::
  "BalanceState \<Rightarrow> BalanceState \<Rightarrow> u32 \<Rightarrow> (ChannelError, unit) outcome" where
  "verify_token_register_transition prev_state next_state token_index =
     and_then (apply_token_register token_index prev_state) (\<lambda>expected.
       if next_state \<noteq> expected then Err InvalidBalanceState else Ok ())"

section \<open>State hash, transaction leaves and the settled chain\<close>

definition unapplied_incoming_leaf :: "(u32 list \<Rightarrow> u32 list) \<Rightarrow> Bytes32 \<Rightarrow> ('e, Bytes32) outcome" where
  "unapplied_incoming_leaf keccak tx_hash =
     hash_words keccak ([UNAPPLIED_INCOMING_DOMAIN] @ Bytes32_to_u32_vec tx_hash)"

definition balance_state_hash :: "(u32 list \<Rightarrow> u32 list) \<Rightarrow> Bytes32 \<Rightarrow> Bytes32 \<Rightarrow> ('e, Bytes32) outcome" where
  "balance_state_hash keccak hash1 hash2 =
     hash_words keccak ([BALANCE_STATE_HASH_DOMAIN] @ Bytes32_to_u32_vec hash1 @ Bytes32_to_u32_vec hash2)"

definition tx_leaf_hash ::
  "(u32 list \<Rightarrow> u32 list) \<Rightarrow> Bytes32 \<Rightarrow> Bytes32 \<Rightarrow> Bytes32 \<Rightarrow> Bytes32 \<Rightarrow> Bytes32 \<Rightarrow> ('e, Bytes32) outcome" where
  "tx_leaf_hash keccak source_pk_g sender_delta_digest receiver_pk_g receiver_regev_pk_digest receiver_delta_digest =
     and_then (hash_words keccak ([TX_LEAF_DOMAIN] @ Bytes32_to_u32_vec source_pk_g @
         Bytes32_to_u32_vec sender_delta_digest)) (\<lambda>sender_wing.
     and_then (hash_words keccak ([TX_LEAF_DOMAIN] @ Bytes32_to_u32_vec receiver_pk_g @
         Bytes32_to_u32_vec receiver_regev_pk_digest @ Bytes32_to_u32_vec receiver_delta_digest)) (\<lambda>receiver_wing.
       hash_words keccak (Bytes32_to_u32_vec sender_wing @ Bytes32_to_u32_vec receiver_wing)))"

definition settled_tx_chain_push :: "(u32 list \<Rightarrow> u32 list) \<Rightarrow> Bytes32 \<Rightarrow> Bytes32 \<Rightarrow> ('e, Bytes32) outcome" where
  "settled_tx_chain_push keccak chain leaf =
     hash_words keccak ([SETTLED_TX_CHAIN_DOMAIN] @ Bytes32_to_u32_vec chain @ Bytes32_to_u32_vec leaf)"

section \<open>Wire format of the token matrices\<close>

definition full_matrix :: "'a list list \<Rightarrow> bool" where
  "full_matrix rows \<longleftrightarrow> length rows = MAX_CHANNEL_MEMBERS \<and> (\<forall>row \<in> set rows. length row = MAX_CHANNEL_TOKENS)"

lemma map_of_enumerate_filter:
  "map_of (filter (\<lambda>(t, x). keep x) (enumerate n row)) t =
     (if n \<le> t \<and> t < n + length row \<and> keep (row ! (t - n)) then Some (row ! (t - n)) else None)"
  by (induction row arbitrary: n) (auto simp: nth_Cons' Suc_diff_le not_le not_less less_Suc_eq_le le_Suc_eq)

lemma map_of_key_cast:
  assumes "\<forall>(t, x) \<in> set ps. t < 256" "t < 256"
  shows "map_of (map (\<lambda>(t, x). (of_nat t :: u8, x)) ps) (of_nat t) = map_of ps t"
proof -
  have "(of_nat k :: u8) = of_nat t \<Longrightarrow> k = t" if "k < 256" for k
    using that assms(2) by (auto simp: word_of_nat_eq_iff take_bit_nat_def)
  with assms(1) show ?thesis by (induction ps) (simp, fastforce)
qed

lemma sparse_row_keys:
  assumes "length row = MAX_CHANNEL_TOKENS"
  shows "\<not> list_ex (\<lambda>(t, _). unat t \<ge> MAX_CHANNEL_TOKENS) (sparse_row keep row)"
  using assms by (auto simp: sparse_row_def list_ex_iff in_set_enumerate_eq MAX_CHANNEL_TOKENS_def unat_of_nat take_bit_nat_def)

lemma load_sparse_row:
  assumes "length row = MAX_CHANNEL_TOKENS"
  shows "load_row zero (sparse_row (\<lambda>x. x \<noteq> zero) row) = row"
proof (rule nth_equalityI)
  fix t assume "t < length (load_row zero (sparse_row (\<lambda>x. x \<noteq> zero) row))"
  then have t: "t < length row" using assms by (simp add: load_row_def)
  have "\<forall>(t, x) \<in> set (filter (\<lambda>(t, x). x \<noteq> zero) (enumerate 0 row)). t < 256" "t < 256"
    using t assms by (auto simp: in_set_enumerate_eq MAX_CHANNEL_TOKENS_def)
  from map_of_key_cast [OF this]
  have "map_of (sparse_row (\<lambda>x. x \<noteq> zero) row) (of_nat t) = (if row ! t \<noteq> zero then Some (row ! t) else None)"
    using t map_of_enumerate_filter [of "\<lambda>x. x \<noteq> zero" 0 row t] by (simp add: sparse_row_def)
  then show "load_row zero (sparse_row (\<lambda>x. x \<noteq> zero) row) ! t = row ! t"
    using t assms by (simp add: load_row_def)
qed (simp add: load_row_def assms)

lemma pop_empty_rows_append: "\<exists>k. sparse = pop_empty_rows sparse @ replicate k []"
proof (induction sparse rule: pop_empty_rows.induct)
  case (1 sparse)
  show ?case
  proof (cases "sparse \<noteq> [] \<and> last sparse = []")
    case True
    from 1 [OF this] obtain k where "butlast sparse = pop_empty_rows (butlast sparse) @ replicate k []" by blast
    moreover have "sparse = butlast sparse @ [[]]" "pop_empty_rows sparse = pop_empty_rows (butlast sparse)"
      using True append_butlast_last_id [of sparse] by (simp_all add: pop_empty_rows.simps [of sparse])
    ultimately have "sparse = pop_empty_rows sparse @ replicate (Suc k) []"
      by (metis append.assoc replicate_append_same replicate_Suc)
    then show ?thesis by blast
  next
    case False
    then have "pop_empty_rows sparse = sparse" by (simp only: pop_empty_rows.simps [of sparse] if_False)
    then show ?thesis by (intro exI [of _ 0]) simp
  qed
qed

lemma try_map_rows:
  "\<forall>row \<in> set sparse. \<not> bad row \<Longrightarrow>
   try_map (\<lambda>(slot, row). if bad row then Err (e slot) else Ok (f row)) (enumerate n sparse) = Ok (map f sparse)"
  by (induction sparse arbitrary: n) auto

lemma load_rows_round_trip:
  assumes "full_matrix rows"
  shows "load_rows zero (pop_empty_rows (map (sparse_row (\<lambda>x. x \<noteq> zero)) rows)) = Ok rows"
proof -
  let ?sparse = "map (sparse_row (\<lambda>x. x \<noteq> zero)) rows"
  obtain popped k where popped: "pop_empty_rows ?sparse = popped" and k: "?sparse = popped @ replicate k []"
    using pop_empty_rows_append by metis
  have len: "length popped + k = MAX_CHANNEL_MEMBERS"
    using assms arg_cong [OF k, of length] by (simp add: full_matrix_def)
  have "\<forall>row \<in> set (popped @ replicate k []). \<not> list_ex (\<lambda>(t, _). unat t \<ge> MAX_CHANNEL_TOKENS) row"
    unfolding k [symmetric] using assms by (simp add: full_matrix_def sparse_row_keys)
  then have "\<forall>row \<in> set popped. \<not> list_ex (\<lambda>(t, _). unat t \<ge> MAX_CHANNEL_TOKENS) row" by simp
  note load = try_map_rows [OF this, of TokenPositionOutOfRange "load_row zero" 0]
  have "map (load_row zero) ?sparse = rows"
    using assms by (intro nth_equalityI) (simp_all add: full_matrix_def load_sparse_row)
  moreover have "load_row zero [] = replicate MAX_CHANNEL_TOKENS zero"
    by (simp add: load_row_def map_replicate_const)
  ultimately have rows: "rows = map (load_row zero) popped @ replicate k (replicate MAX_CHANNEL_TOKENS zero)"
    by (simp add: k)
  have "MAX_CHANNEL_MEMBERS - length popped = k" using len by simp
  then show ?thesis using load len unfolding popped by (simp add: load_rows_def resize_def rows)
qed

lemma load_rows_full:
  assumes "load_rows zero sparse = Ok rows"
  shows "full_matrix rows"
proof -
  from assms obtain loaded where len: "length sparse \<le> MAX_CHANNEL_MEMBERS"
    and loaded: "list_all2 (\<lambda>(slot, row) r. (if list_ex (\<lambda>(t, _). unat t \<ge> MAX_CHANNEL_TOKENS) row
        then Err (TokenPositionOutOfRange slot) else Ok (load_row zero row)) = Ok r) (enumerate 0 sparse) loaded"
    and rows: "rows = resize MAX_CHANNEL_MEMBERS (replicate MAX_CHANNEL_TOKENS zero) loaded"
    by (auto simp: load_rows_def try_map_Ok_iff case_prod_unfold split: if_splits)
  from loaded have "\<forall>row \<in> set loaded. length row = MAX_CHANNEL_TOKENS"
    by (induction rule: list_all2_induct) (auto simp: load_row_def split: if_splits)
  with list_all2_lengthD [OF loaded] len show ?thesis
    by (auto simp: rows full_matrix_def resize_def)
qed

text \<open>What the reader promises for a list of sparse rows, on every branch.\<close>

definition outside_position :: "'a sparse_row \<Rightarrow> bool" where
  "outside_position row \<longleftrightarrow> (\<exists>(t, x) \<in> set row. MAX_CHANNEL_TOKENS \<le> unat t)"

definition matrix_read :: "'a \<Rightarrow> 'a sparse_row list \<Rightarrow> (TokenMatrixError, 'a list list) outcome \<Rightarrow> bool" where
  "matrix_read zero sparse out \<longleftrightarrow>
     (case out of
        Ok rows \<Rightarrow> length sparse \<le> MAX_CHANNEL_MEMBERS \<and> (\<forall>row \<in> set sparse. \<not> outside_position row) \<and> full_matrix rows \<and>
          (\<forall>i < MAX_CHANNEL_MEMBERS. \<forall>t < MAX_CHANNEL_TOKENS. rows ! i ! t =
             (if i < length sparse then case map_of (sparse ! i) (of_nat t) of Some x \<Rightarrow> x | None \<Rightarrow> zero else zero))
      | Err (TooManySlotRows n) \<Rightarrow> n = length sparse \<and> MAX_CHANNEL_MEMBERS < n
      | Err (TokenPositionOutOfRange i) \<Rightarrow> length sparse \<le> MAX_CHANNEL_MEMBERS \<and> i < length sparse \<and>
          outside_position (sparse ! i) \<and> (\<forall>j < i. \<not> outside_position (sparse ! j))
      | Panic \<Rightarrow> False)"

lemma try_map_first_bad:
  "try_map (\<lambda>(slot, row). if bad row then Err (e slot) else Ok (f row)) (enumerate n sparse) =
   (case find (\<lambda>i. bad (sparse ! i)) [0..<length sparse] of Some i \<Rightarrow> Err (e (n + i)) | None \<Rightarrow> Ok (map f sparse))"
proof (induction sparse arbitrary: n)
  case (Cons row sparse)
  have "find (\<lambda>i. bad ((row # sparse) ! i)) [0..<length (row # sparse)] =
      (if bad row then Some 0 else map_option Suc (find (\<lambda>i. bad (sparse ! i)) [0..<length sparse]))"
  proof -
    have "find (\<lambda>i. bad ((row # sparse) ! i)) (map Suc xs) = map_option Suc (find (\<lambda>i. bad (sparse ! i)) xs)" for xs
      by (induction xs) auto
    moreover have "[0..<length (row # sparse)] = 0 # map Suc [0..<length sparse]" by (simp add: upt_conv_Cons map_Suc_upt del: upt_Suc)
    ultimately show ?thesis by (simp del: upt_Suc)
  qed
  then show ?case by (simp add: Cons.IH del: upt_Suc split: option.splits)
qed simp

lemma matrix_read_load: "matrix_read zero sparse (load_rows zero sparse)"
proof (cases "length sparse \<le> MAX_CHANNEL_MEMBERS")
  case len: True
  have bad: "list_ex (\<lambda>(t, _). unat t \<ge> MAX_CHANNEL_TOKENS) row = outside_position row" for row :: "'a sparse_row"
    by (auto simp: outside_position_def list_ex_iff)
  note load = try_map_first_bad [of outside_position TokenPositionOutOfRange "load_row zero" 0 sparse]
  show ?thesis
  proof (cases "find (\<lambda>i. outside_position (sparse ! i)) [0..<length sparse]")
    case None
    then have none: "\<forall>row \<in> set sparse. \<not> outside_position row" by (auto simp: find_None_iff in_set_conv_nth)
    have ok: "load_rows zero sparse = Ok (resize MAX_CHANNEL_MEMBERS (replicate MAX_CHANNEL_TOKENS zero) (map (load_row zero) sparse))"
      using len load None by (simp add: load_rows_def bad)
    then show ?thesis
      using len none load_rows_full [OF ok] by (auto simp: matrix_read_def resize_def nth_append load_row_def)
  next
    case (Some i)
    then have "load_rows zero sparse = Err (TokenPositionOutOfRange i)" using len load by (simp add: load_rows_def bad)
    with Some len show ?thesis by (auto simp: matrix_read_def find_Some_iff)
  qed
qed (simp add: load_rows_def matrix_read_def)

section \<open>Well-formed balance states\<close>

text \<open>The lengths of the fixed-size arrays.\<close>

definition BalanceState_shape :: "BalanceState \<Rightarrow> bool" where
  "BalanceState_shape s \<longleftrightarrow>
     length (bs_token_registry s) = MAX_CHANNEL_TOKENS \<and>
     length (bs_regev_pk_digests s) = MAX_CHANNEL_MEMBERS \<and> length (bs_recipients s) = MAX_CHANNEL_MEMBERS \<and>
     (\<forall>row \<in> set (bs_enc_balances s). length row = MAX_CHANNEL_TOKENS) \<and>
     (\<forall>row \<in> set (bs_pending_adds s). length row = MAX_CHANNEL_TOKENS)"

definition active_slots :: "BalanceState \<Rightarrow> nat" where
  "active_slots s = unat (bs_member_count s) + unat (bs_delegate_count s)"

definition tokens :: "BalanceState \<Rightarrow> nat" where
  "tokens s = unat (bs_token_count s)"

definition registry_ok :: "BalanceState \<Rightarrow> bool" where
  "registry_ok s \<longleftrightarrow> 1 \<le> tokens s \<and> tokens s \<le> MAX_CHANNEL_TOKENS \<and>
     distinct (take (tokens s) (bs_token_registry s)) \<and> (\<forall>x \<in> set (drop (tokens s) (bs_token_registry s)). x = 0)"

definition slots_ok :: "BalanceState \<Rightarrow> bool" where
  "slots_ok s \<longleftrightarrow> 2 \<le> unat (bs_member_count s) \<and> unat (bs_member_count s) \<le> MAX_SIG_CLUSTER \<and>
     active_slots s \<le> MAX_CHANNEL_MEMBERS \<and>
     (\<forall>i < MAX_CHANNEL_MEMBERS. active_slots s \<le> i \<longrightarrow> bs_regev_pk_digests s ! i = Bytes32_default) \<and>
     (\<forall>i < MAX_CHANNEL_MEMBERS. bs_recipients s ! i = Address_default \<longleftrightarrow> active_slots s \<le> i)"

definition balances_ok :: "BalanceState \<Rightarrow> bool" where
  "balances_ok s \<longleftrightarrow>
     length (bs_enc_balances s) = MAX_CHANNEL_MEMBERS \<and> length (bs_pending_adds s) = MAX_CHANNEL_MEMBERS \<and>
     (\<forall>i < MAX_CHANNEL_MEMBERS. \<forall>t < MAX_CHANNEL_TOKENS.
        canonical_ct (bs_enc_balances s ! i ! t) \<and> bs_pending_adds s ! i ! t \<le> MAX_HOMO_ADDS_BEFORE_REFRESH \<and>
        (active_slots s \<le> i \<or> tokens s \<le> t \<longrightarrow>
           bs_enc_balances s ! i ! t = zero_ciphertext \<and> bs_pending_adds s ! i ! t = 0))"

definition BalanceState_ok :: "BalanceState \<Rightarrow> bool" where
  "BalanceState_ok s \<longleftrightarrow> registry_ok s \<and> slots_ok s \<and> balances_ok s"

lemma try_enumerate_value:
  assumes "\<And>i x. f (i, x) = (if P i x then Ok () else Err e)"
  shows "try_each f (enumerate 0 xs) = (if \<forall>i < length xs. P i (xs ! i) then Ok () else Err e)"
proof -
  have "try_each f (enumerate n xs) = (if \<forall>i < length xs. P (n + i) (xs ! i) then Ok () else Err e)" for n
    by (induction xs arbitrary: n) (simp_all add: assms All_less_Suc2)
  from this [of 0] show ?thesis by simp
qed

lemma validate_ciphertexts_value:
  "try_each (\<lambda>(index, row). try_each (validate_ciphertext active token_count index) (enumerate 0 row)) (enumerate 0 rows) =
   (if \<forall>i < length rows. \<forall>t < length (rows ! i). canonical_ct (rows ! i ! t) \<and>
        (active \<le> i \<or> token_count \<le> t \<longrightarrow> rows ! i ! t = zero_ciphertext)
    then Ok () else Err InvalidBalanceState)"
proof (rule try_enumerate_value)
  fix i row
  have "try_each (validate_ciphertext active token_count i) (enumerate 0 row) =
      (if \<forall>t < length row. canonical_ct (row ! t) \<and> (active \<le> i \<or> token_count \<le> t \<longrightarrow> row ! t = zero_ciphertext)
       then Ok () else Err InvalidBalanceState)"
    by (rule try_enumerate_value) (auto simp: validate_ciphertext_def RegevCiphertext_validate_value)
  then show "(\<lambda>(index, row). try_each (validate_ciphertext active token_count index) (enumerate 0 row)) (i, row) =
      (if \<forall>t < length row. canonical_ct (row ! t) \<and> (active \<le> i \<or> token_count \<le> t \<longrightarrow> row ! t = zero_ciphertext)
       then Ok () else Err InvalidBalanceState)" by simp
qed

lemma validate_adds_value:
  "try_each (\<lambda>(index, row). try_each (validate_adds active token_count index) (enumerate 0 row)) (enumerate 0 rows) =
   (if \<forall>i < length rows. \<forall>t < length (rows ! i). rows ! i ! t \<le> MAX_HOMO_ADDS_BEFORE_REFRESH \<and>
        (active \<le> i \<or> token_count \<le> t \<longrightarrow> rows ! i ! t = 0)
    then Ok () else Err InvalidBalanceState)"
proof (rule try_enumerate_value)
  fix i row
  have "try_each (validate_adds active token_count i) (enumerate 0 row) =
      (if \<forall>t < length row. row ! t \<le> MAX_HOMO_ADDS_BEFORE_REFRESH \<and> (active \<le> i \<or> token_count \<le> t \<longrightarrow> row ! t = 0)
       then Ok () else Err InvalidBalanceState)"
    by (rule try_enumerate_value) (auto simp: validate_adds_def not_less)
  then show "(\<lambda>(index, row). try_each (validate_adds active token_count index) (enumerate 0 row)) (i, row) =
      (if \<forall>t < length row. row ! t \<le> MAX_HOMO_ADDS_BEFORE_REFRESH \<and> (active \<le> i \<or> token_count \<le> t \<longrightarrow> row ! t = 0)
       then Ok () else Err InvalidBalanceState)" by simp
qed

lemma validate_recipients_value:
  "try_each (validate_recipient active) (enumerate 0 rs) =
     (if \<forall>i < length rs. rs ! i = Address_default \<longleftrightarrow> active \<le> i then Ok () else Err InvalidBalanceState)"
  by (rule try_enumerate_value) (auto simp: validate_recipient_def)

lemma validate_digests_value:
  "try_each (\<lambda>(index, d). if index \<ge> active \<and> d \<noteq> Bytes32_default then Err InvalidBalanceState else Ok ()) (enumerate 0 ds) =
     (if \<forall>i < length ds. active \<le> i \<longrightarrow> ds ! i = Bytes32_default then Ok () else Err InvalidBalanceState)"
  by (rule try_enumerate_value) auto

lemmas validate_values =
  validate_ciphertexts_value validate_adds_value validate_recipients_value validate_digests_value

lemma distinct_prefix:
  assumes "n \<le> length xs"
  shows "list_ex (\<lambda>i. list_ex (\<lambda>j. xs ! i = xs ! j) [Suc i..<n]) [0..<n] \<longleftrightarrow> \<not> distinct (take n xs)"
proof -
  have "distinct (take n xs) \<longleftrightarrow> (\<forall>i < n. \<forall>j < n. i \<noteq> j \<longrightarrow> xs ! i \<noteq> xs ! j)"
    using assms by (simp add: distinct_conv_nth)
  also have "\<dots> \<longleftrightarrow> (\<forall>i < n. \<forall>j < n. i < j \<longrightarrow> xs ! i \<noteq> xs ! j)"
    by (metis nat_neq_iff)
  finally show ?thesis unfolding list_ex_iff set_upt by (metis Suc_le_eq atLeastLessThan_iff le0 less_trans)
qed

lemma BalanceState_validate_value:
  assumes "BalanceState_shape s"
  shows "BalanceState_validate s = (if BalanceState_ok s then Ok () else Err InvalidBalanceState)"
proof (cases "length (bs_enc_balances s) = MAX_CHANNEL_MEMBERS \<and> length (bs_pending_adds s) = MAX_CHANNEL_MEMBERS \<and>
    1 \<le> tokens s \<and> tokens s \<le> MAX_CHANNEL_TOKENS")
  case True
  have rows: "length (bs_enc_balances s ! i) = MAX_CHANNEL_TOKENS" "length (bs_pending_adds s ! i) = MAX_CHANNEL_TOKENS"
    if "i < MAX_CHANNEL_MEMBERS" for i
    using assms True that by (auto simp: BalanceState_shape_def)
  have lens: "length (bs_token_registry s) = MAX_CHANNEL_TOKENS" "length (bs_regev_pk_digests s) = MAX_CHANNEL_MEMBERS"
    "length (bs_recipients s) = MAX_CHANNEL_MEMBERS"
    using assms by (simp_all add: BalanceState_shape_def)
  have dist: "list_ex (\<lambda>i. list_ex (\<lambda>j. bs_token_registry s ! i = bs_token_registry s ! j) [Suc i..<tokens s])
      [0..<tokens s] \<longleftrightarrow> \<not> distinct (take (tokens s) (bs_token_registry s))"
    using True lens by (intro distinct_prefix) simp
  have zero: "list_ex (\<lambda>index. index \<noteq> 0) xs \<longleftrightarrow> \<not> (\<forall>x \<in> set xs. x = 0)" for xs :: "u32 list"
    by (simp add: list_ex_iff)
  have "BalanceState_validate s =
      (if registry_ok s \<and> slots_ok s \<and> balances_ok s then Ok () else Err InvalidBalanceState)"
    using True lens rows
    unfolding BalanceState_validate_def validate_values registry_ok_def slots_ok_def balances_ok_def
      tokens_def [symmetric] active_slots_def [symmetric] Let_def dist zero
    by (simp split del: if_split) auto
  then show ?thesis by (simp add: BalanceState_ok_def)
next
  case False
  then show ?thesis
    by (auto simp: BalanceState_validate_def Let_def tokens_def BalanceState_ok_def registry_ok_def balances_ok_def)
qed

section \<open>Token registration on well-formed states\<close>

lemma apply_token_register_Ok_iff:
  "apply_token_register x s = Ok s' \<longleftrightarrow>
     tokens s < MAX_CHANNEL_TOKENS \<and> x \<notin> set (take (tokens s) (bs_token_registry s)) \<and>
     s' = s\<lparr>bs_token_registry := (bs_token_registry s)[tokens s := x],
            bs_token_count := bs_token_count s + 1, bs_state_version := bs_state_version s + 1\<rparr>"
  by (auto simp: apply_token_register_def tokens_def list_ex_iff Let_def)

lemma apply_token_register_no_panic: "apply_token_register x s \<noteq> Panic" "apply_token_register x s = Err e \<Longrightarrow> e = InvalidBalanceState"
  by (auto simp: apply_token_register_def Let_def split: if_splits)

lemma apply_token_register_ok:
  assumes "BalanceState_shape s" "BalanceState_ok s" "apply_token_register x s = Ok s'"
  shows "BalanceState_shape s' \<and> BalanceState_ok s' \<and> tokens s' = Suc (tokens s) \<and>
    take (tokens s') (bs_token_registry s') = take (tokens s) (bs_token_registry s) @ [x]"
proof -
  from assms(3) have lt: "tokens s < MAX_CHANNEL_TOKENS" and new: "x \<notin> set (take (tokens s) (bs_token_registry s))"
    and s': "s' = s\<lparr>bs_token_registry := (bs_token_registry s)[tokens s := x],
            bs_token_count := bs_token_count s + 1, bs_state_version := bs_state_version s + 1\<rparr>"
    by (simp_all add: apply_token_register_Ok_iff)
  have len: "length (bs_token_registry s) = MAX_CHANNEL_TOKENS" using assms(1) by (simp add: BalanceState_shape_def)
  have "unat (bs_token_count s) < 10" using lt by (simp add: tokens_def MAX_CHANNEL_TOKENS_def)
  then have "unat (bs_token_count s + 1) = Suc (unat (bs_token_count s))" by (simp add: unat_plus_if')
  then have count: "tokens s' = Suc (tokens s)" by (simp add: tokens_def s')
  have active: "active_slots s' = active_slots s" by (simp add: active_slots_def s')
  have prefix: "take (tokens s') (bs_token_registry s') = take (tokens s) (bs_token_registry s) @ [x]"
    using lt len by (simp add: count) (simp add: s' take_Suc_conv_app_nth)
  have "drop (tokens s') (bs_token_registry s') = drop (Suc (tokens s)) (bs_token_registry s)"
    by (simp add: count) (simp add: s')
  then have "set (drop (tokens s') (bs_token_registry s')) \<subseteq> set (drop (tokens s) (bs_token_registry s))"
    by (metis drop_Suc drop_tl list.set_sel(2) set_drop_subset subset_iff drop_drop add.commute plus_1_eq_Suc)
  then have "registry_ok s'"
    using assms(2) lt new prefix by (auto simp: BalanceState_ok_def registry_ok_def count)
  moreover have "slots_ok s'" using assms(2) by (simp add: BalanceState_ok_def slots_ok_def active) (simp add: s')
  moreover have "balances_ok s'"
    using assms(2) by (simp add: BalanceState_ok_def balances_ok_def active count) (simp add: s')
  moreover have "BalanceState_shape s'" using assms(1) by (simp add: BalanceState_shape_def s')
  ultimately show ?thesis using count prefix by (simp add: BalanceState_ok_def)
qed

text \<open>A small well-formed state: two members, no delegates, one token, empty balances.\<close>

definition example_state :: BalanceState where
  "example_state =
     \<lparr>bs_channel_id = ChannelId 1, bs_member_count = 2, bs_delegate_count = 0,
      bs_enc_balances = replicate MAX_CHANNEL_MEMBERS zero_token_row,
      bs_regev_pk_digests = replicate MAX_CHANNEL_MEMBERS Bytes32_default,
      bs_recipients = pad_recipients [Address 1 0 0 0 0, Address 2 0 0 0 0],
      bs_settled_tx_chain = Bytes32_default, bs_settled_tx_accumulator_root = Bytes32_default,
      bs_state_version = 0, bs_pending_adds = replicate MAX_CHANNEL_MEMBERS (replicate MAX_CHANNEL_TOKENS 0),
      bs_token_registry = single_token_registry 7, bs_token_count = 1\<rparr>"

lemma example_state_shape: "BalanceState_shape example_state"
  by (simp add: BalanceState_shape_def example_state_def single_token_registry_def pad_recipients_def pad_slots_def
      zero_token_row_def)

lemma example_state_ok: "BalanceState_ok example_state"
proof -
  have pads: "[Address 1 0 0 0 0, Address 2 0 0 0 0] ! i \<noteq> Address 0 0 0 0 0" if "i < Suc (Suc 0)" for i
    using that by (auto simp: less_Suc_eq)
  have "registry_ok example_state"
    by (simp add: registry_ok_def tokens_def example_state_def single_token_registry_def MAX_CHANNEL_TOKENS_def
        eval_nat_numeral)
  moreover have "slots_ok example_state"
    using pads
    by (auto simp: slots_ok_def active_slots_def example_state_def pad_recipients_def pad_slots_def MAX_SIG_CLUSTER_def
        MAX_CHANNEL_MEMBERS_def Address_default_def)
  moreover have "balances_ok example_state"
    by (simp add: balances_ok_def example_state_def zero_token_row_def zero_ciphertext_def)
  ultimately show ?thesis by (simp add: BalanceState_ok_def)
qed

section \<open>Properties\<close>

text \<open>
C27: validation of a balance state accepts exactly the well-formed ones. A state is accepted when both
matrices are full width, the active token registry is duplicate free and zero padded, there are 2 to 8
cosigners and at most 1024 active slots, every active slot has an exit address and no padding slot has
one, all ciphertexts are canonical, and padding slots and inactive tokens hold the zero ciphertext with a
zero counter. Every other state is \<open>InvalidBalanceState\<close>; nothing panics. Registering a token
on an accepted state succeeds exactly when a slot is free and the token is new; the result is accepted, its
registry is extended by that token, the balances are untouched, and the transition check accepts exactly
that successor.
\<close>

theorem token_register_keeps_valid:
  assumes "BalanceState_shape s"
  shows "BalanceState_validate s = (if BalanceState_ok s then Ok () else Err InvalidBalanceState) \<and>
    (BalanceState_validate s = Ok () \<longrightarrow>
      (if tokens s < MAX_CHANNEL_TOKENS \<and> x \<notin> set (take (tokens s) (bs_token_registry s))
       then \<exists>s'. apply_token_register x s = Ok s' \<and> BalanceState_validate s' = Ok () \<and>
         take (tokens s') (bs_token_registry s') = take (tokens s) (bs_token_registry s) @ [x] \<and>
         bs_enc_balances s' = bs_enc_balances s \<and> bs_state_version s' = bs_state_version s + 1 \<and>
         (\<forall>n. verify_token_register_transition s n x = Ok () \<longleftrightarrow> n = s')
       else apply_token_register x s = Err InvalidBalanceState \<and>
         (\<forall>n. verify_token_register_transition s n x = Err InvalidBalanceState)))"
proof (intro conjI impI)
  show validate: "BalanceState_validate s = (if BalanceState_ok s then Ok () else Err InvalidBalanceState)"
    by (rule BalanceState_validate_value [OF assms])
  assume "BalanceState_validate s = Ok ()"
  then have ok: "BalanceState_ok s" using validate by (auto split: if_splits)
  let ?fits = "tokens s < MAX_CHANNEL_TOKENS \<and> x \<notin> set (take (tokens s) (bs_token_registry s))"
  have "\<exists>s'. apply_token_register x s = Ok s' \<and> BalanceState_validate s' = Ok () \<and>
         take (tokens s') (bs_token_registry s') = take (tokens s) (bs_token_registry s) @ [x] \<and>
         bs_enc_balances s' = bs_enc_balances s \<and> bs_state_version s' = bs_state_version s + 1 \<and>
         (\<forall>n. verify_token_register_transition s n x = Ok () \<longleftrightarrow> n = s')" if fits: ?fits
  proof -
    obtain s' where s': "apply_token_register x s = Ok s'" using fits by (auto simp: apply_token_register_Ok_iff)
    from apply_token_register_ok [OF assms ok this] have "BalanceState_validate s' = Ok ()"
      by (simp add: BalanceState_validate_value)
    then show ?thesis
      using apply_token_register_ok [OF assms ok s'] s'
      by (auto simp: verify_token_register_transition_def apply_token_register_Ok_iff split: if_splits)
  qed
  moreover have "apply_token_register x s = Err InvalidBalanceState" if "\<not> ?fits"
    using that apply_token_register_no_panic [of x s] apply_token_register_Ok_iff [of x s]
    by (cases "apply_token_register x s") auto
  ultimately show "if ?fits
     then \<exists>s'. apply_token_register x s = Ok s' \<and> BalanceState_validate s' = Ok () \<and>
       take (tokens s') (bs_token_registry s') = take (tokens s) (bs_token_registry s) @ [x] \<and>
       bs_enc_balances s' = bs_enc_balances s \<and> bs_state_version s' = bs_state_version s + 1 \<and>
       (\<forall>n. verify_token_register_transition s n x = Ok () \<longleftrightarrow> n = s')
     else apply_token_register x s = Err InvalidBalanceState \<and>
       (\<forall>n. verify_token_register_transition s n x = Err InvalidBalanceState)"
    by (simp add: verify_token_register_transition_def)
qed

theorem token_register_keeps_valid_witness:
  "\<exists>s'. BalanceState_validate example_state = Ok () \<and> apply_token_register 9 example_state = Ok s' \<and>
     BalanceState_validate s' = Ok ()"
proof -
  have "tokens example_state < MAX_CHANNEL_TOKENS"
    "9 \<notin> set (take (tokens example_state) (bs_token_registry example_state))"
    by (simp_all add: tokens_def example_state_def MAX_CHANNEL_TOKENS_def single_token_registry_def eval_nat_numeral)
  then show ?thesis
    using token_register_keeps_valid [OF example_state_shape, of 9] example_state_ok by auto
qed

text \<open>
C28: the sparse wire format of the two token matrices loses nothing. A full matrix written and read back is the same
matrix. On any list of sparse rows each reader either refuses it with the number of rows, if there are more than 1024,
or refuses it at the first row that has a token position above 9, or returns the full matrix with the listed entries
and zero everywhere else.
\<close>

theorem token_matrix_round_trip:
  "(full_matrix cts \<longrightarrow> ciphertexts_deserialize (ciphertexts_serialize cts) = Ok cts) \<and>
   (full_matrix adds \<longrightarrow> pending_adds_deserialize (pending_adds_serialize adds) = Ok adds) \<and>
   matrix_read zero_ciphertext sparse (ciphertexts_deserialize sparse) \<and>
   matrix_read 0 sparse_adds (pending_adds_deserialize sparse_adds)"
  using load_rows_round_trip [of cts zero_ciphertext] load_rows_round_trip [of adds 0]
    matrix_read_load [of zero_ciphertext sparse] matrix_read_load [of 0 sparse_adds]
  by (simp add: ciphertexts_serialize_def ciphertexts_deserialize_def pending_adds_serialize_def pending_adds_deserialize_def)

theorem token_matrix_round_trip_witness:
  "pending_adds_deserialize (pending_adds_serialize ((replicate MAX_CHANNEL_MEMBERS (replicate MAX_CHANNEL_TOKENS 5)))) =
     Ok (replicate MAX_CHANNEL_MEMBERS (replicate MAX_CHANNEL_TOKENS 5)) \<and>
   ciphertexts_deserialize (ciphertexts_serialize (replicate MAX_CHANNEL_MEMBERS zero_token_row)) =
     Ok (replicate MAX_CHANNEL_MEMBERS zero_token_row)"
  using token_matrix_round_trip [of "replicate MAX_CHANNEL_MEMBERS zero_token_row"
      "replicate MAX_CHANNEL_MEMBERS (replicate MAX_CHANNEL_TOKENS 5)"]
  by (simp add: full_matrix_def zero_token_row_def)

end
