(* ===== verification/Balance_Steps.thy ===== *)
theory Balance_Steps
  imports Balance_Common Balance_State
begin

text \<open>
  The steps of a balance proof (\<open>src/circuits/balance/send_tx_circuit.rs\<close>,
  \<open>receive_deposit_circuit.rs\<close>, \<open>receive_transfer_circuit.rs\<close>, \<open>switch_board.rs\<close>): what
  each step checks of its witness and which public inputs the next balance proof has. The block number
  \<open>block_r\<close> of the public inputs says up to which block the balance accounts for the channel's own
  sends; the properties show that no send is skipped when it advances.

  \<open>cap_len\<close> is the number of cap elements of the circuit configuration, \<open>tail\<close> the feature
  \<open>authenticated-tail-receive\<close>. The verifiers of the recursive proofs are parameters.
\<close>

section \<open>Sending\<close>

datatype SendTxError =
    STx_ConnectionError | STx_BalancePublicInputsError BalancePublicInputsError | STx_InvalidBalanceProof
  | STx_InvalidBalanceVd | STx_SpendPisError | STx_BlockNumberError | STx_FailedToProve

record 'p SendTxWitness =
  stx_prev_balance_proof :: "'p ProofWithPublicInputs"
  stx_update_public_state :: UpdatePublicState
  stx_tx_settlement :: "'p TxSettlement"
  stx_transfer_witness :: TransferWitness

definition SendTxWitness_to_public_inputs ::
  "(u64 list \<Rightarrow> PoseidonHashOut) \<Rightarrow> (u32 list \<Rightarrow> u32 list) \<Rightarrow> nat \<Rightarrow> 'p SendTxWitness
     \<Rightarrow> (SendTxError, BalanceFullPublicInputs) outcome" where
  "SendTxWitness_to_public_inputs poseidon keccak cap_len w =
     and_then (map_err STx_BalancePublicInputsError
       (BalanceFullPublicInputs_from_u64_slice cap_len (pr_public_inputs (stx_prev_balance_proof w)))) (\<lambda>full.
     let prev = fpi_pis full; update = stx_update_public_state w; settlement = stx_tx_settlement w;
         transfer = stx_transfer_witness w in
     if bp_public_state prev \<noteq> up_old update then Err STx_ConnectionError
     else if up_new update \<noteq> ts_public_state settlement then Err STx_ConnectionError
     else if ts_channel_id settlement \<noteq> bp_channel_id prev then Err STx_ConnectionError
     else
       and_then (map_err (\<lambda>_. STx_SpendPisError) (TxSettlement_spend_pis settlement)) (\<lambda>spend_pis.
       if spi_prev_private_commitment spend_pis \<noteq> bp_private_commitment prev then Err STx_ConnectionError
       else if bp_block_r prev < send_block_number_before_tx settlement then Err STx_BlockNumberError
       else if tx_block_number settlement < bp_block_r prev then Err STx_BlockNumberError
       else if tw_transfer_index transfer \<noteq> 0 then Err STx_ConnectionError
       else if tw_transfer_tree_root transfer \<noteq> tx_transfer_tree_root (ts_tx settlement) then Err STx_ConnectionError
       else
         and_then (map_err (\<lambda>_. STx_ConnectionError) (TransferWitness_verify poseidon transfer)) (\<lambda>_.
         let new_block_r = (if spi_is_valid spend_pis then tx_block_number settlement else bp_block_r prev);
             new_private_commitment =
               (if spi_is_valid spend_pis then spi_new_private_commitment spend_pis else bp_private_commitment prev);
             aux_data = tr_aux_data (tw_transfer transfer)
         in and_then (if spi_is_valid spend_pis \<and> aux_data \<noteq> Bytes32_default
                      then settled_tx_chain_push keccak (bp_settled_tx_chain prev) aux_data
                      else Ok (bp_settled_tx_chain prev)) (\<lambda>new_settled_tx_chain.
           Ok \<lparr>fpi_pis = \<lparr>bp_channel_id = bp_channel_id prev, bp_public_state = up_new update, bp_block_r = new_block_r,
                  bp_private_commitment = new_private_commitment, bp_settled_tx_chain = new_settled_tx_chain\<rparr>,
               fpi_vd = fpi_vd full\<rparr>))))"

section \<open>Receiving a deposit\<close>

datatype ReceiveDepositError =
    RD_ConnectionError | RD_BalancePublicInputsError BalancePublicInputsError | RD_InvalidBalanceProof
  | RD_InvalidBalanceVd | RD_InvalidRecipient | RD_BlockNumberError | RD_InvalidDepositWitness | RD_FailedToProve

record 'p ReceiveDepositWitness =
  rd_prev_balance_proof :: "'p ProofWithPublicInputs"
  rd_update_public_state :: UpdatePublicState
  rd_new_block_r :: BlockNumber
  rd_account_state :: AccountState
  rd_deposit_witness :: DepositWitness
  rd_update_private_state :: UpdatePrivateState

fun deposit_witness_error :: "DepositWitnessError \<Rightarrow> ReceiveDepositError" where
  "deposit_witness_error DW_InvalidRecipient = RD_InvalidRecipient"
| "deposit_witness_error _ = RD_InvalidDepositWitness"

definition ReceiveDepositWitness_to_public_inputs ::
  "bool \<Rightarrow> (u64 list \<Rightarrow> PoseidonHashOut) \<Rightarrow> (u32 list \<Rightarrow> u32 list) \<Rightarrow> nat \<Rightarrow> 'p ReceiveDepositWitness
     \<Rightarrow> (ReceiveDepositError, BalanceFullPublicInputs) outcome" where
  "ReceiveDepositWitness_to_public_inputs tail poseidon keccak cap_len w =
     and_then (map_err RD_BalancePublicInputsError
       (BalanceFullPublicInputs_from_u64_slice cap_len (pr_public_inputs (rd_prev_balance_proof w)))) (\<lambda>full.
     let prev = fpi_pis full; receiver = bp_channel_id prev; update = rd_update_public_state w;
         account = rd_account_state w; deposit_witness = rd_deposit_witness w; new_block_r = rd_new_block_r w;
         private = rd_update_private_state w in
     and_then (map_err (\<lambda>_. RD_ConnectionError) (UpdatePublicState_verify poseidon update)) (\<lambda>_.
     if up_old update \<noteq> bp_public_state prev then Err RD_ConnectionError
     else
       let public_state = up_new update in
       and_then (map_err (\<lambda>_. RD_ConnectionError) (AccountState_verify poseidon account)) (\<lambda>_.
       if as_channel_id account \<noteq> receiver then Err RD_ConnectionError
       else if as_account_tree_root account \<noteq> pst_account_tree_root public_state then Err RD_ConnectionError
       else if dw_channel_id deposit_witness \<noteq> receiver then Err RD_ConnectionError
       else
         and_then (map_err deposit_witness_error (DepositWitness_verify poseidon deposit_witness)) (\<lambda>_.
         if dw_deposit_tree_root deposit_witness \<noteq> pst_deposit_tree_root public_state then Err RD_ConnectionError
         else if new_block_r < bp_block_r prev \<or> new_block_r > pst_block_number public_state then Err RD_BlockNumberError
         else if requires_send_interval tail (cl_prev (as_channel_leaf account)) (bp_block_r prev) \<and>
                 sl_prev (as_send_leaf account) > bp_block_r prev then Err RD_BlockNumberError
         else if requires_send_interval tail (cl_prev (as_channel_leaf account)) (bp_block_r prev) \<and>
                 new_block_r \<ge> sl_cur (as_send_leaf account) then Err RD_BlockNumberError
         else if dep_block_number (dw_deposit deposit_witness) > new_block_r then Err RD_BlockNumberError
         else if ups_token_index private \<noteq> dep_token_index (dw_deposit deposit_witness) then Err RD_ConnectionError
         else if ups_amount private \<noteq> dep_amount (dw_deposit deposit_witness) then Err RD_ConnectionError
         else
           and_then (Deposit_nullifier poseidon (dw_deposit deposit_witness)) (\<lambda>deposit_nullifier.
           if ups_nullifier private \<noteq> deposit_nullifier then Err RD_ConnectionError
           else if PrivateState_commitment poseidon (ups_prev_private_state private) \<noteq> bp_private_commitment prev
           then Err RD_ConnectionError
           else
             and_then (settled_tx_chain_push keccak (bp_settled_tx_chain prev) deposit_nullifier) (\<lambda>new_settled_tx_chain.
             Ok \<lparr>fpi_pis = \<lparr>bp_channel_id = receiver, bp_public_state = public_state, bp_block_r = new_block_r,
                    bp_private_commitment = PrivateState_commitment poseidon (ups_new_private_state private),
                    bp_settled_tx_chain = new_settled_tx_chain\<rparr>,
                 fpi_vd = fpi_vd full\<rparr>))))))"

section \<open>Receiving a transfer\<close>

datatype ReceiveTransferError =
    RT_ConnectionError | RT_BalancePublicInputsError BalancePublicInputsError | RT_InvalidBalanceProof
  | RT_InvalidBalanceVd | RT_InvalidRecipient | RT_BlockNumberError | RT_SpendPisError | RT_FailedToProve

record 'p ReceiveTransferWitness =
  rt_prev_balance_proof :: "'p ProofWithPublicInputs"
  rt_sender_balance_proof :: "'p ProofWithPublicInputs"
  rt_sender_update_public_state :: UpdatePublicState
  rt_receiver_update_public_state :: UpdatePublicState
  rt_new_block_r :: BlockNumber
  rt_account_state :: AccountState
  rt_tx_settlement :: "'p TxSettlement"
  rt_transfer_witness :: TransferWitness
  rt_transfer_salt :: Salt
  rt_update_private_state :: UpdatePrivateState

text \<open>The second half of the function, from the spend public inputs on.\<close>

definition receive_transfer_credit ::
  "(u64 list \<Rightarrow> PoseidonHashOut) \<Rightarrow> (u32 list \<Rightarrow> u32 list) \<Rightarrow> BalanceFullPublicInputs \<Rightarrow> BalancePublicInputs \<Rightarrow> PublicState
     \<Rightarrow> 'p ReceiveTransferWitness \<Rightarrow> (ReceiveTransferError, BalanceFullPublicInputs) outcome" where
  "receive_transfer_credit poseidon keccak full sender public_state w =
     (let prev = fpi_pis full; settlement = rt_tx_settlement w; transfer = tw_transfer (rt_transfer_witness w);
          private = rt_update_private_state w in
      and_then (map_err (\<lambda>_. RT_SpendPisError) (TxSettlement_spend_pis settlement)) (\<lambda>spend_pis.
      if bp_private_commitment sender \<noteq> spi_prev_private_commitment spend_pis then Err RT_ConnectionError
      else if \<not> spi_is_valid spend_pis then Err RT_ConnectionError
      else
        and_then (SettledTransfer_nullifier poseidon
          \<lparr>st_inner = transfer, st_from = bp_channel_id sender, st_transfer_index = tw_transfer_index (rt_transfer_witness w),
           st_nonce = tx_nonce (ts_tx settlement)\<rparr>) (\<lambda>nullifier.
        if ups_token_index private \<noteq> tr_token_index transfer then Err RT_ConnectionError
        else if ups_amount private \<noteq> tr_amount transfer then Err RT_ConnectionError
        else if ups_nullifier private \<noteq> nullifier then Err RT_ConnectionError
        else if PrivateState_commitment poseidon (ups_prev_private_state private) \<noteq> bp_private_commitment prev
        then Err RT_ConnectionError
        else
          and_then (if tr_aux_data transfer = Bytes32_default then Ok (bp_settled_tx_chain prev)
                    else settled_tx_chain_push keccak (bp_settled_tx_chain prev) (tr_aux_data transfer))
            (\<lambda>new_settled_tx_chain.
            Ok \<lparr>fpi_pis = \<lparr>bp_channel_id = bp_channel_id prev, bp_public_state = public_state,
                   bp_block_r = rt_new_block_r w,
                   bp_private_commitment = PrivateState_commitment poseidon (ups_new_private_state private),
                   bp_settled_tx_chain = new_settled_tx_chain\<rparr>,
                fpi_vd = fpi_vd full\<rparr>))))"

definition ReceiveTransferWitness_to_public_inputs ::
  "bool \<Rightarrow> (u64 list \<Rightarrow> PoseidonHashOut) \<Rightarrow> (u32 list \<Rightarrow> u32 list) \<Rightarrow> nat \<Rightarrow> 'p ReceiveTransferWitness
     \<Rightarrow> (ReceiveTransferError, BalanceFullPublicInputs) outcome" where
  "ReceiveTransferWitness_to_public_inputs tail poseidon keccak cap_len w =
     and_then (map_err RT_BalancePublicInputsError
       (BalanceFullPublicInputs_from_u64_slice cap_len (pr_public_inputs (rt_prev_balance_proof w)))) (\<lambda>full.
     and_then (map_err RT_BalancePublicInputsError
       (BalanceFullPublicInputs_from_u64_slice cap_len (pr_public_inputs (rt_sender_balance_proof w)))) (\<lambda>sender_full.
     if fpi_vd full \<noteq> fpi_vd sender_full then Err RT_InvalidBalanceVd
     else
       let prev = fpi_pis full; sender = fpi_pis sender_full; account = rt_account_state w;
           settlement = rt_tx_settlement w; transfer_witness = rt_transfer_witness w; new_block_r = rt_new_block_r w in
       if up_old (rt_receiver_update_public_state w) \<noteq> bp_public_state prev then Err RT_ConnectionError
       else if up_old (rt_sender_update_public_state w) \<noteq> bp_public_state sender then Err RT_ConnectionError
       else if up_new (rt_receiver_update_public_state w) \<noteq> up_new (rt_sender_update_public_state w) then Err RT_ConnectionError
       else
         let public_state = up_new (rt_receiver_update_public_state w) in
         if as_channel_id account \<noteq> bp_channel_id prev then Err RT_ConnectionError
         else if as_account_tree_root account \<noteq> pst_account_tree_root public_state then Err RT_ConnectionError
         else if ts_channel_id settlement \<noteq> bp_channel_id sender then Err RT_ConnectionError
         else if ts_public_state settlement \<noteq> public_state then Err RT_ConnectionError
         else if tw_transfer_tree_root transfer_witness \<noteq> tx_transfer_tree_root (ts_tx settlement) then Err RT_ConnectionError
         else
           and_then (calculate_recipient_from_user_id poseidon (bp_channel_id prev) (rt_transfer_salt w)) (\<lambda>expected_recipient.
           if tr_recipient (tw_transfer transfer_witness) \<noteq> expected_recipient then Err RT_InvalidRecipient
           else if new_block_r < bp_block_r prev \<or> new_block_r > pst_block_number public_state then Err RT_BlockNumberError
           else if requires_send_interval tail (cl_prev (as_channel_leaf account)) (bp_block_r prev) \<and>
                   sl_prev (as_send_leaf account) > bp_block_r prev then Err RT_BlockNumberError
           else if requires_send_interval tail (cl_prev (as_channel_leaf account)) (bp_block_r prev) \<and>
                   new_block_r \<ge> sl_cur (as_send_leaf account) then Err RT_BlockNumberError
           else if tx_block_number settlement > new_block_r then Err RT_BlockNumberError
           else if bp_block_r sender < send_block_number_before_tx settlement then Err RT_BlockNumberError
           else if tx_block_number settlement \<le> bp_block_r sender then Err RT_BlockNumberError
           else receive_transfer_credit poseidon keccak full sender public_state w)))"

section \<open>Switch board\<close>

datatype BalanceSwitchBoardError =
    SB_InvalidBalanceProof | SB_InvalidBalanceVd | SB_BalancePublicInputsError BalancePublicInputsError
  | SB_InvalidInput | SB_DummyProofNotProvided nat | SB_FailedToProve

record 'p BalanceSwichBoard =
  sb_initial_value :: "(ChannelId \<times> Salt) option"
  sb_receive_transfer_proof :: "'p ProofWithPublicInputs option"
  sb_receive_deposit_proof :: "'p ProofWithPublicInputs option"
  sb_send_tx_proof :: "'p ProofWithPublicInputs option"

definition switch_proof ::
  "('p ProofWithPublicInputs \<Rightarrow> bool) \<Rightarrow> nat \<Rightarrow> 'p ProofWithPublicInputs
     \<Rightarrow> (BalanceSwitchBoardError, BalanceFullPublicInputs) outcome" where
  "switch_proof verify cap_len proof =
     (if \<not> verify proof then Err SB_InvalidBalanceProof
      else map_err SB_BalancePublicInputsError (BalanceFullPublicInputs_from_u64_slice cap_len (pr_public_inputs proof)))"

definition BalanceSwichBoard_to_public_inputs ::
  "(u64 list \<Rightarrow> PoseidonHashOut) \<Rightarrow> nat \<Rightarrow> VerifierOnlyCircuitData \<Rightarrow> ('p ProofWithPublicInputs \<Rightarrow> bool)
     \<Rightarrow> ('p ProofWithPublicInputs \<Rightarrow> bool) \<Rightarrow> ('p ProofWithPublicInputs \<Rightarrow> bool) \<Rightarrow> 'p BalanceSwichBoard
     \<Rightarrow> (BalanceSwitchBoardError, BalanceFullPublicInputs) outcome" where
  "BalanceSwichBoard_to_public_inputs poseidon cap_len balance_vd receive_transfer_verify receive_deposit_verify send_tx_verify b =
     (let total = of_bool (sb_initial_value b \<noteq> None) + of_bool (sb_receive_transfer_proof b \<noteq> None) +
            of_bool (sb_receive_deposit_proof b \<noteq> None) + of_bool (sb_send_tx_proof b \<noteq> None) :: nat in
      if total \<noteq> 1 then Err SB_InvalidInput
      else case sb_initial_value b of
        Some (channel_id, salt) \<Rightarrow>
          and_then (BalancePublicInputs_new poseidon channel_id salt) (\<lambda>pis. Ok \<lparr>fpi_pis = pis, fpi_vd = balance_vd\<rparr>)
      | None \<Rightarrow>
        (case sb_receive_transfer_proof b of
           Some proof \<Rightarrow> switch_proof receive_transfer_verify cap_len proof
         | None \<Rightarrow>
           (case sb_receive_deposit_proof b of
              Some proof \<Rightarrow> switch_proof receive_deposit_verify cap_len proof
            | None \<Rightarrow>
              (case sb_send_tx_proof b of
                 Some proof \<Rightarrow> switch_proof send_tx_verify cap_len proof
               | None \<Rightarrow> Panic))))"

section \<open>Authentic account states\<close>

text \<open>
  The Merkle proofs of an account state have the heights the circuits fix, and the hashes on the claimed
  and on the actual paths and leaves do not collide.
\<close>

definition account_shape :: "AccountState \<Rightarrow> bool" where
  "account_shape a \<longleftrightarrow>
     length (as_send_merkle_proof a) = SEND_TREE_HEIGHT \<and> length (as_user_merkle_proof a) = CHANNEL_TREE_HEIGHT"

abbreviation send_leaf_fun :: "(u64 list \<Rightarrow> PoseidonHashOut) \<Rightarrow> SendLeaf list \<Rightarrow> nat \<Rightarrow> PoseidonHashOut" where
  "send_leaf_fun P \<equiv> incremental_leaf_fun (SendLeaf_hash P) SendLeaf_empty_leaf"

abbreviation channel_leaf_fun :: "(u64 list \<Rightarrow> PoseidonHashOut) \<Rightarrow> FullPublicState \<Rightarrow> nat \<Rightarrow> PoseidonHashOut" where
  "channel_leaf_fun P s \<equiv> sparse_leaf_fun (ChannelLeaf_hash P) (empty_channel_leaf P) (fp_channel_tree s)"

definition send_leaf_at :: "SendLeaf list \<Rightarrow> u32 \<Rightarrow> SendLeaf" where
  "send_leaf_at ls i = (if unat i < length ls then ls ! unat i else SendLeaf_empty_leaf)"

definition account_collision_free ::
  "(u64 list \<Rightarrow> PoseidonHashOut) \<Rightarrow> FullPublicState \<Rightarrow> AccountState \<Rightarrow> bool" where
  "account_collision_free P s a \<longleftrightarrow>
     (let H = two_to_one P; c = as_channel_id a; ls = send_leaves_of s c;
          i = unat (ChannelId_as_u64 c); j = unat (as_send_leaf_index a) in
      inj_on (case_prod H) (hashed_pairs H i (ChannelLeaf_hash P (as_channel_leaf a)) (as_user_merkle_proof a) \<union>
        path_pairs H (channel_leaf_fun P s) CHANNEL_TREE_HEIGHT i) \<and>
      inj_on (ChannelLeaf_hash P) {as_channel_leaf a, channel_leaf_at P s c} \<and>
      inj_on (case_prod H) (hashed_pairs H j (SendLeaf_hash P (as_send_leaf a)) (as_send_merkle_proof a) \<union>
        path_pairs H (send_leaf_fun P ls) SEND_TREE_HEIGHT j) \<and>
      inj_on (SendLeaf_hash P) {as_send_leaf a, send_leaf_at ls (as_send_leaf_index a)})"

lemma account_authentic:
  assumes inv: "public_inv P s" and shape: "account_shape a" and coll: "account_collision_free P s a"
    and ok: "AccountState_verify P a = Ok ()" and root: "as_account_tree_root a = pst_account_tree_root (public_state_of P s)"
  shows "as_channel_leaf a = channel_leaf_at P s (as_channel_id a)"
    and "as_send_leaf a = send_leaf_at (send_leaves_of s (as_channel_id a)) (as_send_leaf_index a)"
proof -
  let ?c = "as_channel_id a" and ?H = "two_to_one P"
  let ?ls = "send_leaves_of s ?c"
  from ok have user: "MerkleProof_verify ?H (ChannelLeaf_hash P) (as_user_merkle_proof a) (as_channel_leaf a)
      (ChannelId_as_u64 ?c) (node ?H (channel_leaf_fun P s) CHANNEL_TREE_HEIGHT 0) = Ok ()"
    and send: "MerkleProof_verify ?H (SendLeaf_hash P) (as_send_merkle_proof a) (as_send_leaf a)
      (ucast (as_send_leaf_index a)) (cl_send_tree_root (as_channel_leaf a)) = Ok ()"
    by (simp_all add: AccountState_verify_def root public_state_of_def)
  have "ChannelLeaf_hash P (as_channel_leaf a) = ChannelLeaf_hash P (channel_leaf_at P s ?c)"
    using proof_authentic [OF _ _ user] shape coll
    by (simp add: account_shape_def account_collision_free_def Let_def public_heights sparse_leaf_fun_def channel_leaf_at_def)
  moreover have "inj_on (ChannelLeaf_hash P) {as_channel_leaf a, channel_leaf_at P s ?c}"
    using coll unfolding account_collision_free_def Let_def by blast
  ultimately show leaf: "as_channel_leaf a = channel_leaf_at P s ?c" by (auto dest: inj_onD)
  have "channel_leaf_at P s ?c = channel_summary P ?ls (cl_member_pubkeys_root (channel_leaf_at P s ?c))"
    using inv unfolding public_inv_def channels_inv_def channel_ok_def by blast
  then have "cl_send_tree_root (as_channel_leaf a) = node ?H (send_leaf_fun P ?ls) SEND_TREE_HEIGHT 0"
    unfolding leaf by (metis channel_summary_def ChannelLeaf.select_convs(3) list_root_def)
  with send have send': "MerkleProof_verify ?H (SendLeaf_hash P) (as_send_merkle_proof a) (as_send_leaf a)
      (ucast (as_send_leaf_index a)) (node ?H (send_leaf_fun P ?ls) SEND_TREE_HEIGHT 0) = Ok ()" by simp
  have "SendLeaf_hash P (as_send_leaf a) = SendLeaf_hash P (send_leaf_at ?ls (as_send_leaf_index a))"
    using proof_authentic [OF _ _ send'] shape coll
    by (simp add: account_shape_def account_collision_free_def Let_def public_heights incremental_leaf_fun_def send_leaf_at_def)
  moreover have "inj_on (SendLeaf_hash P) {as_send_leaf a, send_leaf_at ?ls (as_send_leaf_index a)}"
    using coll unfolding account_collision_free_def Let_def by blast
  ultimately show "as_send_leaf a = send_leaf_at ?ls (as_send_leaf_index a)" by (auto dest: inj_onD)
qed

lemma account_last_send:
  assumes "public_inv P s"
  shows "cl_prev (channel_leaf_at P s c) = last_send (send_leaves_of s c)"
proof -
  have "channel_leaf_at P s c = channel_summary P (send_leaves_of s c) (cl_member_pubkeys_root (channel_leaf_at P s c))"
    using assms unfolding public_inv_def channels_inv_def channel_ok_def by blast
  then show ?thesis by (metis channel_summary_def ChannelLeaf.select_convs(2))
qed

lemma account_send_interval:
  assumes "as_send_leaf a = send_leaf_at (send_leaves_of s c) i" "U63 0 < sl_cur (as_send_leaf a)"
  shows "send_interval s c (sl_prev (as_send_leaf a)) (sl_cur (as_send_leaf a))"
  using assms by (auto simp: send_interval_def send_leaf_at_def SendLeaf_empty_leaf_def split: if_splits)

text \<open>The block checks shared by the two receive steps.\<close>

definition receive_window_ok :: "bool \<Rightarrow> AccountState \<Rightarrow> BlockNumber \<Rightarrow> BlockNumber \<Rightarrow> bool" where
  "receive_window_ok tail a r r' \<longleftrightarrow>
     (requires_send_interval tail (cl_prev (as_channel_leaf a)) r \<longrightarrow> sl_prev (as_send_leaf a) \<le> r \<and> r' < sl_cur (as_send_leaf a))"

lemma U63_zero_le: "U63 0 \<le> b"
  by (simp add: less_eq_U63_def)

lemma receive_window_clear:
  assumes inv: "public_inv P s" and shape: "account_shape a" and coll: "account_collision_free P s a"
    and ok: "AccountState_verify P a = Ok ()" and root: "as_account_tree_root a = pst_account_tree_root (public_state_of P s)"
    and window: "receive_window_ok tail a r r'"
  shows "{b \<in> send_blocks s (as_channel_id a). r < b \<and> b \<le> r'} = {}"
proof (rule history.window_without_send [OF inv])
  let ?c = "as_channel_id a"
  assume "r < last_send (send_leaves_of s ?c)"
  moreover note account_authentic [OF inv shape coll ok root]
  moreover have "cl_prev (channel_leaf_at P s ?c) = last_send (send_leaves_of s ?c)" by (rule account_last_send [OF inv])
  moreover have "U63 0 \<le> r" by (rule U63_zero_le)
  ultimately have "sl_prev (as_send_leaf a) \<le> r" "r' < sl_cur (as_send_leaf a)"
    using window by (auto simp: receive_window_ok_def requires_send_interval_def split: if_splits)
  moreover from this(2) have "U63 0 < sl_cur (as_send_leaf a)" using U63_zero_le [of r'] by simp
  with account_authentic(2) [OF inv shape coll ok root]
  have "send_interval s ?c (sl_prev (as_send_leaf a)) (sl_cur (as_send_leaf a))" by (rule account_send_interval)
  ultimately show "\<exists>p q. send_interval s ?c p q \<and> p \<le> r \<and> r' < q" by blast
qed

section \<open>What the accepted steps have checked\<close>

lemma receive_deposit_Ok:
  assumes "ReceiveDepositWitness_to_public_inputs tail P keccak cap_len w = Ok new"
    and "BalanceFullPublicInputs_from_u64_slice cap_len (pr_public_inputs (rd_prev_balance_proof w)) = Ok full"
  shows "UpdatePublicState_verify P (rd_update_public_state w) = Ok ()" "up_old (rd_update_public_state w) = bp_public_state (fpi_pis full)"
    "AccountState_verify P (rd_account_state w) = Ok ()" "as_channel_id (rd_account_state w) = bp_channel_id (fpi_pis full)"
    "as_account_tree_root (rd_account_state w) = pst_account_tree_root (up_new (rd_update_public_state w))"
    "DepositWitness_verify P (rd_deposit_witness w) = Ok ()" "dw_channel_id (rd_deposit_witness w) = bp_channel_id (fpi_pis full)"
    "dw_deposit_tree_root (rd_deposit_witness w) = pst_deposit_tree_root (up_new (rd_update_public_state w))"
    "bp_block_r (fpi_pis full) \<le> rd_new_block_r w" "rd_new_block_r w \<le> pst_block_number (up_new (rd_update_public_state w))"
    "receive_window_ok tail (rd_account_state w) (bp_block_r (fpi_pis full)) (rd_new_block_r w)"
    "dep_block_number (dw_deposit (rd_deposit_witness w)) \<le> rd_new_block_r w"
    "ups_token_index (rd_update_private_state w) = dep_token_index (dw_deposit (rd_deposit_witness w))"
    "ups_amount (rd_update_private_state w) = dep_amount (dw_deposit (rd_deposit_witness w))"
    "Deposit_nullifier P (dw_deposit (rd_deposit_witness w)) = (Ok (ups_nullifier (rd_update_private_state w)) :: (ReceiveDepositError, _) outcome)"
    "PrivateState_commitment P (ups_prev_private_state (rd_update_private_state w)) = bp_private_commitment (fpi_pis full)"
    "settled_tx_chain_push keccak (bp_settled_tx_chain (fpi_pis full)) (ups_nullifier (rd_update_private_state w)) =
       (Ok (bp_settled_tx_chain (fpi_pis new)) :: (ReceiveDepositError, _) outcome)"
    "fpi_vd new = fpi_vd full" "bp_channel_id (fpi_pis new) = bp_channel_id (fpi_pis full)"
    "bp_public_state (fpi_pis new) = up_new (rd_update_public_state w)" "bp_block_r (fpi_pis new) = rd_new_block_r w"
    "bp_private_commitment (fpi_pis new) = PrivateState_commitment P (ups_new_private_state (rd_update_private_state w))"
  using assms(1) unfolding ReceiveDepositWitness_to_public_inputs_def assms(2)
  by (auto simp: Let_def receive_window_ok_def not_less not_le split: if_splits)

lemma receive_transfer_Ok:
  assumes "ReceiveTransferWitness_to_public_inputs tail P keccak cap_len w = Ok new"
    and "BalanceFullPublicInputs_from_u64_slice cap_len (pr_public_inputs (rt_prev_balance_proof w)) = Ok full"
    and "BalanceFullPublicInputs_from_u64_slice cap_len (pr_public_inputs (rt_sender_balance_proof w)) = Ok sender_full"
  shows "fpi_vd sender_full = fpi_vd full" "fpi_vd new = fpi_vd full"
    "up_old (rt_receiver_update_public_state w) = bp_public_state (fpi_pis full)"
    "up_old (rt_sender_update_public_state w) = bp_public_state (fpi_pis sender_full)"
    "up_new (rt_sender_update_public_state w) = up_new (rt_receiver_update_public_state w)"
    "as_channel_id (rt_account_state w) = bp_channel_id (fpi_pis full)"
    "as_account_tree_root (rt_account_state w) = pst_account_tree_root (up_new (rt_receiver_update_public_state w))"
    "ts_channel_id (rt_tx_settlement w) = bp_channel_id (fpi_pis sender_full)"
    "ts_public_state (rt_tx_settlement w) = up_new (rt_receiver_update_public_state w)"
    "tw_transfer_tree_root (rt_transfer_witness w) = tx_transfer_tree_root (ts_tx (rt_tx_settlement w))"
    "calculate_recipient_from_user_id P (bp_channel_id (fpi_pis full)) (rt_transfer_salt w) =
       (Ok (tr_recipient (tw_transfer (rt_transfer_witness w))) :: (ReceiveTransferError, _) outcome)"
    "bp_block_r (fpi_pis full) \<le> rt_new_block_r w" "rt_new_block_r w \<le> pst_block_number (up_new (rt_receiver_update_public_state w))"
    "receive_window_ok tail (rt_account_state w) (bp_block_r (fpi_pis full)) (rt_new_block_r w)"
    "tx_block_number (rt_tx_settlement w) \<le> rt_new_block_r w"
    "send_block_number_before_tx (rt_tx_settlement w) \<le> bp_block_r (fpi_pis sender_full)"
    "bp_block_r (fpi_pis sender_full) < tx_block_number (rt_tx_settlement w)"
    "receive_transfer_credit P keccak full (fpi_pis sender_full) (up_new (rt_receiver_update_public_state w)) w = Ok new"
    "bp_block_r (fpi_pis new) = rt_new_block_r w" "bp_channel_id (fpi_pis new) = bp_channel_id (fpi_pis full)"
    "bp_public_state (fpi_pis new) = up_new (rt_receiver_update_public_state w)"
  using assms(1) unfolding ReceiveTransferWitness_to_public_inputs_def assms(2,3)
  by (auto simp: Let_def receive_window_ok_def not_less not_le receive_transfer_credit_def split: if_splits)

lemma receive_transfer_credit_Ok:
  assumes "receive_transfer_credit P keccak full sender public_state w = Ok new"
  shows "\<exists>spend_pis. TxSettlement_spend_pis (rt_tx_settlement w) = Ok spend_pis \<and> spi_is_valid spend_pis \<and>
      spi_prev_private_commitment spend_pis = bp_private_commitment sender"
    "ups_token_index (rt_update_private_state w) = tr_token_index (tw_transfer (rt_transfer_witness w))"
    "ups_amount (rt_update_private_state w) = tr_amount (tw_transfer (rt_transfer_witness w))"
    "SettledTransfer_nullifier P \<lparr>st_inner = tw_transfer (rt_transfer_witness w), st_from = bp_channel_id sender,
       st_transfer_index = tw_transfer_index (rt_transfer_witness w), st_nonce = tx_nonce (ts_tx (rt_tx_settlement w))\<rparr> =
       (Ok (ups_nullifier (rt_update_private_state w)) :: (ReceiveTransferError, _) outcome)"
    "PrivateState_commitment P (ups_prev_private_state (rt_update_private_state w)) = bp_private_commitment (fpi_pis full)"
    "bp_private_commitment (fpi_pis new) = PrivateState_commitment P (ups_new_private_state (rt_update_private_state w))"
  using assms unfolding receive_transfer_credit_def by (auto simp: Let_def split: if_splits)

lemma send_tx_Ok:
  assumes "SendTxWitness_to_public_inputs P keccak cap_len w = Ok new"
    and "BalanceFullPublicInputs_from_u64_slice cap_len (pr_public_inputs (stx_prev_balance_proof w)) = Ok full"
    and "TxSettlement_spend_pis (stx_tx_settlement w) = Ok spend_pis"
  shows "up_old (stx_update_public_state w) = bp_public_state (fpi_pis full)"
    "ts_public_state (stx_tx_settlement w) = up_new (stx_update_public_state w)"
    "ts_channel_id (stx_tx_settlement w) = bp_channel_id (fpi_pis full)"
    "spi_prev_private_commitment spend_pis = bp_private_commitment (fpi_pis full)"
    "send_block_number_before_tx (stx_tx_settlement w) \<le> bp_block_r (fpi_pis full)"
    "bp_block_r (fpi_pis full) \<le> tx_block_number (stx_tx_settlement w)"
    "tw_transfer_index (stx_transfer_witness w) = 0"
    "tw_transfer_tree_root (stx_transfer_witness w) = tx_transfer_tree_root (ts_tx (stx_tx_settlement w))"
    "TransferWitness_verify P (stx_transfer_witness w) = Ok ()"
    "fpi_vd new = fpi_vd full" "bp_channel_id (fpi_pis new) = bp_channel_id (fpi_pis full)"
    "bp_public_state (fpi_pis new) = up_new (stx_update_public_state w)"
    "bp_block_r (fpi_pis new) = (if spi_is_valid spend_pis then tx_block_number (stx_tx_settlement w) else bp_block_r (fpi_pis full))"
    "bp_private_commitment (fpi_pis new) =
       (if spi_is_valid spend_pis then spi_new_private_commitment spend_pis else bp_private_commitment (fpi_pis full))"
    "\<not> spi_is_valid spend_pis \<Longrightarrow> bp_settled_tx_chain (fpi_pis new) = bp_settled_tx_chain (fpi_pis full)"
  using assms(1) unfolding SendTxWitness_to_public_inputs_def assms(2)
  by (auto simp: Let_def assms(3) not_less split: if_splits)

text \<open>What the constructor of a settlement has verified.\<close>

lemma settlement_Ok:
  assumes "new_with_optional_tx_v2 P spend_verify c tx ps a p p2 v2 sp = Ok t"
  shows "ts_account_state t = a" "ts_channel_id t = c" "ts_public_state t = ps" "ts_tx t = tx" "ts_spend_proof t = sp"
    "AccountState_verify P a = Ok ()" "as_channel_id a = c" "as_account_tree_root a = pst_account_tree_root ps"
    "spend_verify sp" "\<exists>spend_pis. TxSettlement_spend_pis t = Ok spend_pis \<and> spi_tx spend_pis = tx"
  using assms unfolding new_with_optional_tx_v2_def TxSettlement_spend_pis_def by (auto simp: Let_def split: if_splits)

section \<open>Authentic deposits\<close>

definition deposit_collision_free :: "(u64 list \<Rightarrow> PoseidonHashOut) \<Rightarrow> FullPublicState \<Rightarrow> DepositWitness \<Rightarrow> bool" where
  "deposit_collision_free P s w \<longleftrightarrow>
     (let H = two_to_one P; d = dw_deposit w; i = unat (as_u64 (dep_deposit_index d)) in
      inj_on (case_prod H) (hashed_pairs H i (Deposit_poseidon_hash P d) (dw_deposit_merkle_proof w) \<union>
        path_pairs H (incremental_leaf_fun (Deposit_poseidon_hash P) Deposit_empty_leaf (fp_deposits s)) DEPOSIT_TREE_HEIGHT i) \<and>
      inj_on (Deposit_poseidon_hash P) {d, if i < length (fp_deposits s) then fp_deposits s ! i else Deposit_empty_leaf})"

lemma user_recipient_not_default:
  assumes "calculate_recipient_from_user_id P c salt = (Ok r :: ('e, _) outcome)"
  shows "r \<noteq> Bytes32_default"
proof -
  have "bytes32_bytes r ! 0 = USER_ID_TAG" using recipient_from_user_id [of P c salt, where 'e = 'e] assms by auto
  moreover have "bytes32_bytes Bytes32_default ! 0 = 0"
    by (simp add: Bytes32_default_def to_bytes_be_def u32_to_be_bytes_def)
  ultimately show ?thesis by auto
qed

lemma deposit_authentic:
  assumes len: "length (dw_deposit_merkle_proof w) = DEPOSIT_TREE_HEIGHT" and coll: "deposit_collision_free P s w"
    and ok: "DepositWitness_verify P w = Ok ()" and root: "dw_deposit_tree_root w = pst_deposit_tree_root (public_state_of P s)"
  shows "dw_deposit w \<in> set (fp_deposits s)"
proof -
  let ?d = "dw_deposit w" and ?H = "two_to_one P"
  let ?i = "unat (as_u64 (dep_deposit_index ?d))"
  let ?f = "incremental_leaf_fun (Deposit_poseidon_hash P) Deposit_empty_leaf (fp_deposits s)"
  let ?leaf = "if ?i < length (fp_deposits s) then fp_deposits s ! ?i else Deposit_empty_leaf"
  have verify: "MerkleProof_verify ?H (Deposit_poseidon_hash P) (dw_deposit_merkle_proof w) ?d
      (as_u64 (dep_deposit_index ?d)) (node ?H ?f DEPOSIT_TREE_HEIGHT 0) = Ok ()"
    and recipient: "calculate_recipient_from_user_id P (dw_channel_id w) (dw_deposit_salt w) =
      (Ok (dep_recipient ?d) :: (DepositWitnessError, _) outcome)"
    using ok by (auto simp: DepositWitness_verify_def root public_state_of_def list_root_def Let_def split: if_splits)
  have "Deposit_poseidon_hash P ?d = Deposit_poseidon_hash P ?leaf"
    using proof_authentic [OF _ len verify] coll
    by (simp add: public_heights incremental_leaf_fun_def deposit_collision_free_def Let_def)
  moreover have "inj_on (Deposit_poseidon_hash P) {?d, ?leaf}"
    using coll unfolding deposit_collision_free_def Let_def by blast
  ultimately have "?d = ?leaf" by (auto dest: inj_onD)
  moreover have "?d \<noteq> Deposit_empty_leaf"
    using user_recipient_not_default [OF recipient] by (auto simp: Deposit_empty_leaf_def)
  ultimately show ?thesis by (metis nth_mem)
qed

section \<open>An example history\<close>

text \<open>
  With a constant hash every root is the same and only leaves can collide. One deposit to channel 8, then
  a block in which channel 7 sends.
\<close>

abbreviation zero_poseidon :: "u64 list \<Rightarrow> PoseidonHashOut" where
  "zero_poseidon \<equiv> \<lambda>_. PoseidonHashOut_default"

abbreviation zero_keccak :: "u32 list \<Rightarrow> u32 list" where
  "zero_keccak \<equiv> \<lambda>_. replicate 8 0"

lemma zero_hashes:
  "two_to_one zero_poseidon = (\<lambda>_ _. PoseidonHashOut_default)" "SendLeaf_hash zero_poseidon l = PoseidonHashOut_default"
  "ChannelLeaf_hash zero_poseidon cl = PoseidonHashOut_default" "Deposit_poseidon_hash zero_poseidon d = PoseidonHashOut_default"
  "Transfer_poseidon_hash zero_poseidon tr = PoseidonHashOut_default" "Tx_hash zero_poseidon tx = PoseidonHashOut_default"
  "PrivateState_commitment zero_poseidon ps = PoseidonHashOut_default" "PublicState_poseidon_hash zero_poseidon st = PoseidonHashOut_default"
  by (simp_all add: fun_eq_iff two_to_one_def hash_inputs_u64_def SendLeaf_hash_def ChannelLeaf_hash_def Deposit_poseidon_hash_def
      Transfer_poseidon_hash_def Tx_hash_def PrivateState_commitment_def PublicState_poseidon_hash_def hash_inputs_u32_def)

lemma zero_verify:
  assumes "n \<le> 64" "unat i < 2 ^ n" "leaf_hash leaf = PoseidonHashOut_default"
  shows "MerkleProof_verify (\<lambda>_ _. PoseidonHashOut_default) leaf_hash (replicate n PoseidonHashOut_default) leaf i PoseidonHashOut_default = Ok ()"
  using assms by (simp add: MerkleProof_verify_Ok_iff root_of_const)

lemma zero_public_state:
  "public_state_of zero_poseidon s =
     \<lparr>pst_block_number = fp_block_number s,
      pst_timestamp = (if fp_blocks s = [] then 0 else blk_timestamp (last (fp_blocks s))),
      pst_account_tree_root = PoseidonHashOut_default, pst_deposit_tree_root = PoseidonHashOut_default,
      pst_prev_public_state_root = PoseidonHashOut_default\<rparr>"
  by (simp add: public_state_of_def list_root_def zero_hashes node_const sparse_leaf_fun_def incremental_leaf_fun_def)

definition example_account :: "FullPublicState \<Rightarrow> ChannelId \<Rightarrow> u32 \<Rightarrow> AccountState" where
  "example_account s c i =
     \<lparr>as_channel_id = c, as_account_tree_root = PoseidonHashOut_default, as_send_leaf = send_leaf_at (send_leaves_of s c) i,
      as_send_leaf_index = i, as_send_merkle_proof = replicate SEND_TREE_HEIGHT PoseidonHashOut_default,
      as_channel_leaf = channel_leaf_at zero_poseidon s c,
      as_user_merkle_proof = replicate CHANNEL_TREE_HEIGHT PoseidonHashOut_default\<rparr>"

lemma example_account_fields [simp]:
  "as_channel_id (example_account s c i) = c" "as_account_tree_root (example_account s c i) = PoseidonHashOut_default"
  "as_send_leaf (example_account s c i) = send_leaf_at (send_leaves_of s c) i"
  "as_channel_leaf (example_account s c i) = channel_leaf_at zero_poseidon s c"
  by (simp_all add: example_account_def)

lemma zero_paths:
  assumes "\<And>i. f i = PoseidonHashOut_default"
  shows "inj_on g (hashed_pairs (\<lambda>_ _. PoseidonHashOut_default) i PoseidonHashOut_default (replicate n PoseidonHashOut_default) \<union>
    path_pairs (\<lambda>_ _. PoseidonHashOut_default) f m j)"
  by (rule inj_on_hashed_const [of _ "(PoseidonHashOut_default, PoseidonHashOut_default)"],
      rule Un_least [OF hashed_pairs_const path_pairs_const [of f, OF assms]])

lemma example_account:
  assumes inv: "public_inv zero_poseidon s"
  shows "account_shape (example_account s c i)" "account_collision_free zero_poseidon s (example_account s c i)"
    "AccountState_verify zero_poseidon (example_account s c i) = Ok ()"
proof -
  show "account_shape (example_account s c i)" by (simp add: account_shape_def example_account_def)
  show "account_collision_free zero_poseidon s (example_account s c i)"
    unfolding account_collision_free_def Let_def zero_hashes
    by (simp add: example_account_def zero_paths incremental_leaf_fun_def sparse_leaf_fun_def zero_hashes)
  have "channel_leaf_at zero_poseidon s c =
      channel_summary zero_poseidon (send_leaves_of s c) (cl_member_pubkeys_root (channel_leaf_at zero_poseidon s c))"
    using inv unfolding public_inv_def channels_inv_def channel_ok_def by blast
  then have "cl_send_tree_root (channel_leaf_at zero_poseidon s c) = send_root zero_poseidon (send_leaves_of s c)"
    by (metis channel_summary_def ChannelLeaf.select_convs(3))
  also have "\<dots> = PoseidonHashOut_default" by (simp add: list_root_def zero_hashes node_const incremental_leaf_fun_def)
  finally show "AccountState_verify zero_poseidon (example_account s c i) = Ok ()"
    using channel_in_tree [of c] unsigned_less [of i, where 'a = nat]
    by (simp add: AccountState_verify_def example_account_def zero_hashes zero_verify public_heights unat_ucast_mod)
qed

lemma with_state_Ok_iff: "with_state s x f = (Ok v, s') \<longleftrightarrow> (\<exists>a. x = Ok a \<and> f a = (Ok v, s'))"
  by (cases x) auto

lemma example_history:
  "\<exists>s d. public_reachable zero_poseidon zero_keccak s \<and> fp_block_number s = U63 1 \<and> fp_deposits s = [d] \<and>
     send_leaves_of s (ChannelId 7) = [\<lparr>sl_prev = U63 0, sl_cur = U63 1, sl_tx_tree_root = Bytes32_default\<rparr>] \<and>
     send_leaves_of s (ChannelId 8) = [] \<and> dep_deposit_index d = U63 0 \<and> dep_block_number d = U63 1 \<and> dep_recipient d = r"
proof -
  obtain s where s: "FullPublicState_new zero_poseidon [2] = (Ok s :: (unit, _) outcome)"
    by (auto simp: FullPublicState_new_def ChannelTree_init_def)
  have inv: "public_inv zero_poseidon s" by (rule FullPublicState_new_inv [OF s])
  have s0: "fp_block_number s = U63 0" "fp_supported_user_counts s = [2]" "send_leaves_of s c = []" "fp_deposits s = []" for c
    using s by (auto simp: FullPublicState_new_def ChannelTree_init_def send_leaves_of_def)
  from add_deposit_run [of zero_poseidon s zero_keccak Address_default r 0 U256_default Bytes32_default, OF inv] s0
  obtain s1 d bn where s1: "add_deposit zero_poseidon zero_keccak Address_default r 0 U256_default Bytes32_default s = (Ok (), s1)"
    "public_inv zero_poseidon s1" "fp_deposits s1 = [d]" "fp_block_number s1 = U63 0" "unat (as_u64 bn) = 1"
    "dep_deposit_index d = U63 0" "dep_block_number d = bn" "dep_recipient d = r" "send_leaves_of s1 = send_leaves_of s"
    by auto
  have "fp_supported_user_counts s1 = [2]"
    using s1(1) s0(2) by (auto simp: add_deposit_def Let_def with_state_Ok_iff)
  with add_block_run [of _ s1 zero_keccak "[10, 11]" 7 2 5 Bytes32_default, OF s1(2)] s1 s0
  obtain s2 where s2: "add_block zero_poseidon zero_keccak 7 [10, 11] 5 Bytes32_default s1 = (Ok (), s2)"
    "unat (as_u64 (fp_block_number s2)) = 1" "fp_deposits s2 = [d]"
    "\<And>c. send_leaves_of s2 c = (if c = ChannelId 7
        then [\<lparr>sl_prev = U63 0, sl_cur = fp_block_number s2, sl_tx_tree_root = Bytes32_default\<rparr>] else [])"
    by (fastforce simp: public_heights get_num_users_def last_send_def)
  have one: "b = U63 1" if "unat (as_u64 b) = 1" for b
    using that by (cases b) (simp add: word_unat_eq_iff)
  have "public_reachable zero_poseidon zero_keccak s2"
    using s s1(1) s2(1) public_reachable.intros public_step.intros by metis
  moreover have "fp_block_number s2 = U63 1" "dep_block_number d = U63 1" using one [OF s2(2)] one [OF s1(5)] s1(7) by simp_all
  ultimately show ?thesis using s2(3,4) s1(6,8) by (intro exI [of _ s2] exI [of _ d]) simp
qed

definition example_pis :: "FullPublicState \<Rightarrow> ChannelId \<Rightarrow> BalanceFullPublicInputs" where
  "example_pis s c =
     \<lparr>fpi_pis = \<lparr>bp_channel_id = c, bp_public_state = public_state_of zero_poseidon s, bp_block_r = U63 0,
        bp_private_commitment = PoseidonHashOut_default, bp_settled_tx_chain = Bytes32_default\<rparr>,
      fpi_vd = \<lparr>vd_circuit_digest = PoseidonHashOut_default, vd_constants_sigmas_cap = []\<rparr>\<rparr>"

lemma example_proof:
  assumes "channel_id_of c \<noteq> 0" "U63_valid (fp_block_number s)"
  shows "\<exists>p :: unit ProofWithPublicInputs. BalanceFullPublicInputs_from_u64_slice 0 (pr_public_inputs p) = Ok (example_pis s c)"
proof -
  have "canonical PoseidonHashOut_default" by (simp add: canonical_def PoseidonHashOut_default_def GOLDILOCKS_ORDER_def)
  then obtain ws where "BalanceFullPublicInputs_from_u64_slice 0 ws = Ok (example_pis s c)"
    using full_pis_round_trip [of "example_pis s c" 0] assms
    by (auto simp: example_pis_def BalancePublicInputs_valid_def PublicState_valid_def zero_public_state U63_valid_unat)
  then show ?thesis by (intro exI [of _ "\<lparr>pr_proof = (), pr_public_inputs = ws\<rparr>"]) simp
qed

lemma U63_zero_less_one: "U63 0 < U63 1"
  by (simp add: less_U63_def)

lemma zero_keccak_total: "\<exists>h. hash_words zero_keccak ws = Ok h"
  by (simp add: hash_words_def Bytes32_from_u32_slice_def numeral_eq_Suc)

definition example_tx :: Tx where
  "example_tx = \<lparr>tx_transfer_tree_root = PoseidonHashOut_default, tx_nonce = 0\<rparr>"

definition example_spend :: SpendPublicInputs where
  "example_spend = \<lparr>spi_prev_private_commitment = PoseidonHashOut_default,
     spi_new_private_commitment = PoseidonHashOut_default, spi_tx = example_tx, spi_is_valid = True\<rparr>"

definition example_spend_proof :: "unit ProofWithPublicInputs" where
  "example_spend_proof = \<lparr>pr_proof = (), pr_public_inputs = SpendPublicInputs_to_vec example_spend\<rparr>"

lemma example_spend_pis: "SpendPublicInputs_from_pis_u64 (pr_public_inputs example_spend_proof) = Ok example_spend"
  by (simp add: example_spend_proof_def) code_simp

lemma example_settlement:
  assumes inv: "public_inv zero_poseidon s"
    and leaves: "send_leaves_of s (ChannelId 7) = [\<lparr>sl_prev = U63 0, sl_cur = U63 1, sl_tx_tree_root = Bytes32_default\<rparr>]"
  shows "\<exists>t. new_with_optional_tx_v2 zero_poseidon (\<lambda>_. True) (ChannelId 7) example_tx (public_state_of zero_poseidon s)
      (example_account s (ChannelId 7) 0) (replicate TX_TREE_HEIGHT PoseidonHashOut_default) None None example_spend_proof = Ok t \<and>
    TxSettlement_spend_pis t = Ok example_spend \<and> tx_block_number t = U63 1 \<and> send_block_number_before_tx t = U63 0 \<and>
    ts_tx t = example_tx \<and> ts_public_state t = public_state_of zero_poseidon s \<and> ts_channel_id t = ChannelId 7"
proof -
  have "reduce_to_hash_out Bytes32_default = PoseidonHashOut_default" by code_simp
  moreover have "sl_tx_tree_root (as_send_leaf (example_account s (ChannelId 7) 0)) = Bytes32_default"
    by (simp add: send_leaf_at_def leaves)
  ultimately show ?thesis
    using example_account(3) [OF inv, of "ChannelId 7" 0] example_spend_pis
    by (simp add: new_with_optional_tx_v2_def Let_def zero_hashes zero_verify public_heights zero_public_state
        TxSettlement_spend_pis_def tx_block_number_def send_block_number_before_tx_def ChannelId_as_u64_def)
      (simp add: send_leaf_at_def leaves example_spend_def)
qed

section \<open>Properties\<close>

text \<open>
C6: receiving a deposit is sound. If the step accepts and its public state is the committed state of a
reachable public state, then the deposit was really made, at or before the new \<open>block_r\<close> and to
this channel; its amount, token and nullifier are the ones credited; \<open>block_r\<close> does not go back and does
not pass the current block; and the channel sent in no block between the old and the new \<open>block_r\<close>,
so no spend can be skipped by receiving. The hypotheses exclude hash collisions on the opened paths.
\<close>

theorem receive_deposit_sound:
  assumes reach: "public_reachable P keccak s" and keccak: "\<And>xs. length (keccak xs) = 8"
    and accepted: "ReceiveDepositWitness_to_public_inputs tail P keccak cap_len w = Ok new"
    and prev: "BalanceFullPublicInputs_from_u64_slice cap_len (pr_public_inputs (rd_prev_balance_proof w)) = Ok full"
    and current: "up_new (rd_update_public_state w) = public_state_of P s"
    and account: "account_shape (rd_account_state w)" "account_collision_free P s (rd_account_state w)"
    and deposit: "length (dw_deposit_merkle_proof (rd_deposit_witness w)) = DEPOSIT_TREE_HEIGHT"
      "deposit_collision_free P s (rd_deposit_witness w)"
  shows "dw_deposit (rd_deposit_witness w) \<in> set (fp_deposits s) \<and>
    dep_block_number (dw_deposit (rd_deposit_witness w)) \<le> bp_block_r (fpi_pis new) \<and>
    calculate_recipient_from_user_id P (bp_channel_id (fpi_pis full)) (dw_deposit_salt (rd_deposit_witness w)) =
      (Ok (dep_recipient (dw_deposit (rd_deposit_witness w))) :: (DepositWitnessError, _) outcome) \<and>
    ups_token_index (rd_update_private_state w) = dep_token_index (dw_deposit (rd_deposit_witness w)) \<and>
    ups_amount (rd_update_private_state w) = dep_amount (dw_deposit (rd_deposit_witness w)) \<and>
    Deposit_nullifier P (dw_deposit (rd_deposit_witness w)) =
      (Ok (ups_nullifier (rd_update_private_state w)) :: (ReceiveDepositError, _) outcome) \<and>
    bp_block_r (fpi_pis full) \<le> bp_block_r (fpi_pis new) \<and> bp_block_r (fpi_pis new) \<le> fp_block_number s \<and>
    {b \<in> send_blocks s (bp_channel_id (fpi_pis full)). bp_block_r (fpi_pis full) < b \<and> b \<le> bp_block_r (fpi_pis new)} = {}"
proof -
  note ok = receive_deposit_Ok [OF accepted prev]
  have inv: "public_inv P s" using public_reachable_inv [of P keccak, OF reach keccak] .
  have "{b \<in> send_blocks s (as_channel_id (rd_account_state w)). bp_block_r (fpi_pis full) < b \<and> b \<le> rd_new_block_r w} = {}"
    using ok(5) current by (intro receive_window_clear [OF inv account ok(3) _ ok(11)]) simp
  moreover have "dw_deposit (rd_deposit_witness w) \<in> set (fp_deposits s)"
    using ok(8) current by (intro deposit_authentic [OF deposit ok(6)]) simp
  moreover have "calculate_recipient_from_user_id P (bp_channel_id (fpi_pis full)) (dw_deposit_salt (rd_deposit_witness w)) =
      (Ok (dep_recipient (dw_deposit (rd_deposit_witness w))) :: (DepositWitnessError, _) outcome)"
    using ok(6) ok(7) by (auto simp: DepositWitness_verify_def Let_def split: if_splits)
  ultimately show ?thesis using ok current by (simp add: public_state_of_def)
qed

theorem receive_deposit_sound_witness:
  "\<exists>s (w :: unit ReceiveDepositWitness) new. public_reachable zero_poseidon zero_keccak s \<and>
     ReceiveDepositWitness_to_public_inputs True zero_poseidon zero_keccak 0 w = Ok new \<and>
     dw_deposit (rd_deposit_witness w) \<in> set (fp_deposits s) \<and> bp_block_r (fpi_pis new) = U63 1 \<and>
     {b \<in> send_blocks s (ChannelId 8). U63 0 < b \<and> b \<le> U63 1} = {}"
proof -
  let ?salt = "Salt PoseidonHashOut_default"
  obtain r where r: "calculate_recipient_from_user_id zero_poseidon (ChannelId 8) ?salt = (Ok r :: (DepositWitnessError, _) outcome)"
    using recipient_from_user_id [of zero_poseidon "ChannelId 8" ?salt, where 'e = DepositWitnessError] by blast
  from example_history [of r] obtain s d where s: "public_reachable zero_poseidon zero_keccak s" "fp_block_number s = U63 1"
    "fp_deposits s = [d]" "send_leaves_of s (ChannelId 8) = []" "dep_deposit_index d = U63 0" "dep_block_number d = U63 1"
    "dep_recipient d = r" by blast
  have inv: "public_inv zero_poseidon s" by (rule public_reachable_inv [OF s(1)]) simp
  obtain p :: "unit ProofWithPublicInputs" where
    p: "BalanceFullPublicInputs_from_u64_slice 0 (pr_public_inputs p) = Ok (example_pis s (ChannelId 8))"
    using example_proof [of "ChannelId 8" s] s(2) by (auto simp: U63_valid_unat)
  obtain n where n: "Deposit_nullifier zero_poseidon d = (Ok n :: (ReceiveDepositError, _) outcome)"
    using Bytes32_from_hash_out_total by (auto simp: Deposit_nullifier_def)
  obtain ch where ch: "settled_tx_chain_push zero_keccak Bytes32_default n = (Ok ch :: (ReceiveDepositError, _) outcome)"
    using zero_keccak_total by (auto simp: settled_tx_chain_push_def)
  define dw where "dw = \<lparr>dw_channel_id = ChannelId 8, dw_deposit_tree_root = PoseidonHashOut_default, dw_deposit_salt = ?salt,
    dw_deposit = d, dw_deposit_merkle_proof = replicate DEPOSIT_TREE_HEIGHT PoseidonHashOut_default\<rparr>"
  obtain ups :: UpdatePrivateState where ups: "ups_token_index ups = dep_token_index d" "ups_amount ups = dep_amount d" "ups_nullifier ups = n"
    by (metis UpdatePrivateState.select_convs(1,2,3))
  define w where "w = \<lparr>rd_prev_balance_proof = p, rd_update_public_state = \<lparr>up_new = public_state_of zero_poseidon s,
    up_old = public_state_of zero_poseidon s, up_merkle_proof = []\<rparr>, rd_new_block_r = U63 1,
    rd_account_state = example_account s (ChannelId 8) 0, rd_deposit_witness = dw, rd_update_private_state = ups\<rparr>"
  have dw: "DepositWitness_verify zero_poseidon dw = Ok ()"
    using r s(5,7) by (simp add: DepositWitness_verify_def dw_def zero_hashes zero_verify public_heights)
  have leaf: "cl_prev (channel_leaf_at zero_poseidon s (ChannelId 8)) = U63 0"
    using account_last_send [OF inv] s(4) by (simp add: last_send_def)
  have "\<exists>new. ReceiveDepositWitness_to_public_inputs True zero_poseidon zero_keccak 0 w = Ok new"
    using p n ch dw s ups leaf example_account(3) [OF inv]
    by (simp add: ReceiveDepositWitness_to_public_inputs_def w_def Let_def UpdatePublicState_verify_def example_pis_def
        zero_public_state dw_def zero_hashes requires_send_interval_def less_U63_def)
  then obtain new where new: "ReceiveDepositWitness_to_public_inputs True zero_poseidon zero_keccak 0 w = Ok new" by blast
  have free: "deposit_collision_free zero_poseidon s dw"
    unfolding deposit_collision_free_def Let_def zero_hashes
    by (simp add: dw_def zero_paths incremental_leaf_fun_def zero_hashes s)
  have prev: "BalanceFullPublicInputs_from_u64_slice 0 (pr_public_inputs (rd_prev_balance_proof w)) = Ok (example_pis s (ChannelId 8))"
    using p by (simp add: w_def)
  have r1: "bp_block_r (fpi_pis new) = U63 1" using receive_deposit_Ok(21) [OF new prev] by (simp add: w_def)
  note receive_deposit_sound [OF s(1) _ new prev, simplified w_def ReceiveDepositWitness.simps UpdatePublicState.simps,
      OF _ refl example_account(1,2) [OF inv] _ free]
  then show ?thesis
    using s(1) new r1 by (intro exI [of _ s] exI [of _ w] exI [of _ new]) (simp add: w_def example_pis_def dw_def)
qed

text \<open>
C7: receiving a transfer is sound. Let the step accept against the committed state of a consistent public state, with
an account state of the receiver and a settlement that their constructors accepted: the step itself verifies neither
again, the targets of its circuit do. Then the receiver sent in no block between its old and its new \<open>block_r\<close>;
the transfer was settled at or before the new \<open>block_r\<close>; the settling block is the sender's only send after the
sender's balance proof up to and including that block; the spend is valid for the sender's commitment; and the
credited amount, token and nullifier are those of the transfer. Hypotheses: the proofs of both account states have
the heights of the circuit, and the hash does not collide along them.
\<close>

theorem receive_transfer_sound:
  assumes inv: "public_inv P s"
    and accepted: "ReceiveTransferWitness_to_public_inputs tail P keccak cap_len w = Ok new"
    and prev: "BalanceFullPublicInputs_from_u64_slice cap_len (pr_public_inputs (rt_prev_balance_proof w)) = Ok full"
    and sender: "BalanceFullPublicInputs_from_u64_slice cap_len (pr_public_inputs (rt_sender_balance_proof w)) = Ok sender_full"
    and current: "up_new (rt_receiver_update_public_state w) = public_state_of P s"
    and settled: "new_with_optional_tx_v2 P spend_verify c tx ps a p p2 v2 sp = Ok (rt_tx_settlement w)"
    and receiver: "AccountState_new P rc root send_leaf i send_proof channel_leaf user_proof = Ok (rt_account_state w)"
    and account: "account_shape (rt_account_state w)" "account_collision_free P s (rt_account_state w)"
    and sender_account: "account_shape a" "account_collision_free P s a"
  shows "{b \<in> send_blocks s (bp_channel_id (fpi_pis full)). bp_block_r (fpi_pis full) < b \<and> b \<le> bp_block_r (fpi_pis new)} = {} \<and>
    bp_block_r (fpi_pis full) \<le> bp_block_r (fpi_pis new) \<and> bp_block_r (fpi_pis new) \<le> fp_block_number s \<and>
    tx_block_number (rt_tx_settlement w) \<le> bp_block_r (fpi_pis new) \<and>
    {b \<in> send_blocks s (bp_channel_id (fpi_pis sender_full)).
       bp_block_r (fpi_pis sender_full) < b \<and> b \<le> tx_block_number (rt_tx_settlement w)} = {tx_block_number (rt_tx_settlement w)} \<and>
    (\<exists>spend_pis. TxSettlement_spend_pis (rt_tx_settlement w) = Ok spend_pis \<and> spi_is_valid spend_pis \<and> spi_tx spend_pis = tx \<and>
       spi_prev_private_commitment spend_pis = bp_private_commitment (fpi_pis sender_full)) \<and>
    ups_token_index (rt_update_private_state w) = tr_token_index (tw_transfer (rt_transfer_witness w)) \<and>
    ups_amount (rt_update_private_state w) = tr_amount (tw_transfer (rt_transfer_witness w)) \<and>
    SettledTransfer_nullifier P \<lparr>st_inner = tw_transfer (rt_transfer_witness w), st_from = bp_channel_id (fpi_pis sender_full),
      st_transfer_index = tw_transfer_index (rt_transfer_witness w), st_nonce = tx_nonce tx\<rparr> =
      (Ok (ups_nullifier (rt_update_private_state w)) :: (ReceiveTransferError, _) outcome)"
proof -
  note ok = receive_transfer_Ok [OF accepted prev sender]
  note credit = receive_transfer_credit_Ok [OF ok(18)]
  note st = settlement_Ok [OF settled]
  have verified: "AccountState_verify P (rt_account_state w) = Ok ()"
    using receiver by (auto simp: AccountState_new_def Let_def)
  have "{b \<in> send_blocks s (as_channel_id (rt_account_state w)). bp_block_r (fpi_pis full) < b \<and> b \<le> rt_new_block_r w} = {}"
    using ok(7) current by (intro receive_window_clear [OF inv account verified _ ok(14)]) simp
  moreover have "{b \<in> send_blocks s c. bp_block_r (fpi_pis sender_full) < b \<and> b \<le> tx_block_number (rt_tx_settlement w)} =
      {tx_block_number (rt_tx_settlement w)}"
  proof (rule history.window_with_one_send [OF inv _ ok(16) ok(17)])
    have root: "as_account_tree_root a = pst_account_tree_root (public_state_of P s)" using st ok(9) current by simp
    have "U63 0 < tx_block_number (rt_tx_settlement w)" using ok(17) U63_zero_le [of "bp_block_r (fpi_pis sender_full)"] by simp
    then show "send_interval s c (send_block_number_before_tx (rt_tx_settlement w)) (tx_block_number (rt_tx_settlement w))"
      using account_send_interval [OF account_authentic(2) [OF inv sender_account st(6) root]] st(1,7)
      by (simp add: tx_block_number_def send_block_number_before_tx_def)
  qed
  moreover from credit(1) st(10) have "\<exists>spend_pis. TxSettlement_spend_pis (rt_tx_settlement w) = Ok spend_pis \<and>
      spi_is_valid spend_pis \<and> spi_tx spend_pis = tx \<and> spi_prev_private_commitment spend_pis = bp_private_commitment (fpi_pis sender_full)"
    by auto
  ultimately show ?thesis using ok credit(2-4) st current by (simp add: public_state_of_def)
qed

theorem receive_transfer_sound_witness:
  "\<exists>s (w :: unit ReceiveTransferWitness) new. public_reachable zero_poseidon zero_keccak s \<and>
     ReceiveTransferWitness_to_public_inputs True zero_poseidon zero_keccak 0 w = Ok new \<and> bp_block_r (fpi_pis new) = U63 1 \<and>
     {b \<in> send_blocks s (ChannelId 8). U63 0 < b \<and> b \<le> U63 1} = {} \<and>
     {b \<in> send_blocks s (ChannelId 7). U63 0 < b \<and> b \<le> U63 1} = {U63 1}"
proof -
  let ?salt = "Salt PoseidonHashOut_default"
  obtain r where r: "calculate_recipient_from_user_id zero_poseidon (ChannelId 8) ?salt = (Ok r :: (ReceiveTransferError, _) outcome)"
    using recipient_from_user_id [of zero_poseidon "ChannelId 8" ?salt, where 'e = ReceiveTransferError] by blast
  from example_history obtain s where s: "public_reachable zero_poseidon zero_keccak s" "fp_block_number s = U63 1"
    "send_leaves_of s (ChannelId 7) = [\<lparr>sl_prev = U63 0, sl_cur = U63 1, sl_tx_tree_root = Bytes32_default\<rparr>]"
    "send_leaves_of s (ChannelId 8) = []" by blast
  have inv: "public_inv zero_poseidon s" by (rule public_reachable_inv [OF s(1)]) simp
  obtain p q :: "unit ProofWithPublicInputs" where
    p: "BalanceFullPublicInputs_from_u64_slice 0 (pr_public_inputs p) = Ok (example_pis s (ChannelId 8))" and
    q: "BalanceFullPublicInputs_from_u64_slice 0 (pr_public_inputs q) = Ok (example_pis s (ChannelId 7))"
    using example_proof [of "ChannelId 8" s] example_proof [of "ChannelId 7" s] s(2) by (auto simp: U63_valid_unat)
  from example_settlement [OF inv s(3)] obtain t where
    t: "new_with_optional_tx_v2 zero_poseidon (\<lambda>_. True) (ChannelId 7) example_tx (public_state_of zero_poseidon s)
      (example_account s (ChannelId 7) 0) (replicate TX_TREE_HEIGHT PoseidonHashOut_default) None None example_spend_proof = Ok t"
    "TxSettlement_spend_pis t = Ok example_spend" "tx_block_number t = U63 1" "send_block_number_before_tx t = U63 0"
    "ts_tx t = example_tx" "ts_public_state t = public_state_of zero_poseidon s" "ts_channel_id t = ChannelId 7" by blast
  define tr where "tr = Transfer_empty_leaf\<lparr>tr_recipient := r\<rparr>"
  obtain n where n: "SettledTransfer_nullifier zero_poseidon \<lparr>st_inner = tr, st_from = ChannelId 7, st_transfer_index = 0, st_nonce = 0\<rparr> =
      (Ok n :: (ReceiveTransferError, _) outcome)"
    using Bytes32_from_hash_out_total by (auto simp: SettledTransfer_nullifier_def)
  obtain ups :: UpdatePrivateState where ups: "ups_token_index ups = tr_token_index tr" "ups_amount ups = tr_amount tr" "ups_nullifier ups = n"
    by (metis UpdatePrivateState.select_convs(1,2,3))
  let ?u = "\<lparr>up_new = public_state_of zero_poseidon s, up_old = public_state_of zero_poseidon s, up_merkle_proof = []\<rparr>"
  define w where "w = \<lparr>rt_prev_balance_proof = p, rt_sender_balance_proof = q, rt_sender_update_public_state = ?u,
    rt_receiver_update_public_state = ?u, rt_new_block_r = U63 1, rt_account_state = example_account s (ChannelId 8) 0,
    rt_tx_settlement = t, rt_transfer_witness = \<lparr>tw_transfer_tree_root = PoseidonHashOut_default, tw_transfer = tr,
      tw_transfer_index = 0, tw_transfer_merkle_proof = []\<rparr>, rt_transfer_salt = ?salt, rt_update_private_state = ups\<rparr>"
  have leaf: "cl_prev (channel_leaf_at zero_poseidon s (ChannelId 8)) = U63 0"
    using account_last_send [OF inv] s(4) by (simp add: last_send_def)
  have "\<exists>new. ReceiveTransferWitness_to_public_inputs True zero_poseidon zero_keccak 0 w = Ok new"
    using p q n r s t ups leaf
    by (simp add: ReceiveTransferWitness_to_public_inputs_def w_def Let_def example_pis_def zero_public_state
        zero_hashes requires_send_interval_def less_U63_def less_eq_U63_def receive_transfer_credit_def example_spend_def
        example_tx_def tr_def Transfer_empty_leaf_def)
  then obtain new where new: "ReceiveTransferWitness_to_public_inputs True zero_poseidon zero_keccak 0 w = Ok new" by blast
  have prev: "BalanceFullPublicInputs_from_u64_slice 0 (pr_public_inputs (rt_prev_balance_proof w)) = Ok (example_pis s (ChannelId 8))"
    "BalanceFullPublicInputs_from_u64_slice 0 (pr_public_inputs (rt_sender_balance_proof w)) = Ok (example_pis s (ChannelId 7))"
    using p q by (simp_all add: w_def)
  have r1: "bp_block_r (fpi_pis new) = U63 1" using receive_transfer_Ok(19) [OF new prev] by (simp add: w_def)
  obtain root l i sp cl up where acc:
    "AccountState_new zero_poseidon (ChannelId 8) root l i sp cl up = Ok (example_account s (ChannelId 8) 0)"
    using example_account(3) [OF inv, of "ChannelId 8" 0] by (auto simp: AccountState_new_def example_account_def Let_def)
  note receive_transfer_sound [OF inv new prev, where spend_verify = "\<lambda>_. True" and a = "example_account s (ChannelId 7) 0",
      simplified w_def ReceiveTransferWitness.simps UpdatePublicState.simps,
      OF refl t(1) acc example_account(1,2) [OF inv] example_account(1,2) [OF inv]]
  then show ?thesis
    using s(1) new r1 t(3) by (intro exI [of _ s] exI [of _ w] exI [of _ new]) (simp add: w_def example_pis_def)
qed

text \<open>
C8: a send advances \<open>block_r\<close> over exactly one send of the channel. If the step accepts a settlement its
constructor accepted, the spend is valid and the settling block is after the old \<open>block_r\<close>, then that
block is the only one after the old \<open>block_r\<close> up to the new one in which the channel sent, and the new
commitment is the one the spend proof computed. An invalid spend changes neither \<open>block_r\<close>, nor the
commitment, nor the settled chain.
\<close>

theorem send_tx_sound:
  assumes reach: "public_reachable P keccak s" and keccak: "\<And>xs. length (keccak xs) = 8"
    and accepted: "SendTxWitness_to_public_inputs P keccak cap_len w = Ok new"
    and prev: "BalanceFullPublicInputs_from_u64_slice cap_len (pr_public_inputs (stx_prev_balance_proof w)) = Ok full"
    and current: "up_new (stx_update_public_state w) = public_state_of P s"
    and settled: "new_with_optional_tx_v2 P spend_verify c tx ps a p p2 v2 sp = Ok (stx_tx_settlement w)"
    and spend: "TxSettlement_spend_pis (stx_tx_settlement w) = Ok spend_pis"
    and account: "account_shape a" "account_collision_free P s a"
    and after: "bp_block_r (fpi_pis full) < tx_block_number (stx_tx_settlement w)"
  shows "if spi_is_valid spend_pis
    then bp_block_r (fpi_pis new) = tx_block_number (stx_tx_settlement w) \<and> bp_block_r (fpi_pis new) \<le> fp_block_number s \<and>
      {b \<in> send_blocks s (bp_channel_id (fpi_pis full)). bp_block_r (fpi_pis full) < b \<and> b \<le> bp_block_r (fpi_pis new)} =
        {bp_block_r (fpi_pis new)} \<and>
      spi_prev_private_commitment spend_pis = bp_private_commitment (fpi_pis full) \<and>
      bp_private_commitment (fpi_pis new) = spi_new_private_commitment spend_pis
    else bp_block_r (fpi_pis new) = bp_block_r (fpi_pis full) \<and>
      bp_private_commitment (fpi_pis new) = bp_private_commitment (fpi_pis full) \<and>
      bp_settled_tx_chain (fpi_pis new) = bp_settled_tx_chain (fpi_pis full)"
proof -
  note ok = send_tx_Ok [OF accepted prev spend]
  note st = settlement_Ok [OF settled]
  have inv: "public_inv P s" using public_reachable_inv [of P keccak, OF reach keccak] .
  have root: "as_account_tree_root a = pst_account_tree_root (public_state_of P s)" using st ok(2) current by simp
  have "U63 0 < tx_block_number (stx_tx_settlement w)" using after U63_zero_le [of "bp_block_r (fpi_pis full)"] by simp
  then have interval: "send_interval s c (send_block_number_before_tx (stx_tx_settlement w)) (tx_block_number (stx_tx_settlement w))"
    using account_send_interval [OF account_authentic(2) [OF inv account st(6) root]] st(1,7)
    by (simp add: tx_block_number_def send_block_number_before_tx_def)
  have "tx_block_number (stx_tx_settlement w) \<le> fp_block_number s"
    using history.last_ends_window [OF inv interval] inv
    by (auto simp: public_inv_def channels_inv_def channel_ok_def intro: order_trans)
  then show ?thesis
    using history.window_with_one_send [OF inv interval ok(5) after] ok st(2) by simp
qed

theorem send_tx_sound_witness:
  "\<exists>s (w :: unit SendTxWitness) new. public_reachable zero_poseidon zero_keccak s \<and>
     SendTxWitness_to_public_inputs zero_poseidon zero_keccak 0 w = Ok new \<and> bp_block_r (fpi_pis new) = U63 1 \<and>
     {b \<in> send_blocks s (ChannelId 7). U63 0 < b \<and> b \<le> U63 1} = {U63 1}"
proof -
  from example_history obtain s where s: "public_reachable zero_poseidon zero_keccak s" "fp_block_number s = U63 1"
    "send_leaves_of s (ChannelId 7) = [\<lparr>sl_prev = U63 0, sl_cur = U63 1, sl_tx_tree_root = Bytes32_default\<rparr>]" by blast
  have inv: "public_inv zero_poseidon s" by (rule public_reachable_inv [OF s(1)]) simp
  obtain p :: "unit ProofWithPublicInputs" where
    p: "BalanceFullPublicInputs_from_u64_slice 0 (pr_public_inputs p) = Ok (example_pis s (ChannelId 7))"
    using example_proof [of "ChannelId 7" s] s(2) by (auto simp: U63_valid_unat)
  from example_settlement [OF inv s(3)] obtain t where
    t: "new_with_optional_tx_v2 zero_poseidon (\<lambda>_. True) (ChannelId 7) example_tx (public_state_of zero_poseidon s)
      (example_account s (ChannelId 7) 0) (replicate TX_TREE_HEIGHT PoseidonHashOut_default) None None example_spend_proof = Ok t"
    "TxSettlement_spend_pis t = Ok example_spend" "tx_block_number t = U63 1" "send_block_number_before_tx t = U63 0"
    "ts_tx t = example_tx" "ts_public_state t = public_state_of zero_poseidon s" "ts_channel_id t = ChannelId 7" by blast
  define w where "w = \<lparr>stx_prev_balance_proof = p, stx_update_public_state = \<lparr>up_new = public_state_of zero_poseidon s,
      up_old = public_state_of zero_poseidon s, up_merkle_proof = []\<rparr>, stx_tx_settlement = t,
    stx_transfer_witness = \<lparr>tw_transfer_tree_root = PoseidonHashOut_default, tw_transfer = Transfer_empty_leaf,
      tw_transfer_index = 0, tw_transfer_merkle_proof = replicate 6 PoseidonHashOut_default\<rparr>\<rparr>"
  have "\<exists>new. SendTxWitness_to_public_inputs zero_poseidon zero_keccak 0 w = Ok new"
    using p t by (simp add: SendTxWitness_to_public_inputs_def w_def Let_def example_pis_def zero_hashes less_U63_def
        less_eq_U63_def example_spend_def example_tx_def Transfer_empty_leaf_def TransferWitness_verify_def zero_verify)
  then obtain new where new: "SendTxWitness_to_public_inputs zero_poseidon zero_keccak 0 w = Ok new" by blast
  have prev: "BalanceFullPublicInputs_from_u64_slice 0 (pr_public_inputs (stx_prev_balance_proof w)) = Ok (example_pis s (ChannelId 7))"
    using p by (simp add: w_def)
  have r1: "bp_block_r (fpi_pis new) = U63 1"
    using send_tx_Ok(13) [OF new prev, of example_spend] t(2,3) by (simp add: w_def example_spend_def)
  note send_tx_sound [OF s(1) _ new prev, where spend_verify = "\<lambda>_. True" and a = "example_account s (ChannelId 7) 0",
      simplified w_def SendTxWitness.simps UpdatePublicState.simps,
      OF _ refl t(1,2) example_account(1,2) [OF inv]]
  then show ?thesis
    using s(1) new t(3) r1 by (intro exI [of _ s] exI [of _ w] exI [of _ new]) (simp add: w_def example_pis_def example_spend_def U63_zero_less_one)
qed

end
