(* ===== verification/Balance_Hash.thy ===== *)
theory Balance_Hash
  imports Balance_State
begin

text \<open>
  What the signed header hash \<open>h1\<close> of a balance state commits to. The slot leaves are computed with
  a shortcut for padding slots and folded level by level; here both are related to the plain definition
  of a slot leaf and to the append-only tree the claim circuits open, and \<open>h1\<close> is shown to identify
  the whole state.
\<close>

section \<open>Digests\<close>

definition keccak_digest :: "(u32 list \<Rightarrow> u32 list) \<Rightarrow> u32 list \<Rightarrow> Bytes32" where
  "keccak_digest keccak ws = (case Bytes32_from_u32_slice (keccak ws) of Ok b \<Rightarrow> b | _ \<Rightarrow> Bytes32_default)"

definition ct_words :: "RegevCiphertext \<Rightarrow> u32 list" where
  "ct_words ct = [REGEV_CT_DOMAIN, of_nat (length (ct_c1 ct))] @ ct_c1 ct @ ct_c2 ct"

definition slot_preimage :: "(u32 list \<Rightarrow> u32 list) \<Rightarrow> BalanceState \<Rightarrow> nat \<Rightarrow> u32 list" where
  "slot_preimage keccak s i =
     balance_slot_leaf_preimage (bs_regev_pk_digests s ! i)
       (map (\<lambda>ct. keccak_digest keccak (ct_words ct)) (bs_enc_balances s ! i)) (bs_pending_adds s ! i) (bs_recipients s ! i)"

definition slot_leaf :: "(u64 list \<Rightarrow> PoseidonHashOut) \<Rightarrow> (u32 list \<Rightarrow> u32 list) \<Rightarrow> BalanceState \<Rightarrow> nat \<Rightarrow> PoseidonHashOut" where
  "slot_leaf poseidon keccak s i = hash_inputs_u32 poseidon (slot_preimage keccak s i)"

definition slot_root :: "(u64 list \<Rightarrow> PoseidonHashOut) \<Rightarrow> (u32 list \<Rightarrow> u32 list) \<Rightarrow> BalanceState \<Rightarrow> PoseidonHashOut" where
  "slot_root poseidon keccak s = node (two_to_one poseidon) (slot_leaf poseidon keccak s) BALANCE_SLOT_TREE_HEIGHT 0"

lemma hash_words_value:
  assumes "length (keccak ws) = 8"
  shows "hash_words keccak ws = Ok (keccak_digest keccak ws)"
proof -
  have "Bytes32_from_u32_slice (keccak ws) = Ok (keccak_digest keccak ws)"
    using assms by (simp add: keccak_digest_def Bytes32_from_u32_slice_def)
  then show ?thesis by (simp add: hash_words_def)
qed

lemma keccak_digest_inject:
  assumes "length (keccak a) = 8" "length (keccak b) = 8" "keccak_digest keccak a = keccak_digest keccak b"
  shows "keccak a = keccak b"
proof -
  have "Bytes32_from_u32_slice (keccak a) = Ok (keccak_digest keccak a)"
    "Bytes32_from_u32_slice (keccak b) = Ok (keccak_digest keccak b)"
    using assms(1,2) by (simp_all add: keccak_digest_def Bytes32_from_u32_slice_def)
  then show ?thesis using assms(3) by (metis bytes32.from_ok_iff)
qed

lemma RegevCiphertext_digest_value:
  "length (keccak (ct_words ct)) = 8 \<Longrightarrow> canonical_ct ct \<Longrightarrow>
   RegevCiphertext_digest keccak ct = Ok (keccak_digest keccak (ct_words ct))"
  using hash_words_value [of keccak "ct_words ct"]
  by (simp add: RegevCiphertext_digest_def RegevCiphertext_validate_value ct_words_def)

lemma canonical_zero_ciphertext [simp]: "canonical_ct zero_ciphertext"
  by (simp add: zero_ciphertext_def)

lemma try_map_Ok: "(\<And>x. x \<in> set xs \<Longrightarrow> f x = Ok (g x)) \<Longrightarrow> try_map f xs = Ok (map g xs)"
  by (induction xs) auto

section \<open>Slot leaves\<close>

lemma token_ct_digests_value:
  assumes "\<And>xs. length (keccak xs) = 8" "length row = MAX_CHANNEL_TOKENS" "\<forall>t < MAX_CHANNEL_TOKENS. canonical_ct (row ! t)"
  shows "token_ct_digests keccak row = Ok (map (\<lambda>ct. keccak_digest keccak (ct_words ct)) row)"
proof -
  have "token_ct_digests keccak row = Ok (map (\<lambda>t. keccak_digest keccak (ct_words (row ! t))) [0..<MAX_CHANNEL_TOKENS])"
    unfolding token_ct_digests_def
    using assms by (intro try_map_Ok) (simp add: zero_ciphertext_digest_def RegevCiphertext_digest_value)
  also have "map (\<lambda>t. keccak_digest keccak (ct_words (row ! t))) [0..<MAX_CHANNEL_TOKENS] =
      map (\<lambda>ct. keccak_digest keccak (ct_words ct)) row"
    using assms(2) by (intro nth_equalityI) simp_all
  finally show ?thesis .
qed

lemma slot_leaf_hashes_value:
  assumes keccak: "\<And>xs. length (keccak xs) = 8" and "BalanceState_shape s" "BalanceState_ok s"
  shows "slot_leaf_hashes P keccak s = (Ok (map (slot_leaf P keccak s) [0..<MAX_CHANNEL_MEMBERS]) :: ('e, _) outcome)"
proof -
  have lens: "length (bs_enc_balances s) = MAX_CHANNEL_MEMBERS" "length (bs_pending_adds s) = MAX_CHANNEL_MEMBERS"
    using assms(3) by (simp_all add: BalanceState_ok_def balances_ok_def)
  have row: "length (bs_enc_balances s ! i) = MAX_CHANNEL_TOKENS" "\<forall>t < MAX_CHANNEL_TOKENS. canonical_ct (bs_enc_balances s ! i ! t)"
    if "i < MAX_CHANNEL_MEMBERS" for i
    using assms(2,3) that lens by (auto simp: BalanceState_shape_def BalanceState_ok_def balances_ok_def)
  have zero: "zero_ciphertext_digest keccak = Ok (keccak_digest keccak (ct_words zero_ciphertext))"
    using keccak by (simp add: zero_ciphertext_digest_def RegevCiphertext_digest_value zero_ciphertext_def)
  have padding: "slot_leaf P keccak s i = balance_slot_leaf_hash P Bytes32_default
      (replicate MAX_CHANNEL_TOKENS (keccak_digest keccak (ct_words zero_ciphertext)))
      (replicate MAX_CHANNEL_TOKENS 0) Address_default"
    if "is_padding_slot s i" "i < MAX_CHANNEL_MEMBERS" for i
  proof -
    have "bs_enc_balances s ! i = replicate MAX_CHANNEL_TOKENS zero_ciphertext"
      using that row(1) [OF that(2)] by (simp add: is_padding_slot_def list_all_iff replicate_eqI)
    then show ?thesis using that(1) by (simp add: slot_leaf_def slot_preimage_def balance_slot_leaf_hash_def is_padding_slot_def)
  qed
  have zeros: "try_map (\<lambda>_. zero_ciphertext_digest keccak) [0..<MAX_CHANNEL_TOKENS] =
      (Ok (replicate MAX_CHANNEL_TOKENS (keccak_digest keccak (ct_words zero_ciphertext))) :: ('e, _) outcome)"
    by (subst try_map_Ok [where g = "\<lambda>_. keccak_digest keccak (ct_words zero_ciphertext)"])
      (simp_all add: zero map_replicate_const)
  have "try_map (\<lambda>i. if is_padding_slot s i then Ok (balance_slot_leaf_hash P Bytes32_default
        (replicate MAX_CHANNEL_TOKENS (keccak_digest keccak (ct_words zero_ciphertext)))
        (replicate MAX_CHANNEL_TOKENS 0) Address_default)
      else and_then (token_ct_digests keccak (bs_enc_balances s ! i)) (\<lambda>digests.
        Ok (balance_slot_leaf_hash P (bs_regev_pk_digests s ! i) digests (bs_pending_adds s ! i) (bs_recipients s ! i))))
      [0..<MAX_CHANNEL_MEMBERS] = (Ok (map (slot_leaf P keccak s) [0..<MAX_CHANNEL_MEMBERS]) :: ('e, _) outcome)"
    by (rule try_map_Ok)
      (simp add: padding token_ct_digests_value keccak row, simp add: slot_leaf_def slot_preimage_def balance_slot_leaf_hash_def)
  then show ?thesis by (simp add: slot_leaf_hashes_def lens zeros)
qed

section \<open>Level-by-level root\<close>

lemma hash_pairs_even:
  "length xs = 2 * m \<Longrightarrow> hash_pairs H xs = Ok (map (\<lambda>i. H (xs ! (2 * i)) (xs ! Suc (2 * i))) [0..<m])"
proof (induction m arbitrary: xs)
  case (Suc m)
  then obtain a b ys where xs: "xs = a # b # ys" and ys: "length ys = 2 * m"
    by (cases xs; cases "tl xs") auto
  have chunks: "chunks 2 xs = [a, b] # chunks 2 ys" using chunks_append_Cons [of 2 "[a, b]" ys] by (simp add: xs)
  have "map (\<lambda>i. H (xs ! (2 * i)) (xs ! Suc (2 * i))) [0..<Suc m] =
      H a b # map (\<lambda>i. H (ys ! (2 * i)) (ys ! Suc (2 * i))) [0..<m]"
    by (rule nth_equalityI) (simp, case_tac i, auto simp: xs simp del: upt_Suc)
  then show ?case using Suc.IH [OF ys] by (auto simp: hash_pairs_def chunks)
qed (simp add: hash_pairs_def)

lemma level_loop_node:
  "level_loop H (map (node H f k) [0..<2 ^ n]) = (Ok (node H f (k + n) 0) :: ('e, _) outcome)"
proof (induction n arbitrary: k)
  case (Suc n)
  have "hash_pairs H (map (node H f k) [0..<2 ^ Suc n]) = (Ok (map (node H f (Suc k)) [0..<2 ^ n]) :: ('e, _) outcome)"
    using layer_step [of H f k "2 ^ n"]
    by (subst hash_pairs_even [where m = "2 ^ n"]) (simp_all del: upt_Suc node.simps map_eq_conv)
  then have "(level_loop H (map (node H f k) [0..<2 ^ Suc n]) :: ('e, _) outcome) =
      level_loop H (map (node H f (Suc k)) [0..<2 ^ n])"
    by (subst level_loop.simps) (simp add: one_less_double_pow del: upt_Suc node.simps map_eq_conv)
  also have "\<dots> = Ok (node H f (Suc k + n) 0)" by (rule Suc.IH)
  finally show ?case by simp
qed (simp add: level_loop.simps)

lemma slot_heights: "MAX_CHANNEL_MEMBERS = 2 ^ BALANCE_SLOT_TREE_HEIGHT" "BALANCE_SLOT_TREE_HEIGHT < 64"
  by (simp_all add: MAX_CHANNEL_MEMBERS_def BALANCE_SLOT_TREE_HEIGHT_def)

lemma slot_tree_root_value:
  assumes "\<And>xs. length (keccak xs) = 8" "BalanceState_shape s" "BalanceState_ok s"
  shows "slot_tree_root P keccak s = Ok (slot_root P keccak s)"
proof -
  have "node H f 0 = f" for H and f :: "nat \<Rightarrow> PoseidonHashOut" by (rule ext) simp
  then show ?thesis
    using level_loop_node [of "two_to_one P" "slot_leaf P keccak s" 0 BALANCE_SLOT_TREE_HEIGHT]
    by (simp add: slot_tree_root_def slot_leaf_hashes_value assms slot_root_def slot_heights(1))
qed

lemma slot_tree_value:
  assumes "\<And>xs. length (keccak xs) = 8" "BalanceState_shape s" "BalanceState_ok s"
  shows "\<exists>t. slot_tree P keccak s = (Ok t :: ('e, _) outcome) \<and> i_height t = BALANCE_SLOT_TREE_HEIGHT \<and>
    i_leaves t = map (slot_leaf P keccak s) [0..<MAX_CHANNEL_MEMBERS] \<and>
    incremental_rep (two_to_one P) (\<lambda>h. h) PoseidonHashOut_default t"
proof -
  let ?new = "Incremental_new (two_to_one P) (\<lambda>h. h) PoseidonHashOut_default BALANCE_SLOT_TREE_HEIGHT"
  have "incremental_rep (two_to_one P) (\<lambda>h. h) PoseidonHashOut_default ?new"
    by (rule Incremental_new_rep) (rule slot_heights)
  from Incremental_pushes [OF this, of "map (slot_leaf P keccak s) [0..<MAX_CHANNEL_MEMBERS]", where 'e = 'e]
  show ?thesis
    by (simp add: slot_tree_def slot_leaf_hashes_value assms new_incremental slot_heights(1))
qed

lemma slot_tree_leaf:
  "i < MAX_CHANNEL_MEMBERS \<Longrightarrow>
   incremental_leaf_fun (\<lambda>h. h) PoseidonHashOut_default (map (slot_leaf P keccak s) [0..<MAX_CHANNEL_MEMBERS]) i =
   slot_leaf P keccak s i"
  by (simp add: incremental_leaf_fun_def)

lemma slot_tree_node:
  "node (two_to_one P) (incremental_leaf_fun (\<lambda>h. h) PoseidonHashOut_default
     (map (slot_leaf P keccak s) [0..<MAX_CHANNEL_MEMBERS])) BALANCE_SLOT_TREE_HEIGHT 0 = slot_root P keccak s"
  unfolding slot_root_def by (rule node_cong) (rule slot_tree_leaf, simp add: slot_heights(1) div_eq_0_iff)

section \<open>Binding\<close>

abbreviation slot_path :: "(u64 list \<Rightarrow> PoseidonHashOut) \<Rightarrow> (u32 list \<Rightarrow> u32 list) \<Rightarrow> BalanceState \<Rightarrow> nat \<Rightarrow> (PoseidonHashOut \<times> PoseidonHashOut) set" where
  "slot_path P keccak s i \<equiv> path_pairs (two_to_one P) (slot_leaf P keccak s) BALANCE_SLOT_TREE_HEIGHT i"

lemma node_binding:
  assumes "i < 2 ^ ht" "node H f ht 0 = node H g ht 0" "inj_on (case_prod H) (path_pairs H f ht i \<union> path_pairs H g ht i)"
  shows "f i = g i"
proof -
  have "root_of H i (f i) (siblings_of H f 0 ht i) = root_of H i (g i) (siblings_of H g 0 ht i)"
    using assms(1,2) root_of_proof [of i ht H "f i" f] root_of_proof [of i ht H "g i" g] by simp
  then show ?thesis
    using root_of_binding [of H i "f i" "siblings_of H f 0 ht i" "g i" "siblings_of H g 0 ht i"] assms(3)
    by (simp add: path_pairs_def length_siblings_of)
qed

lemma ct_words_inject:
  "length (ct_c1 a) = length (ct_c1 b) \<Longrightarrow> ct_words a = ct_words b \<Longrightarrow> a = b"
  by (cases a; cases b) (auto simp: ct_words_def)

lemma slot_preimage_inject:
  assumes "slot_preimage keccak s i = slot_preimage keccak s' i"
    and "length (bs_enc_balances s ! i) = length (bs_enc_balances s' ! i)"
    and "length (bs_pending_adds s ! i) = length (bs_pending_adds s' ! i)"
  shows "bs_regev_pk_digests s ! i = bs_regev_pk_digests s' ! i \<and> bs_pending_adds s ! i = bs_pending_adds s' ! i \<and>
    bs_recipients s ! i = bs_recipients s' ! i \<and>
    map (\<lambda>ct. keccak_digest keccak (ct_words ct)) (bs_enc_balances s ! i) =
    map (\<lambda>ct. keccak_digest keccak (ct_words ct)) (bs_enc_balances s' ! i)"
proof -
  let ?ds = "map (\<lambda>ct. keccak_digest keccak (ct_words ct)) (bs_enc_balances s ! i)"
  let ?ds' = "map (\<lambda>ct. keccak_digest keccak (ct_words ct)) (bs_enc_balances s' ! i)"
  have len: "length (concat (map Bytes32_to_u32_vec ds)) = 8 * length ds" for ds
    by (induction ds) simp_all
  have eq: "bs_regev_pk_digests s ! i = bs_regev_pk_digests s' ! i \<and>
      concat (map Bytes32_to_u32_vec ?ds) = concat (map Bytes32_to_u32_vec ?ds') \<and>
      bs_pending_adds s ! i = bs_pending_adds s' ! i \<and> bs_recipients s ! i = bs_recipients s' ! i"
    using assms len [of ?ds] len [of ?ds']
    by (simp add: slot_preimage_def balance_slot_leaf_preimage_def bytes32.to_inj address.to_inj)
  have "chunks 8 (concat (map Bytes32_to_u32_vec ds)) = map Bytes32_to_u32_vec ds" for ds
    by (rule chunks_concat) auto
  then have "map Bytes32_to_u32_vec ?ds = map Bytes32_to_u32_vec ?ds'" using eq by metis
  moreover have "inj Bytes32_to_u32_vec" by (simp add: inj_on_def bytes32.to_inj)
  ultimately have "?ds = ?ds'" using inj_map_eq_map by blast
  then show ?thesis using eq by simp
qed

lemma ucast_u64_inject:
  assumes "LENGTH('a) \<le> 64"
  shows "(ucast (x :: 'a :: len word) :: u64) = ucast y \<longleftrightarrow> x = y"
proof -
  have "unat (ucast z :: u64) = unat z" for z :: "'a word"
  proof -
    have "unat z < 2 ^ LENGTH('a)" by (rule unsigned_less)
    also have "\<dots> \<le> 2 ^ 64" using assms by (intro power_increasing) simp_all
    finally show ?thesis by (simp add: unat_ucast_mod)
  qed
  then show ?thesis by (metis word_unat_eq_iff)
qed

lemma map_ucast_inject: "map (ucast :: u32 \<Rightarrow> u64) xs = map ucast ys \<longleftrightarrow> xs = ys"
proof -
  have "inj (ucast :: u32 \<Rightarrow> u64)" by (rule injI) (simp add: ucast_u64_inject)
  then show ?thesis by (simp add: inj_map_eq_map)
qed

lemma split_u64_words_inject: "split_u64_words x = split_u64_words y \<longleftrightarrow> x = y"
  by (auto simp: split_u64_words_def intro: halves_inject)

lemma h1_words_inject:
  assumes "h1_words s r = h1_words s' r'"
    and "length (bs_token_registry s) = length (bs_token_registry s')"
  shows "bs_channel_id s = bs_channel_id s' \<and> bs_member_count s = bs_member_count s' \<and>
    bs_delegate_count s = bs_delegate_count s' \<and> bs_token_count s = bs_token_count s' \<and>
    bs_token_registry s = bs_token_registry s' \<and> r = r' \<and> bs_settled_tx_chain s = bs_settled_tx_chain s' \<and>
    bs_settled_tx_accumulator_root s = bs_settled_tx_accumulator_root s' \<and> bs_state_version s = bs_state_version s'"
  using assms
  by (cases "bs_channel_id s"; cases "bs_channel_id s'")
    (simp add: h1_words_def ucast_u64_inject map_ucast_inject hash_elements_inject bytes32.to_inj split_u64_words_inject
      ChannelId_to_u32_vec_def)

lemma slots_inject:
  assumes keccak: "\<And>xs. length (keccak xs) = 8"
    and shape: "BalanceState_shape s" "BalanceState_shape s'"
    and ok: "BalanceState_ok s" "BalanceState_ok s'"
    and i: "i < MAX_CHANNEL_MEMBERS"
    and pre: "slot_preimage keccak s i = slot_preimage keccak s' i"
    and cts: "\<And>t. t < MAX_CHANNEL_TOKENS \<Longrightarrow>
      inj_on keccak {ct_words (bs_enc_balances s ! i ! t), ct_words (bs_enc_balances s' ! i ! t)}"
  shows "bs_enc_balances s ! i = bs_enc_balances s' ! i"
proof -
  have rows: "length (bs_enc_balances x ! i) = MAX_CHANNEL_TOKENS" "length (bs_pending_adds x ! i) = MAX_CHANNEL_TOKENS"
    "\<forall>t < MAX_CHANNEL_TOKENS. canonical_ct (bs_enc_balances x ! i ! t)" if "x \<in> {s, s'}" for x
    using that shape ok i by (auto simp: BalanceState_shape_def BalanceState_ok_def balances_ok_def)
  have digests: "map (\<lambda>ct. keccak_digest keccak (ct_words ct)) (bs_enc_balances s ! i) =
      map (\<lambda>ct. keccak_digest keccak (ct_words ct)) (bs_enc_balances s' ! i)"
    using slot_preimage_inject [OF pre] rows(1,2) by simp
  show ?thesis
  proof (rule nth_equalityI)
    fix t assume "t < length (bs_enc_balances s ! i)"
    then have t: "t < MAX_CHANNEL_TOKENS" using rows(1) [of s] by simp
    have "keccak_digest keccak (ct_words (bs_enc_balances s ! i ! t)) = keccak_digest keccak (ct_words (bs_enc_balances s' ! i ! t))"
      using arg_cong [OF digests, of "\<lambda>xs. xs ! t"] t rows(1) by simp
    then have "keccak (ct_words (bs_enc_balances s ! i ! t)) = keccak (ct_words (bs_enc_balances s' ! i ! t))"
      by (intro keccak_digest_inject keccak)
    from inj_onD [OF cts [OF t] this] have "ct_words (bs_enc_balances s ! i ! t) = ct_words (bs_enc_balances s' ! i ! t)" by simp
    then show "bs_enc_balances s ! i ! t = bs_enc_balances s' ! i ! t"
      using rows(3) [of s] rows(3) [of s'] t
      by (intro ct_words_inject) (auto simp: canonical_ct_def canonical_poly_def)
  qed (use rows(1) in simp)
qed

lemma Bytes32_from_hash_out_inject:
  assumes "Bytes32_from_hash_out a = (Ok b :: ('e, _) outcome)" "Bytes32_from_hash_out a' = (Ok b :: ('e, _) outcome)"
  shows "a = a'"
proof -
  have "concat (map Poseidon_Out.split_u64 (hash_elements a)) = concat (map Poseidon_Out.split_u64 (hash_elements a'))"
    using assms by (simp add: Bytes32_from_hash_out_def bytes32.from_ok_iff)
  then show ?thesis
    by (cases a; cases a') (auto simp: Poseidon_Out.split_u64_def Let_def intro: halves_inject)
qed

text \<open>The pairs of hash inputs on which two states with the same header hash could differ.\<close>

definition h1_collision_free ::
  "(u64 list \<Rightarrow> PoseidonHashOut) \<Rightarrow> (u32 list \<Rightarrow> u32 list) \<Rightarrow> BalanceState \<Rightarrow> BalanceState \<Rightarrow> bool" where
  "h1_collision_free P keccak s s' \<longleftrightarrow>
     inj_on (hash_inputs_u64 P) {h1_words s (slot_root P keccak s), h1_words s' (slot_root P keccak s')} \<and>
     (\<forall>i < MAX_CHANNEL_MEMBERS.
        inj_on (case_prod (two_to_one P)) (slot_path P keccak s i \<union> slot_path P keccak s' i) \<and>
        inj_on (hash_inputs_u32 P) {slot_preimage keccak s i, slot_preimage keccak s' i} \<and>
        (\<forall>t < MAX_CHANNEL_TOKENS.
           inj_on keccak {ct_words (bs_enc_balances s ! i ! t), ct_words (bs_enc_balances s' ! i ! t)}))"

lemma h1_injective:
  assumes keccak: "\<And>xs. length (keccak xs) = 8"
    and shape: "BalanceState_shape s" "BalanceState_shape s'"
    and valid: "BalanceState_validate s = Ok ()" "BalanceState_validate s' = Ok ()"
    and eq: "h1 P keccak s = (Ok h :: ('e, _) outcome)" "h1 P keccak s' = (Ok h :: ('e, _) outcome)"
    and free: "h1_collision_free P keccak s s'"
  shows "s = s'"
proof -
  have header: "inj_on (hash_inputs_u64 P) {h1_words s (slot_root P keccak s), h1_words s' (slot_root P keccak s')}"
    and paths: "\<And>i. i < MAX_CHANNEL_MEMBERS \<Longrightarrow>
      inj_on (case_prod (two_to_one P)) (slot_path P keccak s i \<union> slot_path P keccak s' i)"
    and leaves: "\<And>i. i < MAX_CHANNEL_MEMBERS \<Longrightarrow>
      inj_on (hash_inputs_u32 P) {slot_preimage keccak s i, slot_preimage keccak s' i}"
    and cts: "\<And>i t. i < MAX_CHANNEL_MEMBERS \<Longrightarrow> t < MAX_CHANNEL_TOKENS \<Longrightarrow>
      inj_on keccak {ct_words (bs_enc_balances s ! i ! t), ct_words (bs_enc_balances s' ! i ! t)}"
    using free unfolding h1_collision_free_def by blast+
  have ok: "BalanceState_ok s" "BalanceState_ok s'"
    using valid shape by (simp_all add: BalanceState_validate_value split: if_splits)
  have "hash_inputs_u64 P (h1_words s (slot_root P keccak s)) = hash_inputs_u64 P (h1_words s' (slot_root P keccak s'))"
    using eq by (auto simp: h1_def h1_header_preimage_def slot_tree_root_value keccak shape ok
        intro: Bytes32_from_hash_out_inject)
  from inj_onD [OF header this] have "h1_words s (slot_root P keccak s) = h1_words s' (slot_root P keccak s')" by simp
  note fields = h1_words_inject [OF this]
  have lens: "length (bs_token_registry s) = length (bs_token_registry s')"
    "length (bs_enc_balances s) = length (bs_enc_balances s')" "length (bs_pending_adds s) = length (bs_pending_adds s')"
    "length (bs_regev_pk_digests s) = length (bs_regev_pk_digests s')" "length (bs_recipients s) = length (bs_recipients s')"
    "length (bs_enc_balances s) = MAX_CHANNEL_MEMBERS" "length (bs_pending_adds s) = MAX_CHANNEL_MEMBERS"
    "length (bs_regev_pk_digests s) = MAX_CHANNEL_MEMBERS" "length (bs_recipients s) = MAX_CHANNEL_MEMBERS"
    using shape ok by (simp_all add: BalanceState_shape_def BalanceState_ok_def balances_ok_def)
  have pre: "slot_preimage keccak s i = slot_preimage keccak s' i" if i: "i < MAX_CHANNEL_MEMBERS" for i
  proof -
    have "slot_leaf P keccak s i = slot_leaf P keccak s' i"
      using node_binding [OF _ _ paths [OF i]] fields lens(1) i by (simp add: slot_heights(1) slot_root_def)
    from inj_onD [OF leaves [OF i] this [unfolded slot_leaf_def]] show ?thesis by simp
  qed
  have row_lens: "length (bs_enc_balances s ! i) = length (bs_enc_balances s' ! i)"
    "length (bs_pending_adds s ! i) = length (bs_pending_adds s' ! i)" if "i < MAX_CHANNEL_MEMBERS" for i
    using shape that lens by (auto simp: BalanceState_shape_def)
  note slot = slot_preimage_inject [OF pre row_lens]
  have "bs_enc_balances s = bs_enc_balances s'"
    using slots_inject [of keccak, OF keccak shape ok _ pre cts] lens by (intro nth_equalityI) simp_all
  moreover have "bs_pending_adds s = bs_pending_adds s'" "bs_regev_pk_digests s = bs_regev_pk_digests s'"
    "bs_recipients s = bs_recipients s'"
    using slot lens by (auto intro!: nth_equalityI)
  ultimately show ?thesis using fields lens(1) by (intro BalanceState.equality) simp_all
qed

section \<open>Properties\<close>

text \<open>
C25: the header hash that all members sign identifies the balance state. Two valid states with the same
\<open>h1\<close> are equal in every field: channel, member, delegate and token counts, registry, every
ciphertext and counter, key digests, exit addresses, settled chain, accumulator root and version. The
only hypotheses are that the hashes do not collide on the two headers, on the tree paths and leaves of
the same slot, and on the two ciphertexts of the same position.
\<close>

theorem h1_binding:
  assumes keccak: "\<And>xs. length (keccak xs) = 8"
    and shape: "BalanceState_shape s" "BalanceState_shape s'"
    and valid: "BalanceState_validate s = Ok ()" "BalanceState_validate s' = Ok ()"
    and eq: "h1 P keccak s = (Ok h :: ('e, _) outcome)" "h1 P keccak s' = (Ok h :: ('e, _) outcome)"
    and free: "h1_collision_free P keccak s s'"
  shows "s = s'"
  using h1_injective [of keccak s s', where 'e = 'e] assms by blast

theorem h1_binding_witness:
  "\<exists>h. h1 (\<lambda>_. PoseidonHashOut_default) (\<lambda>_. replicate 8 0) example_state = (Ok h :: (unit, _) outcome) \<and>
     example_state\<lparr>bs_state_version := 0\<rparr> = example_state"
proof -
  let ?P = "\<lambda>_. PoseidonHashOut_default" and ?k = "\<lambda>_ :: u32 list. replicate 8 (0 :: u32)"
  have valid: "BalanceState_validate example_state = Ok ()"
    by (simp add: BalanceState_validate_value example_state_shape example_state_ok)
  have root: "slot_tree_root ?P ?k example_state = (Ok (slot_root ?P ?k example_state) :: (unit, _) outcome)"
    by (rule slot_tree_root_value) (simp_all add: example_state_shape example_state_ok)
  have "\<exists>h. Bytes32_from_hash_out PoseidonHashOut_default = (Ok h :: (unit, _) outcome)"
    by (simp add: Bytes32_from_hash_out_def Bytes32_from_u32_slice_def PoseidonHashOut_default_def Poseidon_Out.split_u64_def)
  then obtain h where h: "h1 ?P ?k example_state = (Ok h :: (unit, _) outcome)"
    by (auto simp: h1_def h1_header_preimage_def root hash_inputs_u64_def)
  have const: "two_to_one ?P = (\<lambda>_ _. PoseidonHashOut_default)" "slot_leaf ?P ?k example_state i = PoseidonHashOut_default" for i
    by (simp_all add: fun_eq_iff two_to_one_def hash_inputs_u64_def slot_leaf_def hash_inputs_u32_def)
  have paths: "inj_on f (slot_path ?P ?k example_state i)" for i and f :: "_ \<Rightarrow> PoseidonHashOut"
    using path_pairs_const [of "slot_leaf ?P ?k example_state" PoseidonHashOut_default BALANCE_SLOT_TREE_HEIGHT i]
    by (intro inj_on_hashed_const) (simp add: const)
  have same: "example_state\<lparr>bs_state_version := 0\<rparr> = example_state" by (simp add: example_state_def)
  have "example_state\<lparr>bs_state_version := 0\<rparr> = example_state"
    by (rule h1_binding [of ?k _ _ ?P h, where 'e = unit]) (simp_all add: same example_state_shape valid h paths h1_collision_free_def)
  with h show ?thesis by blast
qed

text \<open>
C26: the level-by-level computation of the slot root ends, and its result is the root of the append-only
slot tree that the claim circuits open. In a valid state every slot leaf, padding slots included, is the
hash of that slot's key digest, ciphertext digests, counters and exit address, and the path the tree
returns for it verifies against the root.
\<close>

theorem slot_root_matches_tree:
  assumes keccak: "\<And>xs. length (keccak xs) = 8"
    and shape: "BalanceState_shape s" and valid: "BalanceState_validate s = Ok ()"
  shows "\<exists>t r. slot_tree P keccak s = (Ok t :: ('e, _) outcome) \<and> slot_tree_root P keccak s = (Ok r :: ('e, _) outcome) \<and>
    Incremental_get_root t = (Ok r :: ('e, _) outcome) \<and>
    (\<forall>i < MAX_CHANNEL_MEMBERS. \<exists>p. Incremental_prove t (of_nat i) = (Ok p :: ('e, _) outcome) \<and>
       MerkleProof_verify (two_to_one P) (\<lambda>h. h) p (slot_leaf P keccak s i) (of_nat i) r = Ok ())"
proof -
  have ok: "BalanceState_ok s" using valid by (simp add: BalanceState_validate_value shape split: if_splits)
  let ?f = "incremental_leaf_fun (\<lambda>h. h) PoseidonHashOut_default (map (slot_leaf P keccak s) [0..<MAX_CHANNEL_MEMBERS])"
  from slot_tree_value [of keccak s P, OF keccak shape ok, where 'e = 'e] obtain t where t: "slot_tree P keccak s = (Ok t :: ('e, _) outcome)"
    "i_height t = BALANCE_SLOT_TREE_HEIGHT" "i_leaves t = map (slot_leaf P keccak s) [0..<MAX_CHANNEL_MEMBERS]"
    "incremental_rep (two_to_one P) (\<lambda>h. h) PoseidonHashOut_default t" by blast
  have root: "Incremental_get_root t = (Ok (slot_root P keccak s) :: ('e, _) outcome)"
    using Incremental_get_root_rep [OF t(4)] t(2,3) slot_tree_node by simp
  have "\<exists>p. Incremental_prove t (of_nat i) = (Ok p :: ('e, _) outcome) \<and>
      MerkleProof_verify (two_to_one P) (\<lambda>h. h) p (slot_leaf P keccak s i) (of_nat i) (slot_root P keccak s) = Ok ()"
    if i: "i < MAX_CHANNEL_MEMBERS" for i
  proof -
    have u: "unat (of_nat i :: u64) = i" using i by (simp add: MAX_CHANNEL_MEMBERS_def unat_of_nat take_bit_nat_def)
    have upd: "?f(i := slot_leaf P keccak s i) = ?f" using slot_tree_leaf [OF i] by (simp add: fun_upd_idem)
    have "Incremental_prove t (of_nat i) =
        (Ok (siblings_of (two_to_one P) ?f 0 BALANCE_SLOT_TREE_HEIGHT i) :: ('e, _) outcome)"
      using Incremental_prove_rep [OF t(4), of "of_nat i"] t(2,3) u i by (simp add: slot_heights(1))
    moreover have "MerkleProof_verify (two_to_one P) (\<lambda>h. h) (siblings_of (two_to_one P) ?f 0 BALANCE_SLOT_TREE_HEIGHT i)
        (slot_leaf P keccak s i) (of_nat i) (slot_root P keccak s) = Ok ()"
      using verify_path [of "of_nat i" BALANCE_SLOT_TREE_HEIGHT "two_to_one P" "\<lambda>h. h" ?f "slot_leaf P keccak s i"] u i upd slot_tree_node
      by (simp add: slot_heights less_imp_le)
    ultimately show ?thesis by blast
  qed
  then show ?thesis using t(1) root slot_tree_root_value [of keccak s P, OF keccak shape ok] by blast
qed

theorem slot_root_matches_tree_witness:
  "\<exists>t r. slot_tree (\<lambda>_. PoseidonHashOut_default) (\<lambda>_. replicate 8 0) example_state = (Ok t :: (unit, _) outcome) \<and>
     slot_tree_root (\<lambda>_. PoseidonHashOut_default) (\<lambda>_. replicate 8 0) example_state = (Ok r :: (unit, _) outcome)"
  using slot_root_matches_tree [of "\<lambda>_. replicate 8 0" example_state "\<lambda>_. PoseidonHashOut_default", where 'e = unit]
  by (auto simp: BalanceState_validate_value example_state_shape example_state_ok)

end
