(* ===== verification/Channel.thy ===== *)
theory Channel
  imports Balance_Hash Private_State
begin

unbundle bit_operations_syntax

text \<open>
  The objects members of a channel exchange and sign (\<open>src/common/channel.rs\<close>): the channel record,
  the channel state, transfers inside and between channels, close intents, claims and their digests. A
  digest is the Keccak hash of a list of words that starts with a domain word; \<open>hash_words\<close> of
  \<open>channel.rs\<close> is the function of the same name of \<open>regev/mod.rs\<close>, and \<open>split_u64\<close> is
  \<open>split_u64_words\<close>.
\<close>

section \<open>Domain words\<close>

abbreviation (input) CHANNEL_STATE_DOMAIN :: u32 where "CHANNEL_STATE_DOMAIN \<equiv> 0x494d4348"
abbreviation (input) SMALL_BLOCK_DOMAIN :: u32 where "SMALL_BLOCK_DOMAIN \<equiv> 0x494d5342"
abbreviation (input) SIGNED_SMALL_BLOCK_DOMAIN :: u32 where "SIGNED_SMALL_BLOCK_DOMAIN \<equiv> 0x494d5353"
abbreviation (input) CLOSE_TX_DOMAIN :: u32 where "CLOSE_TX_DOMAIN \<equiv> 0x494d434c"
abbreviation (input) CLOSE_STATE_ID_DOMAIN :: u32 where "CLOSE_STATE_ID_DOMAIN \<equiv> 0x494d4353"
abbreviation (input) SPECIAL_CLOSE_DOMAIN :: u32 where "SPECIAL_CLOSE_DOMAIN \<equiv> 0x494d5343"
abbreviation (input) CANCEL_CLOSE_DOMAIN :: u32 where "CANCEL_CLOSE_DOMAIN \<equiv> 0x494d434e"
abbreviation (input) POST_CLOSE_CLAIM_DOMAIN :: u32 where "POST_CLOSE_CLAIM_DOMAIN \<equiv> 0x494d4350"
abbreviation (input) BURN_DESCRIPTOR_DOMAIN :: u32 where "BURN_DESCRIPTOR_DOMAIN \<equiv> 0x494d4432"
abbreviation (input) POST_CLOSE_NULLIFIER_DOMAIN :: u32 where "POST_CLOSE_NULLIFIER_DOMAIN \<equiv> 0x494d434b"
abbreviation (input) WITHDRAWAL_CLAIM_DOMAIN :: u32 where "WITHDRAWAL_CLAIM_DOMAIN \<equiv> 0x494d4357"
abbreviation (input) CHANNEL_BALANCE_LEAF_DOMAIN :: u32 where "CHANNEL_BALANCE_LEAF_DOMAIN \<equiv> 0x494d5546"
abbreviation (input) CHANNEL_RECORD_DOMAIN :: u32 where "CHANNEL_RECORD_DOMAIN \<equiv> 0x494d4352"
abbreviation (input) CLOSE_MEMBER_SET_DOMAIN :: u32 where "CLOSE_MEMBER_SET_DOMAIN \<equiv> 0x494d434d"
abbreviation (input) PAY_DOMAIN_V2 :: u32 where "PAY_DOMAIN_V2 \<equiv> 0x494d5032"
abbreviation (input) L1_DEPOSIT_IMPORT_DOMAIN_V2 :: u32 where "L1_DEPOSIT_IMPORT_DOMAIN_V2 \<equiv> 0x494d4c32"
abbreviation (input) WITHDRAWAL_CLAIM_DOMAIN_V2 :: u32 where "WITHDRAWAL_CLAIM_DOMAIN_V2 \<equiv> 0x494d5732"
abbreviation (input) INTER_CHANNEL_TX_DOMAIN_V5 :: u32 where "INTER_CHANNEL_TX_DOMAIN_V5 \<equiv> 0x494d4935"
abbreviation (input) TOKEN_FUNDS_DIGEST_DOMAIN :: u32 where "TOKEN_FUNDS_DIGEST_DOMAIN \<equiv> 0x494d5446"

abbreviation BURN_CHANNEL_ID :: u32 where
  "BURN_CHANNEL_ID \<equiv> 0xFFFFFFFF"

text \<open>\<open>FALCON_COSIGN_BLOB_BYTES\<close>: version byte, salt, compressed signature and public polynomial.\<close>

abbreviation FALCON_COSIGN_BLOB_BYTES :: nat where
  "FALCON_COSIGN_BLOB_BYTES \<equiv> (1 + 40 + 625) + 2 * 512"

section \<open>Words of byte strings\<close>

fun bytes_to_u32_words :: "u8 list \<Rightarrow> u32 list" where
  "bytes_to_u32_words (a # b # c # d # bs) = u32_from_be_bytes [a, b, c, d] # bytes_to_u32_words bs"
| "bytes_to_u32_words [] = []"
| "bytes_to_u32_words bs = [u32_from_be_bytes (bs @ replicate (4 - length bs) 0)]"

text \<open>A byte string in a preimage: its length as a word, then its words.\<close>

definition len_bytes :: "u8 list \<Rightarrow> u32 list" where
  "len_bytes bs = [of_nat (length bs)] @ bytes_to_u32_words bs"

section \<open>Transition kinds and proof envelopes\<close>

datatype ChannelStatus = Active | ClosePending | Closed

fun ChannelStatus_as_u32 :: "ChannelStatus \<Rightarrow> u32" where
  "ChannelStatus_as_u32 Active = 0"
| "ChannelStatus_as_u32 ClosePending = 1"
| "ChannelStatus_as_u32 Closed = 2"

datatype ProofBackend = Plonky2 | Plonky3

datatype TransitionProofRole = ChannelStateUpdate | IntmaxTransport | ChannelCloseSettlement | SpecialCloseSettlement

datatype ChannelTransitionKind =
    InChannelTransfer | InterChannelSend | InterChannelFundImport | ReceiverBundleApply | BalanceRefresh
  | ChannelClose | SpecialCloseKind | L1DepositImport | TokenRegister

fun required_state_backend :: "ChannelTransitionKind \<Rightarrow> ProofBackend option" where
  "required_state_backend InChannelTransfer = Some Plonky3"
| "required_state_backend InterChannelSend = Some Plonky3"
| "required_state_backend ReceiverBundleApply = Some Plonky3"
| "required_state_backend BalanceRefresh = Some Plonky3"
| "required_state_backend _ = None"

fun required_transport_backend :: "ChannelTransitionKind \<Rightarrow> ProofBackend option" where
  "required_transport_backend InterChannelSend = Some Plonky2"
| "required_transport_backend InterChannelFundImport = Some Plonky2"
| "required_transport_backend ChannelClose = Some Plonky2"
| "required_transport_backend SpecialCloseKind = Some Plonky2"
| "required_transport_backend _ = None"

record ChannelProofEnvelope =
  env_role :: TransitionProofRole
  env_backend :: ProofBackend
  env_proof :: "u8 list"

fun TransitionProofRole_as_u32 :: "TransitionProofRole \<Rightarrow> u32" where
  "TransitionProofRole_as_u32 ChannelStateUpdate = 0"
| "TransitionProofRole_as_u32 IntmaxTransport = 1"
| "TransitionProofRole_as_u32 ChannelCloseSettlement = 2"
| "TransitionProofRole_as_u32 SpecialCloseSettlement = 3"

fun ProofBackend_as_u32 :: "ProofBackend \<Rightarrow> u32" where
  "ProofBackend_as_u32 Plonky2 = 0"
| "ProofBackend_as_u32 Plonky3 = 1"

definition to_digest_words :: "ChannelProofEnvelope \<Rightarrow> u32 list" where
  "to_digest_words e =
     [TransitionProofRole_as_u32 (env_role e), ProofBackend_as_u32 (env_backend e)] @ len_bytes (env_proof e)"

section \<open>Channel record\<close>

record ChannelRecord =
  cr_channel_id :: ChannelId
  cr_member_count :: u8
  cr_delegate_count :: u16
  cr_member_pk_gs :: "Bytes32 list"
  cr_member_pubkeys_root :: Bytes32
  cr_set_version :: u64
  cr_bp_member_slot :: u8
  cr_special_close_penalty :: U256
  cr_close_freeze_nonce :: u64
  cr_status :: ChannelStatus
  cr_regev_pk_root :: Bytes32

definition validate_member_key :: "Bytes32 list \<Rightarrow> nat \<Rightarrow> nat \<times> Bytes32 \<Rightarrow> (ChannelError, unit) outcome" where
  "validate_member_key hashes active = (\<lambda>(i, hash).
     if i < active then
       if hash = Bytes32_default then Err InvalidChannelRecord
       else if list_ex (\<lambda>(j, other). j < active \<and> hash = other) (drop (i + 1) (enumerate 0 hashes))
       then Err InvalidChannelRecord
       else Ok ()
     else if hash \<noteq> Bytes32_default then Err InvalidChannelRecord
     else Ok ())"

definition ChannelRecord_validate :: "ChannelRecord \<Rightarrow> (ChannelError, unit) outcome" where
  "ChannelRecord_validate r =
     (if cr_regev_pk_root r = Bytes32_default then Err InvalidChannelRecord
      else if channel_id_of (cr_channel_id r) = BURN_CHANNEL_ID then Err InvalidChannelRecord
      else
        let count = unat (cr_member_count r) in
        if count < 2 \<or> count > MAX_SIG_CLUSTER then Err InvalidChannelRecord
        else if unat (cr_bp_member_slot r) \<ge> count then Err InvalidChannelRecord
        else
          let active = count + unat (cr_delegate_count r) in
          if \<not> active \<le> MAX_CHANNEL_MEMBERS then Err InvalidChannelRecord
          else try_each (validate_member_key (cr_member_pk_gs r) active) (enumerate 0 (cr_member_pk_gs r)))"

definition ChannelRecord_signing_digest :: "(u32 list \<Rightarrow> u32 list) \<Rightarrow> ChannelRecord \<Rightarrow> ('e, Bytes32) outcome" where
  "ChannelRecord_signing_digest keccak r =
     hash_words keccak
       ([CHANNEL_RECORD_DOMAIN] @ ChannelId_to_u32_vec (cr_channel_id r) @ [ucast (cr_bp_member_slot r)] @
        split_u64_words (cr_close_freeze_nonce r) @ split_u64_words (cr_set_version r) @
        [ChannelStatus_as_u32 (cr_status r), ucast (cr_member_count r), ucast (cr_delegate_count r)] @
        concat (map Bytes32_to_u32_vec (cr_member_pk_gs r)) @ Bytes32_to_u32_vec (cr_member_pubkeys_root r) @
        U256_to_u32_vec (cr_special_close_penalty r) @ Bytes32_to_u32_vec (cr_regev_pk_root r))"

section \<open>Small blocks and signatures\<close>

record MerkleInclusionProof =
  mip_siblings :: "Bytes32 list"
  mip_leaf_index :: U256

record SmallBlockRootMessage =
  sm_channel_id :: ChannelId
  sm_bp_member_slot :: u8
  sm_bp_pk_g :: Bytes32
  sm_small_block_number :: u64
  sm_prev_small_block_root :: Bytes32
  sm_tx_tree_root :: Bytes32
  sm_state_commitment_root :: Bytes32
  sm_medium_epoch_hint :: u64
  sm_close_freeze_nonce :: u64

definition SmallBlockRootMessage_words :: "SmallBlockRootMessage \<Rightarrow> u32 list" where
  "SmallBlockRootMessage_words m =
     [SMALL_BLOCK_DOMAIN] @ ChannelId_to_u32_vec (sm_channel_id m) @ [ucast (sm_bp_member_slot m)] @
     Bytes32_to_u32_vec (sm_bp_pk_g m) @ split_u64_words (sm_small_block_number m) @
     Bytes32_to_u32_vec (sm_prev_small_block_root m) @ Bytes32_to_u32_vec (sm_tx_tree_root m) @
     Bytes32_to_u32_vec (sm_state_commitment_root m) @ split_u64_words (sm_medium_epoch_hint m) @
     split_u64_words (sm_close_freeze_nonce m)"

definition SmallBlockRootMessage_signing_digest ::
  "(u32 list \<Rightarrow> u32 list) \<Rightarrow> SmallBlockRootMessage \<Rightarrow> ('e, Bytes32) outcome" where
  "SmallBlockRootMessage_signing_digest keccak m = hash_words keccak (SmallBlockRootMessage_words m)"

record MemberSignature =
  ms_member_slot :: u8
  ms_pk_g :: Bytes32
  ms_signature :: "u8 list"

record SignedSmallBlock =
  sb_message :: SmallBlockRootMessage
  sb_signatures :: "MemberSignature list"
  sb_aggregated_signature_proof :: "u8 list"
  sb_medium_block_number :: u64
  sb_confirmation_proof :: "u8 list"

definition SignedSmallBlock_signing_digest ::
  "(u32 list \<Rightarrow> u32 list) \<Rightarrow> SignedSmallBlock \<Rightarrow> ('e, Bytes32) outcome" where
  "SignedSmallBlock_signing_digest keccak b =
     and_then (SmallBlockRootMessage_signing_digest keccak (sb_message b)) (\<lambda>message.
       hash_words keccak
         ([SIGNED_SMALL_BLOCK_DOMAIN] @ Bytes32_to_u32_vec message @ split_u64_words (sb_medium_block_number b) @
          [of_nat (length (sb_signatures b))] @
          concat (map (\<lambda>s. [ucast (ms_member_slot s)] @ Bytes32_to_u32_vec (ms_pk_g s) @ len_bytes (ms_signature s))
            (sb_signatures b)) @
          len_bytes (sb_aggregated_signature_proof b) @ len_bytes (sb_confirmation_proof b)))"

text \<open>Structural checks of a signature set.\<close>

definition validate_signature_slot :: "ChannelRecord \<Rightarrow> nat \<times> MemberSignature \<Rightarrow> (ChannelError, unit) outcome" where
  "validate_signature_slot r = (\<lambda>(slot, actual).
     if unat (ms_member_slot actual) \<noteq> slot then Err InvalidSignatureSet
     else if slot \<ge> length (cr_member_pk_gs r) then Panic
     else if ms_pk_g actual \<noteq> cr_member_pk_gs r ! slot then Err InvalidSignatureSet
     else if ms_signature actual = [] then Err InvalidSignatureSet
     else Ok ())"

definition validate_member_signature_slots ::
  "ChannelRecord \<Rightarrow> MemberSignature list \<Rightarrow> (ChannelError, unit) outcome" where
  "validate_member_signature_slots r signatures =
     and_then (ChannelRecord_validate r) (\<lambda>_.
     if length signatures \<noteq> unat (cr_member_count r) then Err InvalidSignatureSet
     else try_each (validate_signature_slot r) (enumerate 0 signatures))"

definition validate_all_member_signatures ::
  "ChannelRecord \<Rightarrow> MemberSignature list \<Rightarrow> (ChannelError, unit) outcome" where
  "validate_all_member_signatures r signatures =
     and_then (validate_member_signature_slots r signatures) (\<lambda>_.
       try_each (\<lambda>(slot, actual). if length (ms_signature actual) \<noteq> FALCON_COSIGN_BLOB_BYTES
           then Err InvalidSignatureSet else Ok ()) (enumerate 0 signatures))"

section \<open>Channel funds and close identity\<close>

record ChannelFund =
  cf_channel_id :: ChannelId
  cf_amounts :: "U256 list"
  cf_intmax_state_root :: Bytes32

definition single_token_amounts :: "U256 \<Rightarrow> U256 list" where
  "single_token_amounts amount = (replicate MAX_CHANNEL_TOKENS U256_default)[0 := amount]"

definition token_funds_digest ::
  "(u32 list \<Rightarrow> u32 list) \<Rightarrow> u32 list \<Rightarrow> u8 \<Rightarrow> U256 list \<Rightarrow> ('e, Bytes32) outcome" where
  "token_funds_digest keccak registry token_count amounts =
     hash_words keccak ([TOKEN_FUNDS_DIGEST_DOMAIN] @ registry @ [ucast token_count] @ concat (map U256_to_u32_vec amounts))"

definition close_state_id ::
  "(u32 list \<Rightarrow> u32 list) \<Rightarrow> ChannelId \<Rightarrow> Bytes32 \<Rightarrow> u64 \<Rightarrow> ('e, Bytes32) outcome" where
  "close_state_id keccak channel_id final_channel_state_digest close_freeze_nonce =
     hash_words keccak
       ([CLOSE_STATE_ID_DOMAIN] @ ChannelId_to_u32_vec channel_id @ Bytes32_to_u32_vec final_channel_state_digest @
        split_u64_words close_freeze_nonce)"

section \<open>Channel state\<close>

record ChannelState =
  cs_channel_id :: ChannelId
  cs_epoch :: u64
  cs_small_block_number :: u64
  cs_close_freeze_nonce :: u64
  cs_channel_fund :: ChannelFund
  cs_balance_state :: BalanceState
  cs_h2_tag :: Bytes32
  cs_shared_native_nullifier_root :: Bytes32
  cs_unallocated_confirmed_incoming :: U256
  cs_prev_digest :: Bytes32
  cs_digest :: Bytes32
  cs_member_signatures :: "MemberSignature list"

definition ChannelState_words :: "ChannelState \<Rightarrow> Bytes32 \<Rightarrow> u32 list" where
  "ChannelState_words s balance_h1 =
     [CHANNEL_STATE_DOMAIN] @ ChannelId_to_u32_vec (cs_channel_id s) @ split_u64_words (cs_epoch s) @
     split_u64_words (cs_small_block_number s) @ split_u64_words (cs_close_freeze_nonce s) @
     ChannelId_to_u32_vec (cf_channel_id (cs_channel_fund s)) @
     concat (map U256_to_u32_vec (cf_amounts (cs_channel_fund s))) @
     Bytes32_to_u32_vec (cf_intmax_state_root (cs_channel_fund s)) @ Bytes32_to_u32_vec balance_h1 @
     Bytes32_to_u32_vec (cs_shared_native_nullifier_root s) @ U256_to_u32_vec (cs_unallocated_confirmed_incoming s) @
     Bytes32_to_u32_vec (cs_prev_digest s) @ Bytes32_to_u32_vec (cs_h2_tag s) @
     split_u64_words (bs_state_version (cs_balance_state s))"

definition ChannelState_signing_digest ::
  "(u64 list \<Rightarrow> PoseidonHashOut) \<Rightarrow> (u32 list \<Rightarrow> u32 list) \<Rightarrow> ChannelState \<Rightarrow> ('e, Bytes32) outcome" where
  "ChannelState_signing_digest poseidon keccak s =
     and_then (h1 poseidon keccak (cs_balance_state s)) (\<lambda>balance_h1. hash_words keccak (ChannelState_words s balance_h1))"

definition with_computed_digest ::
  "(u64 list \<Rightarrow> PoseidonHashOut) \<Rightarrow> (u32 list \<Rightarrow> u32 list) \<Rightarrow> ChannelState \<Rightarrow> ('e, ChannelState) outcome" where
  "with_computed_digest poseidon keccak s =
     and_then (ChannelState_signing_digest poseidon keccak s) (\<lambda>digest. Ok (s\<lparr>cs_digest := digest\<rparr>))"

definition token_register_next_state ::
  "(u64 list \<Rightarrow> PoseidonHashOut) \<Rightarrow> (u32 list \<Rightarrow> u32 list) \<Rightarrow> ChannelState \<Rightarrow> u32 \<Rightarrow> (ChannelError, ChannelState) outcome" where
  "token_register_next_state poseidon keccak prev token_index =
     and_then (apply_token_register token_index (cs_balance_state prev)) (\<lambda>balance_state.
       with_computed_digest poseidon keccak
         (prev\<lparr>cs_epoch := cs_epoch prev + 1, cs_balance_state := balance_state, cs_h2_tag := Bytes32_default,
               cs_prev_digest := cs_digest prev, cs_member_signatures := []\<rparr>))"

section \<open>Transfers inside and between channels\<close>

text \<open>\<open>ChannelTx::signing_digest\<close>.\<close>

definition ChannelTx_signing_digest ::
  "(u32 list \<Rightarrow> u32 list) \<Rightarrow> ChannelId \<Rightarrow> Bytes32 \<Rightarrow> RegevCiphertext \<Rightarrow> Bytes32 \<Rightarrow> u8 \<Rightarrow> Bytes32 \<Rightarrow> Bytes32 \<Rightarrow> ('e, Bytes32) outcome" where
  "ChannelTx_signing_digest keccak channel_id prev_state_digest enc_amount nonce token_slot sender_pk_g recipient_pk_g =
     and_then (RegevCiphertext_digest keccak enc_amount) (\<lambda>amount.
       hash_words keccak
         ([PAY_DOMAIN_V2] @ ChannelId_to_u32_vec channel_id @ Bytes32_to_u32_vec prev_state_digest @
          Bytes32_to_u32_vec amount @ Bytes32_to_u32_vec nonce @ [ucast token_slot] @
          Bytes32_to_u32_vec sender_pk_g @ Bytes32_to_u32_vec recipient_pk_g))"

record ReceiverBalanceDelta =
  rbd_receiver_pk_g :: Bytes32
  rbd_receiver_regev_pk_digest :: Bytes32
  rbd_amount :: RegevCiphertext

record InterChannelTx =
  ict_tx_inclusion_proof :: MerkleInclusionProof
  ict_signed_small_block :: SignedSmallBlock
  ict_sender_delta_ct :: RegevCiphertext
  ict_source_channel_id :: ChannelId
  ict_destination_channel_id :: ChannelId
  ict_token_index :: u32
  ict_base_nonce :: u32
  ict_destination_base_transfer_salt :: Salt
  ict_source_pk_g :: Bytes32
  ict_seal :: Bytes32
  ict_tx_hash :: Bytes32
  ict_intmax_transfer_commitment :: Bytes32
  ict_recipient_memo :: "u8 list"
  ict_receiver_deltas :: "ReceiverBalanceDelta list"
  ict_channel_update_zkp :: ChannelProofEnvelope
  ict_transport_proof :: "u8 list"
  ict_sender_hash_sig :: "u8 list"
  ict_sender_pk_b :: Bytes32

definition InterChannelTx_words :: "InterChannelTx \<Rightarrow> Bytes32 \<Rightarrow> Bytes32 \<Rightarrow> Bytes32 list \<Rightarrow> u32 list" where
  "InterChannelTx_words t message sender_delta amounts =
     [INTER_CHANNEL_TX_DOMAIN_V5] @ Bytes32_to_u32_vec message @ Bytes32_to_u32_vec sender_delta @
     ChannelId_to_u32_vec (ict_source_channel_id t) @ ChannelId_to_u32_vec (ict_destination_channel_id t) @
     [ict_token_index t] @ [ict_base_nonce t] @
     concat (map split_u64_words (Salt_to_u64_vec (ict_destination_base_transfer_salt t))) @
     Bytes32_to_u32_vec (ict_source_pk_g t) @ Bytes32_to_u32_vec (ict_seal t) @ Bytes32_to_u32_vec (ict_tx_hash t) @
     Bytes32_to_u32_vec (ict_intmax_transfer_commitment t) @ len_bytes (ict_recipient_memo t) @
     [of_nat (length (ict_receiver_deltas t))] @
     concat (map2 (\<lambda>d amount. Bytes32_to_u32_vec (rbd_receiver_pk_g d) @
       Bytes32_to_u32_vec (rbd_receiver_regev_pk_digest d) @ Bytes32_to_u32_vec amount) (ict_receiver_deltas t) amounts) @
     to_digest_words (ict_channel_update_zkp t) @ len_bytes (ict_transport_proof t)"

definition InterChannelTx_signing_digest :: "(u32 list \<Rightarrow> u32 list) \<Rightarrow> InterChannelTx \<Rightarrow> ('e, Bytes32) outcome" where
  "InterChannelTx_signing_digest keccak t =
     and_then (SmallBlockRootMessage_signing_digest keccak (sb_message (ict_signed_small_block t))) (\<lambda>message.
     and_then (RegevCiphertext_digest keccak (ict_sender_delta_ct t)) (\<lambda>sender_delta.
     and_then (try_map (\<lambda>d. RegevCiphertext_digest keccak (rbd_amount d)) (ict_receiver_deltas t)) (\<lambda>amounts.
       hash_words keccak (InterChannelTx_words t message sender_delta amounts))))"

text \<open>\<open>InterChannelTx::tx_leaf_hash\<close>.\<close>

definition InterChannelTx_tx_leaf_hash :: "(u32 list \<Rightarrow> u32 list) \<Rightarrow> InterChannelTx \<Rightarrow> (ChannelError, Bytes32) outcome" where
  "InterChannelTx_tx_leaf_hash keccak t =
     (case ict_receiver_deltas t of
        [] \<Rightarrow> Err InvalidInterChannelTx
      | receiver # _ \<Rightarrow>
          and_then (RegevCiphertext_digest keccak (ict_sender_delta_ct t)) (\<lambda>sender_delta.
          and_then (RegevCiphertext_digest keccak (rbd_amount receiver)) (\<lambda>amount.
            tx_leaf_hash keccak (ict_source_pk_g t) sender_delta (rbd_receiver_pk_g receiver)
              (rbd_receiver_regev_pk_digest receiver) amount)))"

definition burn_descriptor ::
  "(u32 list \<Rightarrow> u32 list) \<Rightarrow> ChannelId \<Rightarrow> u32 \<Rightarrow> Bytes32 \<Rightarrow> Bytes32 \<Rightarrow> u32 \<Rightarrow> U256 \<Rightarrow> ('e, Bytes32) outcome" where
  "burn_descriptor keccak source_channel_id base_nonce tx_leaf recipient token_index amount =
     hash_words keccak
       ([BURN_DESCRIPTOR_DOMAIN] @ ChannelId_to_u32_vec source_channel_id @ [base_nonce] @ Bytes32_to_u32_vec tx_leaf @
        Bytes32_to_u32_vec recipient @ [token_index] @ U256_to_u32_vec amount)"

definition inter_channel_tx_hash ::
  "(u32 list \<Rightarrow> u32 list) \<Rightarrow> ChannelId \<Rightarrow> ChannelId \<Rightarrow> u32 \<Rightarrow> Bytes32 \<Rightarrow> Bytes32 \<Rightarrow> ('e, Bytes32) outcome" where
  "inter_channel_tx_hash keccak source_channel_id destination_channel_id token_index tx_tree_root tx_leaf =
     and_then (settled_tx_chain_push keccak tx_tree_root tx_leaf) (\<lambda>mixed.
     and_then (unwrap (Bytes32_from_u32_slice
         [0, 0, 0, 0, 0, token_index, ucast (ChannelId_as_u64 destination_channel_id), ucast (ChannelId_as_u64 source_channel_id)]))
       (\<lambda>ids. settled_tx_chain_push keccak ids mixed))"

definition inter_channel_tx_identity ::
  "(u32 list \<Rightarrow> u32 list) \<Rightarrow> ChannelId \<Rightarrow> ChannelId \<Rightarrow> Bytes32 \<Rightarrow> Bytes32 \<Rightarrow> ('e, Bytes32) outcome" where
  "inter_channel_tx_identity keccak source_channel_id destination_channel_id tx_tree_root tx_leaf =
     inter_channel_tx_hash keccak source_channel_id destination_channel_id 0 tx_tree_root tx_leaf"

definition compute_tx_hash :: "(u32 list \<Rightarrow> u32 list) \<Rightarrow> InterChannelTx \<Rightarrow> (ChannelError, Bytes32) outcome" where
  "compute_tx_hash keccak t =
     and_then (InterChannelTx_tx_leaf_hash keccak t) (\<lambda>leaf.
       inter_channel_tx_hash keccak (ict_source_channel_id t) (ict_destination_channel_id t) (ict_token_index t)
         (sm_tx_tree_root (sb_message (ict_signed_small_block t))) leaf)"

definition replay_identity :: "(u32 list \<Rightarrow> u32 list) \<Rightarrow> InterChannelTx \<Rightarrow> (ChannelError, Bytes32) outcome" where
  "replay_identity keccak t =
     and_then (InterChannelTx_tx_leaf_hash keccak t) (\<lambda>leaf.
       inter_channel_tx_identity keccak (ict_source_channel_id t) (ict_destination_channel_id t)
         (sm_tx_tree_root (sb_message (ict_signed_small_block t))) leaf)"

section \<open>Closing\<close>

record CloseWithdrawal =
  cw_channel_id :: ChannelId
  cw_final_channel_state_digest :: Bytes32
  cw_final_balance_state_h1 :: Bytes32
  cw_intmax_state_root :: Bytes32
  cw_burn_tx_hash :: Bytes32
  cw_burn_amount :: U256
  cw_zkp :: "u8 list"

definition CloseWithdrawal_signing_digest :: "(u32 list \<Rightarrow> u32 list) \<Rightarrow> CloseWithdrawal \<Rightarrow> ('e, Bytes32) outcome" where
  "CloseWithdrawal_signing_digest keccak w =
     hash_words keccak
       ([CLOSE_TX_DOMAIN] @ ChannelId_to_u32_vec (cw_channel_id w) @ Bytes32_to_u32_vec (cw_final_channel_state_digest w) @
        Bytes32_to_u32_vec (cw_final_balance_state_h1 w) @ Bytes32_to_u32_vec (cw_intmax_state_root w) @
        Bytes32_to_u32_vec (cw_burn_tx_hash w) @ U256_to_u32_vec (cw_burn_amount w))"

record CloseIntent =
  ci_channel_id :: ChannelId
  ci_close_nonce :: u64
  ci_final_epoch :: u64
  ci_final_small_block_number :: u64
  ci_close_freeze_nonce :: u64
  ci_final_channel_state_digest :: Bytes32
  ci_final_balance_state_h1 :: Bytes32
  ci_channel_fund_snapshot :: ChannelFund
  ci_burn_tx_hash :: Bytes32
  ci_close_withdrawal_digest :: Bytes32
  ci_snapshot_medium_block_number :: u64
  ci_final_state_version :: u64
  ci_final_settled_tx_chain :: Bytes32

definition CloseIntent_new ::
  "(u64 list \<Rightarrow> PoseidonHashOut) \<Rightarrow> (u32 list \<Rightarrow> u32 list) \<Rightarrow> ChannelState \<Rightarrow> CloseWithdrawal
     \<Rightarrow> (ChannelError, CloseIntent) outcome" where
  "CloseIntent_new poseidon keccak s w =
     (if cs_channel_id s \<noteq> cw_channel_id w then Err InvalidCloseBinding
      else if cs_digest s \<noteq> cw_final_channel_state_digest w then Err InvalidCloseBinding
      else
        and_then (h1 poseidon keccak (cs_balance_state s)) (\<lambda>final_h1.
        if final_h1 \<noteq> cw_final_balance_state_h1 w then Err InvalidCloseBinding
        else if cf_intmax_state_root (cs_channel_fund s) \<noteq> cw_intmax_state_root w then Err InvalidCloseBinding
        else if cw_burn_tx_hash w \<noteq> Bytes32_default then Err InvalidCloseBinding
        else if cf_amounts (cs_channel_fund s) ! 0 \<noteq> cw_burn_amount w then Err InvalidCloseBinding
        else if cs_close_freeze_nonce s = - 1 then Err InvalidCloseBinding
        else
          let close_nonce = cs_close_freeze_nonce s + 1 in
          and_then (CloseWithdrawal_signing_digest keccak w) (\<lambda>close_withdrawal_digest.
          Ok \<lparr>ci_channel_id = cs_channel_id s, ci_close_nonce = close_nonce, ci_final_epoch = cs_epoch s,
              ci_final_small_block_number = cs_small_block_number s, ci_close_freeze_nonce = close_nonce,
              ci_final_channel_state_digest = cs_digest s, ci_final_balance_state_h1 = final_h1,
              ci_channel_fund_snapshot = cs_channel_fund s, ci_burn_tx_hash = cw_burn_tx_hash w,
              ci_close_withdrawal_digest = close_withdrawal_digest, ci_snapshot_medium_block_number = 0,
              ci_final_state_version = bs_state_version (cs_balance_state s),
              ci_final_settled_tx_chain = bs_settled_tx_chain (cs_balance_state s)\<rparr>)))"

definition state_id :: "(u32 list \<Rightarrow> u32 list) \<Rightarrow> CloseIntent \<Rightarrow> ('e, Bytes32) outcome" where
  "state_id keccak i = close_state_id keccak (ci_channel_id i) (ci_final_channel_state_digest i) (ci_close_freeze_nonce i)"

definition CloseIntent_signing_digest :: "(u32 list \<Rightarrow> u32 list) \<Rightarrow> CloseIntent \<Rightarrow> ('e, Bytes32) outcome" where
  "CloseIntent_signing_digest keccak i = state_id keccak i"

record WithdrawalClaim =
  wc_close_intent_digest :: Bytes32
  wc_member_pk_g :: Bytes32
  wc_token_slot :: u8
  wc_l1_recipient :: Address
  wc_user_amount_ct :: RegevCiphertext
  wc_withdrawal_nullifier :: Bytes32
  wc_claim_proof :: "u8 list"

definition derive_nullifier :: "(u32 list \<Rightarrow> u32 list) \<Rightarrow> Bytes32 \<Rightarrow> Bytes32 \<Rightarrow> u8 \<Rightarrow> ('e, Bytes32) outcome" where
  "derive_nullifier keccak close_intent_digest slot_regev_pk_digest token_slot =
     hash_words keccak
       ([WITHDRAWAL_CLAIM_DOMAIN_V2] @ Bytes32_to_u32_vec close_intent_digest @ Bytes32_to_u32_vec slot_regev_pk_digest @
        [ucast token_slot])"

definition WithdrawalClaim_signing_digest :: "(u32 list \<Rightarrow> u32 list) \<Rightarrow> WithdrawalClaim \<Rightarrow> ('e, Bytes32) outcome" where
  "WithdrawalClaim_signing_digest keccak c =
     and_then (RegevCiphertext_digest keccak (wc_user_amount_ct c)) (\<lambda>amount.
       hash_words keccak
         ([WITHDRAWAL_CLAIM_DOMAIN] @ Bytes32_to_u32_vec (wc_close_intent_digest c) @ Bytes32_to_u32_vec (wc_member_pk_g c) @
          [ucast (wc_token_slot c)] @ Address_to_u32_vec (wc_l1_recipient c) @ Bytes32_to_u32_vec amount @
          Bytes32_to_u32_vec (wc_withdrawal_nullifier c) @ len_bytes (wc_claim_proof c)))"

record SpecialClose =
  sc_channel_id :: ChannelId
  sc_offending_bp_member_slot :: u8
  sc_offending_bp_pk_g :: Bytes32
  sc_fully_signed_small_block_root :: Bytes32
  sc_small_block_number :: u64
  sc_signed_medium_block_number :: u64
  sc_latest_finalized_medium_block_number :: u64
  sc_non_inclusion_proof :: "u8 list"
  sc_aggregated_signature_proof :: "u8 list"

definition SpecialClose_signing_digest :: "(u32 list \<Rightarrow> u32 list) \<Rightarrow> SpecialClose \<Rightarrow> ('e, Bytes32) outcome" where
  "SpecialClose_signing_digest keccak c =
     hash_words keccak
       ([SPECIAL_CLOSE_DOMAIN] @ ChannelId_to_u32_vec (sc_channel_id c) @ [ucast (sc_offending_bp_member_slot c)] @
        Bytes32_to_u32_vec (sc_offending_bp_pk_g c) @ Bytes32_to_u32_vec (sc_fully_signed_small_block_root c) @
        split_u64_words (sc_small_block_number c) @ split_u64_words (sc_signed_medium_block_number c) @
        split_u64_words (sc_latest_finalized_medium_block_number c) @ len_bytes (sc_non_inclusion_proof c) @
        len_bytes (sc_aggregated_signature_proof c))"

record CancelClose =
  cc_close_intent_digest :: Bytes32
  cc_revived_small_block_root :: Bytes32
  cc_revived_inter_channel_tx_digest :: Bytes32
  cc_revived_tx_hash :: Bytes32
  cc_revived_seal :: Bytes32
  cc_cancel_proof :: "u8 list"

definition CancelClose_new ::
  "(u32 list \<Rightarrow> u32 list) \<Rightarrow> CloseIntent \<Rightarrow> InterChannelTx \<Rightarrow> u8 list \<Rightarrow> ('e, CancelClose) outcome" where
  "CancelClose_new keccak close_intent revived_tx cancel_proof =
     and_then (CloseIntent_signing_digest keccak close_intent) (\<lambda>close_intent_digest.
     and_then (SmallBlockRootMessage_signing_digest keccak (sb_message (ict_signed_small_block revived_tx))) (\<lambda>small_block_root.
     and_then (InterChannelTx_signing_digest keccak revived_tx) (\<lambda>tx_digest.
       Ok \<lparr>cc_close_intent_digest = close_intent_digest, cc_revived_small_block_root = small_block_root,
           cc_revived_inter_channel_tx_digest = tx_digest, cc_revived_tx_hash = ict_tx_hash revived_tx,
           cc_revived_seal = ict_seal revived_tx, cc_cancel_proof = cancel_proof\<rparr>)))"

definition CancelClose_signing_digest :: "(u32 list \<Rightarrow> u32 list) \<Rightarrow> CancelClose \<Rightarrow> ('e, Bytes32) outcome" where
  "CancelClose_signing_digest keccak c =
     hash_words keccak
       ([CANCEL_CLOSE_DOMAIN] @ Bytes32_to_u32_vec (cc_close_intent_digest c) @
        Bytes32_to_u32_vec (cc_revived_small_block_root c) @ Bytes32_to_u32_vec (cc_revived_inter_channel_tx_digest c) @
        Bytes32_to_u32_vec (cc_revived_tx_hash c) @ Bytes32_to_u32_vec (cc_revived_seal c) @ len_bytes (cc_cancel_proof c))"

record PostCloseIncomingClaim =
  pc_close_intent_digest :: Bytes32
  pc_incoming_tx_hash :: Bytes32
  pc_receiver_pk_g :: Bytes32
  pc_l1_recipient :: Address
  pc_receiver_amount :: RegevCiphertext
  pc_shared_native_nullifier :: Bytes32
  pc_recipient_memo :: "u8 list"
  pc_claim_proof :: "u8 list"

definition derive_shared_native_nullifier ::
  "(u32 list \<Rightarrow> u32 list) \<Rightarrow> Bytes32 \<Rightarrow> Bytes32 \<Rightarrow> Bytes32 \<Rightarrow> ('e, Bytes32) outcome" where
  "derive_shared_native_nullifier keccak close_intent_digest incoming_tx_hash receiver_pk_g =
     hash_words keccak
       ([POST_CLOSE_NULLIFIER_DOMAIN] @ Bytes32_to_u32_vec close_intent_digest @ Bytes32_to_u32_vec incoming_tx_hash @
        Bytes32_to_u32_vec receiver_pk_g)"

definition PostCloseIncomingClaim_signing_digest ::
  "(u32 list \<Rightarrow> u32 list) \<Rightarrow> PostCloseIncomingClaim \<Rightarrow> ('e, Bytes32) outcome" where
  "PostCloseIncomingClaim_signing_digest keccak c =
     and_then (RegevCiphertext_digest keccak (pc_receiver_amount c)) (\<lambda>amount.
       hash_words keccak
         ([POST_CLOSE_CLAIM_DOMAIN] @ Bytes32_to_u32_vec (pc_close_intent_digest c) @ Bytes32_to_u32_vec (pc_incoming_tx_hash c) @
          Bytes32_to_u32_vec (pc_receiver_pk_g c) @ Address_to_u32_vec (pc_l1_recipient c) @ Bytes32_to_u32_vec amount @
          Bytes32_to_u32_vec (pc_shared_native_nullifier c) @ len_bytes (pc_recipient_memo c) @ len_bytes (pc_claim_proof c)))"

section \<open>Further digests\<close>

definition channel_balance_leaf_digest ::
  "(u32 list \<Rightarrow> u32 list) \<Rightarrow> ChannelId \<Rightarrow> Bytes32 \<Rightarrow> RegevCiphertext \<Rightarrow> ('e, Bytes32) outcome" where
  "channel_balance_leaf_digest keccak channel_id pk_g balance_ciphertext =
     and_then (RegevCiphertext_digest keccak balance_ciphertext) (\<lambda>balance.
       hash_words keccak
         ([CHANNEL_BALANCE_LEAF_DOMAIN] @ ChannelId_to_u32_vec channel_id @ Bytes32_to_u32_vec pk_g @ Bytes32_to_u32_vec balance))"

text \<open>
  \<open>merkle_root_from_proof\<close>: \<open>bits\<close> are the limbs of the index, the highest first; from depth 256 on the
  limb index underflows and the access panics.
\<close>

fun merkle_root_loop ::
  "(u32 list \<Rightarrow> u32 list) \<Rightarrow> u32 list \<Rightarrow> nat \<Rightarrow> Bytes32 \<Rightarrow> Bytes32 list \<Rightarrow> ('e, Bytes32) outcome" where
  "merkle_root_loop keccak bits depth current [] = Ok current"
| "merkle_root_loop keccak bits depth current (other # siblings) =
     (if length bits < 1 + depth div 32 then Panic
      else
        let limb = bits ! (length bits - 1 - depth div 32);
            b = drop_bit (depth mod 32) limb AND 1
        in and_then (hash_words keccak
             (if b = 0 then Bytes32_to_u32_vec current @ Bytes32_to_u32_vec other
              else Bytes32_to_u32_vec other @ Bytes32_to_u32_vec current)) (\<lambda>next.
           merkle_root_loop keccak bits (Suc depth) next siblings))"

definition merkle_root_from_proof ::
  "(u32 list \<Rightarrow> u32 list) \<Rightarrow> Bytes32 \<Rightarrow> MerkleInclusionProof \<Rightarrow> ('e, Bytes32) outcome" where
  "merkle_root_from_proof keccak leaf proof =
     merkle_root_loop keccak (U256_to_u32_vec (mip_leaf_index proof)) 0 leaf (mip_siblings proof)"

definition close_member_set_commitment ::
  "(u32 list \<Rightarrow> u32 list) \<Rightarrow> Bytes32 list \<Rightarrow> u8 \<Rightarrow> ('e, Bytes32) outcome" where
  "close_member_set_commitment keccak hashes member_count =
     hash_words keccak ([CLOSE_MEMBER_SET_DOMAIN] @ [ucast member_count] @
       concat (map (\<lambda>(i, hash). Bytes32_to_u32_vec (if i < unat member_count then hash else Bytes32_default))
         (enumerate 0 hashes)))"

definition l1_deposit_import_digest ::
  "(u32 list \<Rightarrow> u32 list) \<Rightarrow> ChannelId \<Rightarrow> Bytes32 \<Rightarrow> u32 \<Rightarrow> u64 \<Rightarrow> u16 \<Rightarrow> ('e, Bytes32) outcome" where
  "l1_deposit_import_digest keccak channel_id deposit_nullifier token_index amount depositor_slot =
     hash_words keccak
       ([L1_DEPOSIT_IMPORT_DOMAIN_V2] @ ChannelId_to_u32_vec channel_id @ Bytes32_to_u32_vec deposit_nullifier @
        [token_index] @ [ucast amount, ucast (drop_bit 32 amount)] @ [ucast depositor_slot])"

end
