(* ===== verification/Channel_Digests.thy ===== *)
theory Channel_Digests
  imports Channel
begin

text \<open>
  What the signed digests of \<open>src/common/channel.rs\<close> bind: the word lists that are hashed determine
  the signed fields, so equal digests mean equal objects unless Keccak collides on the two lists.
\<close>

section \<open>Decomposing word lists\<close>

lemma hash_words_binding:
  assumes "hash_words keccak a = (Ok h :: ('e, _) outcome)" "hash_words keccak b = (Ok h :: ('f, _) outcome)" "inj_on keccak {a, b}"
  shows "a = b"
proof -
  have "keccak a = keccak b" using assms(1,2) by (simp add: hash_words_def bytes32.from_ok_iff)
  with inj_onD [OF assms(3)] show ?thesis by blast
qed

lemma u32_from_be_bytes_inject:
  "length a = 4 \<Longrightarrow> length b = 4 \<Longrightarrow> u32_from_be_bytes a = u32_from_be_bytes b \<longleftrightarrow> a = b"
  using u32_to_from_be_bytes by metis

lemma length_bytes_to_u32_words: "length (bytes_to_u32_words bs) = (length bs + 3) div 4"
  by (induction bs rule: bytes_to_u32_words.induct) simp_all

lemma bytes_to_u32_words_inject:
  "length a = length b \<Longrightarrow> bytes_to_u32_words a = bytes_to_u32_words b \<Longrightarrow> a = b"
proof (induction a arbitrary: b rule: bytes_to_u32_words.induct)
  case (1 w x y z bs)
  from "1.prems"(1) obtain w' x' y' z' bs' where b: "b = w' # x' # y' # z' # bs'"
    by (auto simp: length_Suc_conv Suc_length_conv)
  show ?case using 1 by (simp add: b u32_from_be_bytes_inject)
qed (auto simp: length_Suc_conv Suc_length_conv u32_from_be_bytes_inject numeral_eq_Suc)

text \<open>A byte string with its length in front is self-delimiting.\<close>

lemma len_bytes_inject:
  assumes "length a < 2 ^ 32" "length b < 2 ^ 32"
  shows "len_bytes a @ xs = len_bytes b @ ys \<longleftrightarrow> a = b \<and> xs = ys"
proof
  assume eq: "len_bytes a @ xs = len_bytes b @ ys"
  then have "(of_nat (length a) :: u32) = of_nat (length b)" by (simp add: len_bytes_def)
  moreover have "unat (of_nat (length a) :: u32) = length a" "unat (of_nat (length b) :: u32) = length b"
    by (rule unat_of_nat_u32; use assms in simp)+
  ultimately have len: "length a = length b" by metis
  then have "bytes_to_u32_words a = bytes_to_u32_words b \<and> xs = ys"
    using eq by (simp add: len_bytes_def length_bytes_to_u32_words)
  with bytes_to_u32_words_inject [OF len] show "a = b \<and> xs = ys" by blast
qed simp

lemma concat_map_inject:
  assumes "\<And>x. length (f x) = n" and "\<And>x y. f x = f y \<longleftrightarrow> x = y" and "length xs = length ys"
  shows "concat (map f xs) @ us = concat (map f ys) @ vs \<longleftrightarrow> xs = ys \<and> us = vs"
  using assms(3)
proof (induction xs ys rule: list_induct2)
  case (Cons x xs y ys)
  have "f x @ r = f y @ r' \<longleftrightarrow> x = y \<and> r = r'" for r r' using assms(1,2) by (metis append_eq_append_conv)
  with Cons.IH show ?case by auto
qed simp

lemma ChannelId_words_inject [simp]: "ChannelId_to_u32_vec c @ xs = ChannelId_to_u32_vec d @ ys \<longleftrightarrow> c = d \<and> xs = ys"
  by (cases c; cases d) (simp add: ChannelId_to_u32_vec_def)

lemma Bytes32_words_inject [simp]: "Bytes32_to_u32_vec a @ xs = Bytes32_to_u32_vec b @ ys \<longleftrightarrow> a = b \<and> xs = ys"
  by (simp add: append_eq_append_conv bytes32.length_to bytes32.to_inj)

lemma U256_words_inject [simp]: "U256_to_u32_vec a @ xs = U256_to_u32_vec b @ ys \<longleftrightarrow> a = b \<and> xs = ys"
  by (simp add: append_eq_append_conv u256.length_to u256.to_inj)

lemma split_words_inject [simp]: "split_u64_words a @ xs = split_u64_words b @ ys \<longleftrightarrow> a = b \<and> xs = ys"
  by (simp add: append_eq_append_conv split_u64_words_def) (auto intro: halves_inject)

lemma ucast_u8_u32_inject [simp]: "(ucast (a :: u8) :: u32) = ucast b \<longleftrightarrow> a = b"
proof -
  have "unat (ucast z :: u32) = unat z" for z :: u8
    using unsigned_less [of z, where 'a = nat] by (simp add: unat_ucast_mod)
  then show ?thesis by (metis word_unat_eq_iff)
qed

lemma to_digest_words_inject:
  assumes "length (env_proof a) < 2 ^ 32" "length (env_proof b) < 2 ^ 32"
  shows "to_digest_words a @ xs = to_digest_words b @ ys \<longleftrightarrow> a = b \<and> xs = ys"
  using assms
  by (cases a; cases b; cases "env_role a"; cases "env_role b"; cases "env_backend a"; cases "env_backend b")
    (simp_all add: to_digest_words_def len_bytes_inject)

section \<open>Channel state\<close>

lemma ChannelState_words_inject:
  assumes "ChannelState_words s h = ChannelState_words s' h'"
    and "length (cf_amounts (cs_channel_fund s)) = length (cf_amounts (cs_channel_fund s'))"
  shows "cs_channel_id s = cs_channel_id s' \<and> cs_epoch s = cs_epoch s' \<and> cs_small_block_number s = cs_small_block_number s' \<and>
    cs_close_freeze_nonce s = cs_close_freeze_nonce s' \<and> cs_channel_fund s = cs_channel_fund s' \<and> h = h' \<and>
    cs_shared_native_nullifier_root s = cs_shared_native_nullifier_root s' \<and>
    cs_unallocated_confirmed_incoming s = cs_unallocated_confirmed_incoming s' \<and> cs_prev_digest s = cs_prev_digest s' \<and>
    cs_h2_tag s = cs_h2_tag s'"
  using assms
  by (cases "cs_channel_fund s"; cases "cs_channel_fund s'")
    (simp add: ChannelState_words_def concat_map_inject [of U256_to_u32_vec 8] u256.length_to u256.to_inj)

text \<open>The digests as values, for valid states.\<close>

definition hash_bytes :: "PoseidonHashOut \<Rightarrow> Bytes32" where
  "hash_bytes h = (case (Bytes32_from_hash_out h :: (unit, _) outcome) of Ok b \<Rightarrow> b | _ \<Rightarrow> Bytes32_default)"

lemma Bytes32_from_hash_out_value: "Bytes32_from_hash_out h = Ok (hash_bytes h)"
proof -
  obtain b where b: "Bytes32_from_hash_out h = (Ok b :: (unit, _) outcome)" using Bytes32_from_hash_out_total by blast
  then have "hash_bytes h = b" by (simp add: hash_bytes_def)
  with b show ?thesis by (simp add: Bytes32_from_hash_out_def)
qed

definition h1_digest :: "(u64 list \<Rightarrow> PoseidonHashOut) \<Rightarrow> (u32 list \<Rightarrow> u32 list) \<Rightarrow> BalanceState \<Rightarrow> Bytes32" where
  "h1_digest P keccak s = hash_bytes (hash_inputs_u64 P (h1_words s (slot_root P keccak s)))"

lemma h1_value:
  assumes "\<And>xs. length (keccak xs) = 8" "BalanceState_shape s" "BalanceState_validate s = Ok ()"
  shows "h1 P keccak s = Ok (h1_digest P keccak s)"
proof -
  have "BalanceState_ok s" using assms by (simp add: BalanceState_validate_value split: if_splits)
  then show ?thesis
    by (simp add: h1_def h1_header_preimage_def slot_tree_root_value assms(1,2) Bytes32_from_hash_out_value h1_digest_def)
qed

definition ChannelState_shape :: "ChannelState \<Rightarrow> bool" where
  "ChannelState_shape s \<longleftrightarrow> length (cf_amounts (cs_channel_fund s)) = MAX_CHANNEL_TOKENS \<and>
     BalanceState_shape (cs_balance_state s) \<and> BalanceState_validate (cs_balance_state s) = Ok ()"

definition signed_words :: "(u64 list \<Rightarrow> PoseidonHashOut) \<Rightarrow> (u32 list \<Rightarrow> u32 list) \<Rightarrow> ChannelState \<Rightarrow> u32 list" where
  "signed_words P keccak s = ChannelState_words s (h1_digest P keccak (cs_balance_state s))"

lemma ChannelState_signing_digest_value:
  assumes "\<And>xs. length (keccak xs) = 8" "ChannelState_shape s"
  shows "ChannelState_signing_digest P keccak s = Ok (keccak_digest keccak (signed_words P keccak s))"
  using assms
  by (simp add: ChannelState_signing_digest_def h1_value ChannelState_shape_def hash_words_value signed_words_def)

text \<open>The part of a channel state its digest covers: all but the digest itself and the signatures.\<close>

definition signed_part :: "ChannelState \<Rightarrow> ChannelState" where
  "signed_part s = s\<lparr>cs_digest := Bytes32_default, cs_member_signatures := []\<rparr>"

definition state_collision_free ::
  "(u64 list \<Rightarrow> PoseidonHashOut) \<Rightarrow> (u32 list \<Rightarrow> u32 list) \<Rightarrow> ChannelState \<Rightarrow> ChannelState \<Rightarrow> bool" where
  "state_collision_free P keccak s s' \<longleftrightarrow> inj_on keccak {signed_words P keccak s, signed_words P keccak s'} \<and>
     h1_collision_free P keccak (cs_balance_state s) (cs_balance_state s')"

lemma signed_part_inject:
  assumes keccak: "\<And>xs. length (keccak xs) = 8" and shape: "ChannelState_shape s" "ChannelState_shape s'"
    and eq: "ChannelState_signing_digest P keccak s = (Ok d :: ('e, _) outcome)"
      "ChannelState_signing_digest P keccak s' = (Ok d :: ('f, _) outcome)"
    and free: "state_collision_free P keccak s s'"
  shows "signed_part s = signed_part s'"
proof -
  have "keccak (signed_words P keccak s) = keccak (signed_words P keccak s')"
    using eq keccak by (intro keccak_digest_inject) (simp_all add: ChannelState_signing_digest_value shape keccak)
  with free have "signed_words P keccak s = signed_words P keccak s'"
    by (auto simp: state_collision_free_def dest: inj_onD)
  note fields = ChannelState_words_inject [OF this [unfolded signed_words_def]]
  have bs: "BalanceState_shape (cs_balance_state s)" "BalanceState_shape (cs_balance_state s')"
    "BalanceState_validate (cs_balance_state s) = Ok ()" "BalanceState_validate (cs_balance_state s') = Ok ()"
    using shape by (simp_all add: ChannelState_shape_def)
  have "h1 P keccak (cs_balance_state s) = (Ok (h1_digest P keccak (cs_balance_state s)) :: (unit, _) outcome)"
    "h1 P keccak (cs_balance_state s') = (Ok (h1_digest P keccak (cs_balance_state s)) :: (unit, _) outcome)"
    using fields shape bs by (simp_all add: ChannelState_shape_def h1_value keccak)
  from h1_injective [of keccak, OF keccak bs this] free have "cs_balance_state s = cs_balance_state s'"
    by (simp add: state_collision_free_def)
  with fields shape show ?thesis
    by (intro ChannelState.equality) (simp_all add: signed_part_def ChannelState_shape_def)
qed

end
