(* ===== verification/Channel_Safety.thy ===== *)
theory Channel_Safety
  imports Channel_Digests
begin

text \<open>
  Correctness of the channel objects (\<open>src/common/channel.rs\<close>): signature sets, close intents, token
  registration, inter-channel transfers and claim nullifiers.
\<close>

section \<open>Inter-channel transfers\<close>

lemma ct_digest_Ok:
  "RegevCiphertext_digest keccak ct = (Ok d :: ('e, _) outcome) \<Longrightarrow>
     canonical_ct ct \<and> hash_words keccak (ct_words ct) = (Ok d :: ('e, _) outcome)"
  by (auto simp: RegevCiphertext_digest_def RegevCiphertext_validate_value ct_words_def split: if_splits)

lemma ct_digest_binding:
  assumes "RegevCiphertext_digest keccak a = (Ok d :: ('e, _) outcome)" "RegevCiphertext_digest keccak b = (Ok d :: ('f, _) outcome)"
    and "inj_on keccak {ct_words a, ct_words b}"
  shows "a = b"
proof -
  note a = ct_digest_Ok [OF assms(1)] and b = ct_digest_Ok [OF assms(2)]
  with hash_words_binding [of keccak "ct_words a" d "ct_words b"] assms(3) have "ct_words a = ct_words b" by blast
  with a b show ?thesis by (intro ct_words_inject) (auto simp: canonical_ct_def canonical_poly_def)
qed

lemma SmallBlockRootMessage_words_inject: "SmallBlockRootMessage_words m = SmallBlockRootMessage_words m' \<Longrightarrow> m = m'"
  by (cases m; cases m') (simp add: SmallBlockRootMessage_words_def split_u64_words_inject)

lemma Salt_words_inject:
  "concat (map split_u64_words (Salt_to_u64_vec a)) @ xs = concat (map split_u64_words (Salt_to_u64_vec b)) @ ys \<longleftrightarrow>
     a = b \<and> xs = ys"
proof -
  have "length (split_u64_words x) = 2" for x by (simp add: split_u64_words_def)
  moreover have "length (Salt_to_u64_vec a) = length (Salt_to_u64_vec b)" "Salt_to_u64_vec a = Salt_to_u64_vec b \<longleftrightarrow> a = b"
    by (cases a; cases b; simp)+
  ultimately show ?thesis by (simp add: concat_map_inject [of split_u64_words 2] split_u64_words_inject)
qed

definition delta_words :: "Bytes32 \<times> Bytes32 \<times> Bytes32 \<Rightarrow> u32 list" where
  "delta_words = (\<lambda>(pk, key, amount). Bytes32_to_u32_vec pk @ Bytes32_to_u32_vec key @ Bytes32_to_u32_vec amount)"

lemma delta_words_inject:
  fixes ds ds' :: "ReceiverBalanceDelta list"
  assumes "length ds = length as" "length ds' = length as'" "length ds = length ds'"
    and "concat (map2 (\<lambda>d amount. Bytes32_to_u32_vec (rbd_receiver_pk_g d) @
        Bytes32_to_u32_vec (rbd_receiver_regev_pk_digest d) @ Bytes32_to_u32_vec amount) ds as) @ xs =
      concat (map2 (\<lambda>d amount. Bytes32_to_u32_vec (rbd_receiver_pk_g d) @
        Bytes32_to_u32_vec (rbd_receiver_regev_pk_digest d) @ Bytes32_to_u32_vec amount) ds' as') @ ys"
  shows "map rbd_receiver_pk_g ds = map rbd_receiver_pk_g ds' \<and>
    map rbd_receiver_regev_pk_digest ds = map rbd_receiver_regev_pk_digest ds' \<and> as = as' \<and> xs = ys"
proof -
  let ?p = "\<lambda>ds as. map2 (\<lambda>d a. (rbd_receiver_pk_g d, rbd_receiver_regev_pk_digest d, a)) ds as"
  have flat: "map2 (\<lambda>d amount. Bytes32_to_u32_vec (rbd_receiver_pk_g d) @
        Bytes32_to_u32_vec (rbd_receiver_regev_pk_digest d) @ Bytes32_to_u32_vec amount) ds as = map delta_words (?p ds as)" for ds as
    by (simp add: delta_words_def case_prod_unfold)
  have lens: "length (?p ds as) = length (?p ds' as')" using assms(1-3) by simp
  have "length (delta_words x) = 24" "delta_words x = delta_words y \<longleftrightarrow> x = y" for x y
    by (auto simp: delta_words_def bytes32.length_to bytes32.to_inj split: prod.splits)
  from concat_map_inject [of delta_words 24, OF this lens] have eq: "?p ds as = ?p ds' as'" "xs = ys"
    using assms(4) unfolding flat by blast+
  have proj: "map f ds = map (\<lambda>(a, b, c). g a b) (?p ds as)" if "length ds = length as"
    "\<And>d. f d = g (rbd_receiver_pk_g d) (rbd_receiver_regev_pk_digest d)" for f g and ds :: "ReceiverBalanceDelta list" and as :: "Bytes32 list"
    using that by (induction ds as rule: list_induct2) simp_all
  have amounts: "as = map (\<lambda>(a, b, c). c) (?p ds as)" if "length ds = length as" for ds :: "ReceiverBalanceDelta list" and as :: "Bytes32 list"
    using that by (induction ds as rule: list_induct2) simp_all
  show ?thesis
    using proj [OF assms(1), of rbd_receiver_pk_g "\<lambda>a b. a"] proj [OF assms(2), of rbd_receiver_pk_g "\<lambda>a b. a"]
      proj [OF assms(1), of rbd_receiver_regev_pk_digest "\<lambda>a b. b"] proj [OF assms(2), of rbd_receiver_regev_pk_digest "\<lambda>a b. b"]
      amounts [OF assms(1)] amounts [OF assms(2)] eq
    by metis
qed

text \<open>The variable-length parts fit their length words.\<close>

definition tx_lengths :: "InterChannelTx \<Rightarrow> bool" where
  "tx_lengths t \<longleftrightarrow> length (ict_recipient_memo t) < 2 ^ 32 \<and> length (ict_receiver_deltas t) < 2 ^ 32 \<and>
     length (env_proof (ict_channel_update_zkp t)) < 2 ^ 32 \<and> length (ict_transport_proof t) < 2 ^ 32"

lemma of_nat_u32_inject:
  assumes "m < 2 ^ 32" "n < 2 ^ 32"
  shows "(of_nat m :: u32) = of_nat n \<longleftrightarrow> m = n"
proof -
  have "unat (of_nat m :: u32) = m" "unat (of_nat n :: u32) = n" by (rule unat_of_nat_u32; use assms in simp)+
  then show ?thesis by metis
qed

lemma InterChannelTx_words_inject:
  assumes eq: "InterChannelTx_words t m c as = InterChannelTx_words t' m' c' as'"
    and len: "tx_lengths t" "tx_lengths t'" "length as = length (ict_receiver_deltas t)" "length as' = length (ict_receiver_deltas t')"
  shows "m = m' \<and> c = c' \<and> as = as' \<and> ict_source_channel_id t = ict_source_channel_id t' \<and>
    ict_destination_channel_id t = ict_destination_channel_id t' \<and> ict_token_index t = ict_token_index t' \<and>
    ict_base_nonce t = ict_base_nonce t' \<and> ict_destination_base_transfer_salt t = ict_destination_base_transfer_salt t' \<and>
    ict_source_pk_g t = ict_source_pk_g t' \<and> ict_seal t = ict_seal t' \<and> ict_tx_hash t = ict_tx_hash t' \<and>
    ict_intmax_transfer_commitment t = ict_intmax_transfer_commitment t' \<and> ict_recipient_memo t = ict_recipient_memo t' \<and>
    map rbd_receiver_pk_g (ict_receiver_deltas t) = map rbd_receiver_pk_g (ict_receiver_deltas t') \<and>
    map rbd_receiver_regev_pk_digest (ict_receiver_deltas t) = map rbd_receiver_regev_pk_digest (ict_receiver_deltas t') \<and>
    ict_channel_update_zkp t = ict_channel_update_zkp t' \<and> ict_transport_proof t = ict_transport_proof t'"
proof -
  let ?d = "\<lambda>t as. concat (map2 (\<lambda>d amount. Bytes32_to_u32_vec (rbd_receiver_pk_g d) @
        Bytes32_to_u32_vec (rbd_receiver_regev_pk_digest d) @ Bytes32_to_u32_vec amount) (ict_receiver_deltas t) as) @
      to_digest_words (ict_channel_update_zkp t) @ len_bytes (ict_transport_proof t)"
  from eq len have head: "m = m' \<and> c = c' \<and> ict_source_channel_id t = ict_source_channel_id t' \<and>
    ict_destination_channel_id t = ict_destination_channel_id t' \<and> ict_token_index t = ict_token_index t' \<and>
    ict_base_nonce t = ict_base_nonce t' \<and> ict_destination_base_transfer_salt t = ict_destination_base_transfer_salt t' \<and>
    ict_source_pk_g t = ict_source_pk_g t' \<and> ict_seal t = ict_seal t' \<and> ict_tx_hash t = ict_tx_hash t' \<and>
    ict_intmax_transfer_commitment t = ict_intmax_transfer_commitment t' \<and> ict_recipient_memo t = ict_recipient_memo t' \<and>
    length (ict_receiver_deltas t) = length (ict_receiver_deltas t') \<and> ?d t as = ?d t' as'"
    unfolding InterChannelTx_words_def tx_lengths_def
    by (simp add: Salt_words_inject len_bytes_inject of_nat_u32_inject del: append_assoc) 
  then have "length (ict_receiver_deltas t) = length (ict_receiver_deltas t')" "?d t as = ?d t' as'" by blast+
  note deltas = delta_words_inject [OF len(3,4) [symmetric] this]
  then have "to_digest_words (ict_channel_update_zkp t) @ len_bytes (ict_transport_proof t) =
    to_digest_words (ict_channel_update_zkp t') @ len_bytes (ict_transport_proof t')" by blast
  then have "ict_channel_update_zkp t = ict_channel_update_zkp t' \<and> ict_transport_proof t = ict_transport_proof t'"
    using to_digest_words_inject len_bytes_inject [of "ict_transport_proof t" "ict_transport_proof t'" "[]" "[]"] len(1,2)
    by (simp add: tx_lengths_def)
  with head deltas show ?thesis by blast
qed

lemma hash_words_Ok_digest: "hash_words keccak ws = Ok h \<Longrightarrow> h = keccak_digest keccak ws"
proof -
  assume ok: "hash_words keccak ws = Ok h"
  then have "length (keccak ws) = 8" using bytes32.length_to [of h] by (simp add: hash_words_def bytes32.from_ok_iff)
  from hash_words_value [of keccak ws, OF this] ok show ?thesis by (simp add: hash_words_def)
qed

text \<open>The outer preimage of a transfer, and the pairs of inputs that must not collide.\<close>

definition tx_words :: "(u32 list \<Rightarrow> u32 list) \<Rightarrow> InterChannelTx \<Rightarrow> u32 list" where
  "tx_words keccak t =
     InterChannelTx_words t (keccak_digest keccak (SmallBlockRootMessage_words (sb_message (ict_signed_small_block t))))
       (keccak_digest keccak (ct_words (ict_sender_delta_ct t)))
       (map (\<lambda>d. keccak_digest keccak (ct_words (rbd_amount d))) (ict_receiver_deltas t))"

definition tx_collision_free :: "(u32 list \<Rightarrow> u32 list) \<Rightarrow> InterChannelTx \<Rightarrow> InterChannelTx \<Rightarrow> bool" where
  "tx_collision_free keccak t t' \<longleftrightarrow>
     inj_on keccak {tx_words keccak t, tx_words keccak t'} \<and>
     inj_on keccak {SmallBlockRootMessage_words (sb_message (ict_signed_small_block t)),
                    SmallBlockRootMessage_words (sb_message (ict_signed_small_block t'))} \<and>
     inj_on keccak {ct_words (ict_sender_delta_ct t), ct_words (ict_sender_delta_ct t')} \<and>
     (\<forall>i < length (ict_receiver_deltas t).
        inj_on keccak {ct_words (rbd_amount (ict_receiver_deltas t ! i)), ct_words (rbd_amount (ict_receiver_deltas t' ! i))})"

lemma InterChannelTx_signing_digest_Ok:
  assumes "InterChannelTx_signing_digest keccak t = (Ok d :: ('e, _) outcome)"
  shows "\<exists>m c as. SmallBlockRootMessage_signing_digest keccak (sb_message (ict_signed_small_block t)) = (Ok m :: ('e, _) outcome) \<and>
    RegevCiphertext_digest keccak (ict_sender_delta_ct t) = (Ok c :: ('e, _) outcome) \<and>
    list_all2 (\<lambda>d a. RegevCiphertext_digest keccak (rbd_amount d) = (Ok a :: ('e, _) outcome)) (ict_receiver_deltas t) as \<and>
    hash_words keccak (InterChannelTx_words t m c as) = (Ok d :: ('e, _) outcome) \<and> tx_words keccak t = InterChannelTx_words t m c as"
proof -
  from assms obtain m c as where ok: "SmallBlockRootMessage_signing_digest keccak (sb_message (ict_signed_small_block t)) = (Ok m :: ('e, _) outcome)"
    "RegevCiphertext_digest keccak (ict_sender_delta_ct t) = (Ok c :: ('e, _) outcome)"
    "list_all2 (\<lambda>d a. RegevCiphertext_digest keccak (rbd_amount d) = (Ok a :: ('e, _) outcome)) (ict_receiver_deltas t) as"
    "hash_words keccak (InterChannelTx_words t m c as) = (Ok d :: ('e, _) outcome)"
    by (auto simp: InterChannelTx_signing_digest_def try_map_Ok_iff)
  from ok(3) have "as = map (\<lambda>d. keccak_digest keccak (ct_words (rbd_amount d))) (ict_receiver_deltas t)"
    by (induction rule: list_all2_induct) (auto dest: ct_digest_Ok hash_words_Ok_digest)
  moreover have "m = keccak_digest keccak (SmallBlockRootMessage_words (sb_message (ict_signed_small_block t)))"
    using ok(1) by (simp add: SmallBlockRootMessage_signing_digest_def hash_words_Ok_digest)
  moreover have "c = keccak_digest keccak (ct_words (ict_sender_delta_ct t))"
    using ct_digest_Ok [OF ok(2)] hash_words_Ok_digest by blast
  ultimately show ?thesis using ok by (auto simp: tx_words_def)
qed

lemma deltas_inject:
  assumes "list_all2 (\<lambda>d a. RegevCiphertext_digest keccak (rbd_amount d) = (Ok a :: ('e, _) outcome)) ds as"
    and "list_all2 (\<lambda>d a. RegevCiphertext_digest keccak (rbd_amount d) = (Ok a :: ('f, _) outcome)) ds' as"
    and "map rbd_receiver_pk_g ds = map rbd_receiver_pk_g ds'"
    and "map rbd_receiver_regev_pk_digest ds = map rbd_receiver_regev_pk_digest ds'"
    and "\<And>i. i < length ds \<Longrightarrow> inj_on keccak {ct_words (rbd_amount (ds ! i)), ct_words (rbd_amount (ds' ! i))}"
  shows "ds = (ds' :: ReceiverBalanceDelta list)"
proof (rule nth_equalityI)
  show len: "length ds = length ds'" using assms(3) by (rule map_eq_imp_length_eq)
  fix i assume i: "i < length ds"
  have "rbd_amount (ds ! i) = rbd_amount (ds' ! i)"
    using assms(1,2) i len by (intro ct_digest_binding [OF _ _ assms(5) [OF i]]) (auto simp: list_all2_conv_all_nth)
  moreover have "rbd_receiver_pk_g (ds ! i) = rbd_receiver_pk_g (ds' ! i)"
    "rbd_receiver_regev_pk_digest (ds ! i) = rbd_receiver_regev_pk_digest (ds' ! i)"
    using arg_cong [OF assms(3), of "\<lambda>xs. xs ! i"] arg_cong [OF assms(4), of "\<lambda>xs. xs ! i"] i len by simp_all
  ultimately show "ds ! i = ds' ! i" by (intro ReceiverBalanceDelta.equality) simp_all
qed

text \<open>
C23: the digest a sender signs for a transfer between channels binds everything the transfer does. Two
transfers with the same digest agree in the block message, the sender's ciphertext, source and
destination channel, base token, nonce and salt, in every receiver with its key and ciphertext, in the memo
and in the proofs; the variable-length parts cannot be shifted into each other. The inclusion proof, the
collected signatures and the sender's signature itself are not covered. Hypotheses: the lengths fit their
32-bit words, and Keccak does not collide on the paired inputs.
\<close>

theorem inter_channel_digest_binding:
  assumes "InterChannelTx_signing_digest keccak t = (Ok d :: ('e, _) outcome)"
    and "InterChannelTx_signing_digest keccak t' = (Ok d :: ('e, _) outcome)"
    and len: "tx_lengths t" "tx_lengths t'" and free: "tx_collision_free keccak t t'"
  shows "t' = t\<lparr>ict_tx_inclusion_proof := ict_tx_inclusion_proof t',
    ict_signed_small_block := (ict_signed_small_block t')\<lparr>sb_message := sb_message (ict_signed_small_block t)\<rparr>,
    ict_sender_hash_sig := ict_sender_hash_sig t', ict_sender_pk_b := ict_sender_pk_b t'\<rparr>"
proof -
  from InterChannelTx_signing_digest_Ok [OF assms(1)] obtain m c as where
    t: "SmallBlockRootMessage_signing_digest keccak (sb_message (ict_signed_small_block t)) = (Ok m :: ('e, _) outcome)"
    "RegevCiphertext_digest keccak (ict_sender_delta_ct t) = (Ok c :: ('e, _) outcome)"
    "list_all2 (\<lambda>d a. RegevCiphertext_digest keccak (rbd_amount d) = (Ok a :: ('e, _) outcome)) (ict_receiver_deltas t) as"
    "hash_words keccak (InterChannelTx_words t m c as) = (Ok d :: ('e, _) outcome)" "tx_words keccak t = InterChannelTx_words t m c as"
    by blast
  from InterChannelTx_signing_digest_Ok [OF assms(2)] obtain m' c' as' where
    t': "SmallBlockRootMessage_signing_digest keccak (sb_message (ict_signed_small_block t')) = (Ok m' :: ('e, _) outcome)"
    "RegevCiphertext_digest keccak (ict_sender_delta_ct t') = (Ok c' :: ('e, _) outcome)"
    "list_all2 (\<lambda>d a. RegevCiphertext_digest keccak (rbd_amount d) = (Ok a :: ('e, _) outcome)) (ict_receiver_deltas t') as'"
    "hash_words keccak (InterChannelTx_words t' m' c' as') = (Ok d :: ('e, _) outcome)" "tx_words keccak t' = InterChannelTx_words t' m' c' as'"
    by blast
  have "InterChannelTx_words t m c as = InterChannelTx_words t' m' c' as'"
    using free t(5) t'(5) by (intro hash_words_binding [OF t(4) t'(4)]) (simp add: tx_collision_free_def)
  note eq = InterChannelTx_words_inject [OF this len list_all2_lengthD [OF t(3), symmetric] list_all2_lengthD [OF t'(3), symmetric]]
  have "sb_message (ict_signed_small_block t) = sb_message (ict_signed_small_block t')"
    using t(1) t'(1) eq free unfolding SmallBlockRootMessage_signing_digest_def tx_collision_free_def
    by (intro SmallBlockRootMessage_words_inject hash_words_binding [of keccak _ m]) auto
  moreover have "ict_sender_delta_ct t = ict_sender_delta_ct t'"
    using t(2) t'(2) eq free by (intro ct_digest_binding [of keccak _ c]) (auto simp: tx_collision_free_def)
  moreover have "ict_receiver_deltas t = ict_receiver_deltas t'"
    using t(3) t'(3) eq free by (intro deltas_inject [of keccak _ as]) (auto simp: tx_collision_free_def)
  ultimately show ?thesis using eq
    by (intro InterChannelTx.equality SignedSmallBlock.equality) simp_all
qed

text \<open>A transfer of an empty ciphertext from channel 1 to channel 2, for the witnesses.\<close>

definition example_transfer :: InterChannelTx where
  "example_transfer =
     \<lparr>ict_tx_inclusion_proof = \<lparr>mip_siblings = [], mip_leaf_index = U256_default\<rparr>,
      ict_signed_small_block =
        \<lparr>sb_message = \<lparr>sm_channel_id = ChannelId 1, sm_bp_member_slot = 0, sm_bp_pk_g = Bytes32_default,
           sm_small_block_number = 1, sm_prev_small_block_root = Bytes32_default, sm_tx_tree_root = Bytes32_default,
           sm_state_commitment_root = Bytes32_default, sm_medium_epoch_hint = 0, sm_close_freeze_nonce = 0\<rparr>,
         sb_signatures = [], sb_aggregated_signature_proof = [], sb_medium_block_number = 0, sb_confirmation_proof = []\<rparr>,
      ict_sender_delta_ct = zero_ciphertext, ict_source_channel_id = ChannelId 1, ict_destination_channel_id = ChannelId 2,
      ict_token_index = 3, ict_base_nonce = 0, ict_destination_base_transfer_salt = Salt PoseidonHashOut_default,
      ict_source_pk_g = Bytes32_default, ict_seal = Bytes32_default, ict_tx_hash = Bytes32_default,
      ict_intmax_transfer_commitment = Bytes32_default, ict_recipient_memo = [7],
      ict_receiver_deltas = [\<lparr>rbd_receiver_pk_g = Bytes32_default, rbd_receiver_regev_pk_digest = Bytes32_default,
         rbd_amount = zero_ciphertext\<rparr>],
      ict_channel_update_zkp = \<lparr>env_role = ChannelStateUpdate, env_backend = Plonky3, env_proof = []\<rparr>,
      ict_transport_proof = [], ict_sender_hash_sig = [], ict_sender_pk_b = Bytes32_default\<rparr>"

lemma constant_hash_words: "hash_words (\<lambda>_. replicate 8 0) ws = Ok (keccak_digest (\<lambda>_. replicate 8 0) ws)"
  by (rule hash_words_value) simp

lemma constant_ct_digest:
  "RegevCiphertext_digest (\<lambda>_. replicate 8 0) zero_ciphertext = Ok (keccak_digest (\<lambda>_. replicate 8 0) (ct_words zero_ciphertext))"
  by (rule RegevCiphertext_digest_value) simp_all

theorem inter_channel_digest_binding_witness:
  "\<exists>d. InterChannelTx_signing_digest (\<lambda>_. replicate 8 0) example_transfer = (Ok d :: (unit, _) outcome) \<and>
     example_transfer\<lparr>ict_sender_hash_sig := [1]\<rparr> = example_transfer\<lparr>ict_tx_inclusion_proof := ict_tx_inclusion_proof example_transfer,
       ict_signed_small_block := ict_signed_small_block example_transfer, ict_sender_hash_sig := [1],
       ict_sender_pk_b := Bytes32_default\<rparr>"
proof -
  let ?k = "\<lambda>_ :: u32 list. replicate 8 (0 :: u32)" and ?t = "example_transfer\<lparr>ict_sender_hash_sig := [1]\<rparr>"
  have same: "InterChannelTx_signing_digest ?k ?t = InterChannelTx_signing_digest ?k example_transfer"
    "tx_words ?k ?t = tx_words ?k example_transfer"
    by (simp_all add: InterChannelTx_signing_digest_def InterChannelTx_words_def tx_words_def)
  obtain d where d: "InterChannelTx_signing_digest ?k example_transfer = (Ok d :: (unit, _) outcome)"
    by (simp add: InterChannelTx_signing_digest_def SmallBlockRootMessage_signing_digest_def constant_hash_words
        constant_ct_digest example_transfer_def)
  have "tx_lengths example_transfer" by (simp add: tx_lengths_def example_transfer_def)
  moreover have "tx_lengths ?t" by (simp add: tx_lengths_def example_transfer_def)
  moreover have "tx_collision_free ?k example_transfer ?t" using same by (simp add: tx_collision_free_def)
  ultimately have "?t = example_transfer\<lparr>ict_tx_inclusion_proof := ict_tx_inclusion_proof ?t,
      ict_signed_small_block := (ict_signed_small_block ?t)\<lparr>sb_message := sb_message (ict_signed_small_block example_transfer)\<rparr>,
      ict_sender_hash_sig := ict_sender_hash_sig ?t, ict_sender_pk_b := ict_sender_pk_b ?t\<rparr>"
    using inter_channel_digest_binding [OF d, of ?t] d same by simp
  with d show ?thesis by (simp add: example_transfer_def)
qed

section \<open>Transfer identities\<close>

lemma ucast_channel_inject: "(ucast (ChannelId_as_u64 c) :: u32) = ucast (ChannelId_as_u64 d) \<longleftrightarrow> c = d"
proof -
  have "(ucast (ChannelId_as_u64 c) :: u32) = channel_id_of c" for c
    by (cases c) (simp add: ChannelId_as_u64_def)
  then show ?thesis by (cases c; cases d) simp
qed

abbreviation push_words :: "Bytes32 \<Rightarrow> Bytes32 \<Rightarrow> u32 list" where
  "push_words a b \<equiv> [SETTLED_TX_CHAIN_DOMAIN] @ Bytes32_to_u32_vec a @ Bytes32_to_u32_vec b"

definition ids_word :: "ChannelId \<Rightarrow> ChannelId \<Rightarrow> u32 \<Rightarrow> Bytes32" where
  "ids_word c d t = Bytes32 0 0 0 0 0 t (ucast (ChannelId_as_u64 d)) (ucast (ChannelId_as_u64 c))"

lemma inter_channel_tx_hash_Ok:
  "inter_channel_tx_hash keccak c d t r l = (Ok h :: ('e, _) outcome) \<longleftrightarrow>
     (\<exists>m. hash_words keccak (push_words r l) = (Ok m :: ('e, _) outcome) \<and>
          hash_words keccak (push_words (ids_word c d t) m) = (Ok h :: ('e, _) outcome))"
  by (simp add: inter_channel_tx_hash_def settled_tx_chain_push_def Bytes32_from_u32_slice_def ids_word_def)

text \<open>The inputs hashed for two transfer identities, pair by pair.\<close>

definition identity_collision_free ::
  "(u32 list \<Rightarrow> u32 list) \<Rightarrow> Bytes32 \<times> Bytes32 \<Rightarrow> Bytes32 \<Rightarrow> Bytes32 \<times> Bytes32 \<Rightarrow> Bytes32 \<Rightarrow> bool" where
  "identity_collision_free keccak = (\<lambda>(r, l) i (r', l') i'.
     inj_on keccak {push_words r l, push_words r' l'} \<and>
     inj_on keccak {push_words i (keccak_digest keccak (push_words r l)), push_words i' (keccak_digest keccak (push_words r' l'))})"

lemma inter_channel_tx_hash_binding:
  assumes "inter_channel_tx_hash keccak c d t r l = (Ok h :: ('e, _) outcome)"
    "inter_channel_tx_hash keccak c' d' t' r' l' = (Ok h :: ('e, _) outcome)"
    and free: "identity_collision_free keccak (r, l) (ids_word c d t) (r', l') (ids_word c' d' t')"
  shows "c = c' \<and> d = d' \<and> t = t' \<and> r = r' \<and> l = l'"
proof -
  from assms(1,2) obtain m m' where m: "hash_words keccak (push_words r l) = (Ok m :: ('e, _) outcome)"
    "hash_words keccak (push_words (ids_word c d t) m) = (Ok h :: ('e, _) outcome)"
    "hash_words keccak (push_words r' l') = (Ok m' :: ('e, _) outcome)"
    "hash_words keccak (push_words (ids_word c' d' t') m') = (Ok h :: ('e, _) outcome)"
    by (auto simp: inter_channel_tx_hash_Ok)
  have outer: "push_words (ids_word c d t) m = push_words (ids_word c' d' t') m'"
    using free hash_words_Ok_digest [OF m(1)] hash_words_Ok_digest [OF m(3)]
    by (intro hash_words_binding [OF m(2,4)]) (simp add: identity_collision_free_def)
  then have "m = m'" by (simp add: bytes32.to_inj)
  with m have "push_words r l = push_words r' l'"
    using free by (intro hash_words_binding [OF m(1), of "push_words r' l'"]) (simp_all add: identity_collision_free_def)
  with outer show ?thesis by (simp add: bytes32.to_inj ids_word_def ucast_channel_inject)
qed

text \<open>
C24: the ledger identity of a transfer does not depend on the token, its settled hash does. Changing only
the token of a transfer leaves the replay identity unchanged, so a debit cannot be credited twice under
two tokens; the settled hash changes with the token. Two transfers with the same settled hash have the same
source, destination, token, block root and leaf, two with the same replay identity the same source,
destination, root and leaf, unless Keccak collides on the inputs hashed for them.
\<close>

theorem replay_identity_token_free:
  assumes "InterChannelTx_tx_leaf_hash keccak t = Ok l" "InterChannelTx_tx_leaf_hash keccak t' = Ok l'"
    and free: "identity_collision_free keccak
        (sm_tx_tree_root (sb_message (ict_signed_small_block t)), l) (ids_word (ict_source_channel_id t) (ict_destination_channel_id t) 0)
        (sm_tx_tree_root (sb_message (ict_signed_small_block t')), l') (ids_word (ict_source_channel_id t') (ict_destination_channel_id t') 0)"
      "identity_collision_free keccak
        (sm_tx_tree_root (sb_message (ict_signed_small_block t)), l)
        (ids_word (ict_source_channel_id t) (ict_destination_channel_id t) (ict_token_index t))
        (sm_tx_tree_root (sb_message (ict_signed_small_block t')), l')
        (ids_word (ict_source_channel_id t') (ict_destination_channel_id t') (ict_token_index t'))"
  shows "replay_identity keccak (t\<lparr>ict_token_index := k\<rparr>) = replay_identity keccak t \<and>
    (replay_identity keccak t = Ok h \<and> replay_identity keccak t' = Ok h \<longrightarrow>
       ict_source_channel_id t = ict_source_channel_id t' \<and> ict_destination_channel_id t = ict_destination_channel_id t' \<and>
       sm_tx_tree_root (sb_message (ict_signed_small_block t)) = sm_tx_tree_root (sb_message (ict_signed_small_block t')) \<and> l = l') \<and>
    (compute_tx_hash keccak t = Ok h \<and> compute_tx_hash keccak t' = Ok h \<longrightarrow>
       ict_source_channel_id t = ict_source_channel_id t' \<and> ict_destination_channel_id t = ict_destination_channel_id t' \<and>
       ict_token_index t = ict_token_index t' \<and>
       sm_tx_tree_root (sb_message (ict_signed_small_block t)) = sm_tx_tree_root (sb_message (ict_signed_small_block t')) \<and> l = l')"
proof (intro conjI impI)
  show "replay_identity keccak (t\<lparr>ict_token_index := k\<rparr>) = replay_identity keccak t"
    by (cases "ict_receiver_deltas t") (simp_all add: replay_identity_def InterChannelTx_tx_leaf_hash_def)
next
  assume "replay_identity keccak t = Ok h \<and> replay_identity keccak t' = Ok h"
  then have "inter_channel_tx_hash keccak (ict_source_channel_id t) (ict_destination_channel_id t) 0
      (sm_tx_tree_root (sb_message (ict_signed_small_block t))) l = (Ok h :: (ChannelError, _) outcome)"
    "inter_channel_tx_hash keccak (ict_source_channel_id t') (ict_destination_channel_id t') 0
      (sm_tx_tree_root (sb_message (ict_signed_small_block t'))) l' = (Ok h :: (ChannelError, _) outcome)"
    using assms(1,2) by (simp_all add: replay_identity_def inter_channel_tx_identity_def)
  note inter_channel_tx_hash_binding [OF this free(1)]
  then show "ict_source_channel_id t = ict_source_channel_id t'" "ict_destination_channel_id t = ict_destination_channel_id t'"
    "sm_tx_tree_root (sb_message (ict_signed_small_block t)) = sm_tx_tree_root (sb_message (ict_signed_small_block t'))" "l = l'"
    by blast+
next
  assume "compute_tx_hash keccak t = Ok h \<and> compute_tx_hash keccak t' = Ok h"
  then have "inter_channel_tx_hash keccak (ict_source_channel_id t) (ict_destination_channel_id t) (ict_token_index t)
      (sm_tx_tree_root (sb_message (ict_signed_small_block t))) l = (Ok h :: (ChannelError, _) outcome)"
    "inter_channel_tx_hash keccak (ict_source_channel_id t') (ict_destination_channel_id t') (ict_token_index t')
      (sm_tx_tree_root (sb_message (ict_signed_small_block t'))) l' = (Ok h :: (ChannelError, _) outcome)"
    using assms(1,2) by (simp_all add: compute_tx_hash_def)
  note inter_channel_tx_hash_binding [OF this free(2)]
  then show "ict_source_channel_id t = ict_source_channel_id t'" "ict_destination_channel_id t = ict_destination_channel_id t'"
    "ict_token_index t = ict_token_index t'"
    "sm_tx_tree_root (sb_message (ict_signed_small_block t)) = sm_tx_tree_root (sb_message (ict_signed_small_block t'))" "l = l'"
    by blast+
qed

theorem replay_identity_token_free_witness:
  "\<exists>h. replay_identity (\<lambda>_. replicate 8 0) (example_transfer\<lparr>ict_token_index := 9\<rparr>) = Ok h \<and>
     replay_identity (\<lambda>_. replicate 8 0) example_transfer = Ok h"
proof -
  let ?k = "\<lambda>_ :: u32 list. replicate 8 (0 :: u32)"
  obtain l where l: "InterChannelTx_tx_leaf_hash ?k example_transfer = Ok l"
    by (simp add: InterChannelTx_tx_leaf_hash_def tx_leaf_hash_def constant_hash_words constant_ct_digest example_transfer_def)
  moreover obtain h where "replay_identity ?k example_transfer = Ok h"
    using l by (simp add: replay_identity_def inter_channel_tx_identity_def inter_channel_tx_hash_def settled_tx_chain_push_def
        constant_hash_words Bytes32_from_u32_slice_def)
  ultimately show ?thesis
    using replay_identity_token_free [OF l l, of 9] by (simp add: identity_collision_free_def)
qed

section \<open>Channel records and signature sets\<close>

abbreviation cosigners :: "ChannelRecord \<Rightarrow> nat" where
  "cosigners r \<equiv> unat (cr_member_count r)"

abbreviation participants :: "ChannelRecord \<Rightarrow> nat" where
  "participants r \<equiv> cosigners r + unat (cr_delegate_count r)"

definition ChannelRecord_ok :: "ChannelRecord \<Rightarrow> bool" where
  "ChannelRecord_ok r \<longleftrightarrow>
     cr_regev_pk_root r \<noteq> Bytes32_default \<and> channel_id_of (cr_channel_id r) \<noteq> BURN_CHANNEL_ID \<and>
     2 \<le> cosigners r \<and> cosigners r \<le> MAX_SIG_CLUSTER \<and> unat (cr_bp_member_slot r) < cosigners r \<and>
     participants r \<le> MAX_CHANNEL_MEMBERS \<and> distinct (take (participants r) (cr_member_pk_gs r)) \<and>
     (\<forall>i < MAX_CHANNEL_MEMBERS. cr_member_pk_gs r ! i = Bytes32_default \<longleftrightarrow> participants r \<le> i)"

lemma distinct_take_iff:
  assumes "n \<le> length xs"
  shows "distinct (take n xs) \<longleftrightarrow> (\<forall>i < n. \<not> (\<exists>j. i < j \<and> j < n \<and> j < length xs \<and> xs ! j = xs ! i))"
proof
  assume d: "distinct (take n xs)"
  have "xs ! j \<noteq> xs ! i" if "i < j" "j < n" for i j
    using d nth_eq_iff_index_eq [OF d, of j i] that assms by auto
  then show "\<forall>i < n. \<not> (\<exists>j. i < j \<and> j < n \<and> j < length xs \<and> xs ! j = xs ! i)" by blast
next
  assume d: "\<forall>i < n. \<not> (\<exists>j. i < j \<and> j < n \<and> j < length xs \<and> xs ! j = xs ! i)"
  have ordered: "xs ! j \<noteq> xs ! i" if "i < j" "j < n" for i j
  proof -
    from that assms have "i < n" "j < length xs" by simp_all
    with d that show ?thesis by blast
  qed
  have "xs ! i \<noteq> xs ! j" if "i \<noteq> j" "i < n" "j < n" for i j
    using that ordered [of i j] ordered [of j i] by (metis nat_neq_iff)
  then show "distinct (take n xs)" using assms by (simp add: distinct_conv_nth)
qed

lemma later_duplicate_iff:
  "list_ex (\<lambda>(j, other). j < n \<and> x = other) (drop (i + 1) (enumerate 0 xs)) \<longleftrightarrow>
     (\<exists>j. i < j \<and> j < n \<and> j < length xs \<and> xs ! j = x)"
proof -
  have "list_ex (\<lambda>(j, other). j < n \<and> x = other) (drop (i + 1) (enumerate 0 xs)) \<longleftrightarrow>
      (\<exists>k < length xs - (i + 1). i + 1 + k < n \<and> x = xs ! (i + 1 + k))"
    by (auto simp: list_ex_length nth_enumerate_eq)
  also have "\<dots> \<longleftrightarrow> (\<exists>j. i < j \<and> j < n \<and> j < length xs \<and> xs ! j = x)"
  proof
    assume "\<exists>k < length xs - (i + 1). i + 1 + k < n \<and> x = xs ! (i + 1 + k)"
    then obtain k where "k < length xs - (i + 1)" "i + 1 + k < n" "x = xs ! (i + 1 + k)" by blast
    then show "\<exists>j. i < j \<and> j < n \<and> j < length xs \<and> xs ! j = x" by (intro exI [of _ "i + 1 + k"]) auto
  next
    assume "\<exists>j. i < j \<and> j < n \<and> j < length xs \<and> xs ! j = x"
    then obtain j where "i < j" "j < n" "j < length xs" "xs ! j = x" by blast
    then show "\<exists>k < length xs - (i + 1). i + 1 + k < n \<and> x = xs ! (i + 1 + k)" by (intro exI [of _ "j - (i + 1)"]) auto
  qed
  finally show ?thesis .
qed

lemma validate_member_keys_value:
  assumes "length xs = MAX_CHANNEL_MEMBERS" "n \<le> MAX_CHANNEL_MEMBERS"
  shows "try_each (validate_member_key xs n) (enumerate 0 xs) =
    (if distinct (take n xs) \<and> (\<forall>i < MAX_CHANNEL_MEMBERS. xs ! i = Bytes32_default \<longleftrightarrow> n \<le> i) then Ok () else Err InvalidChannelRecord)"
proof -
  let ?P = "\<lambda>i x. if i < n then x \<noteq> Bytes32_default \<and> \<not> (\<exists>j. i < j \<and> j < n \<and> j < length xs \<and> xs ! j = x) else x = Bytes32_default"
  have step: "validate_member_key xs n (i, x) = (if ?P i x then Ok () else Err InvalidChannelRecord)" for i x
    unfolding validate_member_key_def prod.case later_duplicate_iff by auto
  have "distinct (take n xs) \<longleftrightarrow> (\<forall>i < n. \<not> (\<exists>j. i < j \<and> j < n \<and> j < length xs \<and> xs ! j = xs ! i))"
    using assms by (intro distinct_take_iff) simp
  then have "(\<forall>i < length xs. ?P i (xs ! i)) \<longleftrightarrow>
      distinct (take n xs) \<and> (\<forall>i < MAX_CHANNEL_MEMBERS. xs ! i = Bytes32_default \<longleftrightarrow> n \<le> i)"
    using assms by (simp add: not_le) (meson not_le order_less_le_trans)
  then show ?thesis unfolding try_enumerate_value [of "validate_member_key xs n" ?P, OF step] by simp
qed

lemma ChannelRecord_validate_value:
  assumes "length (cr_member_pk_gs r) = MAX_CHANNEL_MEMBERS"
  shows "ChannelRecord_validate r = (if ChannelRecord_ok r then Ok () else Err InvalidChannelRecord)"
  unfolding ChannelRecord_validate_def Let_def
  using validate_member_keys_value [OF assms, of "participants r"]
  by (cases "participants r \<le> MAX_CHANNEL_MEMBERS") (auto simp: ChannelRecord_ok_def)

lemma validate_slots_value:
  assumes "length (cr_member_pk_gs r) = MAX_CHANNEL_MEMBERS" "length sigs \<le> MAX_CHANNEL_MEMBERS"
  shows "try_each (validate_signature_slot r) (enumerate 0 sigs) =
    (if \<forall>i < length sigs. unat (ms_member_slot (sigs ! i)) = i \<and> ms_pk_g (sigs ! i) = cr_member_pk_gs r ! i \<and> ms_signature (sigs ! i) \<noteq> []
     then Ok () else Err InvalidSignatureSet)"
proof -
  have "try_each f (enumerate n xs) = (if \<forall>i < length xs. P (n + i) (xs ! i) then Ok () else Err e)"
    if "\<And>i x. n \<le> i \<Longrightarrow> i < n + length xs \<Longrightarrow> f (i, x) = (if P i x then Ok () else Err e)"
    for f :: "nat \<times> MemberSignature \<Rightarrow> (ChannelError, unit) outcome" and P n xs e
    using that
  proof (induction xs arbitrary: n)
    case (Cons x xs)
    have "try_each f (enumerate (Suc n) xs) = (if \<forall>i < length xs. P (Suc n + i) (xs ! i) then Ok () else Err e)"
      using Cons.prems by (intro Cons.IH) simp
    with Cons.prems [of n x] show ?case by (simp add: All_less_Suc2)
  qed simp
  from this [of 0 sigs "validate_signature_slot r" "\<lambda>i x. unat (ms_member_slot x) = i \<and> ms_pk_g x = cr_member_pk_gs r ! i \<and> ms_signature x \<noteq> []"
      InvalidSignatureSet] show ?thesis
    using assms by (simp add: validate_signature_slot_def)
qed

lemma signature_lengths_value:
  "try_each (\<lambda>(slot, actual). if length (ms_signature actual) \<noteq> FALCON_COSIGN_BLOB_BYTES
        then Err InvalidSignatureSet else Ok ()) (enumerate 0 sigs) =
      (if \<forall>i < length sigs. length (ms_signature (sigs ! i)) = FALCON_COSIGN_BLOB_BYTES then Ok () else Err InvalidSignatureSet)"
  by (rule try_enumerate_value) simp

lemma few_cosigners: "ChannelRecord_ok r \<Longrightarrow> cosigners r \<le> MAX_CHANNEL_MEMBERS"
  by (simp add: ChannelRecord_ok_def)

lemma all_signatures_iff:
  assumes "length (cr_member_pk_gs r) = MAX_CHANNEL_MEMBERS"
  shows "validate_all_member_signatures r sigs = Ok () \<longleftrightarrow>
      ChannelRecord_ok r \<and> length sigs = cosigners r \<and>
      (\<forall>i < length sigs. unat (ms_member_slot (sigs ! i)) = i \<and> ms_pk_g (sigs ! i) = cr_member_pk_gs r ! i \<and>
         length (ms_signature (sigs ! i)) = FALCON_COSIGN_BLOB_BYTES)"
  unfolding validate_all_member_signatures_def validate_member_signature_slots_def ChannelRecord_validate_value [OF assms]
    signature_lengths_value
  using few_cosigners [of r] validate_slots_value [OF assms, of sigs] by auto

text \<open>
C21: a co-signature set is accepted exactly when it is complete. The record must be well-formed (a real
channel, 2 to 8 cosigners, at most 1024 participants with pairwise distinct non-zero keys and zero
padding), and the signatures must be one per cosigner, in slot order, each under the registered key and of
the fixed length. So an accepted set names every cosigner exactly once. Every other set is an error;
nothing panics.
\<close>

theorem signature_set_exact:
  assumes "length (cr_member_pk_gs r) = MAX_CHANNEL_MEMBERS"
  shows "(validate_all_member_signatures r sigs = Ok () \<longleftrightarrow>
      ChannelRecord_ok r \<and> length sigs = cosigners r \<and>
      (\<forall>i < length sigs. unat (ms_member_slot (sigs ! i)) = i \<and> ms_pk_g (sigs ! i) = cr_member_pk_gs r ! i \<and>
         length (ms_signature (sigs ! i)) = FALCON_COSIGN_BLOB_BYTES)) \<and>
    (validate_all_member_signatures r sigs = Ok () \<longrightarrow>
      map ms_pk_g sigs = take (cosigners r) (cr_member_pk_gs r) \<and> distinct (map ms_pk_g sigs) \<and>
      Bytes32_default \<notin> set (map ms_pk_g sigs)) \<and>
    validate_all_member_signatures r sigs \<noteq> Panic"
proof -
  note few = few_cosigners [of r] and iff = all_signatures_iff [OF assms, of sigs]
  note iff
  moreover have "validate_all_member_signatures r sigs \<noteq> Panic"
    unfolding validate_all_member_signatures_def validate_member_signature_slots_def ChannelRecord_validate_value [OF assms]
      signature_lengths_value
    using few validate_slots_value [OF assms, of sigs] by auto
  moreover have "map ms_pk_g sigs = take (cosigners r) (cr_member_pk_gs r) \<and> distinct (map ms_pk_g sigs) \<and>
      Bytes32_default \<notin> set (map ms_pk_g sigs)" if ok: "validate_all_member_signatures r sigs = Ok ()"
  proof -
    have r: "ChannelRecord_ok r" "length sigs = cosigners r" "\<forall>i < length sigs. ms_pk_g (sigs ! i) = cr_member_pk_gs r ! i"
      using ok iff by blast+
    then have keys: "map ms_pk_g sigs = take (cosigners r) (cr_member_pk_gs r)"
      using few assms by (intro nth_equalityI) auto
    have "take (cosigners r) (cr_member_pk_gs r) = take (cosigners r) (take (participants r) (cr_member_pk_gs r))" by simp
    then have "distinct (take (cosigners r) (cr_member_pk_gs r))"
      using r(1) unfolding ChannelRecord_ok_def by (metis distinct_take)
    moreover have "Bytes32_default \<notin> set (take (cosigners r) (cr_member_pk_gs r))"
      using r(1) few [OF r(1)] assms by (fastforce simp: ChannelRecord_ok_def in_set_conv_nth)
    ultimately show ?thesis using keys by simp
  qed
  ultimately show ?thesis by blast
qed

definition example_record :: ChannelRecord where
  "example_record =
     \<lparr>cr_channel_id = ChannelId 5, cr_member_count = 2, cr_delegate_count = 0,
      cr_member_pk_gs = Bytes32 0 0 0 0 0 0 0 1 # Bytes32 0 0 0 0 0 0 0 2 # replicate 1022 Bytes32_default,
      cr_member_pubkeys_root = Bytes32_default, cr_set_version = 0, cr_bp_member_slot = 1,
      cr_special_close_penalty = U256_default, cr_close_freeze_nonce = 0, cr_status = Active,
      cr_regev_pk_root = Bytes32 0 0 0 0 0 0 0 3\<rparr>"

definition example_signature :: "u8 \<Rightarrow> Bytes32 \<Rightarrow> MemberSignature" where
  "example_signature slot key = \<lparr>ms_member_slot = slot, ms_pk_g = key, ms_signature = replicate FALCON_COSIGN_BLOB_BYTES 1\<rparr>"

lemma example_record_ok: "ChannelRecord_ok example_record" "length (cr_member_pk_gs example_record) = MAX_CHANNEL_MEMBERS"
proof -
  have "cr_member_pk_gs example_record ! i = Bytes32_default \<longleftrightarrow> 2 \<le> i" if "i < 1024" for i
  proof (cases i)
    case (Suc j)
    then show ?thesis using that by (cases j) (simp_all add: example_record_def Bytes32_default_def)
  qed (simp add: example_record_def Bytes32_default_def)
  moreover have "distinct (take 2 (cr_member_pk_gs example_record))"
    by (simp add: example_record_def numeral_2_eq_2)
  ultimately show "ChannelRecord_ok example_record"
    by (simp add: ChannelRecord_ok_def MAX_CHANNEL_MEMBERS_def MAX_SIG_CLUSTER_def)
      (simp add: example_record_def Bytes32_default_def)
qed (simp add: example_record_def MAX_CHANNEL_MEMBERS_def)

theorem signature_set_exact_witness:
  "validate_all_member_signatures example_record
     [example_signature 0 (Bytes32 0 0 0 0 0 0 0 1), example_signature 1 (Bytes32 0 0 0 0 0 0 0 2)] = Ok () \<and>
   validate_all_member_signatures example_record [example_signature 0 (Bytes32 0 0 0 0 0 0 0 1)] \<noteq> Ok ()"
  using signature_set_exact [OF example_record_ok(2), of "[example_signature 0 (Bytes32 0 0 0 0 0 0 0 1), example_signature 1 (Bytes32 0 0 0 0 0 0 0 2)]"]
    signature_set_exact [OF example_record_ok(2), of "[example_signature 0 (Bytes32 0 0 0 0 0 0 0 1)]"] example_record_ok(1)
  by (simp add: example_signature_def All_less_Suc2) (simp add: example_record_def)

section \<open>Close intents\<close>

definition close_words :: "CloseIntent \<Rightarrow> u32 list" where
  "close_words i = [CLOSE_STATE_ID_DOMAIN] @ ChannelId_to_u32_vec (ci_channel_id i) @
     Bytes32_to_u32_vec (ci_final_channel_state_digest i) @ split_u64_words (ci_close_freeze_nonce i)"

lemma state_id_binding:
  assumes "state_id keccak i = (Ok d :: ('e, _) outcome)" "state_id keccak i' = (Ok d :: ('e, _) outcome)"
    and "inj_on keccak {close_words i, close_words i'}"
  shows "ci_channel_id i = ci_channel_id i' \<and> ci_final_channel_state_digest i = ci_final_channel_state_digest i' \<and>
    ci_close_freeze_nonce i = ci_close_freeze_nonce i'"
proof -
  have "close_words i = close_words i'"
    using assms by (intro hash_words_binding [of keccak _ d]) (simp_all add: state_id_def close_state_id_def close_words_def)
  then show ?thesis by (simp add: close_words_def split_u64_words_inject)
qed

lemma CloseIntent_new_Ok:
  assumes "CloseIntent_new P keccak s w = Ok i"
  shows "ci_channel_id i = cs_channel_id s" "ci_final_channel_state_digest i = cs_digest s"
    "ci_close_freeze_nonce i = cs_close_freeze_nonce s + 1" "ci_close_nonce i = cs_close_freeze_nonce s + 1"
    "cw_channel_id w = cs_channel_id s" "cw_final_channel_state_digest w = cs_digest s"
    "h1 P keccak (cs_balance_state s) = (Ok (cw_final_balance_state_h1 w) :: (ChannelError, _) outcome)"
    "cw_intmax_state_root w = cf_intmax_state_root (cs_channel_fund s)" "cw_burn_tx_hash w = Bytes32_default"
    "cw_burn_amount w = cf_amounts (cs_channel_fund s) ! 0" "cs_close_freeze_nonce s \<noteq> - 1"
    "CloseWithdrawal_signing_digest keccak w = (Ok (ci_close_withdrawal_digest i) :: (ChannelError, _) outcome)"
    "ci_final_epoch i = cs_epoch s" "ci_final_small_block_number i = cs_small_block_number s"
    "ci_final_balance_state_h1 i = cw_final_balance_state_h1 w" "ci_channel_fund_snapshot i = cs_channel_fund s"
    "ci_burn_tx_hash i = Bytes32_default" "ci_snapshot_medium_block_number i = 0"
    "ci_final_state_version i = bs_state_version (cs_balance_state s)"
    "ci_final_settled_tx_chain i = bs_settled_tx_chain (cs_balance_state s)"
  using assms by (auto simp: CloseIntent_new_def Let_def split: if_splits)

lemma signed_part_fields:
  assumes "signed_part s = signed_part s'"
  shows "cs_channel_id s = cs_channel_id s'" "cs_epoch s = cs_epoch s'" "cs_small_block_number s = cs_small_block_number s'"
    "cs_close_freeze_nonce s = cs_close_freeze_nonce s'" "cs_channel_fund s = cs_channel_fund s'" "cs_balance_state s = cs_balance_state s'"
  using arg_cong [OF assms, of cs_channel_id] arg_cong [OF assms, of cs_epoch] arg_cong [OF assms, of cs_small_block_number]
    arg_cong [OF assms, of cs_close_freeze_nonce] arg_cong [OF assms, of cs_channel_fund] arg_cong [OF assms, of cs_balance_state]
  by (simp_all add: signed_part_def)

lemma unat_plus_one:
  fixes x :: u64
  assumes "x \<noteq> - 1"
  shows "unat (x + 1) = unat x + 1"
proof -
  have "unat x \<noteq> unat (- 1 :: u64)" using assms by (simp add: word_unat_eq_iff)
  moreover have "unat (- 1 :: u64) = 2 ^ 64 - 1" by (simp add: unsigned_minus_1_eq_mask mask_eq_exp_minus_1)
  ultimately have "unat x + 1 < 2 ^ 64" using unsigned_less [of x, where 'a = nat] by simp
  then show ?thesis by (simp add: unat_word_ariths)
qed

text \<open>
C22: a close has one identity per signed state. If two close intents are built from states that carry
their own signing digest, and have the same identity, then the states agree in everything the members
signed and the two intents are equal in every field, whoever built them: nothing a coordinator chooses can
make a second identity or change the content behind one. The intent always carries the next freeze nonce and
never a burn transaction. Hypotheses: no hash collision on the paired inputs.
\<close>

theorem close_identity_canonical:
  assumes keccak: "\<And>xs. length (keccak xs) = 8" and shape: "ChannelState_shape s" "ChannelState_shape s'"
    and signed: "ChannelState_signing_digest P keccak s = (Ok (cs_digest s) :: (unit, _) outcome)"
      "ChannelState_signing_digest P keccak s' = (Ok (cs_digest s') :: (unit, _) outcome)"
    and close: "CloseIntent_new P keccak s w = Ok i" "CloseIntent_new P keccak s' w' = Ok i'"
    and id: "CloseIntent_signing_digest keccak i = (Ok d :: (unit, _) outcome)"
      "CloseIntent_signing_digest keccak i' = (Ok d :: (unit, _) outcome)"
    and free: "state_collision_free P keccak s s'" "inj_on keccak {close_words i, close_words i'}"
  shows "i = i' \<and> signed_part s = signed_part s' \<and> ci_burn_tx_hash i = Bytes32_default \<and>
    unat (ci_close_nonce i) = unat (cs_close_freeze_nonce s) + 1"
proof -
  note c = CloseIntent_new_Ok [OF close(1)] and c' = CloseIntent_new_Ok [OF close(2)]
  have "cs_digest s = cs_digest s'"
    using state_id_binding [OF id [unfolded CloseIntent_signing_digest_def] free(2)] c(2) c'(2) by simp
  with signed have part: "signed_part s = signed_part s'"
    by (intro signed_part_inject [of keccak, OF keccak shape _ _ free(1)]) simp_all
  note same = signed_part_fields [OF part]
  have "ci_close_withdrawal_digest i = ci_close_withdrawal_digest i'"
    using c(5-12) c'(5-12) same \<open>cs_digest s = cs_digest s'\<close> by (simp add: CloseWithdrawal_signing_digest_def)
  then have "i = i'"
    using c c' same \<open>cs_digest s = cs_digest s'\<close> by (intro CloseIntent.equality) simp_all
  moreover have "unat (cs_close_freeze_nonce s + 1) = unat (cs_close_freeze_nonce s) + 1"
    by (rule unat_plus_one [OF c(11)])
  ultimately show ?thesis using part c by simp
qed

text \<open>A channel in the example balance state, signed with its digest, for the witnesses.\<close>

definition example_channel :: "(u64 list \<Rightarrow> PoseidonHashOut) \<Rightarrow> (u32 list \<Rightarrow> u32 list) \<Rightarrow> ChannelState" where
  "example_channel P keccak =
     (let s = \<lparr>cs_channel_id = ChannelId 5, cs_epoch = 4, cs_small_block_number = 3, cs_close_freeze_nonce = 2,
        cs_channel_fund = \<lparr>cf_channel_id = ChannelId 5, cf_amounts = replicate MAX_CHANNEL_TOKENS U256_default,
          cf_intmax_state_root = Bytes32_default\<rparr>,
        cs_balance_state = example_state, cs_h2_tag = Bytes32_default, cs_shared_native_nullifier_root = Bytes32_default,
        cs_unallocated_confirmed_incoming = U256_default, cs_prev_digest = Bytes32_default, cs_digest = Bytes32_default,
        cs_member_signatures = []\<rparr>
      in s\<lparr>cs_digest := keccak_digest keccak (signed_words P keccak s)\<rparr>)"

definition example_withdrawal :: "(u64 list \<Rightarrow> PoseidonHashOut) \<Rightarrow> (u32 list \<Rightarrow> u32 list) \<Rightarrow> u8 list \<Rightarrow> CloseWithdrawal" where
  "example_withdrawal P keccak zkp =
     \<lparr>cw_channel_id = ChannelId 5, cw_final_channel_state_digest = cs_digest (example_channel P keccak),
      cw_final_balance_state_h1 = h1_digest P keccak example_state, cw_intmax_state_root = Bytes32_default,
      cw_burn_tx_hash = Bytes32_default, cw_burn_amount = U256_default, cw_zkp = zkp\<rparr>"

lemma example_state_valid: "BalanceState_validate example_state = Ok ()"
  by (simp add: BalanceState_validate_value example_state_shape example_state_ok)

lemma example_channel_shape: "ChannelState_shape (example_channel P keccak)"
  by (simp add: ChannelState_shape_def example_channel_def Let_def example_state_shape example_state_valid)

lemma example_channel_signed:
  "ChannelState_signing_digest P (\<lambda>_. replicate 8 0) (example_channel P (\<lambda>_. replicate 8 0)) =
     Ok (cs_digest (example_channel P (\<lambda>_. replicate 8 0)))"
  using ChannelState_signing_digest_value [of "\<lambda>_. replicate 8 0" "example_channel P (\<lambda>_. replicate 8 0)" P] example_channel_shape
  by (simp add: example_channel_def Let_def signed_words_def ChannelState_words_def ChannelState_signing_digest_def
      h1_value example_state_shape example_state_valid constant_hash_words)

lemma example_close:
  "\<exists>i. CloseIntent_new P (\<lambda>_. replicate 8 0) (example_channel P (\<lambda>_. replicate 8 0)) (example_withdrawal P (\<lambda>_. replicate 8 0) zkp) = Ok i"
proof -
  have "h1 P (\<lambda>_. replicate 8 0) example_state = (Ok (h1_digest P (\<lambda>_. replicate 8 0) example_state) :: (ChannelError, _) outcome)"
    by (rule h1_value) (simp_all add: example_state_shape example_state_valid)
  then show ?thesis
    by (simp add: CloseIntent_new_def Let_def example_withdrawal_def CloseWithdrawal_signing_digest_def constant_hash_words)
      (simp add: example_channel_def Let_def MAX_CHANNEL_TOKENS_def)
qed

lemma constant_h1_collision_free: "h1_collision_free (\<lambda>_. PoseidonHashOut_default) (\<lambda>_. replicate 8 0) s s"
proof -
  have const: "two_to_one (\<lambda>_. PoseidonHashOut_default) = (\<lambda>_ _. PoseidonHashOut_default)"
    "slot_leaf (\<lambda>_. PoseidonHashOut_default) k s i = PoseidonHashOut_default" for k i
    by (simp_all add: fun_eq_iff two_to_one_def hash_inputs_u64_def slot_leaf_def hash_inputs_u32_def)
  have "inj_on f (slot_path (\<lambda>_. PoseidonHashOut_default) (\<lambda>_. replicate 8 0) s i)" for i and f :: "_ \<Rightarrow> PoseidonHashOut"
    using path_pairs_const [of "slot_leaf (\<lambda>_. PoseidonHashOut_default) (\<lambda>_. replicate 8 0) s" PoseidonHashOut_default BALANCE_SLOT_TREE_HEIGHT i]
    by (intro inj_on_hashed_const) (simp add: const)
  then show ?thesis by (simp add: h1_collision_free_def)
qed

theorem close_identity_canonical_witness:
  "\<exists>i. CloseIntent_new (\<lambda>_. PoseidonHashOut_default) (\<lambda>_. replicate 8 0) (example_channel (\<lambda>_. PoseidonHashOut_default) (\<lambda>_. replicate 8 0))
       (example_withdrawal (\<lambda>_. PoseidonHashOut_default) (\<lambda>_. replicate 8 0) []) = Ok i \<and>
     CloseIntent_new (\<lambda>_. PoseidonHashOut_default) (\<lambda>_. replicate 8 0) (example_channel (\<lambda>_. PoseidonHashOut_default) (\<lambda>_. replicate 8 0))
       (example_withdrawal (\<lambda>_. PoseidonHashOut_default) (\<lambda>_. replicate 8 0) [1]) = Ok i \<and> unat (ci_close_nonce i) = 3"
proof -
  let ?P = "\<lambda>_ :: u64 list. PoseidonHashOut_default" and ?k = "\<lambda>_ :: u32 list. replicate 8 (0 :: u32)"
  obtain i i' where i: "CloseIntent_new ?P ?k (example_channel ?P ?k) (example_withdrawal ?P ?k []) = Ok i"
    "CloseIntent_new ?P ?k (example_channel ?P ?k) (example_withdrawal ?P ?k [1]) = Ok i'"
    using example_close by blast
  have words: "close_words i = close_words i'"
    using CloseIntent_new_Ok(1,2,3) [OF i(1)] CloseIntent_new_Ok(1,2,3) [OF i(2)] by (simp add: close_words_def)
  obtain d where "CloseIntent_signing_digest ?k i = (Ok d :: (unit, _) outcome)"
    by (simp add: CloseIntent_signing_digest_def state_id_def close_state_id_def constant_hash_words)
  moreover from this words have "CloseIntent_signing_digest ?k i' = (Ok d :: (unit, _) outcome)"
    by (simp add: CloseIntent_signing_digest_def state_id_def close_state_id_def close_words_def)
  ultimately have "i = i' \<and> unat (ci_close_nonce i) = unat (cs_close_freeze_nonce (example_channel ?P ?k)) + 1"
    using close_identity_canonical [of ?k "example_channel ?P ?k" "example_channel ?P ?k" ?P, OF _ example_channel_shape example_channel_shape
        example_channel_signed example_channel_signed i] words constant_h1_collision_free
    by (auto simp: state_collision_free_def)
  with i show ?thesis by (auto simp: example_channel_def Let_def)
qed

end
