(* ===== verification/Validity_Chains.thy ===== *)
theory Validity_Chains
  imports Balance_Common Balance_State
begin

text \<open>
  The two hash chains a block consumes (\<open>src/circuits/validity/deposit_hash_chain/\<close> and
  \<open>src/circuits/validity/channel_reg_hash_chain/\<close>, with the record of
  \<open>src/common/channel_registration.rs\<close>): one step per deposit, which appends it to the deposit tree, and
  one step per registered channel, which writes its leaf into the channel tree. A step takes either an initial
  value or the public inputs of the previous proof.

  \<open>VerifierCircuitData\<close> stands for the verifier of a circuit: whether it accepts a proof, its data and the
  number of cap elements of its configuration.
\<close>

record 'p VerifierCircuitData =
  vcd_verify :: "'p ProofWithPublicInputs \<Rightarrow> bool"
  vcd_verifier_only :: VerifierOnlyCircuitData
  vcd_cap_len :: nat

section \<open>Deposit chain\<close>

datatype DepositChainPublicInputsError = DC_InvalidLength | DC_ParseError string

record DepositChainPublicInputs =
  dc_initial_deposit_hash_chain :: Bytes32
  dc_initial_deposit_tree_root :: PoseidonHashOut
  dc_initial_deposit_count :: U63
  dc_deposit_hash_chain :: Bytes32
  dc_deposit_tree_root :: PoseidonHashOut
  dc_deposit_count :: U63
  dc_block_number :: BlockNumber
  dc_vd :: VerifierOnlyCircuitData

abbreviation DEPOSIT_CHAIN_PUBLIC_INPUTS_LEN :: nat where
  "DEPOSIT_CHAIN_PUBLIC_INPUTS_LEN \<equiv> 27"

definition DepositChainPublicInputs_to_u64_vec :: "nat \<Rightarrow> DepositChainPublicInputs \<Rightarrow> ('e, u64 list) outcome" where
  "DepositChainPublicInputs_to_u64_vec cap_len p =
     and_then (vd_to_vec cap_len (dc_vd p)) (\<lambda>vd.
       Ok (to_u64_vec Bytes32_to_u32_vec (dc_initial_deposit_hash_chain p) @
           hash_elements (dc_initial_deposit_tree_root p) @ U63_to_u64_vec (dc_initial_deposit_count p) @
           to_u64_vec Bytes32_to_u32_vec (dc_deposit_hash_chain p) @ hash_elements (dc_deposit_tree_root p) @
           U63_to_u64_vec (dc_deposit_count p) @ U63_to_u64_vec (dc_block_number p) @ vd))"

definition DepositChainPublicInputs_from_u64_slice ::
  "nat \<Rightarrow> u64 list \<Rightarrow> (DepositChainPublicInputsError, DepositChainPublicInputs) outcome" where
  "DepositChainPublicInputs_from_u64_slice cap_len inputs =
     (let vd_len = vd_vec_len cap_len in
      if length inputs \<noteq> DEPOSIT_CHAIN_PUBLIC_INPUTS_LEN + vd_len then Err DC_InvalidLength
      else
        and_then (map_err (\<lambda>_. DC_ParseError ''initial_deposit_hash_chain'')
          (from_u64_slice Bytes32_from_u32_slice (subslice 0 8 inputs))) (\<lambda>initial_deposit_hash_chain.
        and_then (map_err (\<lambda>_. DC_ParseError ''initial_deposit_tree_root'')
          (PoseidonHashOut_from_u64_slice (subslice 8 12 inputs))) (\<lambda>initial_deposit_tree_root.
        and_then (map_err (\<lambda>_. DC_ParseError ''initial_deposit_count'') (U63_new (inputs ! 12))) (\<lambda>initial_deposit_count.
        and_then (map_err (\<lambda>_. DC_ParseError ''deposit_hash_chain'')
          (from_u64_slice Bytes32_from_u32_slice (subslice 13 21 inputs))) (\<lambda>deposit_hash_chain.
        and_then (map_err (\<lambda>_. DC_ParseError ''deposit_tree_root'')
          (PoseidonHashOut_from_u64_slice (subslice 21 25 inputs))) (\<lambda>deposit_tree_root.
        and_then (map_err (\<lambda>_. DC_ParseError ''deposit_count'') (U63_new (inputs ! 25))) (\<lambda>deposit_count.
        and_then (map_err (\<lambda>_. DC_ParseError ''block_number'') (U63_new (inputs ! 26))) (\<lambda>block_number.
        and_then (map_err (\<lambda>_. DC_ParseError ''verifier data'')
          (vd_from_pis_slice cap_len (map from_canonical_u64 (subslice 27 (27 + vd_len) inputs)))) (\<lambda>vd.
          Ok \<lparr>dc_initial_deposit_hash_chain = initial_deposit_hash_chain,
              dc_initial_deposit_tree_root = initial_deposit_tree_root,
              dc_initial_deposit_count = initial_deposit_count, dc_deposit_hash_chain = deposit_hash_chain,
              dc_deposit_tree_root = deposit_tree_root, dc_deposit_count = deposit_count,
              dc_block_number = block_number, dc_vd = vd\<rparr>)))))))))"

datatype UpdateDepositTreeError =
    DS_InvaldInput | DS_InvalidProof | DS_FailedToProve | DS_MerkleProofError
  | DS_DepositChainPublicInputsError DepositChainPublicInputsError

record 'p DepositStepWitness =
  ds_initial_value :: "(Bytes32 \<times> PoseidonHashOut \<times> U63) option"
  ds_prev_deposit_chain_proof :: "'p ProofWithPublicInputs option"
  ds_deposit :: Deposit
  ds_deposit_merkle_proof :: "PoseidonHashOut MerkleProof"

definition DepositStepWitness_to_public_inputs ::
  "(u64 list \<Rightarrow> PoseidonHashOut) \<Rightarrow> (u32 list \<Rightarrow> u32 list) \<Rightarrow> 'p VerifierCircuitData \<Rightarrow> 'p DepositStepWitness
     \<Rightarrow> (UpdateDepositTreeError, DepositChainPublicInputs) outcome" where
  "DepositStepWitness_to_public_inputs poseidon keccak deposit_chain_vd w =
     (let total_inputs = of_bool (ds_initial_value w \<noteq> None) + of_bool (ds_prev_deposit_chain_proof w \<noteq> None) :: nat;
          deposit = ds_deposit w; proof = ds_deposit_merkle_proof w
      in if total_inputs \<noteq> 1 then Err DS_InvaldInput
      else
        and_then
          (case ds_initial_value w of
             Some (hash_chain, tree_root, count) \<Rightarrow>
               Ok \<lparr>dc_initial_deposit_hash_chain = hash_chain, dc_initial_deposit_tree_root = tree_root,
                   dc_initial_deposit_count = count, dc_deposit_hash_chain = hash_chain,
                   dc_deposit_tree_root = tree_root, dc_deposit_count = count,
                   dc_block_number = dep_block_number deposit, dc_vd = vcd_verifier_only deposit_chain_vd\<rparr>
           | None \<Rightarrow>
             (case ds_prev_deposit_chain_proof w of
                None \<Rightarrow> Panic
              | Some prev_proof \<Rightarrow>
                and_then (map_err DS_DepositChainPublicInputsError
                  (DepositChainPublicInputs_from_u64_slice (vcd_cap_len deposit_chain_vd) (pr_public_inputs prev_proof)))
                  (\<lambda>prev_pis. if dc_block_number prev_pis \<noteq> dep_block_number deposit then Err DS_InvaldInput
                     else Ok prev_pis)))
          (\<lambda>prev_pis.
        if as_u64 (dep_deposit_index deposit) \<noteq> as_u64 (dc_deposit_count prev_pis) then Err DS_InvaldInput
        else
          and_then (map_err (\<lambda>_. DS_MerkleProofError)
            (MerkleProof_verify (two_to_one poseidon) (Deposit_poseidon_hash poseidon) proof Deposit_empty_leaf
               (as_u64 (dc_deposit_count prev_pis)) (dc_deposit_tree_root prev_pis))) (\<lambda>_.
          and_then (MerkleProof_get_root (two_to_one poseidon) (Deposit_poseidon_hash poseidon) proof deposit
               (as_u64 (dc_deposit_count prev_pis))) (\<lambda>new_deposit_tree_root.
          and_then (map_err (\<lambda>_. DS_InvaldInput) (U63_add (dc_deposit_count prev_pis) 1)) (\<lambda>new_deposit_count.
          and_then (Deposit_hash_with_prev_hash keccak deposit (dc_deposit_hash_chain prev_pis)) (\<lambda>new_deposit_hash_chain.
            Ok (prev_pis\<lparr>dc_deposit_hash_chain := new_deposit_hash_chain, dc_deposit_tree_root := new_deposit_tree_root,
                 dc_deposit_count := new_deposit_count, dc_block_number := dep_block_number deposit\<rparr>)))))))"

section \<open>Channel registration\<close>

record MemberRegEntry =
  me_pk_g :: Bytes32
  me_pk_b :: Bytes32
  me_regev_pk_digest :: Bytes32
  me_recipient :: Address

definition MemberRegEntry_default :: MemberRegEntry where
  "MemberRegEntry_default =
     \<lparr>me_pk_g = Bytes32_default, me_pk_b = Bytes32_default, me_regev_pk_digest = Bytes32_default,
      me_recipient = Address_default\<rparr>"

record ChannelRegRecord =
  rr_channel_id :: ChannelId
  rr_bp_member_slot :: u32
  rr_member_count :: u32
  rr_delegate_count :: u32
  rr_members :: "MemberRegEntry list"

datatype ChannelRegRecordError =
    MemberCountOutOfRange u32 | DelegateCountNonZero u32 | ZeroActivePkG nat | NonCanonicalPkG nat
  | NonCanonicalPkB nat | NonCanonicalRegevPkDigest nat | DuplicatePkG nat nat | NonZeroPaddingSlot nat
  | BpMemberSlotOutOfRange u32 u32

definition validate_active_member ::
  "MemberRegEntry list \<Rightarrow> nat \<Rightarrow> nat \<Rightarrow> (ChannelRegRecordError, unit) outcome" where
  "validate_active_member members mc i =
     (if me_pk_g (members ! i) = Bytes32_default then Err (ZeroActivePkG i)
      else if \<not> is_ok (PoseidonHashOut_try_from (me_pk_g (members ! i))) then Err (NonCanonicalPkG i)
      else if \<not> is_ok (PoseidonHashOut_try_from (me_pk_b (members ! i))) then Err (NonCanonicalPkB i)
      else if \<not> is_ok (PoseidonHashOut_try_from (me_regev_pk_digest (members ! i))) then Err (NonCanonicalRegevPkDigest i)
      else case find (\<lambda>j. me_pk_g (members ! i) = me_pk_g (members ! j)) [i + 1..<mc] of
        Some j \<Rightarrow> Err (DuplicatePkG i j)
      | None \<Rightarrow> Ok ())"

definition ChannelRegRecord_validate :: "ChannelRegRecord \<Rightarrow> (ChannelRegRecordError, unit) outcome" where
  "ChannelRegRecord_validate r =
     (if rr_member_count r < 2 \<or> unat (rr_member_count r) > MAX_SIG_CLUSTER
      then Err (MemberCountOutOfRange (rr_member_count r))
      else if rr_delegate_count r \<noteq> 0 then Err (DelegateCountNonZero (rr_delegate_count r))
      else
        let mc = unat (rr_member_count r) in
        and_then (try_each (validate_active_member (rr_members r) mc) [0..<mc]) (\<lambda>_.
        case find (\<lambda>i. rr_members r ! i \<noteq> MemberRegEntry_default) [mc..<MAX_SIG_CLUSTER] of
          Some i \<Rightarrow> Err (NonZeroPaddingSlot i)
        | None \<Rightarrow>
          if rr_bp_member_slot r \<ge> rr_member_count r
          then Err (BpMemberSlotOutOfRange (rr_bp_member_slot r) (rr_member_count r)) else Ok ()))"

definition ChannelRegRecord_words :: "ChannelRegRecord \<Rightarrow> Bytes32 \<Rightarrow> u32 list" where
  "ChannelRegRecord_words r prev_hash =
     Bytes32_to_u32_vec prev_hash @ ChannelId_to_u32_vec (rr_channel_id r) @
     [rr_bp_member_slot r, rr_member_count r, rr_delegate_count r] @
     concat (map (\<lambda>m. Bytes32_to_u32_vec (me_pk_g m) @ Bytes32_to_u32_vec (me_pk_b m) @
       Bytes32_to_u32_vec (me_regev_pk_digest m) @ Address_to_u32_vec (me_recipient m)) (rr_members r))"

definition ChannelRegRecord_hash_with_prev_hash ::
  "(u32 list \<Rightarrow> u32 list) \<Rightarrow> ChannelRegRecord \<Rightarrow> Bytes32 \<Rightarrow> ('e, Bytes32) outcome" where
  "ChannelRegRecord_hash_with_prev_hash keccak r prev_hash =
     unwrap (Bytes32_from_u32_slice (keccak (ChannelRegRecord_words r prev_hash)))"

datatype ChannelRegChainPublicInputsError = RC_InvalidLength | RC_ParseError string

record ChannelRegChainPublicInputs =
  rc_initial_channel_reg_hash_chain :: Bytes32
  rc_initial_channel_tree_root :: PoseidonHashOut
  rc_initial_channel_reg_count :: U63
  rc_channel_reg_hash_chain :: Bytes32
  rc_channel_tree_root :: PoseidonHashOut
  rc_channel_reg_count :: U63
  rc_block_number :: BlockNumber
  rc_vd :: VerifierOnlyCircuitData

abbreviation CHANNEL_REG_CHAIN_PUBLIC_INPUTS_LEN :: nat where
  "CHANNEL_REG_CHAIN_PUBLIC_INPUTS_LEN \<equiv> 27"

definition ChannelRegChainPublicInputs_to_u64_vec ::
  "nat \<Rightarrow> ChannelRegChainPublicInputs \<Rightarrow> ('e, u64 list) outcome" where
  "ChannelRegChainPublicInputs_to_u64_vec cap_len p =
     and_then (vd_to_vec cap_len (rc_vd p)) (\<lambda>vd.
       Ok (to_u64_vec Bytes32_to_u32_vec (rc_initial_channel_reg_hash_chain p) @
           hash_elements (rc_initial_channel_tree_root p) @ U63_to_u64_vec (rc_initial_channel_reg_count p) @
           to_u64_vec Bytes32_to_u32_vec (rc_channel_reg_hash_chain p) @ hash_elements (rc_channel_tree_root p) @
           U63_to_u64_vec (rc_channel_reg_count p) @ U63_to_u64_vec (rc_block_number p) @ vd))"

definition ChannelRegChainPublicInputs_from_u64_slice ::
  "nat \<Rightarrow> u64 list \<Rightarrow> (ChannelRegChainPublicInputsError, ChannelRegChainPublicInputs) outcome" where
  "ChannelRegChainPublicInputs_from_u64_slice cap_len inputs =
     (let vd_len = vd_vec_len cap_len in
      if length inputs \<noteq> CHANNEL_REG_CHAIN_PUBLIC_INPUTS_LEN + vd_len then Err RC_InvalidLength
      else
        and_then (map_err (\<lambda>_. RC_ParseError ''initial_channel_reg_hash_chain'')
          (from_u64_slice Bytes32_from_u32_slice (subslice 0 8 inputs))) (\<lambda>initial_channel_reg_hash_chain.
        and_then (map_err (\<lambda>_. RC_ParseError ''initial_channel_tree_root'')
          (PoseidonHashOut_from_u64_slice (subslice 8 12 inputs))) (\<lambda>initial_channel_tree_root.
        and_then (map_err (\<lambda>_. RC_ParseError ''initial_channel_reg_count'') (U63_new (inputs ! 12))) (\<lambda>initial_channel_reg_count.
        and_then (map_err (\<lambda>_. RC_ParseError ''channel_reg_hash_chain'')
          (from_u64_slice Bytes32_from_u32_slice (subslice 13 21 inputs))) (\<lambda>channel_reg_hash_chain.
        and_then (map_err (\<lambda>_. RC_ParseError ''channel_tree_root'')
          (PoseidonHashOut_from_u64_slice (subslice 21 25 inputs))) (\<lambda>channel_tree_root.
        and_then (map_err (\<lambda>_. RC_ParseError ''channel_reg_count'') (U63_new (inputs ! 25))) (\<lambda>channel_reg_count.
        and_then (map_err (\<lambda>_. RC_ParseError ''block_number'') (U63_new (inputs ! 26))) (\<lambda>block_number.
        and_then (map_err (\<lambda>_. RC_ParseError ''verifier data'')
          (vd_from_pis_slice cap_len (map from_canonical_u64 (subslice 27 (27 + vd_len) inputs)))) (\<lambda>vd.
          Ok \<lparr>rc_initial_channel_reg_hash_chain = initial_channel_reg_hash_chain,
              rc_initial_channel_tree_root = initial_channel_tree_root,
              rc_initial_channel_reg_count = initial_channel_reg_count,
              rc_channel_reg_hash_chain = channel_reg_hash_chain, rc_channel_tree_root = channel_tree_root,
              rc_channel_reg_count = channel_reg_count, rc_block_number = block_number, rc_vd = vd\<rparr>)))))))))"

datatype ChannelRegStepError =
    RS_InvalidInput | RS_InvalidProof | RS_FailedToProve | RS_MerkleProofError
  | RS_RecordError ChannelRegRecordError
  | RS_ChannelRegChainPublicInputsError ChannelRegChainPublicInputsError

definition member_leaf_of_entry :: "MemberRegEntry \<Rightarrow> MemberLeaf" where
  "member_leaf_of_entry m =
     \<lparr>ml_pk_g = reduce_to_hash_out (me_pk_g m), ml_pk_b = reduce_to_hash_out (me_pk_b m),
      ml_regev_pk_digest = reduce_to_hash_out (me_regev_pk_digest m)\<rparr>"

text \<open>The loop indexes the members; an index out of range panics.\<close>

definition member_pubkeys_root_for ::
  "(u64 list \<Rightarrow> PoseidonHashOut) \<Rightarrow> ChannelRegRecord \<Rightarrow> ('e, PoseidonHashOut) outcome" where
  "member_pubkeys_root_for poseidon record =
     (let active = unat (rr_member_count record) + unat (rr_delegate_count record) in
      and_then (try_fold (\<lambda>tree i.
          if i \<ge> length (rr_members record) then Panic
          else Incremental_push (two_to_one poseidon) (MemberLeaf_hash poseidon)
            (member_leaf_of_entry (rr_members record ! i)) tree) (MemberTree_init poseidon) [0..<active])
        Incremental_get_root)"

record 'p ChannelRegStepWitness =
  rs_initial_value :: "(Bytes32 \<times> PoseidonHashOut \<times> U63) option"
  rs_prev_channel_reg_chain_proof :: "'p ProofWithPublicInputs option"
  rs_record :: ChannelRegRecord
  rs_channel_merkle_proof :: "PoseidonHashOut MerkleProof"
  rs_block_number :: BlockNumber

definition ChannelRegStepWitness_to_public_inputs_unchecked ::
  "(u64 list \<Rightarrow> PoseidonHashOut) \<Rightarrow> (u32 list \<Rightarrow> u32 list) \<Rightarrow> 'p VerifierCircuitData \<Rightarrow> 'p ChannelRegStepWitness
     \<Rightarrow> (ChannelRegStepError, ChannelRegChainPublicInputs) outcome" where
  "ChannelRegStepWitness_to_public_inputs_unchecked poseidon keccak channel_reg_chain_vd w =
     (let total_inputs =
            of_bool (rs_initial_value w \<noteq> None) + of_bool (rs_prev_channel_reg_chain_proof w \<noteq> None) :: nat;
          record = rs_record w; proof = rs_channel_merkle_proof w
      in if total_inputs \<noteq> 1 then Err RS_InvalidInput
      else
        and_then
          (case rs_initial_value w of
             Some (hash_chain, tree_root, count) \<Rightarrow>
               Ok \<lparr>rc_initial_channel_reg_hash_chain = hash_chain, rc_initial_channel_tree_root = tree_root,
                   rc_initial_channel_reg_count = count, rc_channel_reg_hash_chain = hash_chain,
                   rc_channel_tree_root = tree_root, rc_channel_reg_count = count,
                   rc_block_number = rs_block_number w, rc_vd = vcd_verifier_only channel_reg_chain_vd\<rparr>
           | None \<Rightarrow>
             (case rs_prev_channel_reg_chain_proof w of
                None \<Rightarrow> Panic
              | Some prev_proof \<Rightarrow>
                and_then (map_err RS_ChannelRegChainPublicInputsError
                  (ChannelRegChainPublicInputs_from_u64_slice (vcd_cap_len channel_reg_chain_vd)
                     (pr_public_inputs prev_proof)))
                  (\<lambda>prev_pis. if rc_block_number prev_pis \<noteq> rs_block_number w then Err RS_InvalidInput
                     else Ok prev_pis)))
          (\<lambda>prev_pis.
        let channel_index = ChannelId_as_u64 (rr_channel_id record) in
        and_then (ChannelLeaf_default poseidon) (\<lambda>default_leaf.
        and_then (map_err (\<lambda>_. RS_MerkleProofError)
          (MerkleProof_verify (two_to_one poseidon) (ChannelLeaf_hash poseidon) proof default_leaf channel_index
             (rc_channel_tree_root prev_pis))) (\<lambda>_.
        and_then (member_pubkeys_root_for poseidon record) (\<lambda>member_pubkeys_root.
        let new_leaf = \<lparr>cl_index = 0, cl_prev = U63 0, cl_send_tree_root = cl_send_tree_root default_leaf,
              cl_member_pubkeys_root = member_pubkeys_root\<rparr>
        in
        and_then (MerkleProof_get_root (two_to_one poseidon) (ChannelLeaf_hash poseidon) proof new_leaf channel_index)
          (\<lambda>new_channel_tree_root.
        and_then (map_err (\<lambda>_. RS_InvalidInput) (U63_add (rc_channel_reg_count prev_pis) 1)) (\<lambda>new_channel_reg_count.
        and_then (ChannelRegRecord_hash_with_prev_hash keccak record (rc_channel_reg_hash_chain prev_pis))
          (\<lambda>new_channel_reg_hash_chain.
          Ok (prev_pis\<lparr>rc_channel_reg_hash_chain := new_channel_reg_hash_chain,
               rc_channel_tree_root := new_channel_tree_root, rc_channel_reg_count := new_channel_reg_count,
               rc_block_number := rs_block_number w\<rparr>)))))))))"

definition ChannelRegStepWitness_to_public_inputs ::
  "(u64 list \<Rightarrow> PoseidonHashOut) \<Rightarrow> (u32 list \<Rightarrow> u32 list) \<Rightarrow> 'p VerifierCircuitData \<Rightarrow> 'p ChannelRegStepWitness
     \<Rightarrow> (ChannelRegStepError, ChannelRegChainPublicInputs) outcome" where
  "ChannelRegStepWitness_to_public_inputs poseidon keccak channel_reg_chain_vd w =
     and_then (map_err RS_RecordError (ChannelRegRecord_validate (rs_record w))) (\<lambda>_.
       ChannelRegStepWitness_to_public_inputs_unchecked poseidon keccak channel_reg_chain_vd w)"

end
