(* ===== verification/Validity.thy ===== *)
theory Validity
  imports Validity_Chains Channel
begin

text \<open>
  The validity step of a block (\<open>src/circuits/validity/block_hash_chain/\<close>): the extended public state, the
  update of the channel tree by the senders of a block (\<open>update_channel_tree.rs\<close>) with the statement all
  members of the sending channel have signed (\<open>channel_state_message.rs\<close>, the list formulas of
  \<open>src/falcon_sig/agg_list.rs\<close> and \<open>src/poseidon_sig/list.rs\<close>), and the step that joins it with the
  deposit and the registration chain (\<open>block_step.rs\<close>).
\<close>

section \<open>Extended public state\<close>

datatype ExtendedPublicStateError = EPS_InvalidLength | EPS_PublicState PublicStateError | EPS_Bytes32

record ExtendedPublicState =
  ep_inner :: PublicState
  ep_block_hash_chain :: Bytes32
  ep_deposit_hash_chain :: Bytes32
  ep_deposit_count :: U63
  ep_channel_reg_hash_chain :: Bytes32
  ep_bp_sig_chain :: Bytes32

abbreviation EXTENDED_PUBLIC_STATE_U64_LEN :: nat where
  "EXTENDED_PUBLIC_STATE_U64_LEN \<equiv> PUBLIC_STATE_U64_LEN + 33"

definition ExtendedPublicState_to_u64_vec :: "ExtendedPublicState \<Rightarrow> u64 list" where
  "ExtendedPublicState_to_u64_vec e =
     PublicState_to_u64_vec (ep_inner e) @ to_u64_vec Bytes32_to_u32_vec (ep_block_hash_chain e) @
     to_u64_vec Bytes32_to_u32_vec (ep_deposit_hash_chain e) @ U63_to_u64_vec (ep_deposit_count e) @
     to_u64_vec Bytes32_to_u32_vec (ep_channel_reg_hash_chain e) @ to_u64_vec Bytes32_to_u32_vec (ep_bp_sig_chain e)"

definition ExtendedPublicState_commitment ::
  "(u64 list \<Rightarrow> PoseidonHashOut) \<Rightarrow> ExtendedPublicState \<Rightarrow> ('e, Bytes32) outcome" where
  "ExtendedPublicState_commitment poseidon e =
     Bytes32_from_hash_out (hash_inputs_u64 poseidon (ExtendedPublicState_to_u64_vec e))"

definition ExtendedPublicState_from_u64_slice ::
  "u64 list \<Rightarrow> (ExtendedPublicStateError, ExtendedPublicState) outcome" where
  "ExtendedPublicState_from_u64_slice values =
     (if length values \<noteq> EXTENDED_PUBLIC_STATE_U64_LEN then Err EPS_InvalidLength
      else
        let p = PUBLIC_STATE_U64_LEN in
        and_then (map_err EPS_PublicState (PublicState_from_u64_slice (subslice 0 p values))) (\<lambda>inner.
        and_then (map_err (\<lambda>_. EPS_Bytes32) (from_u64_slice Bytes32_from_u32_slice (subslice p (p + 8) values)))
          (\<lambda>block_hash_chain.
        and_then (map_err (\<lambda>_. EPS_Bytes32) (from_u64_slice Bytes32_from_u32_slice (subslice (p + 8) (p + 16) values)))
          (\<lambda>deposit_hash_chain.
        and_then (map_err (\<lambda>_. EPS_InvalidLength) (U63_new (values ! (p + 16)))) (\<lambda>deposit_count.
        and_then (map_err (\<lambda>_. EPS_Bytes32) (from_u64_slice Bytes32_from_u32_slice (subslice (p + 17) (p + 25) values)))
          (\<lambda>channel_reg_hash_chain.
        and_then (map_err (\<lambda>_. EPS_Bytes32) (from_u64_slice Bytes32_from_u32_slice (subslice (p + 25) (p + 33) values)))
          (\<lambda>bp_sig_chain.
          Ok \<lparr>ep_inner = inner, ep_block_hash_chain = block_hash_chain, ep_deposit_hash_chain = deposit_hash_chain,
              ep_deposit_count = deposit_count, ep_channel_reg_hash_chain = channel_reg_hash_chain,
              ep_bp_sig_chain = bp_sig_chain\<rparr>)))))))"

section \<open>The signed channel state\<close>

record ChannelStateMessageFields =
  mf_epoch :: u64
  mf_small_block_number :: u64
  mf_close_freeze_nonce :: u64
  mf_fund_amounts :: "U256 list"
  mf_fund_intmax_state_root :: Bytes32
  mf_balance_state_h1 :: Bytes32
  mf_shared_native_nullifier_root :: Bytes32
  mf_unallocated_confirmed_incoming :: U256
  mf_prev_digest :: Bytes32
  mf_state_version :: u64

definition preimage :: "ChannelStateMessageFields \<Rightarrow> u32 \<Rightarrow> Bytes32 \<Rightarrow> u32 list" where
  "preimage f channel_id h2_tag =
     [CHANNEL_STATE_DOMAIN, channel_id] @ split_u64_words (mf_epoch f) @ split_u64_words (mf_small_block_number f) @
     split_u64_words (mf_close_freeze_nonce f) @ [channel_id] @ concat (map U256_to_u32_vec (mf_fund_amounts f)) @
     Bytes32_to_u32_vec (mf_fund_intmax_state_root f) @ Bytes32_to_u32_vec (mf_balance_state_h1 f) @
     Bytes32_to_u32_vec (mf_shared_native_nullifier_root f) @ U256_to_u32_vec (mf_unallocated_confirmed_incoming f) @
     Bytes32_to_u32_vec (mf_prev_digest f) @ Bytes32_to_u32_vec h2_tag @ split_u64_words (mf_state_version f)"

definition ChannelStateMessageFields_signing_digest ::
  "(u32 list \<Rightarrow> u32 list) \<Rightarrow> ChannelStateMessageFields \<Rightarrow> u32 \<Rightarrow> Bytes32 \<Rightarrow> ('e, Bytes32) outcome" where
  "ChannelStateMessageFields_signing_digest keccak f channel_id h2_tag = hash_words keccak (preimage f channel_id h2_tag)"

definition from_channel_state ::
  "(u64 list \<Rightarrow> PoseidonHashOut) \<Rightarrow> (u32 list \<Rightarrow> u32 list) \<Rightarrow> ChannelState \<Rightarrow> ('e, ChannelStateMessageFields) outcome" where
  "from_channel_state poseidon keccak s =
     and_then (h1 poseidon keccak (cs_balance_state s)) (\<lambda>h.
       Ok \<lparr>mf_epoch = cs_epoch s, mf_small_block_number = cs_small_block_number s,
           mf_close_freeze_nonce = cs_close_freeze_nonce s, mf_fund_amounts = cf_amounts (cs_channel_fund s),
           mf_fund_intmax_state_root = cf_intmax_state_root (cs_channel_fund s), mf_balance_state_h1 = h,
           mf_shared_native_nullifier_root = cs_shared_native_nullifier_root s,
           mf_unallocated_confirmed_incoming = cs_unallocated_confirmed_incoming s,
           mf_prev_digest = cs_prev_digest s, mf_state_version = bs_state_version (cs_balance_state s)\<rparr>)"

text \<open>The list of folded statements: domain, message, number of signers, digest of their keys.\<close>

definition agg_pk_list_digest ::
  "(u64 list \<Rightarrow> PoseidonHashOut) \<Rightarrow> Bytes32 list \<Rightarrow> ('e, PoseidonHashOut) outcome" where
  "agg_pk_list_digest poseidon signer_pks =
     (if \<not> length signer_pks \<le> MAX_SIG_CLUSTER then Panic
      else Ok (hash_inputs_u64 poseidon (resize (1 + MAX_SIG_CLUSTER * 8) 0
        (0x494d504c # concat (map (\<lambda>pk. map ucast (Bytes32_to_u32_vec pk)) signer_pks)))))"

definition agg_list_leaf ::
  "(u64 list \<Rightarrow> PoseidonHashOut) \<Rightarrow> Bytes32 \<Rightarrow> u64 \<Rightarrow> PoseidonHashOut \<Rightarrow> PoseidonHashOut" where
  "agg_list_leaf poseidon message signer_count pk_list_digest =
     hash_inputs_u64 poseidon
       ([0x494d414c] @ map ucast (Bytes32_to_u32_vec message) @ [signer_count] @ hash_elements pk_list_digest)"

definition list_chain_step ::
  "(u64 list \<Rightarrow> PoseidonHashOut) \<Rightarrow> PoseidonHashOut \<Rightarrow> PoseidonHashOut \<Rightarrow> PoseidonHashOut" where
  "list_chain_step poseidon prev leaf = hash_inputs_u64 poseidon (hash_elements prev @ hash_elements leaf)"

section \<open>Update of the channel tree\<close>

datatype UpdateUserTreeError =
    UU_InvalidLength | UU_BlockError BlockError | UU_UserIdError ChannelIdError | UU_MerkleProofError

record UpdateUserPublicInputs =
  uu_block_number :: BlockNumber
  uu_block_timestamp :: u64
  uu_prev_block_hash_chain :: Bytes32
  uu_prev_account_tree_root :: PoseidonHashOut
  uu_new_block_hash_chain :: Bytes32
  uu_new_account_tree_root :: PoseidonHashOut
  uu_deposit_hash_chain :: Bytes32
  uu_channel_reg_hash_chain :: Bytes32
  uu_prev_bp_sig_chain :: Bytes32
  uu_new_bp_sig_chain :: Bytes32

record UpdateUserTree =
  ut_prev_block_hash_chain :: Bytes32
  ut_prev_account_tree_root :: PoseidonHashOut
  ut_block_number :: BlockNumber
  ut_block :: Block
  ut_prev_account_leaves :: "ChannelLeaf list"
  ut_user_merkle_proofs :: "PoseidonHashOut MerkleProof list"
  ut_send_merkle_proofs :: "PoseidonHashOut MerkleProof list"
  ut_prev_bp_sig_chain :: Bytes32
  ut_member_leaves :: "MemberLeaf list"
  ut_new_member_leaves :: "MemberLeaf list"
  ut_signer_count :: u32
  ut_member_regev_pks :: "RegevPk list"
  ut_channel_state_fields :: ChannelStateMessageFields
  ut_tx_v2_indices :: "u64 list"
  ut_tx_v2s :: "TxV2 list"
  ut_tx_v2_merkle_proofs :: "PoseidonHashOut MerkleProof list"
  ut_channel_action_indices :: "u64 list"
  ut_channel_actions :: "ChannelAction list"
  ut_channel_action_merkle_proofs :: "PoseidonHashOut MerkleProof list"

definition channel_leaf_member_root ::
  "TxV2 \<Rightarrow> ChannelAction option \<Rightarrow> MemberLeaf list \<Rightarrow> PoseidonHashOut \<Rightarrow> PoseidonHashOut" where
  "channel_leaf_member_root tx_v2 channel_action new_member_leaves prev_member_pubkeys_root = prev_member_pubkeys_root"

definition check_member_slot :: "nat \<Rightarrow> nat \<times> MemberLeaf \<Rightarrow> (UpdateUserTreeError, unit) outcome" where
  "check_member_slot signer_count = (\<lambda>(slot, leaf).
     let is_signer = slot < signer_count in
     if \<not> is_signer \<and> leaf \<noteq> MemberLeaf_empty_leaf then Err UU_InvalidLength
     else if is_signer \<and> ml_pk_g leaf = PoseidonHashOut_default then Err UU_InvalidLength
     else Ok ())"

definition check_n_of_n_witness ::
  "(u64 list \<Rightarrow> PoseidonHashOut) \<Rightarrow> UpdateUserTree \<Rightarrow> nat \<Rightarrow> ChannelLeaf \<Rightarrow> (UpdateUserTreeError, unit) outcome" where
  "check_n_of_n_witness poseidon t i prev_user_leaf =
     (if blk_tx_tree_root (ut_block t) = Bytes32_default then Err UU_InvalidLength
      else if i \<ge> MAX_SIG_CLUSTER then Err UU_InvalidLength
      else if \<not> (2 \<le> ut_signer_count t \<and> ut_signer_count t \<le> of_nat MAX_SIG_CLUSTER) then Err UU_InvalidLength
      else
        let signer_count = unat (ut_signer_count t) in
        and_then (try_each (check_member_slot signer_count) (enumerate 0 (ut_member_leaves t))) (\<lambda>_.
        if i \<ge> signer_count then Err UU_InvalidLength
        else
          and_then (try_fold (\<lambda>tree leaf. Incremental_push (two_to_one poseidon) (MemberLeaf_hash poseidon) leaf tree)
            (MemberTree_init poseidon) (ut_member_leaves t)) (\<lambda>tree.
          and_then (Incremental_get_root tree) (\<lambda>root.
          if root \<noteq> cl_member_pubkeys_root prev_user_leaf then Err UU_MerkleProofError
          else
            and_then (RegevPk_poseidon_digest poseidon (ut_member_regev_pks t ! i)) (\<lambda>digest.
            if i \<ge> length (ut_member_leaves t) then Panic
            else if digest \<noteq> ml_regev_pk_digest (ut_member_leaves t ! i) then Err UU_MerkleProofError
            else Ok ())))))"

text \<open>The transaction of the slot and its class.\<close>

definition check_tx_class ::
  "(u64 list \<Rightarrow> PoseidonHashOut) \<Rightarrow> UpdateUserTree \<Rightarrow> nat \<Rightarrow> ChannelId \<Rightarrow> (UpdateUserTreeError, unit) outcome" where
  "check_tx_class poseidon t i channel_id =
     (let tx_v2 = ut_tx_v2s t ! i in
      case v2_tx_class tx_v2 of
        UserTransfer \<Rightarrow>
          if v2_channel_action_root tx_v2 \<noteq> PoseidonHashOut_default then Err UU_InvalidLength else Ok ()
      | ChannelActionClass \<Rightarrow>
          if v2_transfer_tree_root tx_v2 \<noteq> PoseidonHashOut_default then Err UU_InvalidLength
          else
            let channel_action = ut_channel_actions t ! i in
            and_then (map_err (\<lambda>_. UU_MerkleProofError)
              (MerkleProof_verify (two_to_one poseidon) (ChannelAction_hash poseidon)
                 (ut_channel_action_merkle_proofs t ! i) channel_action (ut_channel_action_indices t ! i)
                 (v2_channel_action_root tx_v2))) (\<lambda>_.
            if ca_source_channel_id channel_action \<noteq> channel_id then Err UU_InvalidLength
            else case ca_kind channel_action of
              MemberSetUpdate \<Rightarrow> Err UU_InvalidLength
            | _ \<Rightarrow> Ok ()))"

text \<open>One pass of the loop over \<open>key_ids\<close>, on the account root and the signature chain.\<close>

definition update_user_key ::
  "(u64 list \<Rightarrow> PoseidonHashOut) \<Rightarrow> bool \<Rightarrow> UpdateUserTree \<Rightarrow> PoseidonHashOut \<Rightarrow> PoseidonHashOut \<times> Bytes32 \<Rightarrow> nat \<times> u32
     \<Rightarrow> (UpdateUserTreeError, PoseidonHashOut \<times> Bytes32) outcome" where
  "update_user_key poseidon strict t sig_leaf = (\<lambda>(account_tree_root, bp_sig_chain) (i, key_id).
     if key_id = 0 then Ok (account_tree_root, bp_sig_chain)
     else
       and_then (map_err UU_UserIdError (ChannelId_new (ucast (blk_channel_id (ut_block t))))) (\<lambda>channel_id.
       if i \<ge> length (ut_prev_account_leaves t) then Panic
       else
         let prev_user_leaf = ut_prev_account_leaves t ! i; user_merkle_proof = ut_user_merkle_proofs t ! i;
             send_merkle_proof = ut_send_merkle_proofs t ! i; index = ChannelId_as_u64 channel_id;
             block_tx_root = reduce_to_hash_out (blk_tx_tree_root (ut_block t)) in
         and_then (if \<not> strict then Ok () else map_err (\<lambda>_. UU_MerkleProofError)
           (MerkleProof_verify (two_to_one poseidon) (ChannelLeaf_hash poseidon) user_merkle_proof prev_user_leaf index
              account_tree_root)) (\<lambda>_.
         if cl_prev prev_user_leaf = ut_block_number t then Ok (account_tree_root, bp_sig_chain)
         else
           and_then (if \<not> strict then Ok () else check_n_of_n_witness poseidon t i prev_user_leaf) (\<lambda>_.
           and_then (map_err (\<lambda>_. UU_InvalidLength) (PoseidonHashOut_try_from bp_sig_chain)) (\<lambda>prev_chain.
           and_then (Bytes32_from_hash_out (list_chain_step poseidon prev_chain sig_leaf)) (\<lambda>bp_sig_chain'.
           let tx_v2 = ut_tx_v2s t ! i; tx_v2_index = ut_tx_v2_indices t ! i in
           and_then (if \<not> strict then Ok ()
             else if tx_v2_index \<noteq> index then Err UU_InvalidLength
             else and_then (map_err (\<lambda>_. UU_MerkleProofError)
               (MerkleProof_verify (two_to_one poseidon) (TxV2_hash poseidon) (ut_tx_v2_merkle_proofs t ! i) tx_v2
                  tx_v2_index block_tx_root)) (\<lambda>_.
               if v2_nonce tx_v2 \<noteq> cl_index prev_user_leaf then Err UU_InvalidLength else Ok ())) (\<lambda>_.
           and_then (if \<not> strict then Ok () else check_tx_class poseidon t i channel_id) (\<lambda>_.
           let member_root_for_leaf = channel_leaf_member_root tx_v2 (Some (ut_channel_actions t ! i))
                 (ut_new_member_leaves t) (cl_member_pubkeys_root prev_user_leaf) in
           and_then (if \<not> strict then Ok () else map_err (\<lambda>_. UU_MerkleProofError)
             (MerkleProof_verify (two_to_one poseidon) (SendLeaf_hash poseidon) send_merkle_proof SendLeaf_empty_leaf
                (ucast (cl_index prev_user_leaf)) (cl_send_tree_root prev_user_leaf))) (\<lambda>_.
           let new_send_leaf = \<lparr>sl_prev = cl_prev prev_user_leaf, sl_cur = ut_block_number t,
                 sl_tx_tree_root = blk_tx_tree_root (ut_block t)\<rparr> in
           and_then (MerkleProof_get_root (two_to_one poseidon) (SendLeaf_hash poseidon) send_merkle_proof new_send_leaf
             (ucast (cl_index prev_user_leaf))) (\<lambda>new_send_tree_root.
           let new_user_leaf = \<lparr>cl_index = cl_index prev_user_leaf + 1, cl_prev = ut_block_number t,
                 cl_send_tree_root = new_send_tree_root, cl_member_pubkeys_root = member_root_for_leaf\<rparr> in
           and_then (MerkleProof_get_root (two_to_one poseidon) (ChannelLeaf_hash poseidon) user_merkle_proof
             new_user_leaf index) (\<lambda>account_tree_root'.
             Ok (account_tree_root', bp_sig_chain'))))))))))))"

text \<open>The ten witness lists have one entry per user of the block.\<close>

definition witness_lengths_ok :: "UpdateUserTree \<Rightarrow> bool" where
  "witness_lengths_ok t \<longleftrightarrow>
     (let n = unat (blk_num_users (ut_block t)) in
      length (ut_prev_account_leaves t) = n \<and> length (ut_user_merkle_proofs t) = n \<and>
      length (ut_send_merkle_proofs t) = n \<and> length (ut_member_regev_pks t) = n \<and>
      length (ut_tx_v2_indices t) = n \<and> length (ut_tx_v2s t) = n \<and> length (ut_tx_v2_merkle_proofs t) = n \<and>
      length (ut_channel_action_indices t) = n \<and> length (ut_channel_actions t) = n \<and>
      length (ut_channel_action_merkle_proofs t) = n)"

definition compute_public_inputs ::
  "(u64 list \<Rightarrow> PoseidonHashOut) \<Rightarrow> (u32 list \<Rightarrow> u32 list) \<Rightarrow> bool \<Rightarrow> UpdateUserTree
     \<Rightarrow> (UpdateUserTreeError, UpdateUserPublicInputs) outcome" where
  "compute_public_inputs poseidon keccak strict t =
     (let block = ut_block t in
      if \<not> witness_lengths_ok t then Err UU_InvalidLength
      else
        and_then (map_err UU_BlockError (Block_hash_with_prev_hash keccak block (ut_prev_block_hash_chain t)))
          (\<lambda>new_block_hash_chain.
        if length (ut_member_leaves t) \<noteq> MAX_SIG_CLUSTER then Err UU_InvalidLength
        else if strict \<and> ut_new_member_leaves t \<noteq> [] then Err UU_InvalidLength
        else
          and_then (ChannelStateMessageFields_signing_digest keccak (ut_channel_state_fields t) (blk_channel_id block)
            (blk_tx_tree_root block)) (\<lambda>signed_digest.
          and_then (try_map (\<lambda>leaf. Bytes32_from_hash_out (ml_pk_g leaf)) (ut_member_leaves t)) (\<lambda>signer_pks.
          and_then (agg_pk_list_digest poseidon signer_pks) (\<lambda>pk_list_digest.
          let sig_leaf = agg_list_leaf poseidon signed_digest (ucast (ut_signer_count t)) pk_list_digest in
          and_then (try_fold (update_user_key poseidon strict t sig_leaf)
            (ut_prev_account_tree_root t, ut_prev_bp_sig_chain t) (enumerate 0 (blk_key_ids block)))
            (\<lambda>(account_tree_root, bp_sig_chain).
            Ok \<lparr>uu_block_number = ut_block_number t, uu_block_timestamp = blk_timestamp block,
                uu_prev_block_hash_chain = ut_prev_block_hash_chain t,
                uu_prev_account_tree_root = ut_prev_account_tree_root t,
                uu_new_block_hash_chain = new_block_hash_chain, uu_new_account_tree_root = account_tree_root,
                uu_deposit_hash_chain = blk_deposit_hash_chain block,
                uu_channel_reg_hash_chain = blk_channel_reg_hash_chain block,
                uu_prev_bp_sig_chain = ut_prev_bp_sig_chain t, uu_new_bp_sig_chain = bp_sig_chain\<rparr>))))))"

definition UpdateUserTree_to_public_inputs ::
  "(u64 list \<Rightarrow> PoseidonHashOut) \<Rightarrow> (u32 list \<Rightarrow> u32 list) \<Rightarrow> UpdateUserTree
     \<Rightarrow> (UpdateUserTreeError, UpdateUserPublicInputs) outcome" where
  "UpdateUserTree_to_public_inputs poseidon keccak t = compute_public_inputs poseidon keccak True t"

abbreviation UPDATE_ACCOUNT_PUBLIC_INPUTS_LEN :: nat where
  "UPDATE_ACCOUNT_PUBLIC_INPUTS_LEN \<equiv> 59"

definition UpdateUserPublicInputs_to_u64_vec :: "UpdateUserPublicInputs \<Rightarrow> u64 list" where
  "UpdateUserPublicInputs_to_u64_vec u =
     [as_u64 (uu_block_number u)] @ to_u64_vec U64_to_u32_vec (U64_from_u64 (uu_block_timestamp u)) @
     to_u64_vec Bytes32_to_u32_vec (uu_prev_block_hash_chain u) @ hash_elements (uu_prev_account_tree_root u) @
     to_u64_vec Bytes32_to_u32_vec (uu_new_block_hash_chain u) @ hash_elements (uu_new_account_tree_root u) @
     to_u64_vec Bytes32_to_u32_vec (uu_deposit_hash_chain u) @ to_u64_vec Bytes32_to_u32_vec (uu_channel_reg_hash_chain u) @
     to_u64_vec Bytes32_to_u32_vec (uu_prev_bp_sig_chain u) @ to_u64_vec Bytes32_to_u32_vec (uu_new_bp_sig_chain u)"

definition UpdateUserPublicInputs_commitment ::
  "(u64 list \<Rightarrow> PoseidonHashOut) \<Rightarrow> UpdateUserPublicInputs \<Rightarrow> PoseidonHashOut" where
  "UpdateUserPublicInputs_commitment poseidon u = hash_inputs_u64 poseidon (UpdateUserPublicInputs_to_u64_vec u)"

definition UpdateUserPublicInputs_from_u64_slice ::
  "u64 list \<Rightarrow> (UpdateUserTreeError, UpdateUserPublicInputs) outcome" where
  "UpdateUserPublicInputs_from_u64_slice values =
     (let bytes32 = (\<lambda>i. map_err (\<lambda>_. UU_InvalidLength)
            (from_u64_slice Bytes32_from_u32_slice (subslice i (i + 8) values)));
          hash_out = (\<lambda>i. map_err (\<lambda>_. UU_MerkleProofError)
            (PoseidonHashOut_from_u64_slice (subslice i (i + 4) values)))
      in if length values \<noteq> UPDATE_ACCOUNT_PUBLIC_INPUTS_LEN then Err UU_InvalidLength
      else
        and_then (map_err (\<lambda>_. UU_InvalidLength) (U63_new (values ! 0))) (\<lambda>block_number.
        and_then (map_err (\<lambda>_. UU_InvalidLength) (from_u64_slice U64_from_u32_slice (subslice 1 3 values)))
          (\<lambda>block_timestamp.
        and_then (bytes32 3) (\<lambda>prev_block_hash_chain.
        and_then (hash_out 11) (\<lambda>prev_account_tree_root.
        and_then (bytes32 15) (\<lambda>new_block_hash_chain.
        and_then (hash_out 23) (\<lambda>new_account_tree_root.
        and_then (bytes32 27) (\<lambda>deposit_hash_chain.
        and_then (bytes32 35) (\<lambda>channel_reg_hash_chain.
        and_then (bytes32 43) (\<lambda>prev_bp_sig_chain.
        and_then (bytes32 51) (\<lambda>new_bp_sig_chain.
          Ok \<lparr>uu_block_number = block_number, uu_block_timestamp = u64_from_U64 block_timestamp,
              uu_prev_block_hash_chain = prev_block_hash_chain, uu_prev_account_tree_root = prev_account_tree_root,
              uu_new_block_hash_chain = new_block_hash_chain, uu_new_account_tree_root = new_account_tree_root,
              uu_deposit_hash_chain = deposit_hash_chain, uu_channel_reg_hash_chain = channel_reg_hash_chain,
              uu_prev_bp_sig_chain = prev_bp_sig_chain, uu_new_bp_sig_chain = new_bp_sig_chain\<rparr>)))))))))))"

section \<open>Block step\<close>

datatype BlockChainPublicInputsError = BC_InvalidLength | BC_ParseError string

record BlockChainPublicInputs =
  bc_initial_ext_public_state :: ExtendedPublicState
  bc_ext_public_state :: ExtendedPublicState
  bc_vd :: VerifierOnlyCircuitData

definition BlockChainPublicInputs_to_u64_vec :: "nat \<Rightarrow> BlockChainPublicInputs \<Rightarrow> ('e, u64 list) outcome" where
  "BlockChainPublicInputs_to_u64_vec cap_len p =
     and_then (vd_to_vec cap_len (bc_vd p)) (\<lambda>vd.
       Ok (ExtendedPublicState_to_u64_vec (bc_initial_ext_public_state p) @
           ExtendedPublicState_to_u64_vec (bc_ext_public_state p) @ vd))"

definition BlockChainPublicInputs_from_u64_slice ::
  "nat \<Rightarrow> u64 list \<Rightarrow> (BlockChainPublicInputsError, BlockChainPublicInputs) outcome" where
  "BlockChainPublicInputs_from_u64_slice cap_len inputs =
     (let vd_len = vd_vec_len cap_len; n = EXTENDED_PUBLIC_STATE_U64_LEN in
      if length inputs \<noteq> 2 * n + vd_len then Err BC_InvalidLength
      else
        and_then (map_err (\<lambda>_. BC_ParseError ''initial_public_state'')
          (ExtendedPublicState_from_u64_slice (subslice 0 n inputs))) (\<lambda>initial_ext_public_state.
        and_then (map_err (\<lambda>_. BC_ParseError ''public_state'')
          (ExtendedPublicState_from_u64_slice (subslice n (n + n) inputs))) (\<lambda>ext_public_state.
        and_then (map_err (\<lambda>_. BC_ParseError ''verifier data'')
          (vd_from_pis_slice cap_len (map from_canonical_u64 (subslice (n + n) (n + n + vd_len) inputs)))) (\<lambda>vd.
          Ok \<lparr>bc_initial_ext_public_state = initial_ext_public_state, bc_ext_public_state = ext_public_state,
              bc_vd = vd\<rparr>))))"

datatype BlockStepError =
    BS_InvalidInput | BS_InvalidProof | BS_MissingUpdateUserVerifierData u32
  | BS_DepositChainPublicInputs DepositChainPublicInputsError
  | BS_ChannelRegChainPublicInputs ChannelRegChainPublicInputsError
  | BS_BlockChainPublicInputs BlockChainPublicInputsError
  | BS_UpdateUserPublicInputs | BS_PublicStateMerkleProof | BS_FailedToProve

record 'p BlockStepWitness =
  bw_num_users :: u32
  bw_initial_public_state :: "ExtendedPublicState option"
  bw_prev_block_chain_proof :: "'p ProofWithPublicInputs option"
  bw_deposit_hash_chain_proof :: "'p ProofWithPublicInputs option"
  bw_channel_reg_hash_chain_proof :: "'p ProofWithPublicInputs option"
  bw_update_user_proof :: "'p ProofWithPublicInputs"
  bw_public_state_merkle_proof :: "PoseidonHashOut MerkleProof"

text \<open>The previous public inputs: those of the previous proof, or the initial state.\<close>

definition block_step_prev_inputs ::
  "'p VerifierCircuitData \<Rightarrow> 'p BlockStepWitness \<Rightarrow> (BlockStepError, BlockChainPublicInputs) outcome" where
  "block_step_prev_inputs block_chain_vd w =
     (case bw_prev_block_chain_proof w of
        Some prev_proof \<Rightarrow>
          if \<not> vcd_verify block_chain_vd prev_proof then Err BS_InvalidProof
          else map_err BS_BlockChainPublicInputs
            (BlockChainPublicInputs_from_u64_slice (vcd_cap_len block_chain_vd) (pr_public_inputs prev_proof))
      | None \<Rightarrow>
          and_then (ok_or BS_InvalidInput (bw_initial_public_state w)) (\<lambda>initial_state.
            Ok \<lparr>bc_initial_ext_public_state = initial_state, bc_ext_public_state = initial_state,
                bc_vd = vcd_verifier_only block_chain_vd\<rparr>))"

text \<open>Deposit part: the new hash chain, tree root and count.\<close>

definition block_step_deposits ::
  "'p VerifierCircuitData \<Rightarrow> 'p BlockStepWitness \<Rightarrow> ExtendedPublicState \<Rightarrow> UpdateUserPublicInputs \<Rightarrow> BlockNumber
     \<Rightarrow> (BlockStepError, Bytes32 \<times> PoseidonHashOut \<times> U63) outcome" where
  "block_step_deposits deposit_chain_vd w prev update block_number =
     (if ep_deposit_hash_chain prev = uu_deposit_hash_chain update
      then Ok (ep_deposit_hash_chain prev, pst_deposit_tree_root (ep_inner prev), ep_deposit_count prev)
      else
        and_then (ok_or BS_InvalidInput (bw_deposit_hash_chain_proof w)) (\<lambda>deposit_proof.
        if \<not> vcd_verify deposit_chain_vd deposit_proof then Err BS_InvalidProof
        else
          and_then (map_err BS_DepositChainPublicInputs
            (DepositChainPublicInputs_from_u64_slice (vcd_cap_len deposit_chain_vd) (pr_public_inputs deposit_proof)))
            (\<lambda>deposit_inputs.
          if dc_initial_deposit_hash_chain deposit_inputs \<noteq> ep_deposit_hash_chain prev then Err BS_InvalidInput
          else if dc_initial_deposit_tree_root deposit_inputs \<noteq> pst_deposit_tree_root (ep_inner prev)
          then Err BS_InvalidInput
          else if dc_initial_deposit_count deposit_inputs \<noteq> ep_deposit_count prev then Err BS_InvalidInput
          else if dc_deposit_hash_chain deposit_inputs \<noteq> uu_deposit_hash_chain update then Err BS_InvalidInput
          else if dc_block_number deposit_inputs \<noteq> block_number then Err BS_InvalidInput
          else Ok (dc_deposit_hash_chain deposit_inputs, dc_deposit_tree_root deposit_inputs,
                   dc_deposit_count deposit_inputs))))"

text \<open>Registration part: the new registration chain and the account tree root of the block.\<close>

definition block_step_registrations ::
  "'p VerifierCircuitData \<Rightarrow> 'p BlockStepWitness \<Rightarrow> ExtendedPublicState \<Rightarrow> UpdateUserPublicInputs \<Rightarrow> BlockNumber
     \<Rightarrow> (BlockStepError, Bytes32 \<times> PoseidonHashOut) outcome" where
  "block_step_registrations channel_reg_chain_vd w prev update block_number =
     and_then
       (case bw_channel_reg_hash_chain_proof w of
          None \<Rightarrow> Ok (ep_channel_reg_hash_chain prev, uu_new_account_tree_root update)
        | Some channel_reg_proof \<Rightarrow>
          if \<not> vcd_verify channel_reg_chain_vd channel_reg_proof then Err BS_InvalidProof
          else
            and_then (map_err BS_ChannelRegChainPublicInputs
              (ChannelRegChainPublicInputs_from_u64_slice (vcd_cap_len channel_reg_chain_vd)
                 (pr_public_inputs channel_reg_proof))) (\<lambda>channel_reg_inputs.
            if rc_initial_channel_reg_hash_chain channel_reg_inputs \<noteq> ep_channel_reg_hash_chain prev
            then Err BS_InvalidInput
            else if rc_initial_channel_tree_root channel_reg_inputs \<noteq> pst_account_tree_root (ep_inner prev)
            then Err BS_InvalidInput
            else if rc_block_number channel_reg_inputs \<noteq> block_number then Err BS_InvalidInput
            else if uu_new_account_tree_root update \<noteq> uu_prev_account_tree_root update then Err BS_InvalidInput
            else Ok (rc_channel_reg_hash_chain channel_reg_inputs, rc_channel_tree_root channel_reg_inputs)))
       (\<lambda>(channel_reg_hash_chain, account_tree_root).
          if (channel_reg_hash_chain \<noteq> ep_channel_reg_hash_chain prev) \<noteq> (bw_channel_reg_hash_chain_proof w \<noteq> None)
          then Err BS_InvalidInput
          else if uu_channel_reg_hash_chain update \<noteq> channel_reg_hash_chain then Err BS_InvalidInput
          else Ok (channel_reg_hash_chain, account_tree_root))"

definition BlockStepWitness_to_public_inputs ::
  "(u64 list \<Rightarrow> PoseidonHashOut) \<Rightarrow> 'p VerifierCircuitData \<Rightarrow> (u32 \<times> 'p VerifierCircuitData) list
     \<Rightarrow> 'p VerifierCircuitData \<Rightarrow> 'p VerifierCircuitData \<Rightarrow> 'p BlockStepWitness
     \<Rightarrow> (BlockStepError, BlockChainPublicInputs) outcome" where
  "BlockStepWitness_to_public_inputs poseidon block_chain_vd update_account_vds deposit_chain_vd channel_reg_chain_vd w =
     and_then (block_step_prev_inputs block_chain_vd w) (\<lambda>prev_inputs.
     let prev = bc_ext_public_state prev_inputs; prev_public_state = ep_inner prev in
     and_then (ok_or (BS_MissingUpdateUserVerifierData (bw_num_users w))
       (map_of (rev update_account_vds) (bw_num_users w))) (\<lambda>update_vd.
     if \<not> vcd_verify update_vd (bw_update_user_proof w) then Err BS_InvalidProof
     else
       and_then (map_err (\<lambda>_. BS_UpdateUserPublicInputs)
         (UpdateUserPublicInputs_from_u64_slice (pr_public_inputs (bw_update_user_proof w)))) (\<lambda>update.
       and_then (map_err (\<lambda>_. BS_InvalidInput) (U63_add (pst_block_number prev_public_state) 1)) (\<lambda>block_number.
       if uu_block_number update \<noteq> block_number then Err BS_InvalidInput
       else if uu_prev_account_tree_root update \<noteq> pst_account_tree_root prev_public_state then Err BS_InvalidInput
       else if uu_prev_block_hash_chain update \<noteq> ep_block_hash_chain prev then Err BS_InvalidInput
       else if uu_prev_bp_sig_chain update \<noteq> ep_bp_sig_chain prev then Err BS_InvalidInput
       else
         and_then (block_step_deposits deposit_chain_vd w prev update block_number)
           (\<lambda>(deposit_hash_chain, deposit_tree_root, deposit_count).
         and_then (block_step_registrations channel_reg_chain_vd w prev update block_number)
           (\<lambda>(channel_reg_hash_chain, account_tree_root).
         and_then (map_err (\<lambda>_. BS_PublicStateMerkleProof)
           (MerkleProof_verify (two_to_one poseidon) (PublicState_poseidon_hash poseidon)
              (bw_public_state_merkle_proof w) PublicState_empty_leaf (as_u64 (pst_block_number prev_public_state))
              (pst_prev_public_state_root prev_public_state))) (\<lambda>_.
         and_then (MerkleProof_get_root (two_to_one poseidon) (PublicState_poseidon_hash poseidon)
           (bw_public_state_merkle_proof w) prev_public_state (as_u64 (pst_block_number prev_public_state)))
           (\<lambda>prev_public_state_root.
           Ok \<lparr>bc_initial_ext_public_state = bc_initial_ext_public_state prev_inputs,
               bc_ext_public_state =
                 \<lparr>ep_inner = \<lparr>pst_block_number = block_number, pst_timestamp = uu_block_timestamp update,
                    pst_account_tree_root = account_tree_root, pst_deposit_tree_root = deposit_tree_root,
                    pst_prev_public_state_root = prev_public_state_root\<rparr>,
                  ep_block_hash_chain = uu_new_block_hash_chain update, ep_deposit_hash_chain = deposit_hash_chain,
                  ep_deposit_count = deposit_count, ep_channel_reg_hash_chain = channel_reg_hash_chain,
                  ep_bp_sig_chain = uu_new_bp_sig_chain update\<rparr>,
               bc_vd = bc_vd prev_inputs\<rparr>))))))))"

end
