(* ===== verification/Validity_Safety.thy ===== *)
theory Validity_Safety
  imports Validity Channel_Digests Balance_Steps
begin

text \<open>
  What an accepted validity step proves about the public state (\<open>Block_State\<close>): the deposit chain appends
  the deposits \<open>add_deposit\<close> would append, the update of the channel tree makes the one send
  \<open>add_block\<close> would make, authorised by all registered members, and a block step without a registration
  proof is a step of the full public state. The public states are the consistent ones, with any members. Each accepted Merkle proof is a path of the tree behind its root as long as the hash does not
  collide on the pairs along the two paths.
\<close>

section \<open>Appending through a proof\<close>

definition append_collision_free ::
  "(u64 list \<Rightarrow> PoseidonHashOut) \<Rightarrow> ('v \<Rightarrow> PoseidonHashOut) \<Rightarrow> 'v \<Rightarrow> nat \<Rightarrow> 'v list \<Rightarrow> PoseidonHashOut MerkleProof \<Rightarrow> bool" where
  "append_collision_free P leaf_hash e ht ls p \<longleftrightarrow>
     inj_on (case_prod (two_to_one P)) (hashed_pairs (two_to_one P) (length ls) (leaf_hash e) p \<union>
       path_pairs (two_to_one P) (incremental_leaf_fun leaf_hash e ls) ht (length ls))"

lemma proof_appends:
  assumes "ht \<le> 64" "length p = ht" "unat i = length ls" "append_collision_free P leaf_hash e ht ls p"
    and "MerkleProof_verify (two_to_one P) leaf_hash p e i (list_root P leaf_hash e ht ls) = Ok ()"
  shows "MerkleProof_get_root (two_to_one P) leaf_hash p l i = Ok (list_root P leaf_hash e ht (ls @ [l]))"
    and "length ls < 2 ^ ht"
proof -
  let ?f = "incremental_leaf_fun leaf_hash e ls"
  from proof_authentic [OF assms(1,2) assms(5) [unfolded list_root_def]] assms(3,4)
  have "unat i < 2 ^ ht" "p = siblings_of (two_to_one P) ?f 0 ht (unat i)" by (simp_all add: append_collision_free_def)
  then show "MerkleProof_get_root (two_to_one P) leaf_hash p l i = Ok (list_root P leaf_hash e ht (ls @ [l]))"
    and "length ls < 2 ^ ht"
    using get_root_of_path [of i ht "two_to_one P" leaf_hash ?f l] assms(1,3)
    by (simp_all add: list_root_def incremental_leaf_fun_append)
qed

section \<open>Deposit chain\<close>

text \<open>The public inputs a deposit step starts from.\<close>

definition deposit_step_from ::
  "'p VerifierCircuitData \<Rightarrow> 'p DepositStepWitness \<Rightarrow> DepositChainPublicInputs \<Rightarrow> bool" where
  "deposit_step_from vd w p \<longleftrightarrow>
     (case ds_initial_value w of
        Some (hash_chain, tree_root, count) \<Rightarrow>
          p = \<lparr>dc_initial_deposit_hash_chain = hash_chain, dc_initial_deposit_tree_root = tree_root,
               dc_initial_deposit_count = count, dc_deposit_hash_chain = hash_chain, dc_deposit_tree_root = tree_root,
               dc_deposit_count = count, dc_block_number = dep_block_number (ds_deposit w),
               dc_vd = vcd_verifier_only vd\<rparr>
      | None \<Rightarrow>
          \<exists>proof. ds_prev_deposit_chain_proof w = Some proof \<and>
            DepositChainPublicInputs_from_u64_slice (vcd_cap_len vd) (pr_public_inputs proof) = Ok p)"

lemma deposit_step_Ok:
  assumes "DepositStepWitness_to_public_inputs P keccak vd w = Ok q"
  shows "\<exists>p. deposit_step_from vd w p \<and> dc_block_number p = dep_block_number (ds_deposit w) \<and>
    dc_block_number q = dc_block_number p \<and> dep_deposit_index (ds_deposit w) = dc_deposit_count p \<and>
    MerkleProof_verify (two_to_one P) (Deposit_poseidon_hash P) (ds_deposit_merkle_proof w) Deposit_empty_leaf
      (as_u64 (dc_deposit_count p)) (dc_deposit_tree_root p) = Ok () \<and>
    MerkleProof_get_root (two_to_one P) (Deposit_poseidon_hash P) (ds_deposit_merkle_proof w) (ds_deposit w)
      (as_u64 (dc_deposit_count p)) = (Ok (dc_deposit_tree_root q) :: (UpdateDepositTreeError, _) outcome) \<and>
    U63_add (dc_deposit_count p) 1 = Ok (dc_deposit_count q) \<and>
    Deposit_hash_with_prev_hash keccak (ds_deposit w) (dc_deposit_hash_chain p) =
      (Ok (dc_deposit_hash_chain q) :: (UpdateDepositTreeError, _) outcome) \<and>
    dc_initial_deposit_hash_chain q = dc_initial_deposit_hash_chain p \<and>
    dc_initial_deposit_tree_root q = dc_initial_deposit_tree_root p \<and>
    dc_initial_deposit_count q = dc_initial_deposit_count p"
proof (cases "ds_initial_value w")
  case None
  with assms obtain pr where pr: "ds_prev_deposit_chain_proof w = Some pr"
    by (auto simp: DepositStepWitness_to_public_inputs_def Let_def split: if_splits option.splits)
  show ?thesis
    using assms None pr U63.expand
    by (auto simp: DepositStepWitness_to_public_inputs_def deposit_step_from_def Let_def split: if_splits)
next
  case (Some v)
  obtain h r c where v: "v = (h, r, c)" by (cases v)
  show ?thesis
    using assms Some v U63.expand
    by (auto simp: DepositStepWitness_to_public_inputs_def deposit_step_from_def Let_def split: if_splits)
qed

text \<open>
  A chain of accepted steps: the first from an initial value, every other one from a proof that carries the
  public inputs of the step before.
\<close>

inductive deposit_chain ::
  "(u64 list \<Rightarrow> PoseidonHashOut) \<Rightarrow> (u32 list \<Rightarrow> u32 list) \<Rightarrow> 'p VerifierCircuitData \<Rightarrow> 'p DepositStepWitness list
     \<Rightarrow> DepositChainPublicInputs \<Rightarrow> bool"
  for P keccak vd where
  first: "ds_initial_value w \<noteq> None \<Longrightarrow> DepositStepWitness_to_public_inputs P keccak vd w = Ok p \<Longrightarrow>
    deposit_chain P keccak vd [w] p"
| next_step: "deposit_chain P keccak vd ws p \<Longrightarrow> ds_initial_value w = None \<Longrightarrow> ds_prev_deposit_chain_proof w = Some proof \<Longrightarrow>
    DepositChainPublicInputs_from_u64_slice (vcd_cap_len vd) (pr_public_inputs proof) = Ok p \<Longrightarrow>
    DepositStepWitness_to_public_inputs P keccak vd w = Ok q \<Longrightarrow> deposit_chain P keccak vd (ws @ [w]) q"

text \<open>The same deposits through \<open>add_deposit\<close>.\<close>

fun add_deposits ::
  "(u64 list \<Rightarrow> PoseidonHashOut) \<Rightarrow> (u32 list \<Rightarrow> u32 list) \<Rightarrow> Deposit list \<Rightarrow> FullPublicState
     \<Rightarrow> (FullPublicStateError, unit) outcome \<times> FullPublicState" where
  "add_deposits P keccak [] s = (Ok (), s)"
| "add_deposits P keccak (d # ds) s =
     (case add_deposit P keccak (dep_depositor d) (dep_recipient d) (dep_token_index d) (dep_amount d) (dep_aux_data d) s of
        (Ok _, s') \<Rightarrow> add_deposits P keccak ds s'
      | (Err e, s') \<Rightarrow> (Err e, s')
      | (Panic, s') \<Rightarrow> (Panic, s'))"

lemma add_deposits_append:
  "add_deposits P keccak ds s = (Ok (), s') \<Longrightarrow> add_deposits P keccak (ds @ ds') s = add_deposits P keccak ds' s'"
  by (induction ds arbitrary: s) (auto split: prod.splits outcome.splits)

lemma add_deposits_reachable:
  "add_deposits P keccak ds s = (Ok (), s') \<Longrightarrow> public_reachable P keccak s \<Longrightarrow> public_reachable P keccak s'"
proof (induction ds arbitrary: s)
  case (Cons d ds)
  obtain s1 where s1: "add_deposit P keccak (dep_depositor d) (dep_recipient d) (dep_token_index d) (dep_amount d)
      (dep_aux_data d) s = (Ok (), s1)" "add_deposits P keccak ds s1 = (Ok (), s')"
    using Cons.prems(1) by (auto split: prod.splits outcome.splits)
  have "public_reachable P keccak s1"
    by (rule public_reachable.step [OF Cons.prems(2) public_step.deposit [OF s1(1)]])
  with Cons.IH [OF s1(2)] show ?case by simp
qed simp

definition deposits_committed ::
  "(u64 list \<Rightarrow> PoseidonHashOut) \<Rightarrow> FullPublicState \<Rightarrow> Bytes32 \<Rightarrow> PoseidonHashOut \<Rightarrow> U63 \<Rightarrow> bool" where
  "deposits_committed P s hash_chain tree_root count \<longleftrightarrow> hash_chain = fp_deposit_hash_chain s \<and>
     tree_root = pst_deposit_tree_root (public_state_of P s) \<and> count = U63 (of_nat (length (fp_deposits s)))"

text \<open>What adding deposits leaves alone.\<close>

definition same_but_deposits :: "FullPublicState \<Rightarrow> FullPublicState \<Rightarrow> bool" where
  "same_but_deposits s s' \<longleftrightarrow> fp_block_number s' = fp_block_number s \<and> fp_channel_tree s' = fp_channel_tree s \<and>
     fp_public_state_tree s' = fp_public_state_tree s \<and> fp_blocks s' = fp_blocks s \<and>
     fp_block_hash_chain s' = fp_block_hash_chain s \<and> fp_channel_reg_hash_chain s' = fp_channel_reg_hash_chain s \<and>
     fp_supported_user_counts s' = fp_supported_user_counts s \<and> send_leaves_of s' = send_leaves_of s"

abbreviation deposit_append_free ::
  "(u64 list \<Rightarrow> PoseidonHashOut) \<Rightarrow> Deposit list \<Rightarrow> 'p DepositStepWitness \<Rightarrow> bool" where
  "deposit_append_free P ds w \<equiv> append_collision_free P (Deposit_poseidon_hash P) Deposit_empty_leaf DEPOSIT_TREE_HEIGHT ds
     (ds_deposit_merkle_proof w)"

lemma deposit_count_bound:
  assumes "public_inv P s"
  shows "length (fp_deposits s) \<le> 2 ^ 63"
proof -
  have "deposits_inv P s" using assms by (simp add: public_inv_def)
  then show ?thesis by (metis deposits_inv_def incremental_rep_def DEPOSIT_TREE_HEIGHT_def)
qed

lemma U63_add_one:
  assumes "U63_add x 1 = Ok y"
  shows "y = U63 (as_u64 x + 1)"
proof -
  have "unat (as_u64 y) = unat (as_u64 x) + 1" using assms by (simp add: U63_add_Ok_iff)
  then have "of_nat (unat (as_u64 y)) = (of_nat (unat (as_u64 x) + 1) :: u64)" by simp
  then have "as_u64 y = as_u64 x + 1" by (simp add: add.commute)
  then show ?thesis by (cases y) simp
qed

lemma deposit_step_refines:
  assumes inv: "public_inv P s" and keccak: "\<And>xs. length (keccak xs) = 8"
    and bn: "unat (as_u64 (fp_block_number s)) + 1 < 2 ^ 63"
    and start: "deposit_step_from vd w p" "deposits_committed P s (dc_deposit_hash_chain p) (dc_deposit_tree_root p) (dc_deposit_count p)"
    and ok: "DepositStepWitness_to_public_inputs P keccak vd w = Ok q"
    and block: "dc_block_number q = U63 (as_u64 (fp_block_number s) + 1)"
    and shape: "length (ds_deposit_merkle_proof w) = DEPOSIT_TREE_HEIGHT" and free: "deposit_append_free P (fp_deposits s) w"
  shows "\<exists>s'. add_deposits P keccak [ds_deposit w] s = (Ok (), s') \<and> public_inv P s' \<and> same_but_deposits s s' \<and>
    fp_deposits s' = fp_deposits s @ [ds_deposit w] \<and>
    deposits_committed P s' (dc_deposit_hash_chain q) (dc_deposit_tree_root q) (dc_deposit_count q) \<and>
    dc_block_number p = dc_block_number q \<and>
    dc_initial_deposit_hash_chain q = dc_initial_deposit_hash_chain p \<and>
    dc_initial_deposit_tree_root q = dc_initial_deposit_tree_root p \<and>
    dc_initial_deposit_count q = dc_initial_deposit_count p"
proof -
  let ?d = "ds_deposit w" and ?ds = "fp_deposits s"
  from deposit_step_Ok [OF ok] obtain p' where "deposit_step_from vd w p'" and
    step: "dc_block_number p' = dep_block_number ?d" "dc_block_number q = dc_block_number p'"
      "dep_deposit_index ?d = dc_deposit_count p'"
      "MerkleProof_verify (two_to_one P) (Deposit_poseidon_hash P) (ds_deposit_merkle_proof w) Deposit_empty_leaf
        (as_u64 (dc_deposit_count p')) (dc_deposit_tree_root p') = Ok ()"
      "MerkleProof_get_root (two_to_one P) (Deposit_poseidon_hash P) (ds_deposit_merkle_proof w) ?d
        (as_u64 (dc_deposit_count p')) = (Ok (dc_deposit_tree_root q) :: (UpdateDepositTreeError, _) outcome)"
      "U63_add (dc_deposit_count p') 1 = Ok (dc_deposit_count q)"
      "Deposit_hash_with_prev_hash keccak ?d (dc_deposit_hash_chain p') =
        (Ok (dc_deposit_hash_chain q) :: (UpdateDepositTreeError, _) outcome)"
      "dc_initial_deposit_hash_chain q = dc_initial_deposit_hash_chain p'"
      "dc_initial_deposit_tree_root q = dc_initial_deposit_tree_root p'"
      "dc_initial_deposit_count q = dc_initial_deposit_count p'" by blast
  with start(1) have p': "p' = p" by (auto simp: deposit_step_from_def split: option.splits)
  have count: "as_u64 (dc_deposit_count p) = of_nat (length ?ds)" "unat (as_u64 (dc_deposit_count p)) = length ?ds"
    using start(2) deposit_count_bound [OF inv] by (simp_all add: deposits_committed_def)
  have root: "dc_deposit_tree_root p = list_root P (Deposit_poseidon_hash P) Deposit_empty_leaf DEPOSIT_TREE_HEIGHT ?ds"
    using start(2) by (simp add: deposits_committed_def public_state_of_def)
  note app = proof_appends [OF _ shape count(2) free step(4) [unfolded p' root]]
  have room: "length ?ds < 2 ^ 63" using app(2) by (simp add: public_heights)
  from add_deposit_run [of P s keccak, OF inv keccak bn room, of "dep_depositor ?d" "dep_recipient ?d" "dep_token_index ?d"
      "dep_amount ?d" "dep_aux_data ?d"] obtain s' d bn' where
    run: "add_deposit P keccak (dep_depositor ?d) (dep_recipient ?d) (dep_token_index ?d) (dep_amount ?d) (dep_aux_data ?d) s = (Ok (), s')"
      "public_inv P s'" "same_but_deposits s s'" "fp_deposits s' = ?ds @ [d]"
    and bn': "unat (as_u64 bn') = unat (as_u64 (fp_block_number s)) + 1"
    and d: "d = \<lparr>dep_deposit_index = U63 (of_nat (length ?ds)), dep_block_number = bn', dep_depositor = dep_depositor ?d,
         dep_recipient = dep_recipient ?d, dep_token_index = dep_token_index ?d, dep_amount = dep_amount ?d,
         dep_aux_data = dep_aux_data ?d\<rparr>"
    and h: "Deposit_hash_with_prev_hash keccak d (fp_deposit_hash_chain s) =
      (Ok (fp_deposit_hash_chain s') :: (FullPublicStateError, _) outcome)"
    unfolding same_but_deposits_def by blast
  have "bn' = U63 (as_u64 (fp_block_number s) + 1)"
    using bn bn' by (cases bn') (simp add: word_unat_eq_iff unat_word_ariths)
  moreover have "dep_deposit_index ?d = U63 (of_nat (length ?ds))"
    using step(3) start(2) by (simp add: p' deposits_committed_def)
  ultimately have same: "d = ?d"
    using step(1,2) block by (simp add: d)
  have "dc_deposit_hash_chain q = fp_deposit_hash_chain s'"
    using h step(7) start(2) unfolding same p' deposits_committed_def Deposit_hash_with_prev_hash_def unwrap_Ok_iff by simp
  moreover have "dc_deposit_count q = U63 (of_nat (length (fp_deposits s')))"
    using U63_add_one [OF step(6)] count(1) run(4) by (simp add: p' add.commute)
  moreover have "dc_deposit_tree_root q = pst_deposit_tree_root (public_state_of P s')"
    using step(5) run(4) by (simp add: p' same public_state_of_def app(1) [unfolded public_heights, simplified] public_heights)
  ultimately show ?thesis
    using run step(2,8,9,10) same by (auto simp: deposits_committed_def p')
qed

lemma deposit_chain_nonempty: "deposit_chain P keccak vd ws q \<Longrightarrow> ws \<noteq> []"
  by (erule deposit_chain.cases) auto

lemma deposit_chain_refines:
  assumes "deposit_chain P keccak vd ws q"
    and inv: "public_inv P s" and keccak: "\<And>xs. length (keccak xs) = 8"
    and bn: "unat (as_u64 (fp_block_number s)) + 1 < 2 ^ 63" and init: "ds_initial_value (hd ws) = Some (h, r, n)"
    and comm: "deposits_committed P s h r n"
    and block: "dc_block_number q = U63 (as_u64 (fp_block_number s) + 1)"
    and shape: "\<And>w. w \<in> set ws \<Longrightarrow> length (ds_deposit_merkle_proof w) = DEPOSIT_TREE_HEIGHT"
    and free: "\<And>k. k < length ws \<Longrightarrow> deposit_append_free P (fp_deposits s @ map ds_deposit (take k ws)) (ws ! k)"
  shows "\<exists>s'. add_deposits P keccak (map ds_deposit ws) s = (Ok (), s') \<and> public_inv P s' \<and> same_but_deposits s s' \<and>
    fp_deposits s' = fp_deposits s @ map ds_deposit ws \<and>
    deposits_committed P s' (dc_deposit_hash_chain q) (dc_deposit_tree_root q) (dc_deposit_count q) \<and>
    dc_initial_deposit_hash_chain q = h \<and> dc_initial_deposit_tree_root q = r \<and> dc_initial_deposit_count q = n"
  using assms(1) init block shape free
proof induction
  case (first w p)
  let ?p0 = "\<lparr>dc_initial_deposit_hash_chain = h, dc_initial_deposit_tree_root = r,
               dc_initial_deposit_count = n, dc_deposit_hash_chain = h, dc_deposit_tree_root = r,
               dc_deposit_count = n, dc_block_number = dep_block_number (ds_deposit w),
               dc_vd = vcd_verifier_only vd\<rparr>"
  have "deposit_step_from vd w ?p0" using first.prems(1) by (simp add: deposit_step_from_def)
  from deposit_step_refines [of P s keccak, OF inv keccak bn this _ first.hyps(2) first.prems(2)] comm
    first.prems(3) [of w] first.prems(4) [of 0]
  show ?case by auto
next
  case (next_step ws p w pr q)
  have start: "deposit_step_from vd w p"
    using next_step.hyps by (simp add: deposit_step_from_def)
  have bq: "dc_block_number p = dc_block_number q"
    using deposit_step_Ok [OF next_step.hyps(5)] start
    by (auto simp: deposit_step_from_def next_step.hyps)
  have free: "deposit_append_free P (fp_deposits s @ map ds_deposit (take k ws)) (ws ! k)" if "k < length ws" for k
    using next_step.prems(4) [of k] that by (simp add: nth_append)
  have hd: "ds_initial_value (hd ws) = Some (h, r, n)"
    using next_step.prems(1) deposit_chain_nonempty [OF next_step.hyps(1)] by simp
  have "\<exists>s'. add_deposits P keccak (map ds_deposit ws) s = (Ok (), s') \<and> public_inv P s' \<and> same_but_deposits s s' \<and>
    fp_deposits s' = fp_deposits s @ map ds_deposit ws \<and>
    deposits_committed P s' (dc_deposit_hash_chain p) (dc_deposit_tree_root p) (dc_deposit_count p) \<and>
    dc_initial_deposit_hash_chain p = h \<and> dc_initial_deposit_tree_root p = r \<and> dc_initial_deposit_count p = n"
    using hd next_step.prems(2,3) bq free by (intro next_step.IH) auto
  then obtain s1 where s1: "add_deposits P keccak (map ds_deposit ws) s = (Ok (), s1)" "public_inv P s1"
    "same_but_deposits s s1" "fp_deposits s1 = fp_deposits s @ map ds_deposit ws"
    "deposits_committed P s1 (dc_deposit_hash_chain p) (dc_deposit_tree_root p) (dc_deposit_count p)"
    "dc_initial_deposit_hash_chain p = h" "dc_initial_deposit_tree_root p = r" "dc_initial_deposit_count p = n"
    by blast
  have bn1: "fp_block_number s1 = fp_block_number s" using s1(3) by (simp add: same_but_deposits_def)
  have free1: "deposit_append_free P (fp_deposits s1) w"
    using next_step.prems(4) [of "length ws"] by (simp add: s1(4))
  from deposit_step_refines [of P s1 keccak, OF s1(2) keccak _ start s1(5) next_step.hyps(5) _ _ free1]
    bn next_step.prems(2) next_step.prems(3) [of w] obtain s' where
    s': "add_deposits P keccak [ds_deposit w] s1 = (Ok (), s')" "public_inv P s'" "same_but_deposits s1 s'"
      "fp_deposits s' = fp_deposits s1 @ [ds_deposit w]"
      "deposits_committed P s' (dc_deposit_hash_chain q) (dc_deposit_tree_root q) (dc_deposit_count q)"
      "dc_initial_deposit_hash_chain q = dc_initial_deposit_hash_chain p"
      "dc_initial_deposit_tree_root q = dc_initial_deposit_tree_root p"
      "dc_initial_deposit_count q = dc_initial_deposit_count p"
    by (auto simp: bn1)
  have "add_deposits P keccak (map ds_deposit (ws @ [w])) s = (Ok (), s')"
    using add_deposits_append [OF s1(1), of "[ds_deposit w]"] s'(1) by simp
  moreover have "same_but_deposits s s'" using s1(3) s'(3) by (simp add: same_but_deposits_def)
  ultimately show ?case using s' s1 by auto
qed

section \<open>Update of the channel tree\<close>

text \<open>
  What authorises the send of slot \<open>i\<close>: the registered members of the channel, each slot below the signer
  count with a key and none above it, and the transaction at the channel's own index of the block's tree, with
  the channel's send index as its nonce.
\<close>

definition send_authorised ::
  "(u64 list \<Rightarrow> PoseidonHashOut) \<Rightarrow> UpdateUserTree \<Rightarrow> nat \<Rightarrow> ChannelId \<Rightarrow> ChannelLeaf \<Rightarrow> bool" where
  "send_authorised P t i c leaf \<longleftrightarrow>
     blk_tx_tree_root (ut_block t) \<noteq> Bytes32_default \<and> 2 \<le> unat (ut_signer_count t) \<and>
     unat (ut_signer_count t) \<le> MAX_SIG_CLUSTER \<and> i < unat (ut_signer_count t) \<and>
     length (ut_member_leaves t) = MAX_SIG_CLUSTER \<and>
     cl_member_pubkeys_root leaf = member_root P (ut_member_leaves t) \<and>
     (\<forall>j < MAX_SIG_CLUSTER. if j < unat (ut_signer_count t) then ml_pk_g (ut_member_leaves t ! j) \<noteq> PoseidonHashOut_default
        else ut_member_leaves t ! j = MemberLeaf_empty_leaf) \<and>
     MerkleProof_verify (two_to_one P) (TxV2_hash P) (ut_tx_v2_merkle_proofs t ! i) (ut_tx_v2s t ! i)
       (ChannelId_as_u64 c) (reduce_to_hash_out (blk_tx_tree_root (ut_block t))) = Ok () \<and>
     v2_nonce (ut_tx_v2s t ! i) = cl_index leaf \<and> check_tx_class P t i c = Ok ()"

lemma member_tree_root:
  assumes "length ls \<le> 2 ^ MEMBER_TREE_HEIGHT"
    and "try_fold (\<lambda>tree l. Incremental_push (two_to_one P) (MemberLeaf_hash P) l tree) (MemberTree_init P) ls =
      (Ok tree :: ('e, _) outcome)"
  shows "Incremental_get_root tree = Ok (member_root P ls)"
proof -
  have rep: "incremental_rep (two_to_one P) (MemberLeaf_hash P) MemberLeaf_empty_leaf (MemberTree_init P)"
    by (simp add: MemberTree_init_def Incremental_new_rep public_heights)
  have init: "i_leaves (MemberTree_init P) = []" "i_height (MemberTree_init P) = MEMBER_TREE_HEIGHT"
    by (simp_all add: MemberTree_init_def new_incremental)
  have "incremental_rep (two_to_one P) (MemberLeaf_hash P) MemberLeaf_empty_leaf tree" "i_leaves tree = ls"
    "i_height tree = MEMBER_TREE_HEIGHT"
    using Incremental_pushes [OF rep, of ls, where 'e = 'e] assms by (auto simp: init)
  then show ?thesis by (simp add: incremental_root)
qed

lemma check_n_of_n_Ok:
  assumes "check_n_of_n_witness P t i leaf = Ok ()" and len: "length (ut_member_leaves t) = MAX_SIG_CLUSTER"
  shows "blk_tx_tree_root (ut_block t) \<noteq> Bytes32_default" "2 \<le> unat (ut_signer_count t)"
    "unat (ut_signer_count t) \<le> MAX_SIG_CLUSTER" "i < unat (ut_signer_count t)"
    "cl_member_pubkeys_root leaf = member_root P (ut_member_leaves t)"
    "\<forall>j < MAX_SIG_CLUSTER. if j < unat (ut_signer_count t) then ml_pk_g (ut_member_leaves t ! j) \<noteq> PoseidonHashOut_default
        else ut_member_leaves t ! j = MemberLeaf_empty_leaf"
proof -
  from assms(1) obtain tree where
    *: "try_fold (\<lambda>tree l. Incremental_push (two_to_one P) (MemberLeaf_hash P) l tree) (MemberTree_init P) (ut_member_leaves t) =
        (Ok tree :: (UpdateUserTreeError, _) outcome)"
      "Incremental_get_root tree = (Ok (cl_member_pubkeys_root leaf) :: (UpdateUserTreeError, _) outcome)"
      "try_each (check_member_slot (unat (ut_signer_count t))) (enumerate 0 (ut_member_leaves t)) = Ok ()"
      "2 \<le> ut_signer_count t" "ut_signer_count t \<le> of_nat MAX_SIG_CLUSTER"
      "blk_tx_tree_root (ut_block t) \<noteq> Bytes32_default" "i < unat (ut_signer_count t)"
    by (auto simp: check_n_of_n_witness_def Let_def not_le split: if_splits)
  show "blk_tx_tree_root (ut_block t) \<noteq> Bytes32_default" "i < unat (ut_signer_count t)" by (rule *)+
  show "2 \<le> unat (ut_signer_count t)" "unat (ut_signer_count t) \<le> MAX_SIG_CLUSTER"
    using *(4,5) by (simp_all add: word_le_nat_alt MAX_SIG_CLUSTER_def)
  have fits: "length (ut_member_leaves t) \<le> 2 ^ MEMBER_TREE_HEIGHT" by (simp add: len MAX_SIG_CLUSTER_def public_heights)
  show "cl_member_pubkeys_root leaf = member_root P (ut_member_leaves t)"
    using *(2) by (simp add: member_tree_root [OF fits *(1)])
  show "\<forall>j < MAX_SIG_CLUSTER. if j < unat (ut_signer_count t) then ml_pk_g (ut_member_leaves t ! j) \<noteq> PoseidonHashOut_default
        else ut_member_leaves t ! j = MemberLeaf_empty_leaf"
  proof (intro allI impI)
    fix j
    assume "j < MAX_SIG_CLUSTER"
    then have "(j, ut_member_leaves t ! j) \<in> set (enumerate 0 (ut_member_leaves t))"
      by (simp add: in_set_enumerate_eq len)
    with *(3) have "check_member_slot (unat (ut_signer_count t)) (j, ut_member_leaves t ! j) = Ok ()"
      unfolding try_each_Ok_iff by blast
    then show "if j < unat (ut_signer_count t) then ml_pk_g (ut_member_leaves t ! j) \<noteq> PoseidonHashOut_default
        else ut_member_leaves t ! j = MemberLeaf_empty_leaf"
      by (auto simp: check_member_slot_def Let_def split: if_splits)
  qed
qed

text \<open>The shape the circuit fixes for the proofs of a slot, and the absence of collisions on the claimed path.\<close>

definition slot_authentic ::
  "(u64 list \<Rightarrow> PoseidonHashOut) \<Rightarrow> UpdateUserTree \<Rightarrow> (nat \<Rightarrow> PoseidonHashOut) \<Rightarrow> ChannelLeaf \<Rightarrow> nat \<Rightarrow> bool" where
  "slot_authentic P t f leaf i \<longleftrightarrow>
     (let c = unat (blk_channel_id (ut_block t)); H = two_to_one P in
      length (ut_user_merkle_proofs t ! i) = CHANNEL_TREE_HEIGHT \<and>
      inj_on (case_prod H) (hashed_pairs H c (ChannelLeaf_hash P (ut_prev_account_leaves t ! i)) (ut_user_merkle_proofs t ! i) \<union>
        path_pairs H f CHANNEL_TREE_HEIGHT c) \<and>
      inj_on (ChannelLeaf_hash P) {ut_prev_account_leaves t ! i, leaf})"

lemma slot_leaf:
  assumes "slot_authentic P t f leaf i" "f (unat (blk_channel_id (ut_block t))) = ChannelLeaf_hash P leaf"
    and "MerkleProof_verify (two_to_one P) (ChannelLeaf_hash P) (ut_user_merkle_proofs t ! i) (ut_prev_account_leaves t ! i)
      (ChannelId_as_u64 (ChannelId (blk_channel_id (ut_block t)))) (node (two_to_one P) f CHANNEL_TREE_HEIGHT 0) = Ok ()"
  shows "ut_prev_account_leaves t ! i = leaf"
    and "MerkleProof_get_root (two_to_one P) (ChannelLeaf_hash P) (ut_user_merkle_proofs t ! i) new
      (ChannelId_as_u64 (ChannelId (blk_channel_id (ut_block t)))) =
      Ok (node (two_to_one P) (f(unat (blk_channel_id (ut_block t)) := ChannelLeaf_hash P new)) CHANNEL_TREE_HEIGHT 0)"
proof -
  let ?c = "ChannelId_as_u64 (ChannelId (blk_channel_id (ut_block t)))"
  have c: "unat ?c = unat (blk_channel_id (ut_block t))" by (simp add: ChannelId_as_u64_def)
  have ht: "CHANNEL_TREE_HEIGHT \<le> 64" by (simp add: public_heights)
  from proof_authentic [OF ht _ assms(3)] assms(1)
  have auth: "unat ?c < 2 ^ CHANNEL_TREE_HEIGHT" "ChannelLeaf_hash P (ut_prev_account_leaves t ! i) = f (unat ?c)"
    "ut_user_merkle_proofs t ! i = siblings_of (two_to_one P) f 0 CHANNEL_TREE_HEIGHT (unat ?c)"
    by (simp_all add: slot_authentic_def Let_def c)
  show "ut_prev_account_leaves t ! i = leaf"
    using auth(2) assms(1,2) by (auto simp: c slot_authentic_def Let_def dest: inj_onD)
  show "MerkleProof_get_root (two_to_one P) (ChannelLeaf_hash P) (ut_user_merkle_proofs t ! i) new ?c =
      Ok (node (two_to_one P) (f(unat (blk_channel_id (ut_block t)) := ChannelLeaf_hash P new)) CHANNEL_TREE_HEIGHT 0)"
    using get_root_of_path [OF auth(1) ht, of "two_to_one P" "ChannelLeaf_hash P" f new] by (simp only: auth(3) c)
qed

abbreviation block_channel :: "UpdateUserTree \<Rightarrow> ChannelId" where
  "block_channel t \<equiv> ChannelId (blk_channel_id (ut_block t))"

lemma ChannelId_new_Ok: "ChannelId_new (ucast cid) = Ok c \<Longrightarrow> c = ChannelId cid \<and> cid \<noteq> 0"
  by (cases c) (auto simp: ChannelId_new_Ok_iff ChannelId_as_u64_def)

lemma update_user_key_done:
  assumes "update_user_key P True t sig (node (two_to_one P) f CHANNEL_TREE_HEIGHT 0, chain) (i, k) = Ok st"
    and "k \<noteq> 0 \<Longrightarrow> slot_authentic P t f leaf i" "f (unat (blk_channel_id (ut_block t))) = ChannelLeaf_hash P leaf"
    and "cl_prev leaf = ut_block_number t"
  shows "st = (node (two_to_one P) f CHANNEL_TREE_HEIGHT 0, chain)"
proof (cases "k = 0")
  case False
  with assms(1) obtain c where c: "ChannelId_new (ucast (blk_channel_id (ut_block t))) = Ok c"
    by (auto simp: update_user_key_def)
  from ChannelId_new_Ok [OF c] have c': "c = block_channel t" by simp
  from assms(1) False c have "MerkleProof_verify (two_to_one P) (ChannelLeaf_hash P) (ut_user_merkle_proofs t ! i)
      (ut_prev_account_leaves t ! i) (ChannelId_as_u64 (block_channel t)) (node (two_to_one P) f CHANNEL_TREE_HEIGHT 0) = Ok ()"
    by (simp add: update_user_key_def Let_def c' split: if_splits)
  from slot_leaf(1) [OF assms(2) [OF False] assms(3) this] assms(1,4) False c show ?thesis
    by (simp add: update_user_key_def Let_def split: if_splits)
qed (use assms(1) in \<open>simp add: update_user_key_def\<close>)

lemma channel_leaf_fun_at:
  "channel_leaf_fun P s (unat cid) = ChannelLeaf_hash P (channel_leaf_at P s (ChannelId cid))"
  by (simp add: sparse_leaf_fun_def channel_leaf_at_def ChannelId_as_u64_def)

definition next_send :: "UpdateUserTree \<Rightarrow> FullPublicState \<Rightarrow> SendLeaf" where
  "next_send t s = \<lparr>sl_prev = last_send (send_leaves_of s (block_channel t)), sl_cur = ut_block_number t,
     sl_tx_tree_root = blk_tx_tree_root (ut_block t)\<rparr>"

definition next_leaf :: "(u64 list \<Rightarrow> PoseidonHashOut) \<Rightarrow> UpdateUserTree \<Rightarrow> FullPublicState \<Rightarrow> ChannelLeaf" where
  "next_leaf P t s = channel_summary P (send_leaves_of s (block_channel t) @ [next_send t s]) (members_at P s (block_channel t))"

definition next_accounts ::
  "(u64 list \<Rightarrow> PoseidonHashOut) \<Rightarrow> UpdateUserTree \<Rightarrow> FullPublicState \<Rightarrow> nat \<Rightarrow> PoseidonHashOut" where
  "next_accounts P t s =
     (channel_leaf_fun P s)(unat (blk_channel_id (ut_block t)) := ChannelLeaf_hash P (next_leaf P t s))"

lemma update_user_key_sends:
  assumes inv: "public_inv P s" and k: "k \<noteq> 0"
    and ok: "update_user_key P True t sig (node (two_to_one P) (channel_leaf_fun P s) CHANNEL_TREE_HEIGHT 0, chain) (i, k) = Ok st"
    and slot: "slot_authentic P t (channel_leaf_fun P s) (channel_leaf_at P s (block_channel t)) i"
    and send: "length (ut_send_merkle_proofs t ! i) = SEND_TREE_HEIGHT"
      "append_collision_free P (SendLeaf_hash P) SendLeaf_empty_leaf SEND_TREE_HEIGHT (send_leaves_of s (block_channel t))
        (ut_send_merkle_proofs t ! i)"
    and len: "length (ut_member_leaves t) = MAX_SIG_CLUSTER"
    and new: "last_send (send_leaves_of s (block_channel t)) \<noteq> ut_block_number t"
    and room: "length (send_leaves_of s (block_channel t)) < 2 ^ SEND_TREE_HEIGHT"
  shows "st = (node (two_to_one P) (next_accounts P t s) CHANNEL_TREE_HEIGHT 0,
      hash_bytes (list_chain_step P (reduce_to_hash_out chain) sig))"
    and "send_authorised P t i (block_channel t) (channel_leaf_at P s (block_channel t))"
    and "blk_channel_id (ut_block t) \<noteq> 0"
proof -
  let ?c = "block_channel t" and ?H = "two_to_one P"
  let ?ls = "send_leaves_of s ?c" and ?leaf = "channel_leaf_at P s ?c"
  from ok k obtain c where c: "ChannelId_new (ucast (blk_channel_id (ut_block t))) = Ok c"
    by (auto simp: update_user_key_def)
  from ChannelId_new_Ok [OF c] have c': "c = ?c" and "blk_channel_id (ut_block t) \<noteq> 0" by simp_all
  then show "blk_channel_id (ut_block t) \<noteq> 0" by simp
  from ok k c have verify: "MerkleProof_verify ?H (ChannelLeaf_hash P) (ut_user_merkle_proofs t ! i)
      (ut_prev_account_leaves t ! i) (ChannelId_as_u64 ?c) (node ?H (channel_leaf_fun P s) CHANNEL_TREE_HEIGHT 0) = Ok ()"
    by (simp add: update_user_key_def Let_def c' split: if_splits)
  note at = channel_leaf_fun_at [of P s "blk_channel_id (ut_block t)"]
  have leaf: "ut_prev_account_leaves t ! i = ?leaf" by (rule slot_leaf(1) [OF slot at verify])
  have summary: "?leaf = channel_summary P ?ls (members_at P s ?c)"
    using inv unfolding public_inv_def channels_inv_def channel_ok_def by blast
  then have fields: "cl_prev ?leaf = last_send ?ls" "cl_index ?leaf = of_nat (length ?ls)" "cl_send_tree_root ?leaf = send_root P ?ls"
    by (metis channel_summary_def ChannelLeaf.select_convs)+
  have idx: "unat (ucast (of_nat (length ?ls) :: u32) :: u64) = length ?ls" using room by (simp add: public_heights)
  from ok k c new obtain prev_chain r where
    *: "check_n_of_n_witness P t i ?leaf = Ok ()" "PoseidonHashOut_try_from chain = Ok prev_chain"
      "ut_tx_v2_indices t ! i = ChannelId_as_u64 ?c"
      "MerkleProof_verify ?H (TxV2_hash P) (ut_tx_v2_merkle_proofs t ! i) (ut_tx_v2s t ! i) (ChannelId_as_u64 ?c)
        (reduce_to_hash_out (blk_tx_tree_root (ut_block t))) = Ok ()"
      "v2_nonce (ut_tx_v2s t ! i) = cl_index ?leaf" "check_tx_class P t i ?c = Ok ()"
      "MerkleProof_verify ?H (SendLeaf_hash P) (ut_send_merkle_proofs t ! i) SendLeaf_empty_leaf
        (ucast (cl_index ?leaf)) (cl_send_tree_root ?leaf) = Ok ()"
      "MerkleProof_get_root ?H (SendLeaf_hash P) (ut_send_merkle_proofs t ! i) (next_send t s)
        (ucast (cl_index ?leaf)) = (Ok r :: (UpdateUserTreeError, _) outcome)"
      "MerkleProof_get_root ?H (ChannelLeaf_hash P) (ut_user_merkle_proofs t ! i)
        \<lparr>cl_index = cl_index ?leaf + 1, cl_prev = ut_block_number t, cl_send_tree_root = r,
         cl_member_pubkeys_root = members_at P s ?c\<rparr> (ChannelId_as_u64 ?c) = (Ok (fst st) :: (UpdateUserTreeError, _) outcome)"
      "snd st = hash_bytes (list_chain_step P prev_chain sig)"
    by (auto simp: update_user_key_def Let_def c' leaf fields(1) next_send_def channel_leaf_member_root_def
        Bytes32_from_hash_out_value split: if_splits)
  show "send_authorised P t i ?c ?leaf"
    using check_n_of_n_Ok [OF *(1) len] *(4,5,6) len by (simp add: send_authorised_def)
  have r: "r = send_root P (?ls @ [next_send t s])"
    using *(8) by (simp add: fields(2) proof_appends(1) [OF _ send(1) idx send(2) *(7) [unfolded fields]] public_heights)
  have "\<lparr>cl_index = cl_index ?leaf + 1, cl_prev = ut_block_number t, cl_send_tree_root = r,
      cl_member_pubkeys_root = members_at P s ?c\<rparr> = next_leaf P t s"
    by (simp add: next_leaf_def channel_summary_def fields(2) r add.commute) (simp add: next_send_def)
  then have "fst st = node ?H (next_accounts P t s) CHANNEL_TREE_HEIGHT 0"
    using *(9) by (simp add: slot_leaf(2) [OF slot at verify] next_accounts_def del: fun_upd_apply)
  moreover have "prev_chain = reduce_to_hash_out chain"
    using *(2) by (auto simp: PoseidonHashOut_try_from_def Let_def split: option.splits if_splits)
  ultimately show "st = (node ?H (next_accounts P t s) CHANNEL_TREE_HEIGHT 0,
      hash_bytes (list_chain_step P (reduce_to_hash_out chain) sig))"
    using *(10) by (simp add: prod_eq_iff)
qed

text \<open>
  Shapes and absence of collisions for an active slot: the first one opens the tree before the send, every later
  one the tree after it.
\<close>

definition key_authentic :: "(u64 list \<Rightarrow> PoseidonHashOut) \<Rightarrow> FullPublicState \<Rightarrow> UpdateUserTree \<Rightarrow> nat \<Rightarrow> bool" where
  "key_authentic P s t i \<longleftrightarrow>
     (if list_all (\<lambda>k. k = 0) (take i (blk_key_ids (ut_block t)))
      then slot_authentic P t (channel_leaf_fun P s) (channel_leaf_at P s (block_channel t)) i \<and>
        length (ut_send_merkle_proofs t ! i) = SEND_TREE_HEIGHT \<and>
        append_collision_free P (SendLeaf_hash P) SendLeaf_empty_leaf SEND_TREE_HEIGHT (send_leaves_of s (block_channel t))
          (ut_send_merkle_proofs t ! i)
      else slot_authentic P t (next_accounts P t s) (next_leaf P t s) i)"

lemma next_accounts_at: "next_accounts P t s (unat (blk_channel_id (ut_block t))) = ChannelLeaf_hash P (next_leaf P t s)"
  by (simp add: next_accounts_def)

lemma cl_prev_next_leaf: "cl_prev (next_leaf P t s) = ut_block_number t"
  by (simp add: next_leaf_def channel_summary_def next_send_def)

lemma update_user_keys_done:
  assumes "try_fold (update_user_key P True t sig) (node (two_to_one P) (next_accounts P t s) CHANNEL_TREE_HEIGHT 0, chain)
      (enumerate n ks) = Ok st"
    and "\<And>j. j < length ks \<Longrightarrow> ks ! j \<noteq> 0 \<Longrightarrow> slot_authentic P t (next_accounts P t s) (next_leaf P t s) (n + j)"
  shows "st = (node (two_to_one P) (next_accounts P t s) CHANNEL_TREE_HEIGHT 0, chain)"
  using assms
proof (induction ks arbitrary: n)
  case (Cons k ks)
  let ?st = "(node (two_to_one P) (next_accounts P t s) CHANNEL_TREE_HEIGHT 0, chain)"
  from Cons.prems(1) obtain st' where st': "update_user_key P True t sig ?st (n, k) = Ok st'"
    "try_fold (update_user_key P True t sig) st' (enumerate (Suc n) ks) = Ok st" by auto
  have "st' = ?st"
    using update_user_key_done [OF st'(1) _ next_accounts_at cl_prev_next_leaf] Cons.prems(2) [of 0] by simp
  moreover have "slot_authentic P t (next_accounts P t s) (next_leaf P t s) (Suc n + j)" if "j < length ks" "ks ! j \<noteq> 0" for j
    using Cons.prems(2) [of "Suc j"] that by simp
  ultimately show ?case using Cons.IH [of "Suc n"] st'(2) by blast
qed simp

lemma update_user_keys_run:
  assumes inv: "public_inv P s" and len: "length (ut_member_leaves t) = MAX_SIG_CLUSTER"
    and new: "last_send (send_leaves_of s (block_channel t)) \<noteq> ut_block_number t"
    and room: "length (send_leaves_of s (block_channel t)) < 2 ^ SEND_TREE_HEIGHT"
    and "try_fold (update_user_key P True t sig) (node (two_to_one P) (channel_leaf_fun P s) CHANNEL_TREE_HEIGHT 0, chain)
      (enumerate n ks) = Ok st"
    and "\<And>j. j < length ks \<Longrightarrow> ks ! j \<noteq> 0 \<Longrightarrow> key_authentic P s t (n + j)"
    and "blk_key_ids (ut_block t) = replicate n 0 @ ks"
  shows "if list_ex (\<lambda>k. k \<noteq> 0) ks
    then st = (node (two_to_one P) (next_accounts P t s) CHANNEL_TREE_HEIGHT 0,
        hash_bytes (list_chain_step P (reduce_to_hash_out chain) sig)) \<and> blk_channel_id (ut_block t) \<noteq> 0 \<and>
      (\<exists>j < length ks. ks ! j \<noteq> 0 \<and> send_authorised P t (n + j) (block_channel t) (channel_leaf_at P s (block_channel t)))
    else st = (node (two_to_one P) (channel_leaf_fun P s) CHANNEL_TREE_HEIGHT 0, chain)"
  using assms(5-7)
proof (induction ks arbitrary: n)
  case (Cons k ks)
  let ?st = "(node (two_to_one P) (channel_leaf_fun P s) CHANNEL_TREE_HEIGHT 0, chain)"
  from Cons.prems(1) obtain st' where st': "update_user_key P True t sig ?st (n, k) = Ok st'"
    "try_fold (update_user_key P True t sig) st' (enumerate (Suc n) ks) = Ok st" by auto
  have rest: "key_authentic P s t (Suc n + j)" if "j < length ks" "ks ! j \<noteq> 0" for j
    using Cons.prems(2) [of "Suc j"] that by simp
  show ?case
  proof (cases "k = 0")
    case True
    with st'(1) have "st' = ?st" by (simp add: update_user_key_def)
    moreover have "blk_key_ids (ut_block t) = replicate (Suc n) 0 @ ks"
      using Cons.prems(3) True by (simp add: replicate_app_Cons_same)
    ultimately have IH: "if list_ex (\<lambda>k. k \<noteq> 0) ks
      then st = (node (two_to_one P) (next_accounts P t s) CHANNEL_TREE_HEIGHT 0,
          hash_bytes (list_chain_step P (reduce_to_hash_out chain) sig)) \<and> blk_channel_id (ut_block t) \<noteq> 0 \<and>
        (\<exists>j < length ks. ks ! j \<noteq> 0 \<and> send_authorised P t (Suc n + j) (block_channel t) (channel_leaf_at P s (block_channel t)))
      else st = ?st" using Cons.IH [of "Suc n"] st'(2) rest by blast
    show ?thesis
    proof (cases "list_ex (\<lambda>k. k \<noteq> 0) ks")
      case some: True
      with IH obtain j where "j < length ks" "ks ! j \<noteq> 0"
        "send_authorised P t (Suc n + j) (block_channel t) (channel_leaf_at P s (block_channel t))" by auto
      then have "\<exists>j < length (k # ks). (k # ks) ! j \<noteq> 0 \<and>
          send_authorised P t (n + j) (block_channel t) (channel_leaf_at P s (block_channel t))"
        by (intro exI [of _ "Suc j"]) simp
      with IH some True show ?thesis by simp
    qed (use IH True in simp)
  next
    case False
    then have key: "key_authentic P s t n" using Cons.prems(2) [of 0] by simp
    note sends = update_user_key_sends [OF inv False st'(1) _ _ _ len new room]
    have st1: "st' = (node (two_to_one P) (next_accounts P t s) CHANNEL_TREE_HEIGHT 0,
        hash_bytes (list_chain_step P (reduce_to_hash_out chain) sig))"
      "send_authorised P t n (block_channel t) (channel_leaf_at P s (block_channel t))" "blk_channel_id (ut_block t) \<noteq> 0"
      using sends key Cons.prems(3) by (simp_all add: key_authentic_def list_all_iff)
    have "slot_authentic P t (next_accounts P t s) (next_leaf P t s) (Suc n + j)" if "j < length ks" "ks ! j \<noteq> 0" for j
      using rest [OF that] Cons.prems(3) False by (simp add: key_authentic_def take_Cons')
    then have "st = st'"
      using update_user_keys_done [of P t sig s _ "Suc n" ks st] st'(2) unfolding st1(1) by blast
    moreover have "\<exists>j < length (k # ks). (k # ks) ! j \<noteq> 0 \<and>
        send_authorised P t (n + j) (block_channel t) (channel_leaf_at P s (block_channel t))"
      using False st1(2) by (intro exI [of _ 0]) simp
    ultimately show ?thesis using st1(1,3) False by simp
  qed
qed simp

text \<open>The statement a sending block folds into the signature chain.\<close>

definition folded_statement ::
  "(u64 list \<Rightarrow> PoseidonHashOut) \<Rightarrow> (u32 list \<Rightarrow> u32 list) \<Rightarrow> UpdateUserTree \<Rightarrow> PoseidonHashOut" where
  "folded_statement P keccak t =
     agg_list_leaf P (keccak_digest keccak (preimage (ut_channel_state_fields t) (blk_channel_id (ut_block t))
         (blk_tx_tree_root (ut_block t)))) (ucast (ut_signer_count t))
       (hash_inputs_u64 P (resize (1 + MAX_SIG_CLUSTER * 8) 0
         (0x494d504c # concat (map (\<lambda>l. map ucast (Bytes32_to_u32_vec (hash_bytes (ml_pk_g l)))) (ut_member_leaves t)))))"

lemma fields_digest:
  assumes "\<And>xs. length (keccak xs) = 8"
  shows "ChannelStateMessageFields_signing_digest keccak f c h = Ok (keccak_digest keccak (preimage f c h))"
  unfolding ChannelStateMessageFields_signing_digest_def by (rule hash_words_value [of keccak, OF assms])

lemma member_pks:
  "try_map (\<lambda>leaf. Bytes32_from_hash_out (ml_pk_g leaf)) ls = Ok (map (\<lambda>l. hash_bytes (ml_pk_g l)) ls)"
  by (rule try_map_Ok) (simp add: Bytes32_from_hash_out_value)

lemma update_user_Ok:
  assumes "UpdateUserTree_to_public_inputs P keccak t = Ok u" and keccak: "\<And>xs. length (keccak xs) = 8"
  shows "length (ut_member_leaves t) = MAX_SIG_CLUSTER" "length (ut_prev_account_leaves t) = unat (blk_num_users (ut_block t))"
    "Block_hash_with_prev_hash keccak (ut_block t) (ut_prev_block_hash_chain t) = Ok (uu_new_block_hash_chain u)"
    "try_fold (update_user_key P True t (folded_statement P keccak t)) (ut_prev_account_tree_root t, ut_prev_bp_sig_chain t)
       (enumerate 0 (blk_key_ids (ut_block t))) = Ok (uu_new_account_tree_root u, uu_new_bp_sig_chain u)"
    "uu_block_number u = ut_block_number t" "uu_block_timestamp u = blk_timestamp (ut_block t)"
    "uu_prev_block_hash_chain u = ut_prev_block_hash_chain t" "uu_prev_account_tree_root u = ut_prev_account_tree_root t"
    "uu_deposit_hash_chain u = blk_deposit_hash_chain (ut_block t)"
    "uu_channel_reg_hash_chain u = blk_channel_reg_hash_chain (ut_block t)" "uu_prev_bp_sig_chain u = ut_prev_bp_sig_chain t"
proof -
  note digest = fields_digest [of keccak, OF keccak]
  from assms(1) show "length (ut_member_leaves t) = MAX_SIG_CLUSTER"
    "length (ut_prev_account_leaves t) = unat (blk_num_users (ut_block t))"
    "Block_hash_with_prev_hash keccak (ut_block t) (ut_prev_block_hash_chain t) = Ok (uu_new_block_hash_chain u)"
    "try_fold (update_user_key P True t (folded_statement P keccak t)) (ut_prev_account_tree_root t, ut_prev_bp_sig_chain t)
       (enumerate 0 (blk_key_ids (ut_block t))) = Ok (uu_new_account_tree_root u, uu_new_bp_sig_chain u)"
    "uu_block_number u = ut_block_number t" "uu_block_timestamp u = blk_timestamp (ut_block t)"
    "uu_prev_block_hash_chain u = ut_prev_block_hash_chain t" "uu_prev_account_tree_root u = ut_prev_account_tree_root t"
    "uu_deposit_hash_chain u = blk_deposit_hash_chain (ut_block t)"
    "uu_channel_reg_hash_chain u = blk_channel_reg_hash_chain (ut_block t)" "uu_prev_bp_sig_chain u = ut_prev_bp_sig_chain t"
    by (auto simp: UpdateUserTree_to_public_inputs_def compute_public_inputs_def Let_def digest member_pks agg_pk_list_digest_def
        folded_statement_def comp_def witness_lengths_ok_def split: if_splits)
qed

lemma update_user_effect:
  assumes inv: "public_inv P s" and keccak: "\<And>xs. length (keccak xs) = 8"
    and ok: "UpdateUserTree_to_public_inputs P keccak t = Ok u"
    and root: "ut_prev_account_tree_root t = pst_account_tree_root (public_state_of P s)"
    and later: "fp_block_number s < ut_block_number t"
    and room: "length (send_leaves_of s (block_channel t)) < 2 ^ SEND_TREE_HEIGHT"
    and auth: "\<And>i. i < length (blk_key_ids (ut_block t)) \<Longrightarrow> blk_key_ids (ut_block t) ! i \<noteq> 0 \<Longrightarrow> key_authentic P s t i"
  shows "if list_ex (\<lambda>k. k \<noteq> 0) (blk_key_ids (ut_block t))
    then uu_new_account_tree_root u = node (two_to_one P) (next_accounts P t s) CHANNEL_TREE_HEIGHT 0 \<and>
      uu_new_bp_sig_chain u = hash_bytes (list_chain_step P (reduce_to_hash_out (ut_prev_bp_sig_chain t)) (folded_statement P keccak t)) \<and>
      blk_channel_id (ut_block t) \<noteq> 0 \<and>
      (\<exists>i < length (blk_key_ids (ut_block t)). blk_key_ids (ut_block t) ! i \<noteq> 0 \<and>
         send_authorised P t i (block_channel t) (channel_leaf_at P s (block_channel t)))
    else uu_new_account_tree_root u = ut_prev_account_tree_root t \<and> uu_new_bp_sig_chain u = ut_prev_bp_sig_chain t"
proof -
  note up = update_user_Ok [of P keccak, OF ok keccak]
  have "last_send (send_leaves_of s (block_channel t)) \<le> fp_block_number s"
    using inv unfolding public_inv_def channels_inv_def channel_ok_def by blast
  with later have new: "last_send (send_leaves_of s (block_channel t)) \<noteq> ut_block_number t" by auto
  have start: "ut_prev_account_tree_root t = node (two_to_one P) (channel_leaf_fun P s) CHANNEL_TREE_HEIGHT 0"
    by (simp add: root public_state_of_def)
  from update_user_keys_run [OF inv up(1) new room up(4) [unfolded start]] auth
  show ?thesis by (auto simp: start split: if_splits)
qed

lemma accounts_after:
  assumes "public_inv P s'" "public_inv P s" "members_at P s' = members_at P s"
    and sends: "\<And>d. send_leaves_of s' d = send_leaves_of s d @ (if d = block_channel t \<and> active then [next_send t s] else [])"
  shows "pst_account_tree_root (public_state_of P s') =
    node (two_to_one P) (if active then next_accounts P t s else channel_leaf_fun P s) CHANNEL_TREE_HEIGHT 0"
proof -
  have at: "channel_leaf_fun P x (unat cid) = ChannelLeaf_hash P (channel_summary P (send_leaves_of x (ChannelId cid))
      (members_at P x (ChannelId cid)))" if "public_inv P x" for x cid
    using that unfolding channel_leaf_fun_at public_inv_def channels_inv_def channel_ok_def by metis
  have "channel_leaf_fun P s' i = (if active then next_accounts P t s else channel_leaf_fun P s) i" if "i < 2 ^ 32" for i
  proof -
    have i: "i = unat (of_nat i :: u32)" using that by simp
    have "channel_leaf_fun P s' (unat (of_nat i :: u32)) =
        (if active then next_accounts P t s else channel_leaf_fun P s) (unat (of_nat i :: u32))"
      unfolding next_accounts_def
      by (auto simp: at [OF assms(1)] at [OF assms(2)] sends fun_cong [OF assms(3)] next_leaf_def word_unat_eq_iff [symmetric])
    then show ?thesis using i by simp
  qed
  then have "node (two_to_one P) (channel_leaf_fun P s') 32 0 =
      node (two_to_one P) (if active then next_accounts P t s else channel_leaf_fun P s) 32 0"
    by (intro node_cong) (auto simp: div_eq_0_iff)
  then show ?thesis by (simp add: public_state_of_def public_heights)
qed

text \<open>
C13: an accepted update of the channel tree is one authorised send. Against the channel tree of a consistent
public state, whatever members its channels have registered, a block without an active key changes nothing. Any
other accepted block makes exactly one send of its channel, whatever the number of active keys: the channel's leaf
gets the interval from its last send to this block with the block's transaction root, keeps its members, and no
other leaf changes. The send is authorised: the witnessed member set is the registered one, with a key in each of
its 2 to 8 signer slots and nothing above, the channel's own leaf of the transaction tree has the channel's send
index as nonce, and the signature chain grows by exactly the statement that these keys signed the channel state
with this root. Hypotheses: the witness opens the tree of that state for a later block, the channel's send tree has
room, and for every active key the proofs have the heights of the circuit and the hash does not collide along
their paths.
\<close>

theorem update_user_sound:
  assumes inv: "public_inv P s" and keccak: "\<And>xs. length (keccak xs) = 8"
    and ok: "UpdateUserTree_to_public_inputs P keccak t = Ok u"
    and root: "ut_prev_account_tree_root t = pst_account_tree_root (public_state_of P s)"
    and later: "fp_block_number s < ut_block_number t"
    and room: "length (send_leaves_of s (block_channel t)) < 2 ^ SEND_TREE_HEIGHT"
    and auth: "\<And>i. i < length (blk_key_ids (ut_block t)) \<Longrightarrow> blk_key_ids (ut_block t) ! i \<noteq> 0 \<Longrightarrow> key_authentic P s t i"
  shows "if list_ex (\<lambda>k. k \<noteq> 0) (blk_key_ids (ut_block t))
    then uu_new_account_tree_root u = node (two_to_one P) (next_accounts P t s) CHANNEL_TREE_HEIGHT 0 \<and>
      uu_new_bp_sig_chain u = hash_bytes (list_chain_step P (reduce_to_hash_out (ut_prev_bp_sig_chain t)) (folded_statement P keccak t)) \<and>
      blk_channel_id (ut_block t) \<noteq> 0 \<and>
      (\<exists>i < length (blk_key_ids (ut_block t)). blk_key_ids (ut_block t) ! i \<noteq> 0 \<and>
         send_authorised P t i (block_channel t) (channel_leaf_at P s (block_channel t)))
    else uu_new_account_tree_root u = ut_prev_account_tree_root t \<and> uu_new_bp_sig_chain u = ut_prev_bp_sig_chain t"
  by (rule update_user_effect [of P s keccak, OF inv keccak ok root later room auth])

section \<open>Block step\<close>

text \<open>
  An extended public state commits to a full public state, with its own list \<open>h\<close> of earlier public states
  behind the history root.
\<close>

definition state_committed ::
  "(u64 list \<Rightarrow> PoseidonHashOut) \<Rightarrow> PublicState list \<Rightarrow> FullPublicState \<Rightarrow> ExtendedPublicState \<Rightarrow> bool" where
  "state_committed P h s e \<longleftrightarrow>
     ep_inner e = (public_state_of P s)\<lparr>pst_prev_public_state_root :=
       list_root P (PublicState_poseidon_hash P) PublicState_empty_leaf PUBLIC_STATE_TREE_HEIGHT h\<rparr> \<and>
     length h = unat (as_u64 (fp_block_number s)) \<and> ep_block_hash_chain e = fp_block_hash_chain s \<and>
     ep_deposit_hash_chain e = fp_deposit_hash_chain s \<and> ep_deposit_count e = U63 (of_nat (length (fp_deposits s))) \<and>
     ep_channel_reg_hash_chain e = fp_channel_reg_hash_chain s"

text \<open>
  The deposits of the block: none if the chain does not move, otherwise those of the chain whose public inputs
  the deposit proof carries.
\<close>

definition deposits_proved ::
  "(u64 list \<Rightarrow> PoseidonHashOut) \<Rightarrow> (u32 list \<Rightarrow> u32 list) \<Rightarrow> 'p VerifierCircuitData \<Rightarrow> 'p BlockStepWitness
     \<Rightarrow> UpdateUserPublicInputs \<Rightarrow> FullPublicState \<Rightarrow> 'p DepositStepWitness list \<Rightarrow> bool" where
  "deposits_proved P keccak vd w u s ws \<longleftrightarrow>
     (if uu_deposit_hash_chain u = fp_deposit_hash_chain s then ws = []
      else \<exists>pr q. bw_deposit_hash_chain_proof w = Some pr \<and> deposit_chain P keccak vd ws q \<and>
        DepositChainPublicInputs_from_u64_slice (vcd_cap_len vd) (pr_public_inputs pr) = Ok q)"

text \<open>Shapes the circuits fix, and absence of collisions along the paths of the step.\<close>

definition block_step_authentic ::
  "(u64 list \<Rightarrow> PoseidonHashOut) \<Rightarrow> PublicState list \<Rightarrow> FullPublicState \<Rightarrow> UpdateUserTree \<Rightarrow> 'p DepositStepWitness list
     \<Rightarrow> 'p BlockStepWitness \<Rightarrow> bool" where
  "block_step_authentic P h s t ws w \<longleftrightarrow>
     length (bw_public_state_merkle_proof w) = PUBLIC_STATE_TREE_HEIGHT \<and>
     append_collision_free P (PublicState_poseidon_hash P) PublicState_empty_leaf PUBLIC_STATE_TREE_HEIGHT h
       (bw_public_state_merkle_proof w) \<and>
     list_all (\<lambda>d. length (ds_deposit_merkle_proof d) = DEPOSIT_TREE_HEIGHT) ws \<and>
     list_all (\<lambda>k. deposit_append_free P (fp_deposits s @ map ds_deposit (take k ws)) (ws ! k)) [0..<length ws] \<and>
     list_all (\<lambda>i. blk_key_ids (ut_block t) ! i = 0 \<or> key_authentic P s t i) [0..<length (blk_key_ids (ut_block t))] \<and>
     length (send_leaves_of s (block_channel t)) < 2 ^ SEND_TREE_HEIGHT"

text \<open>
  The block sizes of the state are strictly increasing, as the block producer service requires of them, and the size
  of the block, which selects the circuit of the update proof, is one of them. The key list has a length that a
  \<open>u32\<close> can hold.
\<close>

definition size_supported :: "FullPublicState \<Rightarrow> Block \<Rightarrow> bool" where
  "size_supported s b \<longleftrightarrow> sorted_wrt (<) (fp_supported_user_counts s) \<and>
     blk_num_users b \<in> set (fp_supported_user_counts s) \<and> length (blk_key_ids b) < 2 ^ 32"

lemma size_supported_block:
  assumes "size_supported s b" "Block_hash_with_prev_hash keccak b h = Ok k"
  shows "Block_valid b" "get_num_users (length (blk_key_ids b)) (fp_supported_user_counts s) = Some (blk_num_users b)"
proof -
  have n: "(of_nat (length (blk_key_ids b)) :: u32) = blk_num_users b"
    using assms(2) by (auto simp: Block_hash_with_prev_hash_def split: if_splits)
  from assms(1) have "unat (of_nat (length (blk_key_ids b)) :: u32) = length (blk_key_ids b)"
    by (simp add: size_supported_def unat_of_nat)
  then show "Block_valid b" by (simp add: Block_valid_def n)
  from assms(1) obtain i where i: "i < length (fp_supported_user_counts s)" "fp_supported_user_counts s ! i = blk_num_users b"
    by (auto simp: size_supported_def in_set_conv_nth)
  moreover have "fp_supported_user_counts s ! j < blk_num_users b" if "j < i" for j
    using assms(1) that i by (metis size_supported_def sorted_wrt_nth_less)
  ultimately show "get_num_users (length (blk_key_ids b)) (fp_supported_user_counts s) = Some (blk_num_users b)"
    unfolding get_num_users_def n find_Some_iff by (auto simp: not_le intro!: exI [of _ i])
qed

lemma block_step_Ok:
  assumes ok: "BlockStepWitness_to_public_inputs P bvd uvds depvd regvd w = Ok new"
    and prev: "block_step_prev_inputs bvd w = Ok prev" "bc_ext_public_state prev = e"
    and u: "UpdateUserPublicInputs_from_u64_slice (pr_public_inputs (bw_update_user_proof w)) = Ok u"
    and reg: "bw_channel_reg_hash_chain_proof w = None"
  shows "\<exists>bn c r n hr. U63_add (pst_block_number (ep_inner e)) 1 = Ok bn \<and> uu_block_number u = bn \<and>
    uu_prev_account_tree_root u = pst_account_tree_root (ep_inner e) \<and>
    uu_prev_block_hash_chain u = ep_block_hash_chain e \<and> uu_prev_bp_sig_chain u = ep_bp_sig_chain e \<and>
    block_step_deposits depvd w e u bn = Ok (c, r, n) \<and> uu_channel_reg_hash_chain u = ep_channel_reg_hash_chain e \<and>
    MerkleProof_verify (two_to_one P) (PublicState_poseidon_hash P) (bw_public_state_merkle_proof w) PublicState_empty_leaf
      (as_u64 (pst_block_number (ep_inner e))) (pst_prev_public_state_root (ep_inner e)) = Ok () \<and>
    MerkleProof_get_root (two_to_one P) (PublicState_poseidon_hash P) (bw_public_state_merkle_proof w) (ep_inner e)
      (as_u64 (pst_block_number (ep_inner e))) = (Ok hr :: (BlockStepError, _) outcome) \<and>
    new = \<lparr>bc_initial_ext_public_state = bc_initial_ext_public_state prev,
      bc_ext_public_state = \<lparr>ep_inner = \<lparr>pst_block_number = bn, pst_timestamp = uu_block_timestamp u,
           pst_account_tree_root = uu_new_account_tree_root u, pst_deposit_tree_root = r, pst_prev_public_state_root = hr\<rparr>,
         ep_block_hash_chain = uu_new_block_hash_chain u, ep_deposit_hash_chain = c, ep_deposit_count = n,
         ep_channel_reg_hash_chain = ep_channel_reg_hash_chain e, ep_bp_sig_chain = uu_new_bp_sig_chain u\<rparr>,
      bc_vd = bc_vd prev\<rparr>"
proof -
  obtain uvd where uvd: "map_of (rev uvds) (bw_num_users w) = Some uvd"
    using ok by (cases "map_of (rev uvds) (bw_num_users w)") (auto simp: BlockStepWitness_to_public_inputs_def prev(1) Let_def)
  show ?thesis
    using ok unfolding BlockStepWitness_to_public_inputs_def prev(1) uvd
    by (auto simp: prev(2) u reg Let_def block_step_registrations_def split: if_splits)
qed

lemma deposit_chain_initial:
  "deposit_chain P keccak vd ws q \<Longrightarrow>
   ds_initial_value (hd ws) = Some (dc_initial_deposit_hash_chain q, dc_initial_deposit_tree_root q, dc_initial_deposit_count q)"
proof (induction rule: deposit_chain.induct)
  case (first w p)
  then show ?case using deposit_step_Ok [OF first(2)] by (auto simp: deposit_step_from_def)
next
  case (next_step ws p w pr q)
  from deposit_step_Ok [OF next_step.hyps(5)] next_step.hyps(2,3,4) next_step.IH deposit_chain_nonempty [OF next_step.hyps(1)]
  show ?case by (auto simp: deposit_step_from_def)
qed

lemma block_step_deposits_refine:
  assumes inv: "public_inv P s" and keccak: "\<And>xs. length (keccak xs) = 8" and comm: "state_committed P h s e"
    and bn: "U63_add (fp_block_number s) 1 = Ok bn"
    and ok: "block_step_deposits vd w e u bn = Ok (c, r, n)" and ws: "deposits_proved P keccak vd w u s ws"
    and auth: "block_step_authentic P h s t ws w"
  shows "\<exists>s'. add_deposits P keccak (map ds_deposit ws) s = (Ok (), s') \<and> public_inv P s' \<and> same_but_deposits s s' \<and>
    c = uu_deposit_hash_chain u \<and> c = fp_deposit_hash_chain s' \<and> r = pst_deposit_tree_root (public_state_of P s') \<and>
    n = U63 (of_nat (length (fp_deposits s')))"
proof (cases "uu_deposit_hash_chain u = fp_deposit_hash_chain s")
  case True
  then show ?thesis
    using ok ws comm inv
    by (auto simp: block_step_deposits_def deposits_proved_def state_committed_def same_but_deposits_def)
next
  case False
  with ws obtain pr q where pr: "bw_deposit_hash_chain_proof w = Some pr" "deposit_chain P keccak vd ws q"
    "DepositChainPublicInputs_from_u64_slice (vcd_cap_len vd) (pr_public_inputs pr) = Ok q"
    by (auto simp: deposits_proved_def)
  from ok False comm pr(1,3) have step: "dc_initial_deposit_hash_chain q = fp_deposit_hash_chain s"
      "dc_initial_deposit_tree_root q = pst_deposit_tree_root (public_state_of P s)"
      "dc_initial_deposit_count q = U63 (of_nat (length (fp_deposits s)))" "dc_deposit_hash_chain q = uu_deposit_hash_chain u"
      "dc_block_number q = bn" "c = dc_deposit_hash_chain q" "r = dc_deposit_tree_root q" "n = dc_deposit_count q"
    by (auto simp: block_step_deposits_def state_committed_def split: if_splits)
  have lt: "unat (as_u64 (fp_block_number s)) + 1 < 2 ^ 63" using bn by (auto simp: U63_add_Ok_iff U63_valid_unat)
  have comm': "deposits_committed P s (dc_initial_deposit_hash_chain q) (dc_initial_deposit_tree_root q) (dc_initial_deposit_count q)"
    by (simp add: deposits_committed_def step)
  have shape: "length (ds_deposit_merkle_proof d) = DEPOSIT_TREE_HEIGHT" if "d \<in> set ws" for d
    using auth that by (auto simp: block_step_authentic_def list_all_iff)
  have free: "deposit_append_free P (fp_deposits s @ map ds_deposit (take k ws)) (ws ! k)" if "k < length ws" for k
    using auth that by (simp add: block_step_authentic_def list_all_iff)
  have block: "dc_block_number q = U63 (as_u64 (fp_block_number s) + 1)"
    using step(5) U63_add_one [OF bn] by simp
  from deposit_chain_refines [of P keccak vd ws q s, OF pr(2) inv keccak lt deposit_chain_initial [OF pr(2)] comm'
      block shape free] show ?thesis using step by (auto simp: deposits_committed_def)
qed

lemma same_but_deposits_accounts:
  assumes "same_but_deposits s s'"
  shows "next_accounts P t s' = next_accounts P t s" "channel_leaf_fun P s' = channel_leaf_fun P s"
    "members_at P s' = members_at P s" "next_send t s' = next_send t s"
proof -
  have tree: "fp_channel_tree s' = fp_channel_tree s" "send_leaves_of s' = send_leaves_of s"
    using assms by (simp_all add: same_but_deposits_def)
  then show "channel_leaf_fun P s' = channel_leaf_fun P s" "members_at P s' = members_at P s" "next_send t s' = next_send t s"
    by (simp_all add: channel_leaf_at_def next_send_def fun_eq_iff)
  then show "next_accounts P t s' = next_accounts P t s"
    by (simp add: next_accounts_def next_leaf_def tree channel_leaf_at_def)
qed

text \<open>The block of the witness is the block \<open>add_block\<close> builds from its header fields.\<close>

lemma Block_new_again:
  assumes "Block_valid b"
  shows "Block_new (blk_num_users b) (blk_channel_id b) (blk_key_ids b) (blk_timestamp b) (blk_tx_tree_root b)
    (blk_deposit_hash_chain b) (blk_channel_reg_hash_chain b) = Ok b"
proof -
  have "(of_nat (length (blk_key_ids b)) :: u32) = blk_num_users b" using assms by (simp add: Block_valid_def)
  then show ?thesis using assms by (simp add: Block_new_def Block_valid_def resize_def)
qed

lemma block_step_block:
  assumes inv: "public_inv P s" "public_inv P s1" and same: "same_but_deposits s s1" and keccak: "\<And>xs. length (keccak xs) = 8"
    and ok: "UpdateUserTree_to_public_inputs P keccak t = Ok u"
    and roots: "ut_prev_account_tree_root t = pst_account_tree_root (public_state_of P s)"
      "ut_prev_block_hash_chain t = fp_block_hash_chain s" "blk_deposit_hash_chain (ut_block t) = fp_deposit_hash_chain s1"
      "blk_channel_reg_hash_chain (ut_block t) = fp_channel_reg_hash_chain s"
    and bn: "U63_add (fp_block_number s) 1 = Ok (ut_block_number t)" and auth: "block_step_authentic P h s t ws w"
    and size: "size_supported s (ut_block t)"
  shows "\<exists>s2. add_block P keccak (blk_channel_id (ut_block t)) (blk_key_ids (ut_block t)) (blk_timestamp (ut_block t))
      (blk_tx_tree_root (ut_block t)) s1 = (Ok (), s2) \<and> public_inv P s2 \<and> fp_block_number s2 = ut_block_number t \<and>
    members_at P s2 = members_at P s \<and> fp_blocks s2 = fp_blocks s @ [ut_block t] \<and>
    fp_blocks s2 = fp_blocks s1 @ [ut_block t] \<and> fp_block_hash_chain s2 = uu_new_block_hash_chain u \<and>
    fp_deposit_hash_chain s2 = fp_deposit_hash_chain s1 \<and> fp_channel_reg_hash_chain s2 = fp_channel_reg_hash_chain s \<and>
    fp_deposits s2 = fp_deposits s1 \<and> pst_account_tree_root (public_state_of P s2) = uu_new_account_tree_root u"
proof -
  let ?b = "ut_block t" and ?c = "block_channel t"
  let ?ks = "blk_key_ids ?b"
  note up = update_user_Ok [of P keccak, OF ok keccak]
  have s1: "fp_block_number s1 = fp_block_number s" "send_leaves_of s1 = send_leaves_of s" "fp_block_hash_chain s1 = fp_block_hash_chain s"
    "fp_channel_reg_hash_chain s1 = fp_channel_reg_hash_chain s" "fp_supported_user_counts s1 = fp_supported_user_counts s"
    "fp_blocks s1 = fp_blocks s"
    using same by (simp_all add: same_but_deposits_def)
  have lt: "unat (as_u64 (fp_block_number s)) + 1 < 2 ^ 63" and bn': "ut_block_number t = U63 (as_u64 (fp_block_number s) + 1)"
    using bn U63_add_one [OF bn] by (auto simp: U63_add_Ok_iff U63_valid_unat)
  have later: "fp_block_number s < ut_block_number t"
    using lt by (simp add: bn' less_U63_def word_less_nat_alt unat_word_ariths)
  have room: "length (send_leaves_of s ?c) < 2 ^ SEND_TREE_HEIGHT" using auth by (simp add: block_step_authentic_def)
  note valid = size_supported_block(1) [OF size up(3)] and users = size_supported_block(2) [OF size up(3)]
  have key: "key_authentic P s t i" if "i < length ?ks" "?ks ! i \<noteq> 0" for i
    using auth that by (auto simp: block_step_authentic_def list_all_iff)
  note effect = update_user_effect [of P s keccak, OF inv(1) keccak ok roots(1) later room key]
  have cid: "\<not> (list_ex (\<lambda>k. k \<noteq> 0) ?ks \<and> blk_channel_id ?b = 0)"
    using effect by (auto split: if_splits)
  from add_block_run [of P s1 keccak ?ks "blk_channel_id ?b" "blk_num_users ?b" "blk_timestamp ?b" "blk_tx_tree_root ?b",
      OF inv(2) keccak _ _ _ cid] lt room users obtain s2 b where
    s2: "add_block P keccak (blk_channel_id ?b) ?ks (blk_timestamp ?b) (blk_tx_tree_root ?b) s1 = (Ok (), s2)" "public_inv P s2"
      "fp_blocks s2 = fp_blocks s1 @ [b]"
      "Block_new (blk_num_users ?b) (blk_channel_id ?b) ?ks (blk_timestamp ?b) (blk_tx_tree_root ?b) (fp_deposit_hash_chain s1)
         (fp_channel_reg_hash_chain s1) = Ok b"
      "members_at P s2 = members_at P s1" "fp_deposit_hash_chain s2 = fp_deposit_hash_chain s1"
      "fp_channel_reg_hash_chain s2 = fp_channel_reg_hash_chain s1"
      "Block_hash_with_prev_hash keccak b (fp_block_hash_chain s1) = Ok (fp_block_hash_chain s2)"
      "unat (as_u64 (fp_block_number s2)) = unat (as_u64 (fp_block_number s1)) + 1" "fp_deposits s2 = fp_deposits s1"
      "\<forall>d. send_leaves_of s2 d = send_leaves_of s1 d @
         (if d = ChannelId (blk_channel_id ?b) \<and> list_ex (\<lambda>k. k \<noteq> 0) ?ks
          then [\<lparr>sl_prev = last_send (send_leaves_of s1 d), sl_cur = fp_block_number s2, sl_tx_tree_root = blk_tx_tree_root ?b\<rparr>]
          else [])"
    by (auto simp: s1)
  have b: "b = ?b"
    using s2(4) Block_new_again [OF valid] by (simp add: s1 roots(3,4))
  have n2: "fp_block_number s2 = ut_block_number t"
    using s2(9) lt by (cases "fp_block_number s2") (simp add: bn' s1 word_unat_eq_iff unat_word_ariths)
  have "send_leaves_of s2 d = send_leaves_of s1 d @ (if d = ?c \<and> list_ex (\<lambda>k. k \<noteq> 0) ?ks then [next_send t s1] else [])" for d
    using s2(11) n2 by (auto simp: next_send_def)
  from accounts_after [OF s2(2) inv(2) s2(5) this]
  have "pst_account_tree_root (public_state_of P s2) = uu_new_account_tree_root u"
    using effect by (auto simp: same_but_deposits_accounts [OF same] roots(1) public_state_of_def split: if_splits)
  with s2 n2 b up(3) roots(2) s1 same_but_deposits_accounts(3) [OF same, of P] show ?thesis by auto
qed

lemma committed_fields:
  assumes "state_committed P h s e"
  shows "pst_block_number (ep_inner e) = fp_block_number s" "pst_account_tree_root (ep_inner e) = pst_account_tree_root (public_state_of P s)"
    "pst_prev_public_state_root (ep_inner e) = list_root P (PublicState_poseidon_hash P) PublicState_empty_leaf PUBLIC_STATE_TREE_HEIGHT h"
    "ep_block_hash_chain e = fp_block_hash_chain s" "ep_channel_reg_hash_chain e = fp_channel_reg_hash_chain s"
    "length h = unat (as_u64 (fp_block_number s))"
  using assms by (simp_all add: state_committed_def public_state_of_def)

lemma block_step_history_root:
  assumes auth: "block_step_authentic P h s t ws w" and len: "length h = unat i"
    and "MerkleProof_verify (two_to_one P) (PublicState_poseidon_hash P) (bw_public_state_merkle_proof w) PublicState_empty_leaf
      i (list_root P (PublicState_poseidon_hash P) PublicState_empty_leaf PUBLIC_STATE_TREE_HEIGHT h) = Ok ()"
    and "MerkleProof_get_root (two_to_one P) (PublicState_poseidon_hash P) (bw_public_state_merkle_proof w) st i =
      (Ok r :: ('e, _) outcome)"
  shows "r = list_root P (PublicState_poseidon_hash P) PublicState_empty_leaf PUBLIC_STATE_TREE_HEIGHT (h @ [st])"
proof -
  have hist: "length (bw_public_state_merkle_proof w) = PUBLIC_STATE_TREE_HEIGHT"
    "append_collision_free P (PublicState_poseidon_hash P) PublicState_empty_leaf PUBLIC_STATE_TREE_HEIGHT h (bw_public_state_merkle_proof w)"
    using auth by (simp_all add: block_step_authentic_def)
  have ht: "PUBLIC_STATE_TREE_HEIGHT \<le> 64" by (simp add: public_heights)
  show ?thesis
    using assms(4) by (simp add: proof_appends(1) [OF ht hist(1) len [symmetric] hist(2) assms(3)])
qed

text \<open>
C12: an accepted block step is a step of the full public state. Let the previous extended state commit to a
consistent public state, with any registered members, and let the update and deposit proofs carry the public
inputs of accepted witnesses. Then adding exactly the proved deposits by \<open>add_deposit\<close> and the witnessed block by
\<open>add_block\<close> succeeds, in a consistent state with the same members, and the new extended state commits to it:
block number, timestamp, account and deposit roots, deposit count and the three hash chains. Its history root
commits to the earlier public states followed by the one this step started from. The step is one without a
registration proof: a step with one changes members, which \<open>FullPublicState\<close> has no operation for. Hypotheses:
the size of the block is one of the strictly increasing sizes of the state, the channel's send tree has room, the
proofs have the heights of the circuits, and the hash does not collide along the verified paths.
\<close>

theorem block_step_simulates:
  assumes inv: "public_inv P s" and keccak: "\<And>xs. length (keccak xs) = 8"
    and ok: "BlockStepWitness_to_public_inputs P bvd uvds depvd regvd w = Ok new"
    and prev: "block_step_prev_inputs bvd w = Ok prev" and comm: "state_committed P h s (bc_ext_public_state prev)"
    and u: "UpdateUserPublicInputs_from_u64_slice (pr_public_inputs (bw_update_user_proof w)) = Ok u"
      "UpdateUserTree_to_public_inputs P keccak t = Ok u"
    and ws: "deposits_proved P keccak depvd w u s ws" and reg: "bw_channel_reg_hash_chain_proof w = None"
    and auth: "block_step_authentic P h s t ws w" and size: "size_supported s (ut_block t)"
  shows "\<exists>s1 s2. add_deposits P keccak (map ds_deposit ws) s = (Ok (), s1) \<and>
    add_block P keccak (blk_channel_id (ut_block t)) (blk_key_ids (ut_block t)) (blk_timestamp (ut_block t))
      (blk_tx_tree_root (ut_block t)) s1 = (Ok (), s2) \<and> public_inv P s2 \<and> members_at P s2 = members_at P s \<and>
    fp_blocks s2 = fp_blocks s @ [ut_block t] \<and>
    state_committed P (h @ [ep_inner (bc_ext_public_state prev)]) s2 (bc_ext_public_state new) \<and>
    bc_initial_ext_public_state new = bc_initial_ext_public_state prev"
proof -
  let ?e = "bc_ext_public_state prev"
  note e = committed_fields [OF comm] and up = update_user_Ok [of P keccak, OF u(2) keccak]
  from block_step_Ok [OF ok prev refl u(1) reg] obtain bn c r n hr where
    step: "U63_add (fp_block_number s) 1 = Ok bn" "uu_block_number u = bn"
      "uu_prev_account_tree_root u = pst_account_tree_root (public_state_of P s)" "uu_prev_block_hash_chain u = fp_block_hash_chain s"
      "block_step_deposits depvd w ?e u bn = Ok (c, r, n)" "uu_channel_reg_hash_chain u = fp_channel_reg_hash_chain s"
      "MerkleProof_verify (two_to_one P) (PublicState_poseidon_hash P) (bw_public_state_merkle_proof w) PublicState_empty_leaf
        (as_u64 (fp_block_number s)) (list_root P (PublicState_poseidon_hash P) PublicState_empty_leaf PUBLIC_STATE_TREE_HEIGHT h) = Ok ()"
      "MerkleProof_get_root (two_to_one P) (PublicState_poseidon_hash P) (bw_public_state_merkle_proof w) (ep_inner ?e)
        (as_u64 (fp_block_number s)) = (Ok hr :: (BlockStepError, _) outcome)"
    and new: "bc_initial_ext_public_state new = bc_initial_ext_public_state prev"
      "bc_ext_public_state new = \<lparr>ep_inner = \<lparr>pst_block_number = bn, pst_timestamp = uu_block_timestamp u,
           pst_account_tree_root = uu_new_account_tree_root u, pst_deposit_tree_root = r, pst_prev_public_state_root = hr\<rparr>,
         ep_block_hash_chain = uu_new_block_hash_chain u, ep_deposit_hash_chain = c, ep_deposit_count = n,
         ep_channel_reg_hash_chain = fp_channel_reg_hash_chain s, ep_bp_sig_chain = uu_new_bp_sig_chain u\<rparr>"
    unfolding e by auto
  from block_step_deposits_refine [of P s keccak, OF inv keccak comm step(1,5) ws auth] obtain s1 where
    s1: "add_deposits P keccak (map ds_deposit ws) s = (Ok (), s1)" "public_inv P s1" "same_but_deposits s s1"
      "c = uu_deposit_hash_chain u" "c = fp_deposit_hash_chain s1" "r = pst_deposit_tree_root (public_state_of P s1)"
      "n = U63 (of_nat (length (fp_deposits s1)))" by blast
  from block_step_block [of P s s1 keccak, OF inv s1(2,3) keccak u(2) _ _ _ _ _ auth size] step s1(4,5) up obtain s2 where
    s2: "add_block P keccak (blk_channel_id (ut_block t)) (blk_key_ids (ut_block t)) (blk_timestamp (ut_block t))
        (blk_tx_tree_root (ut_block t)) s1 = (Ok (), s2)" "fp_block_number s2 = ut_block_number t"
      "fp_blocks s2 = fp_blocks s1 @ [ut_block t]" "fp_block_hash_chain s2 = uu_new_block_hash_chain u"
      "fp_deposit_hash_chain s2 = fp_deposit_hash_chain s1" "fp_channel_reg_hash_chain s2 = fp_channel_reg_hash_chain s"
      "fp_deposits s2 = fp_deposits s1" "pst_account_tree_root (public_state_of P s2) = uu_new_account_tree_root u"
      "public_inv P s2" "members_at P s2 = members_at P s" "fp_blocks s2 = fp_blocks s @ [ut_block t]" by auto
  have "length (h @ [ep_inner ?e]) = unat (as_u64 (fp_block_number s2))"
    using step(1,2) up(5) by (simp add: e(6) s2(2) U63_add_Ok_iff)
  moreover have "ep_inner (bc_ext_public_state new) = (public_state_of P s2)\<lparr>pst_prev_public_state_root := hr\<rparr>"
    using s2(8) step(2) up(5,6) by (simp add: new(2) public_state_of_def s2(2,3,7) s1(6))
  ultimately have "state_committed P (h @ [ep_inner ?e]) s2 (bc_ext_public_state new)"
    using s1(5,7) block_step_history_root [OF auth e(6) step(7,8)]
    by (simp add: state_committed_def s2(4,5,6,7)) (simp add: new(2))
  then show ?thesis using s1(1) s2(1,9-11) new(1) by blast
qed

section \<open>An example block\<close>

text \<open>
  A registration writes the root of the members into the leaf of a channel that has not sent; the state stays consistent.
\<close>

lemma registered_inv:
  assumes inv: "public_inv P s" and none: "send_leaves_of s c = []"
  shows "\<exists>t. Sparse_update (two_to_one P) (ChannelLeaf_hash P) (ChannelId_as_u64 c)
      ((empty_channel_leaf P)\<lparr>cl_member_pubkeys_root := m\<rparr>) (fp_channel_tree s) = (Ok t :: ('e, _) outcome) \<and>
    public_inv P (s\<lparr>fp_channel_tree := t\<rparr>) \<and>
    s_leaves t = (s_leaves (fp_channel_tree s))(ChannelId_as_u64 c \<mapsto> (empty_channel_leaf P)\<lparr>cl_member_pubkeys_root := m\<rparr>) \<and>
    (\<forall>d. channel_leaf_at P (s\<lparr>fp_channel_tree := t\<rparr>) d =
       (if d = c then (empty_channel_leaf P)\<lparr>cl_member_pubkeys_root := m\<rparr> else channel_leaf_at P s d))"
proof -
  let ?l = "(empty_channel_leaf P)\<lparr>cl_member_pubkeys_root := m\<rparr>"
  have rep: "channel_rep P (fp_channel_tree s)" "s_height (fp_channel_tree s) = CHANNEL_TREE_HEIGHT" "\<And>d. channel_ok P s d"
    using inv by (simp_all add: public_inv_def channels_inv_def)
  from Sparse_update_rep [OF rep(1), of "ChannelId_as_u64 c" ?l] rep(2) channel_in_tree [of c] obtain t where
    t: "Sparse_update (two_to_one P) (ChannelLeaf_hash P) (ChannelId_as_u64 c) ?l (fp_channel_tree s) = (Ok t :: ('e, _) outcome)"
      "s_height t = CHANNEL_TREE_HEIGHT" "s_leaves t = (s_leaves (fp_channel_tree s))(ChannelId_as_u64 c \<mapsto> ?l)" "channel_rep P t"
    by auto
  let ?s = "s\<lparr>fp_channel_tree := t\<rparr>"
  have leaf: "channel_leaf_at P ?s d = (if d = c then ?l else channel_leaf_at P s d)" for d
    by (simp add: channel_leaf_at_def Sparse_get_leaf_def t(3))
  have "channel_ok P ?s d" for d
    using rep(3) [of d] none by (auto simp: channel_ok_def leaf send_leaves_of_def channel_summary_def empty_channel_leaf_def last_send_def)
  with t(2,4) have "channels_inv P ?s" by (simp add: channels_inv_def)
  then have "public_inv P ?s" using inv by (simp add: public_inv_def history_inv_def deposits_inv_def)
  with t(1,3) leaf show ?thesis by blast
qed

text \<open>
  The first block of channel 7 with one active key, after two members were registered, for the witnesses. The hash is
  not constant: its first word is one more than the larger first word of the two children, so a node is higher than
  what it hashes, and its last word is a checksum of the input.
\<close>

definition deep_poseidon :: "u64 list \<Rightarrow> PoseidonHashOut" where
  "deep_poseidon xs = PoseidonHashOut (1 + max ((xs @ replicate 8 0) ! 0) ((xs @ replicate 8 0) ! 4)) 0 0
     (ucast (ucast (sum_list xs) :: u32))"

definition hash_height :: "PoseidonHashOut \<Rightarrow> nat" where
  "hash_height h = unat (hash_elements h ! 0)"

lemma deep_two_to_one:
  assumes "hash_height a < 2 ^ 60" "hash_height b < 2 ^ 60"
  shows "hash_height (two_to_one deep_poseidon a b) = Suc (max (hash_height a) (hash_height b))"
proof -
  obtain a0 a1 a2 a3 b0 b1 b2 b3 where ab: "a = PoseidonHashOut a0 a1 a2 a3" "b = PoseidonHashOut b0 b1 b2 b3"
    by (cases a; cases b)
  have lt: "unat a0 < 2 ^ 60" "unat b0 < 2 ^ 60" using assms by (simp_all add: ab hash_height_def)
  then have "a0 mod GOLDILOCKS_ORDER = a0" "b0 mod GOLDILOCKS_ORDER = b0"
    by (simp_all add: word_unat_eq_iff unat_mod GOLDILOCKS_ORDER_def)
  moreover have "unat (1 + max a0 b0) = Suc (max (unat a0) (unat b0))"
    using lt by (auto simp: max_def word_le_nat_alt unat_word_ariths)
  ultimately show ?thesis
    by (simp add: two_to_one_def hash_inputs_u64_def deep_poseidon_def ab hash_height_def from_canonical_u64_def)
qed

lemma deep_node: "(\<And>i. hash_height (f i) \<le> n) \<Longrightarrow> n + k \<le> 2 ^ 60 \<Longrightarrow> hash_height (node (two_to_one deep_poseidon) f k v) \<le> n + k"
  by (rule node_height [of hash_height, OF deep_two_to_one])

lemma deep_node_first:
  "(\<And>i. hash_height (f i) \<le> n) \<Longrightarrow> n + k \<le> 2 ^ 60 \<Longrightarrow> hash_height (f 0) + k \<le> hash_height (node (two_to_one deep_poseidon) f k 0)"
  using node_height_first [of hash_height "2 ^ 60" "two_to_one deep_poseidon" f n k 0, OF deep_two_to_one] by simp

lemma deep_path: "(\<And>i. hash_height (f i) \<le> n) \<Longrightarrow> n + ht \<le> 2 ^ 60 \<Longrightarrow> inj_on (case_prod (two_to_one deep_poseidon)) (path_pairs (two_to_one deep_poseidon) f ht i)"
  by (rule path_pairs_height [of hash_height, OF deep_two_to_one])


lemma deep_node_second: "hash_elements (node (two_to_one deep_poseidon) f (Suc k) v) ! 1 = 0"
  by (simp add: two_to_one_def hash_inputs_u64_def deep_poseidon_def)

lemma deep_send_root: "hash_elements (send_root deep_poseidon ls) ! 1 = 0"
  using deep_node_second [of _ 31] by (simp add: list_root_def public_heights)

lemma deep_leaves:
  "hash_height (SendLeaf_hash deep_poseidon SendLeaf_empty_leaf) \<le> 2 ^ 40"
  "hash_height (PublicState_poseidon_hash deep_poseidon PublicState_empty_leaf) \<le> 2 ^ 40"
  "cl_send_tree_root l = send_root deep_poseidon ls \<Longrightarrow> hash_height (ChannelLeaf_hash deep_poseidon l) \<le> 2 ^ 40"
proof -
  note defs = hash_inputs_u64_def deep_poseidon_def hash_height_def U63_to_u64_vec_def from_canonical_u64_def GOLDILOCKS_ORDER_def
  have zero: "to_u64_vec Bytes32_to_u32_vec Bytes32_default = replicate 8 0" by code_simp
  show "hash_height (SendLeaf_hash deep_poseidon SendLeaf_empty_leaf) \<le> 2 ^ 40"
    by (simp add: SendLeaf_hash_def defs SendLeaf_to_u64_vec_def SendLeaf_empty_leaf_def zero nth_append)
  have zero: "to_u64_vec U64_to_u32_vec (U64_from_u64 0) = [0, 0]" by code_simp
  show "hash_height (PublicState_poseidon_hash deep_poseidon PublicState_empty_leaf) \<le> 2 ^ 40"
    by (simp add: PublicState_poseidon_hash_def defs PublicState_to_u64_vec_def PublicState_empty_leaf_def zero PoseidonHashOut_default_def)
  show "hash_height (ChannelLeaf_hash deep_poseidon l) \<le> 2 ^ 40" if "cl_send_tree_root l = send_root deep_poseidon ls"
    using that deep_send_root [of ls]
    by (cases "send_root deep_poseidon ls") (simp add: ChannelLeaf_hash_def defs ChannelLeaf_to_u64_vec_def max_def)
qed

lemma reduce_hash_bytes: "reduce_to_hash_out (hash_bytes h) = h"
  using Bytes32_from_hash_out_value [of h, where 'a = unit] by (simp add: Bytes32_from_hash_out_Ok_iff)


definition keyed_member :: "u64 \<Rightarrow> MemberLeaf" where
  "keyed_member k = \<lparr>ml_pk_g = PoseidonHashOut 0 0 0 k, ml_pk_b = PoseidonHashOut_default,
     ml_regev_pk_digest = hash_inputs_u64 deep_poseidon ([REGEV_PK_POSEIDON_DOMAIN, of_nat REGEV_N] @
       map ucast (rk_a RegevPk_padding) @ map ucast (rk_b RegevPk_padding))\<rparr>"

definition two_members :: "MemberLeaf list" where
  "two_members = [keyed_member (2 ^ 42), keyed_member (2 ^ 41)] @ replicate 6 MemberLeaf_empty_leaf"

lemma two_members_distinct: "member_root deep_poseidon two_members \<noteq> member_root deep_poseidon []"
proof -
  note defs = MemberLeaf_hash_def hash_inputs_u64_def deep_poseidon_def hash_height_def from_canonical_u64_def GOLDILOCKS_ORDER_def
    MemberLeaf_to_u64_vec_def
  have empty: "hash_height (MemberLeaf_hash deep_poseidon MemberLeaf_empty_leaf) \<le> 2 ^ 40"
    by (simp add: defs MemberLeaf_empty_leaf_def PoseidonHashOut_default_def max_def)
  have keyed: "hash_height (MemberLeaf_hash deep_poseidon (keyed_member (2 ^ 42))) = 2 ^ 42 + 1"
    "hash_height (MemberLeaf_hash deep_poseidon (keyed_member (2 ^ 41))) = 2 ^ 41 + 1"
    by (simp_all add: defs keyed_member_def max_def)
  have "hash_height (member_root deep_poseidon []) \<le> 2 ^ 40 + 3"
    using deep_node [of "incremental_leaf_fun (MemberLeaf_hash deep_poseidon) MemberLeaf_empty_leaf []" "2 ^ 40" 3 0] empty
    by (simp add: list_root_def public_heights incremental_leaf_fun_def del: node.simps)
  let ?f = "incremental_leaf_fun (MemberLeaf_hash deep_poseidon) MemberLeaf_empty_leaf two_members"
  have "hash_height (?f i) \<le> 2 ^ 42 + 1" for i
    using le_trans [OF empty, of "2 ^ 42 + 1"] keyed by (auto simp: incremental_leaf_fun_def two_members_def nth_append nth_Cons')
  from deep_node_first [of ?f, OF this, of 3]
  have "hash_height (?f 0) + 3 \<le> hash_height (member_root deep_poseidon two_members)"
    by (simp add: list_root_def public_heights)
  moreover have "hash_height (?f 0) = 2 ^ 42 + 1" using keyed(1) by (simp add: incremental_leaf_fun_def two_members_def)
  ultimately have "2 ^ 42 + 4 \<le> hash_height (member_root deep_poseidon two_members)" by linarith
  with \<open>hash_height (member_root deep_poseidon []) \<le> 2 ^ 40 + 3\<close> show ?thesis by auto
qed


definition example_fields :: ChannelStateMessageFields where
  "example_fields = \<lparr>mf_epoch = 0, mf_small_block_number = 0, mf_close_freeze_nonce = 0,
     mf_fund_amounts = replicate MAX_CHANNEL_TOKENS U256_default, mf_fund_intmax_state_root = Bytes32_default,
     mf_balance_state_h1 = Bytes32_default, mf_shared_native_nullifier_root = Bytes32_default,
     mf_unallocated_confirmed_incoming = U256_default, mf_prev_digest = Bytes32_default, mf_state_version = 1\<rparr>"

definition deep_tx :: TxV2 where
  "deep_tx = \<lparr>v2_tx_class = UserTransfer, v2_transfer_tree_root = PoseidonHashOut 3 0 0 0, v2_nonce = 0,
     v2_channel_action_root = PoseidonHashOut_default\<rparr>"

definition deep_tx_root :: PoseidonHashOut where
  "deep_tx_root = node (two_to_one deep_poseidon) ((\<lambda>_. PoseidonHashOut_default)(7 := TxV2_hash deep_poseidon deep_tx)) TX_TREE_HEIGHT 0"

definition deep_block :: Block where
  "deep_block = \<lparr>blk_num_users = 2, blk_channel_id = 7, blk_timestamp = 5, blk_key_ids = [10, 0],
     blk_tx_tree_root = hash_bytes deep_tx_root, blk_deposit_hash_chain = Bytes32_default,
     blk_channel_reg_hash_chain = Bytes32_default\<rparr>"

definition registered_leaf :: ChannelLeaf where
  "registered_leaf = (empty_channel_leaf deep_poseidon)\<lparr>cl_member_pubkeys_root := member_root deep_poseidon two_members\<rparr>"

definition deep_update :: "FullPublicState \<Rightarrow> UpdateUserTree" where
  "deep_update s =
     (let H = two_to_one deep_poseidon in
     \<lparr>ut_prev_block_hash_chain = Bytes32_default,
      ut_prev_account_tree_root = node H (channel_leaf_fun deep_poseidon s) CHANNEL_TREE_HEIGHT 0, ut_block_number = U63 1,
      ut_block = deep_block, ut_prev_account_leaves = replicate 2 registered_leaf,
      ut_user_merkle_proofs = replicate 2 (siblings_of H (channel_leaf_fun deep_poseidon s) 0 CHANNEL_TREE_HEIGHT 7),
      ut_send_merkle_proofs =
        replicate 2 (siblings_of H (incremental_leaf_fun (SendLeaf_hash deep_poseidon) SendLeaf_empty_leaf []) 0 SEND_TREE_HEIGHT 0),
      ut_prev_bp_sig_chain = Bytes32_default,
      ut_member_leaves = two_members, ut_new_member_leaves = [],
      ut_signer_count = 2, ut_member_regev_pks = replicate 2 RegevPk_padding, ut_channel_state_fields = example_fields,
      ut_tx_v2_indices = replicate 2 7, ut_tx_v2s = replicate 2 deep_tx,
      ut_tx_v2_merkle_proofs = replicate 2 (siblings_of H (\<lambda>_. PoseidonHashOut_default) 0 TX_TREE_HEIGHT 7),
      ut_channel_action_indices = replicate 2 0, ut_channel_actions = replicate 2 ChannelAction_default,
      ut_channel_action_merkle_proofs = replicate 2 []\<rparr>)"

lemma deep_tx_root_nonzero: "hash_bytes deep_tx_root \<noteq> Bytes32_default"
proof -
  have lt: "hash_height (TxV2_hash deep_poseidon deep_tx) \<le> 2 ^ 40"
    by (simp add: TxV2_hash_def deep_tx_def TxV2_to_u64_vec_def hash_height_def deep_poseidon_def hash_inputs_u64_def
        from_canonical_u64_def GOLDILOCKS_ORDER_def PoseidonHashOut_default_def max_def)
  have "hash_height (((\<lambda>_. PoseidonHashOut_default)(7 := TxV2_hash deep_poseidon deep_tx)) i) \<le> 2 ^ 40" for i :: nat
    using lt by (simp add: hash_height_def PoseidonHashOut_default_def)
  from deep_node_first [of "(\<lambda>_. PoseidonHashOut_default)(7 := TxV2_hash deep_poseidon deep_tx)", OF this, of 32] have "0 < hash_height deep_tx_root"
    by (simp add: deep_tx_root_def public_heights)
  then have "deep_tx_root \<noteq> PoseidonHashOut_default" by (auto simp: hash_height_def PoseidonHashOut_default_def dest: arg_cong [of _ _ hash_elements])
  moreover have "reduce_to_hash_out Bytes32_default = PoseidonHashOut_default" by code_simp
  ultimately show ?thesis using reduce_hash_bytes [of deep_tx_root] by metis
qed

lemma deep_members: "check_n_of_n_witness deep_poseidon (deep_update s) 0 registered_leaf = Ok ()"
proof -
  have "RegevPk_validate RegevPk_padding = Ok ()"
  proof -
    have "find (\<lambda>c. c \<ge> REGEV_Q) (replicate n 0 @ replicate n 0) = None" for n by (auto simp: find_None_iff REGEV_Q_def)
    then show ?thesis by (simp add: RegevPk_validate_def RegevPk_padding_def)
  qed
  then have digest: "RegevPk_poseidon_digest deep_poseidon RegevPk_padding = Ok (ml_regev_pk_digest (two_members ! 0))"
    by (simp add: RegevPk_poseidon_digest_def two_members_def keyed_member_def)
  have rep: "incremental_rep (two_to_one deep_poseidon) (MemberLeaf_hash deep_poseidon) MemberLeaf_empty_leaf (MemberTree_init deep_poseidon)"
    by (simp add: MemberTree_init_def Incremental_new_rep public_heights)
  have init: "i_leaves (MemberTree_init deep_poseidon) = []" "i_height (MemberTree_init deep_poseidon) = 3"
    by (simp_all add: MemberTree_init_def new_incremental public_heights)
  from Incremental_pushes [OF rep, of two_members, where 'e = UpdateUserTreeError] obtain tree where
    tree: "try_fold (\<lambda>tree l. Incremental_push (two_to_one deep_poseidon) (MemberLeaf_hash deep_poseidon) l tree)
      (MemberTree_init deep_poseidon) two_members = (Ok tree :: (UpdateUserTreeError, _) outcome)"
    by (auto simp: init two_members_def)
  have "length two_members \<le> 2 ^ MEMBER_TREE_HEIGHT" by (simp add: public_heights two_members_def)
  note root = member_tree_root [OF this tree]
  have "check_member_slot 2 (i, two_members ! i) = Ok ()" if "i < 8" for i
    using that
    by (cases "i < 2") (auto simp: check_member_slot_def two_members_def keyed_member_def PoseidonHashOut_default_def nth_append
        MemberLeaf_empty_leaf_def Let_def nth_Cons' less_2_cases_iff)
  moreover have "length two_members = 8" by (simp add: two_members_def)
  ultimately have slots: "try_each (check_member_slot 2) (enumerate 0 two_members) = Ok ()"
    by (auto simp: try_each_Ok_iff in_set_enumerate_eq)
  show ?thesis
    using tree root slots digest \<open>length two_members = 8\<close> deep_tx_root_nonzero
    by (simp add: check_n_of_n_witness_def deep_update_def Let_def deep_block_def MAX_SIG_CLUSTER_def registered_leaf_def)
qed


lemma deep_selectors:
  "ut_block (deep_update s) = deep_block" "ut_block_number (deep_update s) = U63 1"
  "ut_prev_account_leaves (deep_update s) ! 0 = registered_leaf" "length (ut_prev_account_leaves (deep_update s)) = 2"
  "ut_user_merkle_proofs (deep_update s) ! 0 =
     siblings_of (two_to_one deep_poseidon) (channel_leaf_fun deep_poseidon s) 0 CHANNEL_TREE_HEIGHT 7"
  "ut_send_merkle_proofs (deep_update s) ! 0 = siblings_of (two_to_one deep_poseidon)
     (incremental_leaf_fun (SendLeaf_hash deep_poseidon) SendLeaf_empty_leaf []) 0 SEND_TREE_HEIGHT 0"
  "ut_tx_v2s (deep_update s) ! 0 = deep_tx" "ut_tx_v2_indices (deep_update s) ! 0 = 7"
  "ut_tx_v2_merkle_proofs (deep_update s) ! 0 =
     siblings_of (two_to_one deep_poseidon) (\<lambda>_. PoseidonHashOut_default) 0 TX_TREE_HEIGHT 7"
  "ut_prev_account_tree_root (deep_update s) = node (two_to_one deep_poseidon) (channel_leaf_fun deep_poseidon s) CHANNEL_TREE_HEIGHT 0"
  "ut_prev_block_hash_chain (deep_update s) = Bytes32_default" "ut_prev_bp_sig_chain (deep_update s) = Bytes32_default"
  "length (ut_member_leaves (deep_update s)) = MAX_SIG_CLUSTER" "ut_new_member_leaves (deep_update s) = []"
  "witness_lengths_ok (deep_update s)"
  by (simp_all add: deep_update_def Let_def two_members_def MAX_SIG_CLUSTER_def witness_lengths_ok_def deep_block_def)

lemma deep_block_selectors:
  "blk_channel_id deep_block = 7" "blk_tx_tree_root deep_block = hash_bytes deep_tx_root" "blk_key_ids deep_block = [10, 0]"
  "blk_num_users deep_block = 2" "blk_timestamp deep_block = 5" "blk_deposit_hash_chain deep_block = Bytes32_default"
  "blk_channel_reg_hash_chain deep_block = Bytes32_default"
  by (simp_all add: deep_block_def)

lemma deep_key:
  assumes "channel_leaf_at deep_poseidon s (ChannelId 7) = registered_leaf"
  shows "\<exists>root. update_user_key deep_poseidon True (deep_update s) sig
    (node (two_to_one deep_poseidon) (channel_leaf_fun deep_poseidon s) CHANNEL_TREE_HEIGHT 0, Bytes32_default) (0, 10) =
    Ok (root, hash_bytes (list_chain_step deep_poseidon PoseidonHashOut_default sig))"
proof -
  let ?H = "two_to_one deep_poseidon"
  have "ChannelId_new 7 = Ok (ChannelId 7)" by code_simp
  moreover have "PoseidonHashOut_try_from Bytes32_default = Ok PoseidonHashOut_default" by code_simp
  moreover have leaf: "cl_prev registered_leaf = U63 0" "cl_index registered_leaf = 0"
    "cl_send_tree_root registered_leaf = send_root deep_poseidon []"
    by (simp_all add: registered_leaf_def empty_channel_leaf_def)
  moreover have "check_tx_class deep_poseidon (deep_update s) 0 (ChannelId 7) = Ok ()"
    by (simp add: check_tx_class_def deep_selectors deep_tx_def)
  moreover have "v2_nonce deep_tx = 0" by (simp add: deep_tx_def)
  moreover have "(channel_leaf_fun deep_poseidon s)(7 := ChannelLeaf_hash deep_poseidon registered_leaf) = channel_leaf_fun deep_poseidon s"
    using channel_leaf_fun_at [of deep_poseidon s 7] assms by (intro fun_upd_idem) simp
  then have "MerkleProof_verify ?H (ChannelLeaf_hash deep_poseidon)
      (siblings_of ?H (channel_leaf_fun deep_poseidon s) 0 CHANNEL_TREE_HEIGHT 7) registered_leaf 7
      (node ?H (channel_leaf_fun deep_poseidon s) CHANNEL_TREE_HEIGHT 0) = Ok ()"
    using verify_path [of 7 CHANNEL_TREE_HEIGHT ?H "ChannelLeaf_hash deep_poseidon" "channel_leaf_fun deep_poseidon s"] by (simp add: public_heights)
  moreover have "MerkleProof_verify ?H (TxV2_hash deep_poseidon)
      (siblings_of ?H (\<lambda>_. PoseidonHashOut_default) 0 TX_TREE_HEIGHT 7) deep_tx 7 deep_tx_root = Ok ()"
    using verify_path [of 7 TX_TREE_HEIGHT ?H "TxV2_hash deep_poseidon" "\<lambda>_. PoseidonHashOut_default"] by (simp add: public_heights deep_tx_root_def)
  moreover have "(incremental_leaf_fun (SendLeaf_hash deep_poseidon) SendLeaf_empty_leaf [])(0 := SendLeaf_hash deep_poseidon SendLeaf_empty_leaf) =
      incremental_leaf_fun (SendLeaf_hash deep_poseidon) SendLeaf_empty_leaf []"
    by (intro fun_upd_idem) (simp add: incremental_leaf_fun_def)
  then have "MerkleProof_verify ?H (SendLeaf_hash deep_poseidon)
      (siblings_of ?H (incremental_leaf_fun (SendLeaf_hash deep_poseidon) SendLeaf_empty_leaf []) 0 SEND_TREE_HEIGHT 0)
      SendLeaf_empty_leaf 0 (send_root deep_poseidon []) = Ok ()"
    using verify_path [of 0 SEND_TREE_HEIGHT ?H "SendLeaf_hash deep_poseidon"] by (simp add: public_heights list_root_def)
  moreover have "MerkleProof_get_root ?H (SendLeaf_hash deep_poseidon) (siblings_of ?H f 0 SEND_TREE_HEIGHT 0) l 0 =
      (Ok (node ?H (f(0 := SendLeaf_hash deep_poseidon l)) SEND_TREE_HEIGHT 0) :: (UpdateUserTreeError, _) outcome)" for f l
    using get_root_of_path [of 0 SEND_TREE_HEIGHT ?H "SendLeaf_hash deep_poseidon" f] by (simp add: public_heights)
  moreover have "MerkleProof_get_root ?H (ChannelLeaf_hash deep_poseidon) (siblings_of ?H f 0 CHANNEL_TREE_HEIGHT 7) l 7 =
      (Ok (node ?H (f(7 := ChannelLeaf_hash deep_poseidon l)) CHANNEL_TREE_HEIGHT 0) :: (UpdateUserTreeError, _) outcome)" for f l
    using get_root_of_path [of 7 CHANNEL_TREE_HEIGHT ?H "ChannelLeaf_hash deep_poseidon" f] by (simp add: public_heights)
  ultimately show ?thesis
    using deep_members [of s]
    by (simp add: update_user_key_def Let_def deep_selectors deep_block_selectors reduce_hash_bytes ChannelId_as_u64_def
        Bytes32_from_hash_out_value del: and_then_Ok_iff)
qed


lemma deep_accepted:
  assumes "channel_leaf_at deep_poseidon s (ChannelId 7) = registered_leaf"
  shows "\<exists>u. UpdateUserTree_to_public_inputs deep_poseidon zero_keccak (deep_update s) = Ok u"
proof -
  have "Bytes32_from_u32_slice (zero_keccak xs) = Ok Bytes32_default" for xs by code_simp
  then have "Block_hash_with_prev_hash zero_keccak deep_block Bytes32_default = Ok Bytes32_default"
    by (simp add: Block_hash_with_prev_hash_def deep_block_selectors)
  moreover have "enumerate 0 (blk_key_ids deep_block) = [(0, 10), (1, 0)]" by (simp add: deep_block_selectors)
  moreover have "update_user_key deep_poseidon True (deep_update s) sig st (1, 0) = Ok st" for sig st
    by (simp add: update_user_key_def split_def)
  moreover obtain root where "update_user_key deep_poseidon True (deep_update s) (folded_statement deep_poseidon zero_keccak (deep_update s))
    (node (two_to_one deep_poseidon) (channel_leaf_fun deep_poseidon s) CHANNEL_TREE_HEIGHT 0, Bytes32_default) (0, 10) = Ok root"
    using deep_key [OF assms] by blast
  ultimately show ?thesis
    by (cases root) (simp add: UpdateUserTree_to_public_inputs_def compute_public_inputs_def Let_def deep_selectors
        fields_digest member_pks agg_pk_list_digest_def folded_statement_def comp_def del: and_then_Ok_iff)
qed

lemma registered_genesis:
  "\<exists>s. public_inv deep_poseidon s \<and> fp_block_number s = U63 0 \<and> fp_supported_user_counts s = [2] \<and>
     (\<forall>c. send_leaves_of s c = []) \<and>
     (\<forall>i. hash_height (channel_leaf_fun deep_poseidon s i) \<le> 2 ^ 40) \<and>
     (\<forall>c. channel_leaf_at deep_poseidon s c = (if c = ChannelId 7 then registered_leaf else empty_channel_leaf deep_poseidon)) \<and>
     fp_deposits s = [] \<and> fp_block_hash_chain s = Bytes32_default \<and>
     fp_deposit_hash_chain s = Bytes32_default \<and> fp_channel_reg_hash_chain s = Bytes32_default"
proof -
  obtain s where s: "FullPublicState_new deep_poseidon [2] = (Ok s :: (unit, _) outcome)"
    by (auto simp: FullPublicState_new_def ChannelTree_init_def)
  have fields: "fp_block_number s = U63 0" "fp_supported_user_counts s = [2]" "send_leaves_of s c = []"
    "channel_leaf_at deep_poseidon s c = empty_channel_leaf deep_poseidon" "fp_deposits s = []"
    "fp_block_hash_chain s = Bytes32_default" "fp_deposit_hash_chain s = Bytes32_default"
    "fp_channel_reg_hash_chain s = Bytes32_default" for c
    using s by (auto simp: FullPublicState_new_def ChannelTree_init_def channel_leaf_at_def Sparse_get_leaf_def Sparse_new_def
        send_leaves_of_def)
  from registered_inv [OF FullPublicState_new_inv [OF s] fields(3), of "ChannelId 7" "member_root deep_poseidon two_members",
      where 'e = unit] obtain t where
    "public_inv deep_poseidon (s\<lparr>fp_channel_tree := t\<rparr>)"
    "s_leaves t = (s_leaves (fp_channel_tree s))(ChannelId_as_u64 (ChannelId 7) \<mapsto> registered_leaf)"
    "\<forall>d. channel_leaf_at deep_poseidon (s\<lparr>fp_channel_tree := t\<rparr>) d =
       (if d = ChannelId 7 then registered_leaf else channel_leaf_at deep_poseidon s d)"
    unfolding registered_leaf_def by blast
  moreover have "s_leaves (fp_channel_tree s) = Map.empty"
    using s by (auto simp: FullPublicState_new_def ChannelTree_init_def Sparse_new_def)
  moreover have "cl_send_tree_root registered_leaf = send_root deep_poseidon []"
    "cl_send_tree_root (empty_channel_leaf deep_poseidon) = send_root deep_poseidon []"
    by (simp_all add: registered_leaf_def empty_channel_leaf_def)
  ultimately have t: "public_inv deep_poseidon (s\<lparr>fp_channel_tree := t\<rparr>)"
    "\<forall>d. channel_leaf_at deep_poseidon (s\<lparr>fp_channel_tree := t\<rparr>) d =
       (if d = ChannelId 7 then registered_leaf else channel_leaf_at deep_poseidon s d)"
    "hash_height (channel_leaf_fun deep_poseidon (s\<lparr>fp_channel_tree := t\<rparr>) i) \<le> 2 ^ 40" for i
    using deep_leaves(3) [of registered_leaf] deep_leaves(3) [of "empty_channel_leaf deep_poseidon"]
    by (auto simp: sparse_leaf_fun_def Sparse_get_leaf_def)
  then show ?thesis
    using fields by (intro exI [of _ "s\<lparr>fp_channel_tree := t\<rparr>"]) (simp add: send_leaves_of_def)
qed

lemma deep_authentic:
  assumes "\<And>c. channel_leaf_at deep_poseidon s c = (if c = ChannelId 7 then registered_leaf else empty_channel_leaf deep_poseidon)"
    and "send_leaves_of s (ChannelId 7) = []" "\<And>i. hash_height (channel_leaf_fun deep_poseidon s i) \<le> 2 ^ 40"
  shows "key_authentic deep_poseidon s (deep_update s) 0" "block_channel (deep_update s) = ChannelId 7"
proof -
  show channel: "block_channel (deep_update s) = ChannelId 7" by (simp add: deep_selectors deep_block_selectors)
  from assms(3) have "inj_on (case_prod (two_to_one deep_poseidon))
      (path_pairs (two_to_one deep_poseidon) (channel_leaf_fun deep_poseidon s) CHANNEL_TREE_HEIGHT 7)"
    by (rule deep_path) (simp add: public_heights)
  moreover have "channel_leaf_fun deep_poseidon s 7 = ChannelLeaf_hash deep_poseidon registered_leaf"
    using channel_leaf_fun_at [of deep_poseidon s 7] assms(1) by simp
  ultimately have "slot_authentic deep_poseidon (deep_update s) (channel_leaf_fun deep_poseidon s)
      (channel_leaf_at deep_poseidon s (ChannelId 7)) 0"
    by (simp add: slot_authentic_def Let_def deep_selectors deep_block_selectors assms(1) path_pairs_def)
  moreover have "append_collision_free deep_poseidon (SendLeaf_hash deep_poseidon) SendLeaf_empty_leaf SEND_TREE_HEIGHT []
      (siblings_of (two_to_one deep_poseidon)
        (incremental_leaf_fun (SendLeaf_hash deep_poseidon) SendLeaf_empty_leaf []) 0 SEND_TREE_HEIGHT 0)"
    using deep_path [of "incremental_leaf_fun (SendLeaf_hash deep_poseidon) SendLeaf_empty_leaf []" "2 ^ 40" SEND_TREE_HEIGHT 0]
      deep_leaves(1)
    by (simp add: append_collision_free_def path_pairs_def incremental_leaf_fun_def public_heights)
  ultimately show "key_authentic deep_poseidon s (deep_update s) 0"
    by (simp add: key_authentic_def deep_selectors deep_block_selectors assms(2))
qed

theorem update_user_sound_witness:
  "\<exists>s u. public_inv deep_poseidon s \<and> members_at deep_poseidon s (ChannelId 7) = member_root deep_poseidon two_members \<and>
     member_root deep_poseidon two_members \<noteq> member_root deep_poseidon [] \<and>
     UpdateUserTree_to_public_inputs deep_poseidon zero_keccak (deep_update s) = Ok u \<and>
     uu_new_account_tree_root u =
       node (two_to_one deep_poseidon) (next_accounts deep_poseidon (deep_update s) s) CHANNEL_TREE_HEIGHT 0 \<and>
     (\<exists>i < 2. send_authorised deep_poseidon (deep_update s) i (ChannelId 7) registered_leaf)"
proof -
  from registered_genesis obtain s where s: "public_inv deep_poseidon s" "fp_block_number s = U63 0" "\<And>c. send_leaves_of s c = []"
    "\<And>i. hash_height (channel_leaf_fun deep_poseidon s i) \<le> 2 ^ 40"
    "\<And>c. channel_leaf_at deep_poseidon s c = (if c = ChannelId 7 then registered_leaf else empty_channel_leaf deep_poseidon)" by blast
  have leaf: "channel_leaf_at deep_poseidon s (ChannelId 7) = registered_leaf" by (simp add: s(5))
  from deep_accepted [OF leaf] obtain u where u: "UpdateUserTree_to_public_inputs deep_poseidon zero_keccak (deep_update s) = Ok u" ..
  note auth = deep_authentic [OF s(5) s(3,4)]
  have "key_authentic deep_poseidon s (deep_update s) i" if "i < 2" "[10, 0 :: u32] ! i \<noteq> 0" for i
    using that auth(1) by (cases i) auto
  then have "\<exists>i < Suc (Suc 0). send_authorised deep_poseidon (deep_update s) i (ChannelId 7) registered_leaf"
    "uu_new_account_tree_root u =
       node (two_to_one deep_poseidon) (next_accounts deep_poseidon (deep_update s) s) CHANNEL_TREE_HEIGHT 0"
    using update_user_sound [of deep_poseidon s zero_keccak "deep_update s" u, OF s(1) _ u]
      s(2,3) U63_zero_less_one leaf
    by (auto simp: auth(2) deep_selectors deep_block_selectors public_heights public_state_of_def)
  moreover have "cl_member_pubkeys_root registered_leaf = member_root deep_poseidon two_members" by (simp add: registered_leaf_def)
  ultimately show ?thesis
    using s(1) u leaf two_members_distinct by (intro exI [of _ s] exI [of _ u]) (simp add: numeral_2_eq_2)
qed

text \<open>The block step of the example, from the registered state, with the update proof as its only proof.\<close>

lemma UpdateUserPublicInputs_decode:
  assumes "U63_valid (uu_block_number u)" "canonical (uu_prev_account_tree_root u)" "canonical (uu_new_account_tree_root u)"
  shows "UpdateUserPublicInputs_from_u64_slice (UpdateUserPublicInputs_to_u64_vec u) = Ok u"
proof -
  have "U63_new (as_u64 (uu_block_number u)) = Ok (uu_block_number u)"
    using assms(1) by (cases "uu_block_number u") (simp add: U63_new_Ok_iff)
  moreover have "PoseidonHashOut_from_u64_slice (hash_elements (uu_prev_account_tree_root u)) = Ok (uu_prev_account_tree_root u)"
    "PoseidonHashOut_from_u64_slice (hash_elements (uu_new_account_tree_root u)) = Ok (uu_new_account_tree_root u)"
    using assms(2,3) by (simp_all add: PoseidonHashOut_from_u64_slice_Ok_iff)
  ultimately show ?thesis
    by (simp add: UpdateUserPublicInputs_from_u64_slice_def UpdateUserPublicInputs_to_u64_vec_def subslice_def Let_def
        bytes32.from_to_u64 u64limb.from_to_u64)
qed

lemma deep_canonical:
  assumes "\<And>i. hash_height (f i) \<le> 2 ^ 40"
  shows "canonical (node (two_to_one deep_poseidon) f CHANNEL_TREE_HEIGHT 0)"
proof -
  have "hash_height (node (two_to_one deep_poseidon) f 32 0) \<le> 2 ^ 40 + 32" by (rule deep_node [OF assms]) simp
  moreover have "\<exists>xs. node (two_to_one deep_poseidon) f (Suc k) 0 = deep_poseidon xs" for k
    by (auto simp: two_to_one_def hash_inputs_u64_def)
  then have "\<exists>xs. node (two_to_one deep_poseidon) f 32 0 = deep_poseidon xs" using numeral_eq_Suc by metis
  moreover have "(ucast (x :: u32) :: u64) < GOLDILOCKS_ORDER" for x
    using unat_lt_u32 [of x] by (simp add: word_less_nat_alt GOLDILOCKS_ORDER_def)
  ultimately show ?thesis
    unfolding CHANNEL_TREE_HEIGHT_def by (auto simp: canonical_def deep_poseidon_def hash_height_def word_less_nat_alt GOLDILOCKS_ORDER_def)
qed

definition deep_initial :: "FullPublicState \<Rightarrow> ExtendedPublicState" where
  "deep_initial s = \<lparr>ep_inner = (public_state_of deep_poseidon s)\<lparr>pst_prev_public_state_root :=
       list_root deep_poseidon (PublicState_poseidon_hash deep_poseidon) PublicState_empty_leaf PUBLIC_STATE_TREE_HEIGHT []\<rparr>,
     ep_block_hash_chain = Bytes32_default, ep_deposit_hash_chain = Bytes32_default, ep_deposit_count = U63 0,
     ep_channel_reg_hash_chain = Bytes32_default, ep_bp_sig_chain = Bytes32_default\<rparr>"

definition accepting_vd :: "unit VerifierCircuitData" where
  "accepting_vd = \<lparr>vcd_verify = \<lambda>_. True, vcd_verifier_only = \<lparr>vd_circuit_digest = PoseidonHashOut_default,
     vd_constants_sigmas_cap = []\<rparr>, vcd_cap_len = 0\<rparr>"

definition deep_step :: "FullPublicState \<Rightarrow> UpdateUserPublicInputs \<Rightarrow> unit BlockStepWitness" where
  "deep_step s u = \<lparr>bw_num_users = 2, bw_initial_public_state = Some (deep_initial s), bw_prev_block_chain_proof = None,
     bw_deposit_hash_chain_proof = None, bw_channel_reg_hash_chain_proof = None,
     bw_update_user_proof = \<lparr>pr_proof = (), pr_public_inputs = UpdateUserPublicInputs_to_u64_vec u\<rparr>,
     bw_public_state_merkle_proof = siblings_of (two_to_one deep_poseidon)
       (incremental_leaf_fun (PublicState_poseidon_hash deep_poseidon) PublicState_empty_leaf []) 0 PUBLIC_STATE_TREE_HEIGHT 0\<rparr>"

lemma deep_step_prev:
  "block_step_prev_inputs accepting_vd (deep_step s u) = Ok \<lparr>bc_initial_ext_public_state = deep_initial s,
     bc_ext_public_state = deep_initial s, bc_vd = vcd_verifier_only accepting_vd\<rparr>"
  by (simp add: block_step_prev_inputs_def deep_step_def)

lemma deep_step_accepted:
  assumes "fp_block_number s = U63 0" "UpdateUserTree_to_public_inputs deep_poseidon zero_keccak (deep_update s) = Ok u"
    and dec: "UpdateUserPublicInputs_from_u64_slice (UpdateUserPublicInputs_to_u64_vec u) = Ok u"
  shows "\<exists>new. BlockStepWitness_to_public_inputs deep_poseidon accepting_vd [(2, accepting_vd)] accepting_vd accepting_vd
    (deep_step s u) = Ok new"
proof -
  let ?H = "two_to_one deep_poseidon" and ?h = "PublicState_poseidon_hash deep_poseidon"
  let ?f = "incremental_leaf_fun ?h PublicState_empty_leaf []"
  note up = update_user_Ok [of deep_poseidon zero_keccak, OF assms(2)]
  have "U63_add (U63 0) 1 = Ok (U63 1)" by (simp add: U63_add_Ok_iff U63_valid_unat)
  moreover have "bw_num_users (deep_step s u) = 2" "bw_channel_reg_hash_chain_proof (deep_step s u) = None"
    "pr_public_inputs (bw_update_user_proof (deep_step s u)) = UpdateUserPublicInputs_to_u64_vec u"
    "bw_public_state_merkle_proof (deep_step s u) = siblings_of ?H ?f 0 PUBLIC_STATE_TREE_HEIGHT 0" "vcd_verify accepting_vd pr"
    for pr by (simp_all add: deep_step_def accepting_vd_def)
  moreover have "uu_block_number u = U63 1" "uu_prev_account_tree_root u = pst_account_tree_root (public_state_of deep_poseidon s)"
    "uu_prev_block_hash_chain u = Bytes32_default" "uu_prev_bp_sig_chain u = Bytes32_default"
    "uu_deposit_hash_chain u = Bytes32_default" "uu_channel_reg_hash_chain u = Bytes32_default"
    using up by (simp_all add: deep_selectors deep_block_selectors public_state_of_def)
  moreover have "pst_block_number (ep_inner (deep_initial s)) = U63 0"
    "pst_account_tree_root (ep_inner (deep_initial s)) = pst_account_tree_root (public_state_of deep_poseidon s)"
    "pst_prev_public_state_root (ep_inner (deep_initial s)) = node ?H ?f PUBLIC_STATE_TREE_HEIGHT 0"
    "ep_block_hash_chain (deep_initial s) = Bytes32_default"
    "ep_bp_sig_chain (deep_initial s) = Bytes32_default" "ep_deposit_hash_chain (deep_initial s) = Bytes32_default"
    "ep_channel_reg_hash_chain (deep_initial s) = Bytes32_default"
    using assms(1) by (simp_all add: deep_initial_def public_state_of_def list_root_def)
  moreover have "?f(0 := ?h PublicState_empty_leaf) = ?f" by (intro fun_upd_idem) (simp add: incremental_leaf_fun_def)
  then have "MerkleProof_verify ?H ?h (siblings_of ?H ?f 0 PUBLIC_STATE_TREE_HEIGHT 0) PublicState_empty_leaf 0
      (node ?H ?f PUBLIC_STATE_TREE_HEIGHT 0) = Ok ()"
    using verify_path [of 0 PUBLIC_STATE_TREE_HEIGHT ?H ?h ?f] by (simp add: public_heights)
  moreover have "MerkleProof_get_root ?H ?h (siblings_of ?H ?f 0 PUBLIC_STATE_TREE_HEIGHT 0) l 0 =
      (Ok (node ?H (?f(0 := ?h l)) PUBLIC_STATE_TREE_HEIGHT 0) :: (BlockStepError, _) outcome)" for l
    using get_root_of_path [of 0 PUBLIC_STATE_TREE_HEIGHT ?H ?h ?f] by (simp add: public_heights)
  ultimately show ?thesis
    using deep_step_prev [of s u] dec
    by (simp add: BlockStepWitness_to_public_inputs_def block_step_deposits_def block_step_registrations_def Let_def
        del: and_then_Ok_iff)
qed

lemma next_accounts_height:
  assumes "\<And>i. hash_height (channel_leaf_fun deep_poseidon s i) \<le> 2 ^ 40"
  shows "hash_height (next_accounts deep_poseidon t s i) \<le> 2 ^ 40"
  using assms deep_leaves(3) [of "next_leaf deep_poseidon t s" "send_leaves_of s (block_channel t) @ [next_send t s]"]
  by (simp add: next_accounts_def next_leaf_def channel_summary_def)

lemma deep_decode:
  assumes inv: "public_inv deep_poseidon s" and s: "fp_block_number s = U63 0" "send_leaves_of s (ChannelId 7) = []"
    and h: "\<And>i. hash_height (channel_leaf_fun deep_poseidon s i) \<le> 2 ^ 40"
    and leaf: "\<And>c. channel_leaf_at deep_poseidon s c = (if c = ChannelId 7 then registered_leaf else empty_channel_leaf deep_poseidon)"
    and u: "UpdateUserTree_to_public_inputs deep_poseidon zero_keccak (deep_update s) = Ok u"
  shows "UpdateUserPublicInputs_from_u64_slice (UpdateUserPublicInputs_to_u64_vec u) = Ok u"
proof (rule UpdateUserPublicInputs_decode)
  note up = update_user_Ok [of deep_poseidon zero_keccak, OF u] and auth = deep_authentic [OF leaf s(2) h]
  show "U63_valid (uu_block_number u)" using up(5) by (simp add: deep_selectors U63_valid_unat)
  show "canonical (uu_prev_account_tree_root u)" using up(8) deep_canonical [OF h] by (simp add: deep_selectors)
  have "key_authentic deep_poseidon s (deep_update s) i" if "i < 2" "[10, 0 :: u32] ! i \<noteq> 0" for i
    using that auth(1) by (cases i) auto
  then have "uu_new_account_tree_root u =
      node (two_to_one deep_poseidon) (next_accounts deep_poseidon (deep_update s) s) CHANNEL_TREE_HEIGHT 0"
    using update_user_effect [of deep_poseidon s zero_keccak "deep_update s" u, OF inv _ u] s U63_zero_less_one
    by (auto simp: auth(2) deep_selectors deep_block_selectors public_heights public_state_of_def)
  then show "canonical (uu_new_account_tree_root u)"
    using deep_canonical [of "next_accounts deep_poseidon (deep_update s) s", OF next_accounts_height [OF h]] by simp
qed

theorem block_step_simulates_witness:
  "\<exists>s u new s1 s2. public_inv deep_poseidon s \<and>
     members_at deep_poseidon s (ChannelId 7) = member_root deep_poseidon two_members \<and>
     BlockStepWitness_to_public_inputs deep_poseidon accepting_vd [(2, accepting_vd)] accepting_vd accepting_vd
       (deep_step s u) = Ok new \<and>
     add_deposits deep_poseidon zero_keccak [] s = (Ok (), s1) \<and>
     add_block deep_poseidon zero_keccak 7 [10, 0] 5 (hash_bytes deep_tx_root) s1 = (Ok (), s2) \<and>
     state_committed deep_poseidon [ep_inner (deep_initial s)] s2 (bc_ext_public_state new)"
proof -
  from registered_genesis obtain s where s: "public_inv deep_poseidon s" "fp_block_number s = U63 0" "\<And>c. send_leaves_of s c = []"
    "\<And>i. hash_height (channel_leaf_fun deep_poseidon s i) \<le> 2 ^ 40"
    "\<And>c. channel_leaf_at deep_poseidon s c = (if c = ChannelId 7 then registered_leaf else empty_channel_leaf deep_poseidon)"
    "fp_supported_user_counts s = [2]" "fp_deposits s = []" "fp_block_hash_chain s = Bytes32_default"
    "fp_deposit_hash_chain s = Bytes32_default" "fp_channel_reg_hash_chain s = Bytes32_default" by blast
  have leaf: "channel_leaf_at deep_poseidon s (ChannelId 7) = registered_leaf" by (simp add: s(5))
  from deep_accepted [OF leaf] obtain u where u: "UpdateUserTree_to_public_inputs deep_poseidon zero_keccak (deep_update s) = Ok u" ..
  note dec = deep_decode [OF s(1,2) s(3) s(4,5) u] and auth = deep_authentic [OF s(5) s(3,4)]
  from deep_step_accepted [OF s(2) u dec] obtain new where
    new: "BlockStepWitness_to_public_inputs deep_poseidon accepting_vd [(2, accepting_vd)] accepting_vd accepting_vd (deep_step s u) = Ok new"
    by auto
  have comm: "state_committed deep_poseidon [] s (deep_initial s)" by (simp add: state_committed_def deep_initial_def s)
  let ?f = "incremental_leaf_fun (PublicState_poseidon_hash deep_poseidon) PublicState_empty_leaf []"
  have "append_collision_free deep_poseidon (PublicState_poseidon_hash deep_poseidon) PublicState_empty_leaf PUBLIC_STATE_TREE_HEIGHT []
      (siblings_of (two_to_one deep_poseidon) ?f 0 PUBLIC_STATE_TREE_HEIGHT 0)"
    using deep_path [of ?f "2 ^ 40" PUBLIC_STATE_TREE_HEIGHT 0] deep_leaves(2)
    by (simp add: append_collision_free_def path_pairs_def incremental_leaf_fun_def public_heights)
  then have "block_step_authentic deep_poseidon [] s (deep_update s) [] (deep_step s u)"
    using auth s(3)
    by (simp add: block_step_authentic_def deep_step_def deep_selectors deep_block_selectors public_heights upt_conv_Cons)
  moreover have "deposits_proved deep_poseidon zero_keccak accepting_vd (deep_step s u) u s []"
    using update_user_Ok(9) [of deep_poseidon zero_keccak, OF u] by (simp add: deposits_proved_def deep_selectors deep_block_selectors s)
  moreover have "size_supported s deep_block" by (simp add: size_supported_def s deep_block_selectors)
  ultimately have "\<exists>s1 s2. add_deposits deep_poseidon zero_keccak [] s = (Ok (), s1) \<and>
     add_block deep_poseidon zero_keccak 7 [10, 0] 5 (hash_bytes deep_tx_root) s1 = (Ok (), s2) \<and>
     state_committed deep_poseidon [ep_inner (deep_initial s)] s2 (bc_ext_public_state new)"
    using block_step_simulates [of deep_poseidon s zero_keccak accepting_vd "[(2, accepting_vd)]" accepting_vd accepting_vd "deep_step s u"
        new _ "[]" u "deep_update s" "[]", OF s(1) _ new deep_step_prev _ _ u] comm dec
    by (auto simp: deep_step_def deep_selectors deep_block_selectors)
  moreover have "members_at deep_poseidon s (ChannelId 7) = member_root deep_poseidon two_members"
    by (simp add: leaf) (simp add: registered_leaf_def)
  ultimately show ?thesis using s(1) new by blast
qed

end
