(* ===== verification/Withdraw.thy ===== *)
theory Withdraw
  imports Validity_Safety Balance_Steps
begin

text \<open>
  Withdrawals from the rollup (\<open>circuits/withdraw/single_withdrawal_circuit.rs\<close>,
  \<open>withdrawal_step.rs\<close>): the native witness of one withdrawal, which pays a transfer of a transaction the
  channel has deducted and posted, and the step of the chain that batches withdrawals against one public
  state. The verifiers of the recursive proofs and the check of their cyclic verifier data are parameters.
\<close>

section \<open>One withdrawal\<close>

record SingleWithdawalPublicInputs =
  swp_public_state :: PublicState
  swp_withdrawal :: Withdrawal

datatype SingleWithdawalPublicInputsError =
    SWP_InvalidLength nat nat | SWP_PublicState PublicStateError | SWP_Withdrawal

abbreviation SINGLE_WITHDRAWAL_PUBLIC_INPUTS_LEN :: nat where
  "SINGLE_WITHDRAWAL_PUBLIC_INPUTS_LEN \<equiv> PUBLIC_STATE_U64_LEN + WITHDRAWAL_LEN"

definition SingleWithdawalPublicInputs_to_u64_vec :: "SingleWithdawalPublicInputs \<Rightarrow> u64 list" where
  "SingleWithdawalPublicInputs_to_u64_vec r =
     PublicState_to_u64_vec (swp_public_state r) @ map ucast (Withdrawal_to_u32_vec (swp_withdrawal r))"

definition SingleWithdawalPublicInputs_from_u64_slice ::
  "u64 list \<Rightarrow> (SingleWithdawalPublicInputsError, SingleWithdawalPublicInputs) outcome" where
  "SingleWithdawalPublicInputs_from_u64_slice values =
     (if length values \<noteq> SINGLE_WITHDRAWAL_PUBLIC_INPUTS_LEN
      then Err (SWP_InvalidLength SINGLE_WITHDRAWAL_PUBLIC_INPUTS_LEN (length values))
      else
        and_then (map_err SWP_PublicState (PublicState_from_u64_slice (subslice 0 PUBLIC_STATE_U64_LEN values)))
          (\<lambda>public_state.
        and_then (map_err (\<lambda>_. SWP_Withdrawal) (Withdrawal_from_u64_slice
            (subslice PUBLIC_STATE_U64_LEN (PUBLIC_STATE_U64_LEN + WITHDRAWAL_LEN) values))) (\<lambda>withdrawal.
          Ok \<lparr>swp_public_state = public_state, swp_withdrawal = withdrawal\<rparr>)))"

datatype SingleWithdawalWitnessError =
    SW_BalanceProofVerification | SW_BalancePublicInputs | SW_PrivateStateCommitmentMismatch PoseidonHashOut PoseidonHashOut
  | SW_SentTxMerkleProof | SW_TxMerkleProof | SW_TxV2MerkleProof | SW_TransferWitness | SW_InvalidRecipient
  | SW_InconsistentWitness | SW_AccountState | SW_UpdatePublicState | SW_BalancePublicStateMismatch

record 'p SingleWithdawalWitness =
  sww_balance_proof :: "'p ProofWithPublicInputs"
  sww_private_state :: PrivateState
  sww_update_public_state :: UpdatePublicState
  sww_account_state :: AccountState
  sww_tx_merkle_proof :: "PoseidonHashOut MerkleProof"
  sww_tx_v2_merkle_proof :: "PoseidonHashOut MerkleProof option"
  sww_tx_v2 :: "TxV2 option"
  sww_tx :: Tx
  sww_sent_tx_merkle_proof :: "PoseidonHashOut MerkleProof"
  sww_transfer_witness :: TransferWitness

text \<open>The transaction, plain or typed, is the channel's leaf of a transaction tree.\<close>

definition check_tx_inclusion ::
  "(u64 list \<Rightarrow> PoseidonHashOut) \<Rightarrow> 'p SingleWithdawalWitness \<Rightarrow> ChannelId \<Rightarrow> PoseidonHashOut
     \<Rightarrow> (SingleWithdawalWitnessError, unit) outcome" where
  "check_tx_inclusion poseidon w channel_id tx_tree_root =
     (case (sww_tx_v2 w, sww_tx_v2_merkle_proof w) of
        (Some tx_v2, Some tx_v2_merkle_proof) \<Rightarrow>
          and_then (map_err (\<lambda>_. SW_TxV2MerkleProof)
            (MerkleProof_verify (two_to_one poseidon) (TxV2_hash poseidon) tx_v2_merkle_proof tx_v2
               (ChannelId_as_u64 channel_id) tx_tree_root)) (\<lambda>_.
          if v2_tx_class tx_v2 \<noteq> UserTransfer then Err SW_InconsistentWitness
          else if v2_channel_action_root tx_v2 \<noteq> PoseidonHashOut_default then Err SW_InconsistentWitness
          else if v2_transfer_tree_root tx_v2 \<noteq> tx_transfer_tree_root (sww_tx w) then Err SW_InconsistentWitness
          else if v2_nonce tx_v2 \<noteq> tx_nonce (sww_tx w) then Err SW_InconsistentWitness
          else Ok ())
      | (None, None) \<Rightarrow>
          map_err (\<lambda>_. SW_TxMerkleProof)
            (MerkleProof_verify (two_to_one poseidon) (Tx_hash poseidon) (sww_tx_merkle_proof w) (sww_tx w)
               (ChannelId_as_u64 channel_id) tx_tree_root)
      | _ \<Rightarrow> Err SW_InconsistentWitness)"

definition SingleWithdawalWitness_to_public_inputs ::
  "(u64 list \<Rightarrow> PoseidonHashOut) \<Rightarrow> ('p ProofWithPublicInputs \<Rightarrow> VerifierOnlyCircuitData \<Rightarrow> bool) \<Rightarrow> 'p VerifierCircuitData
     \<Rightarrow> 'p SingleWithdawalWitness \<Rightarrow> (SingleWithdawalWitnessError, SingleWithdawalPublicInputs) outcome" where
  "SingleWithdawalWitness_to_public_inputs poseidon check_cyclic balance_vd w =
     (if \<not> check_cyclic (sww_balance_proof w) (vcd_verifier_only balance_vd) then Err SW_BalanceProofVerification
      else if \<not> vcd_verify balance_vd (sww_balance_proof w) then Err SW_BalanceProofVerification
      else
        and_then (map_err (\<lambda>_. SW_BalancePublicInputs)
          (BalanceFullPublicInputs_from_u64_slice (vcd_cap_len balance_vd) (pr_public_inputs (sww_balance_proof w)))) (\<lambda>full.
        let balance_pis = fpi_pis full; channel_id = bp_channel_id balance_pis;
            actual = PrivateState_commitment poseidon (sww_private_state w); update = sww_update_public_state w;
            tx = sww_tx w; transfer_witness = sww_transfer_witness w; account = sww_account_state w in
        if bp_private_commitment balance_pis \<noteq> actual
        then Err (SW_PrivateStateCommitmentMismatch (bp_private_commitment balance_pis) actual)
        else
          and_then (map_err (\<lambda>_. SW_UpdatePublicState) (UpdatePublicState_verify poseidon update)) (\<lambda>_.
          if up_old update \<noteq> bp_public_state balance_pis then Err SW_BalancePublicStateMismatch
          else
            and_then (map_err (\<lambda>_. SW_TxMerkleProof)
              (MerkleProof_verify (two_to_one poseidon) (Tx_hash poseidon) (sww_sent_tx_merkle_proof w) tx
                 (ucast (tx_nonce tx)) (ps_sent_tx_tree_root (sww_private_state w)))) (\<lambda>_.
            if tw_transfer_tree_root transfer_witness \<noteq> tx_transfer_tree_root tx then Err SW_InconsistentWitness
            else
              and_then (map_err (\<lambda>_. SW_TransferWitness) (TransferWitness_verify poseidon transfer_witness)) (\<lambda>_.
              if as_channel_id account \<noteq> channel_id then Err SW_InconsistentWitness
              else if as_account_tree_root account \<noteq> pst_account_tree_root (up_new update) then Err SW_InconsistentWitness
              else
                and_then (map_err (\<lambda>_. SW_AccountState) (AccountState_verify poseidon account)) (\<lambda>_.
                and_then (check_tx_inclusion poseidon w channel_id
                  (reduce_to_hash_out (sl_tx_tree_root (as_send_leaf account)))) (\<lambda>_.
                let transfer = tw_transfer transfer_witness in
                and_then (map_err (\<lambda>_. SW_InvalidRecipient) (extract_address_from_recipient (tr_recipient transfer)))
                  (\<lambda>recipient.
                and_then (SettledTransfer_nullifier poseidon \<lparr>st_inner = transfer, st_from = channel_id,
                    st_transfer_index = tw_transfer_index transfer_witness, st_nonce = tx_nonce tx\<rparr>) (\<lambda>nullifier.
                  Ok \<lparr>swp_public_state = up_new update,
                      swp_withdrawal = \<lparr>wd_recipient = recipient, wd_token_index = tr_token_index transfer,
                        wd_amount = tr_amount transfer, wd_nullifier = nullifier, wd_aux_data = tr_aux_data transfer\<rparr>\<rparr>)))))))))"

section \<open>Batches of withdrawals\<close>

datatype WithdrawalStepPublicInputsError =
    WSP_InvalidLength nat nat | WSP_WithdrawalHash | WSP_VerifierData | WSP_PublicState

record WithdrawalStepPublicInputs =
  wsp_withdrawal_hash_chain :: Bytes32
  wsp_public_state :: PublicState
  wsp_vd :: VerifierOnlyCircuitData

definition WithdrawalStepPublicInputs_to_u64_vec :: "nat \<Rightarrow> WithdrawalStepPublicInputs \<Rightarrow> ('e, u64 list) outcome" where
  "WithdrawalStepPublicInputs_to_u64_vec cap_len p =
     and_then (vd_to_vec cap_len (wsp_vd p)) (\<lambda>vd.
       Ok (to_u64_vec Bytes32_to_u32_vec (wsp_withdrawal_hash_chain p) @ PublicState_to_u64_vec (wsp_public_state p) @ vd))"

definition WithdrawalStepPublicInputs_from_u64_slice ::
  "nat \<Rightarrow> u64 list \<Rightarrow> (WithdrawalStepPublicInputsError, WithdrawalStepPublicInputs) outcome" where
  "WithdrawalStepPublicInputs_from_u64_slice cap_len inputs =
     (let vd_len = vd_vec_len cap_len; expected = 8 + PUBLIC_STATE_U64_LEN + vd_len in
      if length inputs \<noteq> expected then Err (WSP_InvalidLength expected (length inputs))
      else
        and_then (map_err (\<lambda>_. WSP_WithdrawalHash) (from_u64_slice Bytes32_from_u32_slice (subslice 0 8 inputs)))
          (\<lambda>withdrawal_hash_chain.
        and_then (map_err (\<lambda>_. WSP_PublicState)
          (PublicState_from_u64_slice (subslice 8 (8 + PUBLIC_STATE_U64_LEN) inputs))) (\<lambda>public_state.
        and_then (map_err (\<lambda>_. WSP_VerifierData) (vd_from_pis_slice cap_len
            (map from_canonical_u64 (subslice (8 + PUBLIC_STATE_U64_LEN) (8 + PUBLIC_STATE_U64_LEN + vd_len) inputs)))) (\<lambda>vd.
          Ok \<lparr>wsp_withdrawal_hash_chain = withdrawal_hash_chain, wsp_public_state = public_state, wsp_vd = vd\<rparr>))))"

datatype WithdrawalStepError =
    WS_InvalidInput | WS_InvalidProof | WS_FailedToProve | WS_UpdatePublicState UpdatePublicStateError
  | WS_PublicInputs WithdrawalStepPublicInputsError | WS_SingleWithdrawalPublicInputs

record 'p WithdrawalStepWitness =
  wsw_prev_withdrawal_chain_proof :: "'p ProofWithPublicInputs option"
  wsw_single_withdrawal_proof :: "'p ProofWithPublicInputs"
  wsw_update_public_state :: UpdatePublicState

definition WithdrawalStepWitness_to_public_inputs ::
  "(u64 list \<Rightarrow> PoseidonHashOut) \<Rightarrow> (u32 list \<Rightarrow> u32 list) \<Rightarrow> 'p VerifierCircuitData \<Rightarrow> 'p VerifierCircuitData
     \<Rightarrow> 'p WithdrawalStepWitness \<Rightarrow> (WithdrawalStepError, WithdrawalStepPublicInputs) outcome" where
  "WithdrawalStepWitness_to_public_inputs poseidon keccak withdrawal_chain_vd single_withdrawal_vd w =
     (let update = wsw_update_public_state w; single = wsw_single_withdrawal_proof w in
      and_then (map_err WS_UpdatePublicState (UpdatePublicState_verify poseidon update)) (\<lambda>_.
      if \<not> vcd_verify single_withdrawal_vd single then Err WS_InvalidProof
      else if length (pr_public_inputs single) < SINGLE_WITHDRAWAL_PUBLIC_INPUTS_LEN then Panic
      else
        and_then (map_err (\<lambda>_. WS_SingleWithdrawalPublicInputs) (SingleWithdawalPublicInputs_from_u64_slice
          (take SINGLE_WITHDRAWAL_PUBLIC_INPUTS_LEN (pr_public_inputs single)))) (\<lambda>single_inputs.
        if swp_public_state single_inputs \<noteq> up_old update then Err WS_InvalidInput
        else
          and_then (case wsw_prev_withdrawal_chain_proof w of
              None \<Rightarrow> Ok Bytes32_default
            | Some prev_proof \<Rightarrow>
                if \<not> vcd_verify withdrawal_chain_vd prev_proof then Err WS_InvalidProof
                else
                  and_then (map_err WS_PublicInputs (WithdrawalStepPublicInputs_from_u64_slice
                    (vcd_cap_len withdrawal_chain_vd) (pr_public_inputs prev_proof))) (\<lambda>prev_inputs.
                  if wsp_public_state prev_inputs \<noteq> up_new update then Err WS_InvalidInput
                  else Ok (wsp_withdrawal_hash_chain prev_inputs))) (\<lambda>prev_hash.
          and_then (Withdrawal_hash_with_prev_hash keccak (swp_withdrawal single_inputs) prev_hash) (\<lambda>withdrawal_hash_chain.
            Ok \<lparr>wsp_withdrawal_hash_chain = withdrawal_hash_chain, wsp_public_state = up_new update,
                wsp_vd = vcd_verifier_only withdrawal_chain_vd\<rparr>)))))"

section \<open>A withdrawal pays a posted transfer\<close>

lemma single_withdrawal_Ok:
  assumes "SingleWithdawalWitness_to_public_inputs P check vd w = Ok r"
    and "BalanceFullPublicInputs_from_u64_slice (vcd_cap_len vd) (pr_public_inputs (sww_balance_proof w)) = Ok full"
  shows "bp_private_commitment (fpi_pis full) = PrivateState_commitment P (sww_private_state w)"
    "MerkleProof_verify (two_to_one P) (Tx_hash P) (sww_sent_tx_merkle_proof w) (sww_tx w)
       (ucast (tx_nonce (sww_tx w))) (ps_sent_tx_tree_root (sww_private_state w)) = Ok ()"
    "tw_transfer_tree_root (sww_transfer_witness w) = tx_transfer_tree_root (sww_tx w)"
    "TransferWitness_verify P (sww_transfer_witness w) = Ok ()"
    "as_channel_id (sww_account_state w) = bp_channel_id (fpi_pis full)"
    "as_account_tree_root (sww_account_state w) = pst_account_tree_root (up_new (sww_update_public_state w))"
    "AccountState_verify P (sww_account_state w) = Ok ()"
    "check_tx_inclusion P w (bp_channel_id (fpi_pis full))
       (reduce_to_hash_out (sl_tx_tree_root (as_send_leaf (sww_account_state w)))) = Ok ()"
    "extract_address_from_recipient (tr_recipient (tw_transfer (sww_transfer_witness w))) = Ok (wd_recipient (swp_withdrawal r))"
    "SettledTransfer_nullifier P \<lparr>st_inner = tw_transfer (sww_transfer_witness w), st_from = bp_channel_id (fpi_pis full),
       st_transfer_index = tw_transfer_index (sww_transfer_witness w), st_nonce = tx_nonce (sww_tx w)\<rparr> =
       (Ok (wd_nullifier (swp_withdrawal r)) :: (SingleWithdawalWitnessError, _) outcome)"
    "swp_public_state r = up_new (sww_update_public_state w)"
    "wd_token_index (swp_withdrawal r) = tr_token_index (tw_transfer (sww_transfer_witness w))"
    "wd_amount (swp_withdrawal r) = tr_amount (tw_transfer (sww_transfer_witness w))"
    "wd_aux_data (swp_withdrawal r) = tr_aux_data (tw_transfer (sww_transfer_witness w))"
  using assms by (auto simp: SingleWithdawalWitness_to_public_inputs_def Let_def split: if_splits)

text \<open>Shapes the circuit fixes, and absence of collisions along the paths of the witness.\<close>

definition withdrawal_shape :: "'p SingleWithdawalWitness \<Rightarrow> bool" where
  "withdrawal_shape w \<longleftrightarrow> account_shape (sww_account_state w) \<and>
     length (sww_sent_tx_merkle_proof w) = SENT_TX_TREE_HEIGHT \<and>
     length (tw_transfer_merkle_proof (sww_transfer_witness w)) = TRANSFER_TREE_HEIGHT \<and>
     length (sww_tx_merkle_proof w) = TX_TREE_HEIGHT \<and>
     (case sww_tx_v2_merkle_proof w of None \<Rightarrow> True | Some p \<Rightarrow> length p = TX_TREE_HEIGHT)"

definition withdrawal_collision_free ::
  "(u64 list \<Rightarrow> PoseidonHashOut) \<Rightarrow> FullPublicState \<Rightarrow> FullPrivateState \<Rightarrow> 'p SingleWithdawalWitness \<Rightarrow> bool" where
  "withdrawal_collision_free P s fs w \<longleftrightarrow>
     account_collision_free P s (sww_account_state w) \<and>
     inj_on (PrivateState_commitment P) {private_state_of P fs, sww_private_state w} \<and>
     (let n = unat (tx_nonce (sww_tx w)); H = two_to_one P in
      inj_on (case_prod H) (hashed_pairs H n (Tx_hash P (sww_tx w)) (sww_sent_tx_merkle_proof w) \<union>
        path_pairs H (\<lambda>i. Tx_hash P (full_sent fs i)) SENT_TX_TREE_HEIGHT n) \<and>
      inj_on (Tx_hash P) {sww_tx w, full_sent fs n})"

text \<open>
  The two roots the witness opens, that of the transfers of its transaction and that of the transactions of the
  block, are not zero. Zero is the value of both in an empty leaf, so a path that hashed to it would open a
  transaction that was never sent or a block that was never posted.
\<close>

definition opened_roots_nonzero :: "(u64 list \<Rightarrow> PoseidonHashOut) \<Rightarrow> 'p SingleWithdawalWitness \<Rightarrow> bool" where
  "opened_roots_nonzero P w \<longleftrightarrow>
     (let H = two_to_one P; c = unat (ChannelId_as_u64 (as_channel_id (sww_account_state w))); t = sww_transfer_witness w in
      root_of H (unat (tw_transfer_index t)) (Transfer_poseidon_hash P (tw_transfer t)) (tw_transfer_merkle_proof t) \<noteq>
        PoseidonHashOut_default \<and>
      (case (sww_tx_v2 w, sww_tx_v2_merkle_proof w) of
         (Some tx, Some p) \<Rightarrow> root_of H c (TxV2_hash P tx) p \<noteq> PoseidonHashOut_default
       | _ \<Rightarrow> root_of H c (Tx_hash P (sww_tx w)) (sww_tx_merkle_proof w) \<noteq> PoseidonHashOut_default))"

lemma verify_root:
  assumes "MerkleProof_verify H leaf_hash p leaf i root = Ok ()" "length p \<le> 64"
  shows "root_of H (unat i) (leaf_hash leaf) p = root"
  using assms by (simp add: MerkleProof_verify_Ok_iff)

lemma posted_root_nonzero:
  assumes "check_tx_inclusion P w c root = Ok ()" "as_channel_id (sww_account_state w) = c" "withdrawal_shape w"
    "opened_roots_nonzero P w"
  shows "root \<noteq> PoseidonHashOut_default"
  using assms
  by (auto simp: check_tx_inclusion_def opened_roots_nonzero_def withdrawal_shape_def public_heights Let_def
      dest!: verify_root split: option.splits if_splits)

lemma single_withdrawal_deducted:
  assumes ok: "SingleWithdawalWitness_to_public_inputs P check vd w = Ok r"
    and full: "BalanceFullPublicInputs_from_u64_slice (vcd_cap_len vd) (pr_public_inputs (sww_balance_proof w)) = Ok full"
    and fs: "full_inv P fs" "bp_private_commitment (fpi_pis full) = PrivateState_commitment P (private_state_of P fs)"
    and shape: "withdrawal_shape w" and coll: "withdrawal_collision_free P s fs w"
    and nonzero: "opened_roots_nonzero P w"
  shows "unat (tx_nonce (sww_tx w)) < length (i_leaves (fs_sent_tx_tree fs)) \<and>
    i_leaves (fs_sent_tx_tree fs) ! unat (tx_nonce (sww_tx w)) = sww_tx w"
proof -
  note w = single_withdrawal_Ok [OF ok full]
  have "sww_private_state w = private_state_of P fs"
    using coll w(1) fs(2) by (auto simp: withdrawal_collision_free_def dest: inj_onD)
  then have "ps_sent_tx_tree_root (sww_private_state w) = sent_root P (full_sent fs)"
    using full_commits [OF fs(1)] by (simp add: commits_def)
  with w(2) sent_proof_authentic [of P "sww_sent_tx_merkle_proof w" "sww_tx w" "tx_nonce (sww_tx w)" "full_sent fs"] shape coll
  have sent: "full_sent fs (unat (tx_nonce (sww_tx w))) = sww_tx w"
    by (simp add: withdrawal_shape_def withdrawal_collision_free_def Let_def)
  from w(3,4) nonzero have "tx_transfer_tree_root (sww_tx w) \<noteq> PoseidonHashOut_default"
    using shape by (auto simp: TransferWitness_verify_def opened_roots_nonzero_def withdrawal_shape_def TRANSFER_TREE_HEIGHT_def
        Let_def dest!: verify_root)
  then have "sww_tx w \<noteq> Tx_empty_leaf" by (auto simp: Tx_empty_leaf_def)
  with sent show ?thesis by (auto simp: full_sent_def Let_def split: if_splits)
qed

section \<open>A batch pays against the history of one state\<close>

text \<open>
  The single withdrawals a chain proof batches, each with the update that ties its public state to the one of
  the batch: every step that was accepted on the public inputs of the previous one, from the first.
\<close>

definition step_single_inputs :: "'p WithdrawalStepWitness \<Rightarrow> (SingleWithdawalPublicInputsError, SingleWithdawalPublicInputs) outcome" where
  "step_single_inputs w = SingleWithdawalPublicInputs_from_u64_slice
     (take SINGLE_WITHDRAWAL_PUBLIC_INPUTS_LEN (pr_public_inputs (wsw_single_withdrawal_proof w)))"

inductive withdrawal_chain ::
  "(u64 list \<Rightarrow> PoseidonHashOut) \<Rightarrow> (u32 list \<Rightarrow> u32 list) \<Rightarrow> 'p VerifierCircuitData \<Rightarrow> 'p VerifierCircuitData
     \<Rightarrow> (SingleWithdawalPublicInputs \<times> UpdatePublicState) list \<Rightarrow> WithdrawalStepPublicInputs \<Rightarrow> bool"
  for P keccak chain_vd single_vd where
  first: "WithdrawalStepWitness_to_public_inputs P keccak chain_vd single_vd w = Ok new \<Longrightarrow> step_single_inputs w = Ok r \<Longrightarrow>
    wsw_prev_withdrawal_chain_proof w = None \<Longrightarrow>
    withdrawal_chain P keccak chain_vd single_vd [(r, wsw_update_public_state w)] new"
| further: "withdrawal_chain P keccak chain_vd single_vd rs prev \<Longrightarrow>
    WithdrawalStepWitness_to_public_inputs P keccak chain_vd single_vd w = Ok new \<Longrightarrow> step_single_inputs w = Ok r \<Longrightarrow>
    wsw_prev_withdrawal_chain_proof w = Some p \<Longrightarrow>
    WithdrawalStepPublicInputs_from_u64_slice (vcd_cap_len chain_vd) (pr_public_inputs p) = Ok prev \<Longrightarrow>
    withdrawal_chain P keccak chain_vd single_vd (rs @ [(r, wsw_update_public_state w)]) new"

definition withdrawal_hashes ::
  "(u32 list \<Rightarrow> u32 list) \<Rightarrow> (SingleWithdawalPublicInputs \<times> UpdatePublicState) list \<Rightarrow> (WithdrawalStepError, Bytes32) outcome" where
  "withdrawal_hashes keccak rs =
     try_fold (\<lambda>h (r, _). Withdrawal_hash_with_prev_hash keccak (swp_withdrawal r) h) Bytes32_default rs"

lemma withdrawal_step_Ok:
  assumes "WithdrawalStepWitness_to_public_inputs P keccak chain_vd single_vd w = Ok new" "step_single_inputs w = Ok r"
  shows "UpdatePublicState_verify P (wsw_update_public_state w) = Ok ()"
    "swp_public_state r = up_old (wsw_update_public_state w)" "wsp_public_state new = up_new (wsw_update_public_state w)"
    "wsw_prev_withdrawal_chain_proof w = None \<Longrightarrow>
       Withdrawal_hash_with_prev_hash keccak (swp_withdrawal r) Bytes32_default =
         (Ok (wsp_withdrawal_hash_chain new) :: (WithdrawalStepError, _) outcome)"
    "wsw_prev_withdrawal_chain_proof w = Some p \<Longrightarrow>
       WithdrawalStepPublicInputs_from_u64_slice (vcd_cap_len chain_vd) (pr_public_inputs p) = Ok prev \<Longrightarrow>
       wsp_public_state prev = wsp_public_state new \<and>
       Withdrawal_hash_with_prev_hash keccak (swp_withdrawal r) (wsp_withdrawal_hash_chain prev) =
         (Ok (wsp_withdrawal_hash_chain new) :: (WithdrawalStepError, _) outcome)"
  using assms
  by (auto simp: WithdrawalStepWitness_to_public_inputs_def step_single_inputs_def Let_def split: if_splits option.splits)

lemma step_single_valid: "step_single_inputs w = Ok r \<Longrightarrow> PublicState_valid (swp_public_state r)"
  by (auto simp: step_single_inputs_def SingleWithdawalPublicInputs_from_u64_slice_def PublicState_from_u64_slice_Ok_iff
      split: if_splits)

lemma withdrawal_chain_Ok:
  assumes "withdrawal_chain P keccak chain_vd single_vd rs new"
  shows "withdrawal_hashes keccak rs = Ok (wsp_withdrawal_hash_chain new) \<and>
    (\<forall>(r, u) \<in> set rs. UpdatePublicState_verify P u = Ok () \<and> up_old u = swp_public_state r \<and>
       up_new u = wsp_public_state new \<and> PublicState_valid (swp_public_state r))"
  using assms
proof induction
  case (first w new r)
  note w = withdrawal_step_Ok [OF first(1,2)]
  show ?case using w(1-3) w(4) [OF first(3)] step_single_valid [OF first(2)] by (simp add: withdrawal_hashes_def)
next
  case (further rs prev w new r p)
  note w = withdrawal_step_Ok [OF further(2,3)]
  show ?case
    using further.IH w(1-3) w(5) [OF further(4,5)] step_single_valid [OF further(3)]
    by (auto simp: withdrawal_hashes_def try_fold_append)
qed

text \<open>The states a public state's history tree commits to, and the proofs into it.\<close>

definition history_collision_free :: "(u64 list \<Rightarrow> PoseidonHashOut) \<Rightarrow> FullPublicState \<Rightarrow> UpdatePublicState \<Rightarrow> bool" where
  "history_collision_free P s u \<longleftrightarrow>
     (let H = two_to_one P; old = up_old u; i = unat (as_u64 (pst_block_number old)); ls = i_leaves (fp_public_state_tree s) in
      length (up_merkle_proof u) = PUBLIC_STATE_TREE_HEIGHT \<and>
      inj_on (case_prod H) (hashed_pairs H i (PublicState_poseidon_hash P old) (up_merkle_proof u) \<union>
        path_pairs H (incremental_leaf_fun (PublicState_poseidon_hash P) PublicState_empty_leaf ls) PUBLIC_STATE_TREE_HEIGHT i) \<and>
      inj_on (PublicState_poseidon_hash P) {old, if i < length ls then ls ! i else PublicState_empty_leaf})"

lemma update_authentic:
  assumes inv: "public_inv P s" and blocks: "fp_block_number s \<noteq> U63 0" and new: "up_new u = public_state_of P s"
    and ok: "UpdatePublicState_verify P u = Ok ()" and valid: "PublicState_valid (up_old u)"
    and coll: "up_old u = up_new u \<or> history_collision_free P s u"
  shows "up_old u = public_state_of P s \<or> up_old u \<in> set (i_leaves (fp_public_state_tree s))"
proof (cases "up_old u = up_new u")
  case False
  let ?H = "two_to_one P" and ?i = "as_u64 (pst_block_number (up_old u))" and ?ls = "i_leaves (fp_public_state_tree s)"
  let ?f = "incremental_leaf_fun (PublicState_poseidon_hash P) PublicState_empty_leaf ?ls"
  let ?leaf = "if unat ?i < length ?ls then ?ls ! unat ?i else PublicState_empty_leaf"
  have len: "length (up_merkle_proof u) = PUBLIC_STATE_TREE_HEIGHT" using coll False by (simp add: history_collision_free_def Let_def)
  have "unat ?i < 2 ^ PUBLIC_STATE_TREE_HEIGHT"
    using valid by (simp add: PublicState_valid_def U63_valid_unat public_heights)
  moreover have "MerkleProof_get_root ?H (PublicState_poseidon_hash P) (up_merkle_proof u) (up_old u) ?i =
      (Ok (node ?H ?f PUBLIC_STATE_TREE_HEIGHT 0) :: (UpdatePublicStateError, _) outcome)"
    using ok False new by (auto simp: UpdatePublicState_verify_def public_state_of_def list_root_def split: if_splits)
  ultimately have "MerkleProof_verify ?H (PublicState_poseidon_hash P) (up_merkle_proof u) (up_old u) ?i
      (node ?H ?f PUBLIC_STATE_TREE_HEIGHT 0) = Ok ()"
    using len by (simp add: MerkleProof_verify_Ok_iff MerkleProof_get_root_root_of public_heights)
  from proof_authentic [OF _ len this] coll False
  have "PublicState_poseidon_hash P (up_old u) = PublicState_poseidon_hash P ?leaf"
    by (simp add: history_collision_free_def Let_def public_heights incremental_leaf_fun_def split: if_splits)
  then have old: "up_old u = ?leaf" using coll False by (auto simp: history_collision_free_def Let_def dest: inj_onD)
  have "0 < length ?ls" using inv blocks by (cases "fp_block_number s") (auto simp: public_inv_def history_inv_def unat_gt_0)
  then have "unat ?i < length ?ls" using old by (auto simp: PublicState_empty_leaf_def split: if_splits)
  with old show ?thesis by (metis nth_mem)
qed (simp add: new)

lemma history_of_states:
  assumes "public_reachable P keccak s" "\<And>xs. length (keccak xs) = 8" "st \<in> set (i_leaves (fp_public_state_tree s))"
  shows "\<exists>s0. public_reachable P keccak s0 \<and> (public_step P keccak)\<^sup>*\<^sup>* s0 s \<and> st = public_state_of P s0"
proof -
  from assms(3) obtain i where i: "i < length (i_leaves (fp_public_state_tree s))" "st = i_leaves (fp_public_state_tree s) ! i"
    by (auto simp: in_set_conv_nth)
  from history_leaf [of P keccak, OF assms(1,2) i(1)] i(2) obtain s0 s1 where
    s0: "public_reachable P keccak s0" "block_added P keccak s0 s1" "(public_step P keccak)\<^sup>*\<^sup>* s1 s" "st = public_state_of P s0"
    by blast
  from s0(2) have "public_step P keccak s0 s1" by (auto simp: block_added_def intro: public_step.block)
  with s0 converse_rtranclp_into_rtranclp [of "public_step P keccak"] show ?thesis by metis
qed

section \<open>An example withdrawal\<close>

text \<open>Channel 7 has posted one transaction in the first block; the hash has a single non-zero value.\<close>

definition one_hash :: PoseidonHashOut where
  "one_hash = hash_out_of_list [1, 0, 0, 0]"

abbreviation one_poseidon :: "u64 list \<Rightarrow> PoseidonHashOut" where
  "one_poseidon \<equiv> \<lambda>_. one_hash"

lemma one_hashes:
  "two_to_one one_poseidon = (\<lambda>_ _. one_hash)" "SendLeaf_hash one_poseidon l = one_hash"
  "ChannelLeaf_hash one_poseidon cl = one_hash" "Deposit_poseidon_hash one_poseidon d = one_hash"
  "TxV2_hash one_poseidon tx = one_hash" "MemberLeaf_hash one_poseidon ml = one_hash"
  "PublicState_poseidon_hash one_poseidon st = one_hash" "hash_inputs_u64 one_poseidon xs = one_hash"
  "list_chain_step one_poseidon a b = one_hash" "agg_list_leaf one_poseidon m c pd = one_hash"
  by (simp_all add: fun_eq_iff two_to_one_def hash_inputs_u64_def SendLeaf_hash_def ChannelLeaf_hash_def Deposit_poseidon_hash_def
      TxV2_hash_def MemberLeaf_hash_def PublicState_poseidon_hash_def hash_inputs_u32_def list_chain_step_def agg_list_leaf_def)

lemma one_verify:
  assumes "n \<le> 64" "unat i < 2 ^ n" "leaf_hash leaf = one_hash"
  shows "MerkleProof_verify (\<lambda>_ _. one_hash) leaf_hash (replicate n one_hash) leaf i one_hash = Ok ()"
    "MerkleProof_get_root (\<lambda>_ _. one_hash) leaf_hash (replicate n one_hash) leaf i = Ok one_hash"
  using assms by (simp_all add: MerkleProof_verify_Ok_iff MerkleProof_get_root_root_of root_of_const)

lemma one_paths:
  assumes "\<And>i. f i = one_hash"
  shows "inj_on g (hashed_pairs (\<lambda>_ _. one_hash) i one_hash (replicate n one_hash) \<union> path_pairs (\<lambda>_ _. one_hash) f m j)"
  by (rule inj_on_hashed_const [of _ "(one_hash, one_hash)"], rule Un_least [OF hashed_pairs_const path_pairs_const [of f, OF assms]])

lemma one_list_root: "(\<And>l. leaf_hash l = one_hash) \<Longrightarrow> list_root one_poseidon leaf_hash e n ls = one_hash"
  by (simp add: list_root_def one_hashes node_const incremental_leaf_fun_def)

lemma one_hash_facts:
  "one_hash \<noteq> PoseidonHashOut_default" "reduce_to_hash_out (hash_bytes one_hash) = one_hash" "hash_bytes one_hash \<noteq> Bytes32_default"
proof -
  show "one_hash \<noteq> PoseidonHashOut_default" by (simp add: one_hash_def) code_simp
  moreover have red: "reduce_to_hash_out (hash_bytes h) = h" for h
    using Bytes32_from_hash_out_value [of h, where 'a = unit] by (simp add: Bytes32_from_hash_out_Ok_iff)
  moreover have "reduce_to_hash_out Bytes32_default = PoseidonHashOut_default" by code_simp
  ultimately show "hash_bytes one_hash \<noteq> Bytes32_default" by metis
  show "reduce_to_hash_out (hash_bytes one_hash) = one_hash" by (rule red)
qed

lemma example_genesis:
  "\<exists>s. public_reachable one_poseidon zero_keccak s \<and> fp_block_number s = U63 0 \<and> fp_supported_user_counts s = [2] \<and>
     (\<forall>c. send_leaves_of s c = [] \<and> channel_leaf_at one_poseidon s c = empty_channel_leaf one_poseidon) \<and>
     fp_deposits s = [] \<and> fp_block_hash_chain s = Bytes32_default \<and>
     fp_deposit_hash_chain s = Bytes32_default \<and> fp_channel_reg_hash_chain s = Bytes32_default"
proof -
  obtain s where s: "FullPublicState_new one_poseidon [2] = (Ok s :: (unit, _) outcome)"
    by (auto simp: FullPublicState_new_def ChannelTree_init_def)
  then have "channel_leaf_at one_poseidon s c = empty_channel_leaf one_poseidon" for c
    by (auto simp: FullPublicState_new_def ChannelTree_init_def channel_leaf_at_def Sparse_get_leaf_def Sparse_new_def)
  with s show ?thesis
    by (intro exI [of _ s]) (auto simp: FullPublicState_new_def ChannelTree_init_def send_leaves_of_def intro: public_reachable.init)
qed

lemma one_roots:
  "pst_account_tree_root (public_state_of one_poseidon s) = one_hash" "node (two_to_one one_poseidon) (next_accounts one_poseidon t s) n 0 = one_hash"
  "pst_deposit_tree_root (public_state_of one_poseidon s) = one_hash"
  "append_collision_free one_poseidon (SendLeaf_hash one_poseidon) SendLeaf_empty_leaf n ls (replicate n one_hash)"
  "append_collision_free one_poseidon (PublicState_poseidon_hash one_poseidon) PublicState_empty_leaf n hs (replicate n one_hash)"
  by (simp_all add: public_state_of_def one_hashes node_const sparse_leaf_fun_def next_accounts_def channel_leaf_fun_at
      append_collision_free_def one_paths incremental_leaf_fun_def one_list_root)

definition paid_tx :: Tx where
  "paid_tx = \<lparr>tx_transfer_tree_root = one_hash, tx_nonce = 0\<rparr>"

lemma one_tx_hashes:
  "Transfer_poseidon_hash one_poseidon tr = one_hash" "Tx_hash one_poseidon tx = one_hash"
  "PrivateState_commitment one_poseidon ps = one_hash"
  by (simp_all add: Transfer_poseidon_hash_def Tx_hash_def PrivateState_commitment_def hash_inputs_u32_def hash_inputs_u64_def)

lemma sent_private_state:
  "\<exists>fs. full_inv one_poseidon fs \<and> i_leaves (fs_sent_tx_tree fs) = [paid_tx] \<and>
     ps_sent_tx_tree_root (private_state_of one_poseidon fs) = one_hash"
proof -
  from FullPrivateState_new_inv [of one_poseidon undefined, where 'e = unit] obtain fs where inv: "full_inv one_poseidon fs" by blast
  let ?t = "SentTxTree_init one_poseidon"
  have "incremental_rep (two_to_one one_poseidon) (Tx_hash one_poseidon) Tx_empty_leaf ?t"
    "i_height ?t = SENT_TX_TREE_HEIGHT" "i_leaves ?t = []"
    by (simp_all add: SentTxTree_init_def Incremental_new_rep tree_heights) (simp add: Incremental_new_def)
  with Incremental_push_rep [of _ _ _ ?t paid_tx] obtain t where t: "i_height t = SENT_TX_TREE_HEIGHT" "i_leaves t = [paid_tx]"
    "incremental_rep (two_to_one one_poseidon) (Tx_hash one_poseidon) Tx_empty_leaf t" by fastforce
  have inv': "full_inv one_poseidon (fs\<lparr>fs_sent_tx_tree := t\<rparr>)" using inv t by (simp add: full_inv_def)
  moreover have "ps_sent_tx_tree_root (private_state_of one_poseidon (fs\<lparr>fs_sent_tx_tree := t\<rparr>)) = one_hash"
    using full_commits [OF inv'] by (simp add: commits_def sent_root_def one_hashes one_tx_hashes node_const)
  ultimately show ?thesis using t(2) by (intro exI [of _ "fs\<lparr>fs_sent_tx_tree := t\<rparr>"]) simp
qed

lemma one_account:
  assumes inv: "public_inv one_poseidon s"
  shows "\<exists>a. account_shape a \<and> account_collision_free one_poseidon s a \<and> AccountState_verify one_poseidon a = Ok () \<and>
    as_channel_id a = c \<and> as_account_tree_root a = one_hash \<and> as_send_leaf a = send_leaf_at (send_leaves_of s c) 0"
proof -
  let ?a = "\<lparr>as_channel_id = c, as_account_tree_root = one_hash, as_send_leaf = send_leaf_at (send_leaves_of s c) 0,
      as_send_leaf_index = 0, as_send_merkle_proof = replicate SEND_TREE_HEIGHT one_hash,
      as_channel_leaf = channel_leaf_at one_poseidon s c, as_user_merkle_proof = replicate CHANNEL_TREE_HEIGHT one_hash\<rparr>"
  have "account_shape ?a" by (simp add: account_shape_def)
  moreover have "account_collision_free one_poseidon s ?a"
    unfolding account_collision_free_def Let_def one_hashes
    by (simp add: one_paths incremental_leaf_fun_def sparse_leaf_fun_def one_hashes)
  moreover have "cl_send_tree_root (channel_leaf_at one_poseidon s c) = one_hash"
  proof -
    have "channel_leaf_at one_poseidon s c =
        channel_summary one_poseidon (send_leaves_of s c) (cl_member_pubkeys_root (channel_leaf_at one_poseidon s c))"
      using inv unfolding public_inv_def channels_inv_def channel_ok_def by blast
    then have "cl_send_tree_root (channel_leaf_at one_poseidon s c) = send_root one_poseidon (send_leaves_of s c)"
      by (metis channel_summary_def ChannelLeaf.select_convs(3))
    then show ?thesis by (simp add: one_list_root one_hashes)
  qed
  then have "AccountState_verify one_poseidon ?a = Ok ()"
    using channel_in_tree [of c] by (simp add: AccountState_verify_def one_hashes one_verify public_heights)
  ultimately show ?thesis by (intro exI [of _ ?a]) simp
qed

lemma one_history:
  "\<exists>s. public_reachable one_poseidon zero_keccak s \<and> fp_block_number s = U63 1 \<and>
     send_leaves_of s (ChannelId 7) = [\<lparr>sl_prev = U63 0, sl_cur = U63 1, sl_tx_tree_root = hash_bytes one_hash\<rparr>]"
proof -
  from example_genesis obtain s where s: "public_reachable one_poseidon zero_keccak s" "fp_block_number s = U63 0"
    "fp_supported_user_counts s = [2]" "send_leaves_of s (ChannelId 7) = []" by blast
  have inv: "public_inv one_poseidon s" by (rule public_reachable_inv [OF s(1)]) simp
  from add_block_run [of _ s zero_keccak "[10, 11]" 7 2 5 "hash_bytes one_hash", OF inv] s
  obtain s2 where s2: "add_block one_poseidon zero_keccak 7 [10, 11] 5 (hash_bytes one_hash) s = (Ok (), s2)"
    "unat (as_u64 (fp_block_number s2)) = 1"
    "send_leaves_of s2 (ChannelId 7) = [\<lparr>sl_prev = U63 0, sl_cur = fp_block_number s2, sl_tx_tree_root = hash_bytes one_hash\<rparr>]"
    by (fastforce simp: public_heights get_num_users_def last_send_def)
  have "fp_block_number s2 = U63 1" using s2(2) by (cases "fp_block_number s2") (simp add: word_unat_eq_iff)
  moreover have "public_reachable one_poseidon zero_keccak s2"
    using s(1) s2(1) public_reachable.step public_step.intros by metis
  ultimately show ?thesis using s2(3) by auto
qed

lemma one_proof:
  assumes "U63_valid (fp_block_number s)"
  shows "\<exists>(p :: unit ProofWithPublicInputs) full. BalanceFullPublicInputs_from_u64_slice 0 (pr_public_inputs p) = Ok full \<and>
    bp_channel_id (fpi_pis full) = ChannelId 7 \<and> bp_public_state (fpi_pis full) = public_state_of one_poseidon s \<and>
    bp_private_commitment (fpi_pis full) = one_hash"
proof -
  let ?full = "\<lparr>fpi_pis = \<lparr>bp_channel_id = ChannelId 7, bp_public_state = public_state_of one_poseidon s, bp_block_r = U63 0,
        bp_private_commitment = one_hash, bp_settled_tx_chain = Bytes32_default\<rparr>,
      fpi_vd = \<lparr>vd_circuit_digest = one_hash, vd_constants_sigmas_cap = []\<rparr>\<rparr>"
  have "canonical one_hash" by code_simp
  then obtain ws where "BalanceFullPublicInputs_from_u64_slice 0 ws = Ok ?full"
    using full_pis_round_trip [of ?full 0] assms
    by (auto simp: BalancePublicInputs_valid_def PublicState_valid_def public_state_of_def one_list_root one_hashes
        node_const sparse_leaf_fun_def U63_valid_unat)
  then show ?thesis by (intro exI [of _ "\<lparr>pr_proof = (), pr_public_inputs = ws\<rparr>"] exI [of _ ?full]) simp
qed

text \<open>
C17: a withdrawal pays a transfer the channel has deducted and posted. Let the witness be accepted against a
consistent public state, with a balance proof for the commitment of a full private state. Then the transaction is
the one this private state has sent under its nonce, a block of the channel posted a transaction tree that
contains it at the channel's index, and the transfer is in it; the withdrawal has the transfer's token, amount
and aux data, pays the address its recipient encodes, and carries the nullifier of exactly this channel, nonce
and transfer index. Hypotheses: the proofs have the heights of the circuit, the hash does not collide on the
paths of the witness, and neither of the two roots they open, of the transfers and of the posted transactions, is
zero, the value that marks empty leaves.
\<close>

theorem single_withdrawal_sound:
  assumes inv: "public_inv P s"
    and ok: "SingleWithdawalWitness_to_public_inputs P check vd w = Ok r"
    and full: "BalanceFullPublicInputs_from_u64_slice (vcd_cap_len vd) (pr_public_inputs (sww_balance_proof w)) = Ok full"
    and current: "up_new (sww_update_public_state w) = public_state_of P s"
    and fs: "full_inv P fs" "bp_private_commitment (fpi_pis full) = PrivateState_commitment P (private_state_of P fs)"
    and shape: "withdrawal_shape w" and coll: "withdrawal_collision_free P s fs w"
    and nonzero: "opened_roots_nonzero P w"
  shows "unat (tx_nonce (sww_tx w)) < length (i_leaves (fs_sent_tx_tree fs)) \<and>
    i_leaves (fs_sent_tx_tree fs) ! unat (tx_nonce (sww_tx w)) = sww_tx w \<and>
    (\<exists>l \<in> set (send_leaves_of s (bp_channel_id (fpi_pis full))). sl_cur l \<le> fp_block_number s \<and>
       check_tx_inclusion P w (bp_channel_id (fpi_pis full)) (reduce_to_hash_out (sl_tx_tree_root l)) = Ok ()) \<and>
    (\<exists>i tr. MerkleProof_verify (two_to_one P) (Transfer_poseidon_hash P) (tw_transfer_merkle_proof (sww_transfer_witness w)) tr (ucast i)
         (tx_transfer_tree_root (sww_tx w)) = Ok () \<and>
       calculate_recipient_from_address (wd_recipient (swp_withdrawal r)) = (Ok (tr_recipient tr) :: (RecipientError, _) outcome) \<and>
       wd_token_index (swp_withdrawal r) = tr_token_index tr \<and> wd_amount (swp_withdrawal r) = tr_amount tr \<and>
       wd_aux_data (swp_withdrawal r) = tr_aux_data tr \<and>
       SettledTransfer_nullifier P \<lparr>st_inner = tr, st_from = bp_channel_id (fpi_pis full), st_transfer_index = i,
         st_nonce = tx_nonce (sww_tx w)\<rparr> = (Ok (wd_nullifier (swp_withdrawal r)) :: (SingleWithdawalWitnessError, _) outcome)) \<and>
    swp_public_state r = public_state_of P s"
proof -
  let ?c = "bp_channel_id (fpi_pis full)" and ?l = "as_send_leaf (sww_account_state w)"
  note w = single_withdrawal_Ok [OF ok full]
  have "?l = send_leaf_at (send_leaves_of s ?c) (as_send_leaf_index (sww_account_state w))"
    using account_authentic(2) [OF inv _ _ w(7)] shape coll w(5,6) current
    by (simp add: withdrawal_shape_def withdrawal_collision_free_def)
  moreover have "reduce_to_hash_out (sl_tx_tree_root ?l) \<noteq> PoseidonHashOut_default" by (rule posted_root_nonzero [OF w(8,5) shape nonzero])
  moreover have "reduce_to_hash_out Bytes32_default = PoseidonHashOut_default" by code_simp
  ultimately have posted: "?l \<in> set (send_leaves_of s ?c)"
    by (auto simp: send_leaf_at_def SendLeaf_empty_leaf_def split: if_splits)
  moreover have "sl_cur ?l \<le> fp_block_number s"
    using inv posted send_chain_le_last [of "U63 0" "send_leaves_of s ?c" ?l]
    unfolding public_inv_def channels_inv_def channel_ok_def by (blast intro: order_trans)
  moreover have "MerkleProof_verify (two_to_one P) (Transfer_poseidon_hash P) (tw_transfer_merkle_proof (sww_transfer_witness w))
      (tw_transfer (sww_transfer_witness w)) (ucast (tw_transfer_index (sww_transfer_witness w))) (tx_transfer_tree_root (sww_tx w)) = Ok ()"
    using w(3,4) by (simp add: TransferWitness_verify_def)
  moreover note single_withdrawal_deducted [OF ok full fs shape coll nonzero] w(8) w(9) [unfolded extract_address_Ok_iff] w(10-14)
  ultimately show ?thesis unfolding current [symmetric]
    by (intro conjI bexI [of _ ?l] exI [of _ "tw_transfer_index (sww_transfer_witness w)"]
        exI [of _ "tw_transfer (sww_transfer_witness w)"]) blast+
qed

theorem single_withdrawal_sound_witness:
  "\<exists>s (w :: unit SingleWithdawalWitness) r. public_inv one_poseidon s \<and>
     SingleWithdawalWitness_to_public_inputs one_poseidon (\<lambda>_ _. True) accepting_vd w = Ok r \<and> tx_nonce (sww_tx w) = 0 \<and>
     (\<exists>l \<in> set (send_leaves_of s (ChannelId 7)). check_tx_inclusion one_poseidon w (ChannelId 7)
        (reduce_to_hash_out (sl_tx_tree_root l)) = Ok ()) \<and>
     swp_public_state r = public_state_of one_poseidon s"
proof -
  from one_history obtain s where s: "public_reachable one_poseidon zero_keccak s" "fp_block_number s = U63 1"
    "send_leaves_of s (ChannelId 7) = [\<lparr>sl_prev = U63 0, sl_cur = U63 1, sl_tx_tree_root = hash_bytes one_hash\<rparr>]" by blast
  have inv: "public_inv one_poseidon s" by (rule public_reachable_inv [OF s(1)]) simp
  from one_account [OF inv] obtain a where a: "account_shape a" "account_collision_free one_poseidon s a"
    "AccountState_verify one_poseidon a = Ok ()" "as_channel_id a = ChannelId 7" "as_account_tree_root a = one_hash"
    "as_send_leaf a = send_leaf_at (send_leaves_of s (ChannelId 7)) 0" by blast
  from sent_private_state obtain fs where fs: "full_inv one_poseidon fs" "i_leaves (fs_sent_tx_tree fs) = [paid_tx]"
    "ps_sent_tx_tree_root (private_state_of one_poseidon fs) = one_hash" by blast
  obtain rc where rc: "extract_address_from_recipient rc = Ok Address_default"
    using recipient_from_address_total [of Address_default, where 'e = RecipientError] extract_address_Ok_iff by metis
  let ?tr = "Transfer_empty_leaf\<lparr>tr_recipient := rc\<rparr>"
  obtain n where n: "SettledTransfer_nullifier one_poseidon \<lparr>st_inner = ?tr, st_from = ChannelId 7, st_transfer_index = 0, st_nonce = 0\<rparr> =
      (Ok n :: (SingleWithdawalWitnessError, _) outcome)"
    using Bytes32_from_hash_out_total by (auto simp: SettledTransfer_nullifier_def)
  from one_proof [of s] s(2) obtain p :: "unit ProofWithPublicInputs" and full where
    p: "BalanceFullPublicInputs_from_u64_slice 0 (pr_public_inputs p) = Ok full" "bp_channel_id (fpi_pis full) = ChannelId 7"
      "bp_public_state (fpi_pis full) = public_state_of one_poseidon s" "bp_private_commitment (fpi_pis full) = one_hash"
    by (auto simp: U63_valid_unat)
  define w where "w = \<lparr>sww_balance_proof = p, sww_private_state = private_state_of one_poseidon fs,
    sww_update_public_state = \<lparr>up_new = public_state_of one_poseidon s, up_old = public_state_of one_poseidon s, up_merkle_proof = []\<rparr>,
    sww_account_state = a, sww_tx_merkle_proof = replicate TX_TREE_HEIGHT one_hash, sww_tx_v2_merkle_proof = None, sww_tx_v2 = None,
    sww_tx = paid_tx, sww_sent_tx_merkle_proof = replicate SENT_TX_TREE_HEIGHT one_hash,
    sww_transfer_witness = \<lparr>tw_transfer_tree_root = one_hash, tw_transfer = ?tr, tw_transfer_index = 0,
      tw_transfer_merkle_proof = replicate TRANSFER_TREE_HEIGHT one_hash\<rparr>\<rparr>"
  have vd: "vcd_cap_len accepting_vd = 0" "vcd_verify accepting_vd p" by (simp_all add: accepting_vd_def)
  have included: "check_tx_inclusion one_poseidon w (ChannelId 7) (reduce_to_hash_out (sl_tx_tree_root (as_send_leaf a))) = Ok ()"
    by (simp add: check_tx_inclusion_def w_def a(6) s(3) send_leaf_at_def one_hash_facts one_hashes one_tx_hashes one_verify
        public_heights ChannelId_as_u64_def)
  have "\<exists>r. SingleWithdawalWitness_to_public_inputs one_poseidon (\<lambda>_ _. True) accepting_vd w = Ok r"
    using p fs(3) a(3,4,5) rc n included
    by (simp add: SingleWithdawalWitness_to_public_inputs_def Let_def vd w_def UpdatePublicState_verify_def one_hashes one_tx_hashes
        one_roots one_verify tree_heights TRANSFER_TREE_HEIGHT_def TransferWitness_verify_def paid_tx_def)
  then obtain r where r: "SingleWithdawalWitness_to_public_inputs one_poseidon (\<lambda>_ _. True) accepting_vd w = Ok r" by blast
  have shape: "withdrawal_shape w" using a(1) by (simp add: withdrawal_shape_def w_def)
  have free: "withdrawal_collision_free one_poseidon s fs w"
    using a(2) fs(2) by (simp add: withdrawal_collision_free_def w_def one_hashes one_tx_hashes one_paths paid_tx_def full_sent_def)
  have nonzero: "opened_roots_nonzero one_poseidon w"
    by (simp add: opened_roots_nonzero_def w_def one_hashes one_tx_hashes root_of_const one_hash_facts)
  have w: "sww_balance_proof w = p" "up_new (sww_update_public_state w) = public_state_of one_poseidon s" "tx_nonce (sww_tx w) = 0"
    by (simp_all add: w_def paid_tx_def)
  have "\<exists>l \<in> set (send_leaves_of s (ChannelId 7)). check_tx_inclusion one_poseidon w (ChannelId 7)
      (reduce_to_hash_out (sl_tx_tree_root l)) = Ok ()" "swp_public_state r = public_state_of one_poseidon s"
    using single_withdrawal_sound [OF inv r _ _ fs(1) _ shape free nonzero, of full] p vd w
    by (auto simp: one_tx_hashes)
  then show ?thesis using inv r w(3) by blast
qed

lemma single_inputs_round_trip:
  assumes "PublicState_valid (swp_public_state r)"
  shows "SingleWithdawalPublicInputs_from_u64_slice (SingleWithdawalPublicInputs_to_u64_vec r) = Ok r"
proof -
  have "Withdrawal_from_u64_slice (map ucast (Withdrawal_to_u32_vec w)) = Ok w" for w
    by (auto simp: Withdrawal_from_u64_slice_def Withdrawal_from_u32_slice_Ok_iff try_map_Ok_iff list_all2_conv_all_nth)
  moreover have "PublicState_from_u64_slice (PublicState_to_u64_vec (swp_public_state r)) = Ok (swp_public_state r)"
    using assms by (simp add: PublicState_from_u64_slice_Ok_iff)
  ultimately show ?thesis
    by (simp add: SingleWithdawalPublicInputs_from_u64_slice_def SingleWithdawalPublicInputs_to_u64_vec_def subslice_def)
qed

text \<open>
C18: a batch of withdrawals is paid against one history. Let a chain of accepted steps end in the public state of a
reachable state with at least one block. Its hash chain is the chain of exactly the batched withdrawals in
order, starting from zero, and every one of them was proved against the public state of that state or of an
earlier one of the same history, so none against a state of another history. Hypothesis: the hash does not collide on
the opened paths of the history tree.
\<close>

theorem withdrawal_chain_sound:
  assumes reach: "public_reachable P keccak s" and keccak: "\<And>xs. length (keccak xs) = 8"
    and chain: "withdrawal_chain P keccak chain_vd single_vd rs final"
    and current: "wsp_public_state final = public_state_of P s" and blocks: "fp_block_number s \<noteq> U63 0"
    and coll: "\<And>r u. (r, u) \<in> set rs \<Longrightarrow> up_old u = up_new u \<or> history_collision_free P s u"
  shows "withdrawal_hashes keccak rs = Ok (wsp_withdrawal_hash_chain final) \<and>
    (\<forall>(r, u) \<in> set rs. \<exists>s0. public_reachable P keccak s0 \<and> (public_step P keccak)\<^sup>*\<^sup>* s0 s \<and> swp_public_state r = public_state_of P s0)"
proof -
  have inv: "public_inv P s" using public_reachable_inv [of P keccak, OF reach keccak] .
  have "\<exists>s0. public_reachable P keccak s0 \<and> (public_step P keccak)\<^sup>*\<^sup>* s0 s \<and> swp_public_state r = public_state_of P s0"
    if ru: "(r, u) \<in> set rs" for r u
  proof -
    have u: "UpdatePublicState_verify P u = Ok ()" "up_old u = swp_public_state r" "up_new u = public_state_of P s"
      "PublicState_valid (up_old u)"
      using withdrawal_chain_Ok [OF chain] current ru by auto
    from update_authentic [OF inv blocks u(3,1,4) coll [OF ru]] show ?thesis
      using history_of_states [of P keccak s, OF reach keccak] reach u(2) by auto
  qed
  with withdrawal_chain_Ok [OF chain] show ?thesis by auto
qed

theorem withdrawal_chain_sound_witness:
  "\<exists>s rs final. public_reachable one_poseidon zero_keccak s \<and> withdrawal_chain one_poseidon zero_keccak accepting_vd accepting_vd rs final \<and>
     length rs = 1 \<and> withdrawal_hashes zero_keccak rs = Ok (wsp_withdrawal_hash_chain final) \<and>
     (\<forall>(r, u) \<in> set rs. \<exists>s0. public_reachable one_poseidon zero_keccak s0 \<and> swp_public_state r = public_state_of one_poseidon s0)"
proof -
  from one_history obtain s where s: "public_reachable one_poseidon zero_keccak s" "fp_block_number s = U63 1" by blast
  define r where "r = \<lparr>swp_public_state = public_state_of one_poseidon s,
    swp_withdrawal = \<lparr>wd_recipient = Address_default, wd_token_index = 0, wd_amount = U256_default, wd_nullifier = Bytes32_default,
      wd_aux_data = Bytes32_default\<rparr>\<rparr>"
  define w :: "unit WithdrawalStepWitness" where "w = \<lparr>wsw_prev_withdrawal_chain_proof = None,
    wsw_single_withdrawal_proof = \<lparr>pr_proof = (), pr_public_inputs = SingleWithdawalPublicInputs_to_u64_vec r\<rparr>,
    wsw_update_public_state = \<lparr>up_new = public_state_of one_poseidon s, up_old = public_state_of one_poseidon s, up_merkle_proof = []\<rparr>\<rparr>"
  have "canonical one_hash" by code_simp
  then have "PublicState_valid (public_state_of one_poseidon s)"
    using s(2) by (simp add: PublicState_valid_def public_state_of_def one_list_root one_hashes node_const sparse_leaf_fun_def U63_valid_unat)
  then have parsed: "SingleWithdawalPublicInputs_from_u64_slice (SingleWithdawalPublicInputs_to_u64_vec r) = Ok r"
    by (intro single_inputs_round_trip) (simp add: r_def)
  have len: "length (SingleWithdawalPublicInputs_to_u64_vec r) = SINGLE_WITHDRAWAL_PUBLIC_INPUTS_LEN"
    by (simp add: SingleWithdawalPublicInputs_to_u64_vec_def)
  obtain h where h: "Withdrawal_hash_with_prev_hash zero_keccak (swp_withdrawal r) Bytes32_default = (Ok h :: (WithdrawalStepError, _) outcome)"
    using bytes32.from_total [of "replicate 8 0"] by (auto simp: Withdrawal_hash_with_prev_hash_def)
  have "\<exists>new. WithdrawalStepWitness_to_public_inputs one_poseidon zero_keccak accepting_vd accepting_vd w = Ok new \<and>
      wsp_public_state new = public_state_of one_poseidon s"
    using parsed len h
    by (simp add: WithdrawalStepWitness_to_public_inputs_def Let_def w_def UpdatePublicState_verify_def accepting_vd_def)
      (simp add: r_def)
  then obtain new where new: "WithdrawalStepWitness_to_public_inputs one_poseidon zero_keccak accepting_vd accepting_vd w = Ok new"
    "wsp_public_state new = public_state_of one_poseidon s" by blast
  have chain: "withdrawal_chain one_poseidon zero_keccak accepting_vd accepting_vd [(r, wsw_update_public_state w)] new"
    using parsed len by (intro withdrawal_chain.first [OF new(1)]) (simp_all add: step_single_inputs_def w_def)
  from withdrawal_chain_sound [OF s(1) _ chain new(2)] s(2)
  have "withdrawal_hashes zero_keccak [(r, wsw_update_public_state w)] = Ok (wsp_withdrawal_hash_chain new) \<and>
    (\<exists>s0. public_reachable one_poseidon zero_keccak s0 \<and> swp_public_state r = public_state_of one_poseidon s0)"
    by (auto simp: w_def)
  with s(1) chain show ?thesis by (intro exI [of _ s] exI [of _ "[(r, wsw_update_public_state w)]"] exI [of _ new]) simp
qed

end
