(* ===== verification/Credit_Safety.thy ===== *)
theory Credit_Safety
  imports Channel
begin

text \<open>
  Range evidence for channel balances (\<open>channel_credit_safety.rs\<close>): each signer keeps, per participant
  and token, an upper bound of the hidden balance, advances it with every authenticated state and refuses a
  credit whose balance could leave the 64-bit range.

  A \<open>BTreeMap\<close> is the list of its entries in key order. Rows have the fixed length of the code's arrays, and
  \<open>checked_layout\<close> and \<open>validate_for\<close> check their number before a matrix is indexed. \<open>bounds_shape\<close> is
  the shape that bounds keep.
\<close>

section \<open>Bounds\<close>

abbreviation CREDIT_BOUNDS_SCHEMA_VERSION :: u32 where
  "CREDIT_BOUNDS_SCHEMA_VERSION \<equiv> 1"

type_synonym OwnedPlaintexts = "((nat \<times> nat) \<times> u64) list"

record ChannelCreditBounds =
  cb_schema_version :: u32
  cb_channel_id :: ChannelId
  cb_state_digest :: Bytes32
  cb_upper_bounds :: "u64 option list list"

datatype CreditSafetyError =
    UnsupportedSchema u32 | StateMismatch | InvalidLayout string | SuccessorMismatch | RegistryChanged
  | InactiveCell nat nat | UnclaimableCiphertext nat nat | InconsistentPlaintext nat nat
  | RangeEvidenceRequired nat nat

fun is_recoverable_range_error :: "CreditSafetyError \<Rightarrow> bool" where
  "is_recoverable_range_error (RangeEvidenceRequired _ _) = True"
| "is_recoverable_range_error _ = False"

definition checked_layout :: "ChannelState \<Rightarrow> (CreditSafetyError, nat \<times> nat) outcome" where
  "checked_layout state =
     (let balance = cs_balance_state state;
          active = unat (bs_member_count balance) + unat (bs_delegate_count balance);
          token_count = unat (bs_token_count balance) in
      if bs_channel_id balance \<noteq> cs_channel_id state \<or> cf_channel_id (cs_channel_fund state) \<noteq> cs_channel_id state
      then Err (InvalidLayout ''channel identifiers'')
      else if active > MAX_CHANNEL_MEMBERS \<or> active = 0 \<or> token_count = 0 \<or> token_count > MAX_CHANNEL_TOKENS
      then Err (InvalidLayout ''active participant/token count'')
      else if length (bs_enc_balances balance) \<noteq> MAX_CHANNEL_MEMBERS then Err (InvalidLayout ''ciphertext row count'')
      else Ok (active, token_count))"

definition validate_plaintext_cells :: "OwnedPlaintexts \<Rightarrow> nat \<Rightarrow> nat \<Rightarrow> (CreditSafetyError, unit) outcome" where
  "validate_plaintext_cells values active token_count =
     try_each (\<lambda>((slot, token_slot), _).
       if slot \<ge> active \<or> token_slot \<ge> token_count then Err (InactiveCell slot token_slot) else Ok ()) values"

definition U256_as_u64 :: "U256 \<Rightarrow> u64 option" where
  "U256_as_u64 value =
     (let limbs = U256_to_u32_vec value in
      if list_ex (\<lambda>limb. limb \<noteq> 0) (take 6 limbs) then None
      else Some (push_bit 32 (ucast (limbs ! 6)) OR ucast (limbs ! 7)))"

definition positive_difference_bound :: "U256 \<Rightarrow> U256 \<Rightarrow> ('e, u64 option) outcome" where
  "positive_difference_bound a b =
     (if a > b then and_then (U256_sub a b) (\<lambda>d. Ok (U256_as_u64 d)) else Ok (Some 0))"

definition add_bounds :: "u64 option \<Rightarrow> u64 option \<Rightarrow> u64 option" where
  "add_bounds a b = Option.bind a (\<lambda>x. Option.bind b (\<lambda>y. checked_add x y))"

fun tighter_bound :: "u64 option \<Rightarrow> u64 option \<Rightarrow> u64 option" where
  "tighter_bound (Some a) (Some b) = Some (min a b)"
| "tighter_bound (Some a) None = Some a"
| "tighter_bound None b = b"

definition with_owned_plaintext ::
  "u64 option \<Rightarrow> u64 option \<Rightarrow> nat \<Rightarrow> nat \<Rightarrow> (CreditSafetyError, u64 option) outcome" where
  "with_owned_plaintext bound owned slot token_slot =
     (case owned of
        Some value \<Rightarrow>
          if (case bound of Some upper \<Rightarrow> value > upper | None \<Rightarrow> False)
          then Err (InconsistentPlaintext slot token_slot) else Ok (Some value)
      | None \<Rightarrow> Ok bound)"

text \<open>The matrix of zero bounds, with the cells of the active participants and tokens overwritten.\<close>

definition pad_bounds :: "u64 option list list \<Rightarrow> u64 option list list" where
  "pad_bounds rows =
     resize MAX_CHANNEL_MEMBERS (replicate MAX_CHANNEL_TOKENS (Some 0)) (map (resize MAX_CHANNEL_TOKENS (Some 0)) rows)"

definition bootstrap :: "ChannelState \<Rightarrow> OwnedPlaintexts \<Rightarrow> (CreditSafetyError, ChannelCreditBounds) outcome" where
  "bootstrap state owned =
     and_then (checked_layout state) (\<lambda>(active, token_count).
     and_then (validate_plaintext_cells owned active token_count) (\<lambda>_.
     and_then (try_map (\<lambda>slot. try_map (\<lambda>token_slot.
         with_owned_plaintext (U256_as_u64 (cf_amounts (cs_channel_fund state) ! token_slot))
           (map_of owned (slot, token_slot)) slot token_slot) [0..<token_count]) [0..<active]) (\<lambda>rows.
       Ok \<lparr>cb_schema_version = CREDIT_BOUNDS_SCHEMA_VERSION, cb_channel_id = cs_channel_id state,
           cb_state_digest = cs_digest state, cb_upper_bounds = pad_bounds rows\<rparr>)))"

definition from_known_openings :: "ChannelState \<Rightarrow> OwnedPlaintexts \<Rightarrow> (CreditSafetyError, ChannelCreditBounds) outcome" where
  "from_known_openings state verified_openings = bootstrap state verified_openings"

definition validate_for :: "ChannelCreditBounds \<Rightarrow> ChannelState \<Rightarrow> (CreditSafetyError, unit) outcome" where
  "validate_for b state =
     and_then (checked_layout state) (\<lambda>(active, token_count).
       if cb_schema_version b \<noteq> CREDIT_BOUNDS_SCHEMA_VERSION then Err (UnsupportedSchema (cb_schema_version b))
       else if cb_channel_id b \<noteq> cs_channel_id state \<or> cb_state_digest b \<noteq> cs_digest state then Err StateMismatch
       else if length (cb_upper_bounds b) \<noteq> MAX_CHANNEL_MEMBERS then Err (InvalidLayout ''bounds row count'')
       else try_each (\<lambda>(slot, row). try_each (\<lambda>(token_slot, bound).
           if (slot \<ge> active \<or> token_slot \<ge> token_count) \<and> bound \<noteq> Some 0
           then Err (InvalidLayout ''nonzero/unknown padding bound'') else Ok ()) (enumerate 0 row))
         (enumerate 0 (cb_upper_bounds b)))"

section \<open>Advancing the bounds\<close>

text \<open>A cell has changed if its ciphertext or its key has.\<close>

definition cell_changed :: "ChannelState \<Rightarrow> ChannelState \<Rightarrow> nat \<Rightarrow> nat \<Rightarrow> bool" where
  "cell_changed prev next_state slot token_slot \<longleftrightarrow>
     bs_enc_balances (cs_balance_state prev) ! slot ! token_slot \<noteq>
       bs_enc_balances (cs_balance_state next_state) ! slot ! token_slot \<or>
     bs_regev_pk_digests (cs_balance_state prev) ! slot \<noteq> bs_regev_pk_digests (cs_balance_state next_state) ! slot"

text \<open>What the changed cells of a token can hold together.\<close>

definition credit_pool ::
  "ChannelCreditBounds \<Rightarrow> ChannelState \<Rightarrow> ChannelState \<Rightarrow> u64 option \<Rightarrow> nat \<Rightarrow> ('e, u64 option) outcome" where
  "credit_pool b prev next_state allocation token_slot =
     and_then (positive_difference_bound (cf_amounts (cs_channel_fund next_state) ! token_slot)
       (cf_amounts (cs_channel_fund prev) ! token_slot)) (\<lambda>fund_delta.
       Ok (fold (\<lambda>slot pool. if cell_changed prev next_state slot token_slot
           then add_bounds pool (cb_upper_bounds b ! slot ! token_slot) else pool)
         [0..<MAX_CHANNEL_MEMBERS] (add_bounds fund_delta allocation)))"

definition advance_cell ::
  "ChannelCreditBounds \<Rightarrow> ChannelState \<Rightarrow> ChannelState \<Rightarrow> OwnedPlaintexts \<Rightarrow> u64 option list \<Rightarrow> nat \<Rightarrow> nat
     \<Rightarrow> (CreditSafetyError, u64 option) outcome" where
  "advance_cell b prev next_state owned_next pools slot token_slot =
     (let is_changed = cell_changed prev next_state slot token_slot in
      and_then (if is_changed
          then map_err (\<lambda>_. UnclaimableCiphertext slot token_slot)
            (validate_balance_exit_shape (bs_enc_balances (cs_balance_state next_state) ! slot ! token_slot))
          else Ok ()) (\<lambda>_.
      let carried = (if is_changed then pools ! token_slot else cb_upper_bounds b ! slot ! token_slot);
          known = tighter_bound carried (U256_as_u64 (cf_amounts (cs_channel_fund next_state) ! token_slot)) in
      and_then (with_owned_plaintext known (map_of owned_next (slot, token_slot)) slot token_slot) (\<lambda>bound.
      if is_changed \<and> bound = None then Err (RangeEvidenceRequired slot token_slot) else Ok bound)))"

definition advance_authenticated ::
  "ChannelCreditBounds \<Rightarrow> ChannelState \<Rightarrow> ChannelState \<Rightarrow> OwnedPlaintexts
     \<Rightarrow> (CreditSafetyError, ChannelCreditBounds) outcome" where
  "advance_authenticated b prev next_state owned_next =
     and_then (validate_for b prev) (\<lambda>_.
     and_then (checked_layout next_state) (\<lambda>(next_active, next_tokens).
     and_then (validate_plaintext_cells owned_next next_active next_tokens) (\<lambda>_.
     if cs_channel_id next_state \<noteq> cs_channel_id prev \<or> cs_prev_digest next_state \<noteq> cs_digest prev
     then Err SuccessorMismatch
     else
       let prev_tokens = unat (bs_token_count (cs_balance_state prev)) in
       if next_tokens < prev_tokens \<or>
          take prev_tokens (bs_token_registry (cs_balance_state next_state)) \<noteq>
            take prev_tokens (bs_token_registry (cs_balance_state prev))
       then Err RegistryChanged
       else
         and_then (positive_difference_bound (cs_unallocated_confirmed_incoming prev)
           (cs_unallocated_confirmed_incoming next_state)) (\<lambda>allocation.
         and_then (try_map (credit_pool b prev next_state allocation) [0..<next_tokens]) (\<lambda>pools.
         and_then (try_map (\<lambda>slot. try_map (advance_cell b prev next_state owned_next pools slot) [0..<next_tokens])
           [0..<next_active]) (\<lambda>rows.
           Ok \<lparr>cb_schema_version = CREDIT_BOUNDS_SCHEMA_VERSION, cb_channel_id = cs_channel_id next_state,
               cb_state_digest = cs_digest next_state, cb_upper_bounds = pad_bounds rows\<rparr>))))))"

definition can_credit ::
  "ChannelCreditBounds \<Rightarrow> ChannelState \<Rightarrow> nat \<Rightarrow> nat \<Rightarrow> u64 \<Rightarrow> u64 option \<Rightarrow> (CreditSafetyError, unit) outcome" where
  "can_credit b state slot token_slot amount owned_before =
     and_then (validate_for b state) (\<lambda>_.
     and_then (checked_layout state) (\<lambda>(active, token_count).
     if slot \<ge> active \<or> token_slot \<ge> token_count then Err (InactiveCell slot token_slot)
     else
       let fund_before = U256_as_u64 (cf_amounts (cs_channel_fund state) ! token_slot) in
       and_then (with_owned_plaintext (tighter_bound (cb_upper_bounds b ! slot ! token_slot) fund_before)
         owned_before slot token_slot) (\<lambda>before.
       let after = tighter_bound (add_bounds before (Some amount)) (add_bounds fund_before (Some amount)) in
       if after = None then Err (RangeEvidenceRequired slot token_slot) else Ok ())))"

section \<open>Bounds as numbers\<close>

definition u64_bound :: "nat \<Rightarrow> u64 option" where
  "u64_bound n = (if n < 2 ^ 64 then Some (of_nat n) else None)"

text \<open>A bound holds for a value if it is unknown or not below it.\<close>

fun bound_ok :: "u64 option \<Rightarrow> nat \<Rightarrow> bool" where
  "bound_ok (Some b) n \<longleftrightarrow> n \<le> unat b"
| "bound_ok None n \<longleftrightarrow> True"

lemma U256_as_u64_value: "U256_as_u64 x = u64_bound (U256_val x)"
proof (cases x)
  case (U256 a b c d e f g h)
  let ?lo = "4294967296 * unat g + unat h"
  have lo: "?lo < 2 ^ 64" using unat_lt_u32 [of g] unat_lt_u32 [of h] by simp
  define hi where "hi = unat f + 2 ^ 32 * (unat e + 2 ^ 32 * (unat d + 2 ^ 32 * (unat c + 2 ^ 32 * (unat b + 2 ^ 32 * unat a))))"
  have val: "U256_val x = 2 ^ 64 * hi + ?lo"
    by (simp add: U256 U256_val_def limbs_val_be_def hi_def algebra_simps)
  have join: "(push_bit 32 (ucast g) OR ucast h :: u64) = of_nat ?lo"
    unfolding join_u32_add unat_join_u32 [of g h, symmetric] by simp
  show ?thesis
  proof (cases "a = 0 \<and> b = 0 \<and> c = 0 \<and> d = 0 \<and> e = 0 \<and> f = 0")
    case True
    then show ?thesis using lo join val by (simp add: U256_as_u64_def u64_bound_def U256 Let_def hi_def)
  next
    case False
    then have "0 < hi" by (auto simp: hi_def unat_gt_0)
    then have "\<not> U256_val x < 2 ^ 64" unfolding val by (cases hi) simp_all
    with False show ?thesis by (auto simp: U256_as_u64_def u64_bound_def U256 Let_def)
  qed
qed

lemma positive_difference_value: "positive_difference_bound a b = Ok (u64_bound (U256_val a - U256_val b))"
proof (cases "b < a")
  case True
  then obtain d where "U256_sub a b = (Ok d :: ('e, _) outcome)" using U256_sub_ok [of b a] by (auto simp: U256_le_val U256_less_val)
  with True show ?thesis by (auto simp: positive_difference_bound_def U256_as_u64_value)
next
  case False
  then show ?thesis by (simp add: positive_difference_bound_def U256_less_val u64_bound_def)
qed

lemma bound_ok_u64_bound: "m \<le> n \<Longrightarrow> bound_ok (u64_bound n) m"
  by (simp add: u64_bound_def unat_of_nat_u64)

lemma bound_ok_add: "bound_ok x m \<Longrightarrow> bound_ok y n \<Longrightarrow> bound_ok (add_bounds x y) (m + n)"
  by (cases x; cases y; cases "checked_add (the x) (the y)") (auto simp: add_bounds_def dest: checked_add_SomeD)

lemma bound_ok_tighter: "bound_ok x n \<Longrightarrow> bound_ok y n \<Longrightarrow> bound_ok (tighter_bound x y) n"
  by (cases x; cases y) (auto simp: min_def)

lemma tighter_bound_None_iff: "tighter_bound x y = None \<longleftrightarrow> x = None \<and> y = None"
  by (cases x; cases y) auto

lemma with_owned_plaintext_ok:
  assumes "bound_ok bound n" "\<And>v. owned = Some v \<Longrightarrow> n = unat v"
  shows "\<exists>r. with_owned_plaintext bound owned slot t = Ok r \<and> bound_ok r n \<and> (r = None \<longleftrightarrow> owned = None \<and> bound = None)"
  using assms by (cases owned; cases bound) (auto simp: with_owned_plaintext_def word_less_nat_alt)

lemma bound_ok_fold:
  assumes "\<And>slot. slot < k \<Longrightarrow> bound_ok (f slot) (m slot)" "bound_ok p n"
  shows "bound_ok (fold (\<lambda>slot pool. if c slot then add_bounds pool (f slot) else pool) [0..<k] p)
    (n + (\<Sum>slot \<in> {slot. slot < k \<and> c slot}. m slot))"
  using assms
proof (induction k)
  case (Suc k)
  have "{slot. slot < Suc k \<and> c slot} = (if c k then insert k {slot. slot < k \<and> c slot} else {slot. slot < k \<and> c slot})"
    by (auto simp: less_Suc_eq)
  moreover have "bound_ok (f k) (m k)" using Suc.prems(1) by simp
  ultimately show ?case
    using Suc.IH Suc.prems bound_ok_add [OF Suc.IH [OF _ Suc.prems(2)], of "f k" "m k"] by (auto simp: ac_simps)
qed simp

section \<open>Bounds of a state\<close>

text \<open>
  The hidden balances of a state, per participant and token, with nothing in inactive cells. Per token they
  are covered by the channel fund.
\<close>

type_synonym plaintexts = "nat \<Rightarrow> nat \<Rightarrow> nat"

definition active_count :: "ChannelState \<Rightarrow> nat" where
  "active_count s = unat (bs_member_count (cs_balance_state s)) + unat (bs_delegate_count (cs_balance_state s))"

abbreviation token_total :: "ChannelState \<Rightarrow> nat" where
  "token_total s \<equiv> unat (bs_token_count (cs_balance_state s))"

abbreviation fund_of :: "ChannelState \<Rightarrow> nat \<Rightarrow> nat" where
  "fund_of s t \<equiv> U256_val (cf_amounts (cs_channel_fund s) ! t)"

definition backed :: "ChannelState \<Rightarrow> plaintexts \<Rightarrow> bool" where
  "backed s m \<longleftrightarrow>
     (\<forall>t < token_total s. (\<Sum>slot < MAX_CHANNEL_MEMBERS. m slot t) \<le> fund_of s t) \<and>
     (\<forall>slot t. active_count s \<le> slot \<or> token_total s \<le> t \<longrightarrow> m slot t = 0)"

text \<open>
  An authenticated transition: the new balances are covered, a cell with the same ciphertext and key keeps its
  balance, and per token the balances grow by at most the growth of the fund and the decrease of the
  unallocated amount.
\<close>

definition authenticated :: "ChannelState \<Rightarrow> plaintexts \<Rightarrow> ChannelState \<Rightarrow> plaintexts \<Rightarrow> bool" where
  "authenticated s m s' m' \<longleftrightarrow> backed s' m' \<and>
     (\<forall>t < token_total s'.
        (\<forall>slot < MAX_CHANNEL_MEMBERS. \<not> cell_changed s s' slot t \<longrightarrow> m' slot t = m slot t) \<and>
        (\<Sum>slot < MAX_CHANNEL_MEMBERS. m' slot t) \<le> (\<Sum>slot < MAX_CHANNEL_MEMBERS. m slot t) +
          (fund_of s' t - fund_of s t) +
          (U256_val (cs_unallocated_confirmed_incoming s) - U256_val (cs_unallocated_confirmed_incoming s')))"

definition owned_true :: "OwnedPlaintexts \<Rightarrow> plaintexts \<Rightarrow> bool" where
  "owned_true owned m \<longleftrightarrow> list_all (\<lambda>((slot, t), v). m slot t = unat v) owned"

definition bounds_sound :: "ChannelCreditBounds \<Rightarrow> plaintexts \<Rightarrow> bool" where
  "bounds_sound b m \<longleftrightarrow>
     (\<forall>slot < MAX_CHANNEL_MEMBERS. \<forall>t < MAX_CHANNEL_TOKENS. bound_ok (cb_upper_bounds b ! slot ! t) (m slot t))"

text \<open>Shape of the matrix of bounds: fixed size, zero outside the active cells.\<close>

definition bounds_shape :: "ChannelState \<Rightarrow> u64 option list list \<Rightarrow> bool" where
  "bounds_shape s bs \<longleftrightarrow> length bs = MAX_CHANNEL_MEMBERS \<and> list_all (\<lambda>row. length row = MAX_CHANNEL_TOKENS) bs \<and>
     (\<forall>slot < MAX_CHANNEL_MEMBERS. \<forall>t < MAX_CHANNEL_TOKENS.
        active_count s \<le> slot \<or> token_total s \<le> t \<longrightarrow> bs ! slot ! t = Some 0)"

lemma checked_layout_Ok_iff:
  "checked_layout s = Ok (a, n) \<longleftrightarrow>
     bs_channel_id (cs_balance_state s) = cs_channel_id s \<and> cf_channel_id (cs_channel_fund s) = cs_channel_id s \<and>
     a = active_count s \<and> n = token_total s \<and> 0 < a \<and> a \<le> MAX_CHANNEL_MEMBERS \<and> 0 < n \<and> n \<le> MAX_CHANNEL_TOKENS \<and>
     length (bs_enc_balances (cs_balance_state s)) = MAX_CHANNEL_MEMBERS"
  by (auto simp: checked_layout_def active_count_def Let_def)

lemma validate_cells_Ok_iff:
  "validate_plaintext_cells owned a n = Ok () \<longleftrightarrow> list_all (\<lambda>((slot, t), _). slot < a \<and> t < n) owned"
  by (induction owned) (auto simp: validate_plaintext_cells_def not_le split: if_splits)

lemma owned_true_lookup: "owned_true owned m \<Longrightarrow> map_of owned (slot, t) = Some v \<Longrightarrow> m slot t = unat v"
  by (auto simp: owned_true_def list_all_iff dest!: map_of_SomeD)

lemma owned_bound:
  assumes "bound_ok bound (m slot t)" "owned_true owned m"
  shows "\<exists>r. with_owned_plaintext bound (map_of owned (slot, t)) slot t = Ok r \<and> bound_ok r (m slot t) \<and>
    (r = None \<longleftrightarrow> map_of owned (slot, t) = None \<and> bound = None)"
  by (rule with_owned_plaintext_ok [OF assms(1)]) (rule owned_true_lookup [OF assms(2)])

lemma nth_resize: "i < n \<Longrightarrow> resize n x xs ! i = (if i < length xs then xs ! i else x)"
  by (auto simp: resize_def nth_append)

lemma pad_bounds_cell:
  assumes "length rows \<le> MAX_CHANNEL_MEMBERS" "slot < MAX_CHANNEL_MEMBERS" "t < MAX_CHANNEL_TOKENS"
  shows "pad_bounds rows ! slot ! t = (if slot < length rows \<and> t < length (rows ! slot) then rows ! slot ! t else Some 0)"
  using assms by (simp add: pad_bounds_def nth_resize)

lemma cell_rows:
  assumes "try_map (\<lambda>slot. try_map (f slot) [0..<n]) [0..<a] = Ok rows"
  shows "length rows = a" "slot < a \<Longrightarrow> length (rows ! slot) = n"
    "slot < a \<Longrightarrow> t < n \<Longrightarrow> f slot t = Ok (rows ! slot ! t)"
proof -
  from assms have rows: "list_all2 (\<lambda>slot row. list_all2 (\<lambda>t y. f slot t = Ok y) [0..<n] row) [0..<a] rows"
    by (simp add: try_map_Ok_iff)
  then show len: "length rows = a" by (simp add: list_all2_lengthD [symmetric])
  assume "slot < a"
  with rows have row: "list_all2 (\<lambda>t y. f slot t = Ok y) [0..<n] (rows ! slot)"
    by (metis (no_types, lifting) add_0 diff_zero length_upt list_all2_nthD nth_upt)
  then show "length (rows ! slot) = n" by (simp add: list_all2_lengthD [symmetric])
  show "f slot t = Ok (rows ! slot ! t)" if "t < n"
    using list_all2_nthD [OF row, of t] that by simp
qed

lemma cell_rows_exist:
  assumes "\<And>slot t. slot < a \<Longrightarrow> t < n \<Longrightarrow> \<exists>y. f slot t = Ok y"
  shows "\<exists>rows. try_map (\<lambda>slot. try_map (f slot) [0..<n]) [0..<a] = Ok rows"
proof -
  from assms obtain g where g: "\<And>slot t. slot < a \<Longrightarrow> t < n \<Longrightarrow> f slot t = Ok (g slot t)" by metis
  have "try_map (f slot) [0..<n] = Ok (map (g slot) [0..<n])" if "slot < a" for slot
    using g that by (simp add: try_map_Ok_iff list_all2_conv_all_nth)
  then have "try_map (\<lambda>slot. try_map (f slot) [0..<n]) [0..<a] = Ok (map (\<lambda>slot. map (g slot) [0..<n]) [0..<a])"
    by (simp add: try_map_Ok_iff list_all2_conv_all_nth)
  then show ?thesis by blast
qed

lemma pad_bounds_shape:
  assumes "checked_layout s = Ok (a, n)" "try_map (\<lambda>slot. try_map (f slot) [0..<n]) [0..<a] = Ok rows"
  shows "bounds_shape s (pad_bounds rows)"
proof -
  note len = cell_rows(1,2) [OF assms(2)]
  have "length rows \<le> MAX_CHANNEL_MEMBERS" using assms(1) len(1) by (auto simp: checked_layout_Ok_iff)
  with assms(1) show ?thesis
    by (auto simp: bounds_shape_def pad_bounds_cell len checked_layout_Ok_iff list_all_iff)
      (auto simp: pad_bounds_def resize_def dest!: in_set_takeD)
qed

lemma validate_for_Ok_iff:
  assumes "list_all (\<lambda>row. length row = MAX_CHANNEL_TOKENS) (cb_upper_bounds b)"
  shows "validate_for b s = Ok () \<longleftrightarrow> (\<exists>a n. checked_layout s = Ok (a, n)) \<and> cb_schema_version b = CREDIT_BOUNDS_SCHEMA_VERSION \<and>
    cb_channel_id b = cs_channel_id s \<and> cb_state_digest b = cs_digest s \<and> bounds_shape s (cb_upper_bounds b)"
proof -
  let ?bs = "cb_upper_bounds b"
  have row: "length (?bs ! i) = MAX_CHANNEL_TOKENS" if "i < length ?bs" for i using assms that by (simp add: list_all_length)
  have "try_each (\<lambda>(slot, row). try_each (\<lambda>(t, bound). if (slot \<ge> a \<or> t \<ge> n) \<and> bound \<noteq> Some 0
        then Err (InvalidLayout ''nonzero/unknown padding bound'') else Ok ()) (enumerate 0 row)) (enumerate 0 ?bs) = Ok () \<longleftrightarrow>
      (\<forall>slot < length ?bs. \<forall>t < MAX_CHANNEL_TOKENS. a \<le> slot \<or> n \<le> t \<longrightarrow> ?bs ! slot ! t = Some 0)" for a n
    by (auto simp: try_each_enumerate row split: if_splits)
  then show ?thesis
    using assms by (auto simp: validate_for_def bounds_shape_def checked_layout_Ok_iff)
qed

section \<open>Soundness\<close>

text \<open>The sum over the changed cells bounds each of them.\<close>

lemma pool_covers:
  assumes auth: "authenticated s m s' m'" and t: "t < token_total s'"
    and slot: "slot < MAX_CHANNEL_MEMBERS" "cell_changed s s' slot t"
  shows "m' slot t \<le> (\<Sum>i \<in> {i. i < MAX_CHANNEL_MEMBERS \<and> cell_changed s s' i t}. m i t) + (fund_of s' t - fund_of s t) +
    (U256_val (cs_unallocated_confirmed_incoming s) - U256_val (cs_unallocated_confirmed_incoming s'))"
proof -
  let ?N = "MAX_CHANNEL_MEMBERS" and ?c = "\<lambda>i. cell_changed s s' i t"
  have split: "(\<Sum>i < ?N. f i) = sum f {i. i < ?N \<and> ?c i} + sum f {i. i < ?N \<and> \<not> ?c i}" for f :: "nat \<Rightarrow> nat"
    by (subst sum.union_disjoint [symmetric]) (auto intro!: sum.cong)
  have "sum (\<lambda>i. m' i t) {i. i < ?N \<and> \<not> ?c i} = sum (\<lambda>i. m i t) {i. i < ?N \<and> \<not> ?c i}"
    using auth t by (intro sum.cong) (auto simp: authenticated_def)
  moreover have "m' slot t \<le> sum (\<lambda>i. m' i t) {i. i < ?N \<and> ?c i}"
    using slot by (intro member_le_sum) auto
  moreover have "(\<Sum>i < ?N. m' i t) \<le> (\<Sum>i < ?N. m i t) + (fund_of s' t - fund_of s t) +
      (U256_val (cs_unallocated_confirmed_incoming s) - U256_val (cs_unallocated_confirmed_incoming s'))"
    using auth t by (simp add: authenticated_def)
  ultimately show ?thesis by (simp add: split)
qed

lemma cell_covered:
  assumes "backed s m" "t < token_total s" "slot < MAX_CHANNEL_MEMBERS"
  shows "bound_ok (U256_as_u64 (cf_amounts (cs_channel_fund s) ! t)) (m slot t)"
proof -
  have "m slot t \<le> (\<Sum>i < MAX_CHANNEL_MEMBERS. m i t)" using assms(3) by (intro member_le_sum) auto
  with assms show ?thesis by (auto simp: backed_def U256_as_u64_value intro!: bound_ok_u64_bound)
qed

lemma pad_bounds_sound:
  assumes layout: "checked_layout s = Ok (a, n)" and rows: "try_map (\<lambda>slot. try_map (f slot) [0..<n]) [0..<a] = Ok rows"
    and "backed s m" and cells: "\<And>slot t y. slot < a \<Longrightarrow> t < n \<Longrightarrow> f slot t = Ok y \<Longrightarrow> bound_ok y (m slot t)"
    and b: "cb_upper_bounds b = pad_bounds rows"
  shows "bounds_sound b m"
  unfolding bounds_sound_def b
proof (intro allI impI)
  fix slot t assume "slot < MAX_CHANNEL_MEMBERS" "t < MAX_CHANNEL_TOKENS"
  then have "pad_bounds rows ! slot ! t = (if slot < a \<and> t < n then rows ! slot ! t else Some 0)"
    using layout cell_rows(1,2) [OF rows] by (auto simp: pad_bounds_cell checked_layout_Ok_iff)
  moreover have "bound_ok (rows ! slot ! t) (m slot t)" if "slot < a" "t < n"
    using cells [OF that cell_rows(3) [OF rows that]] .
  moreover have "m slot t = 0" if "\<not> (slot < a \<and> t < n)"
    using layout \<open>backed s m\<close> that by (auto simp: backed_def checked_layout_Ok_iff not_less)
  ultimately show "bound_ok (pad_bounds rows ! slot ! t) (m slot t)" by auto
qed

text \<open>The contract of the bounds: they belong to the state and bound its balances.\<close>

definition bounds_for :: "ChannelCreditBounds \<Rightarrow> ChannelState \<Rightarrow> plaintexts \<Rightarrow> bool" where
  "bounds_for b s m \<longleftrightarrow> backed s m \<and> validate_for b s = Ok () \<and>
     list_all (\<lambda>row. length row = MAX_CHANNEL_TOKENS) (cb_upper_bounds b) \<and> bounds_sound b m"

lemma bounds_forI:
  assumes "checked_layout s = Ok (a, n)" "try_map (\<lambda>slot. try_map (f slot) [0..<n]) [0..<a] = Ok rows" "backed s m"
    "\<And>slot t y. slot < a \<Longrightarrow> t < n \<Longrightarrow> f slot t = Ok y \<Longrightarrow> bound_ok y (m slot t)"
  shows "bounds_for \<lparr>cb_schema_version = CREDIT_BOUNDS_SCHEMA_VERSION, cb_channel_id = cs_channel_id s,
    cb_state_digest = cs_digest s, cb_upper_bounds = pad_bounds rows\<rparr> s m"
proof -
  let ?b = "\<lparr>cb_schema_version = CREDIT_BOUNDS_SCHEMA_VERSION, cb_channel_id = cs_channel_id s,
    cb_state_digest = cs_digest s, cb_upper_bounds = pad_bounds rows\<rparr>"
  have shape: "bounds_shape s (cb_upper_bounds ?b)" using pad_bounds_shape [OF assms(1,2)] by simp
  then have rows: "list_all (\<lambda>row. length row = MAX_CHANNEL_TOKENS) (cb_upper_bounds ?b)" by (simp add: bounds_shape_def)
  have "bounds_sound ?b m" by (rule pad_bounds_sound [OF assms]) simp_all
  with shape rows assms(1,3) show ?thesis unfolding bounds_for_def validate_for_Ok_iff [OF rows] by simp
qed

lemma bootstrap_sound:
  assumes "bootstrap s owned = Ok b" "backed s m" "owned_true owned m"
  shows "bounds_for b s m"
proof -
  let ?f = "\<lambda>slot t. with_owned_plaintext (U256_as_u64 (cf_amounts (cs_channel_fund s) ! t)) (map_of owned (slot, t)) slot t"
  from assms(1) obtain a n rows where
    r: "checked_layout s = Ok (a, n)" "try_map (\<lambda>slot. try_map (?f slot) [0..<n]) [0..<a] = Ok rows"
      "b = \<lparr>cb_schema_version = CREDIT_BOUNDS_SCHEMA_VERSION, cb_channel_id = cs_channel_id s,
        cb_state_digest = cs_digest s, cb_upper_bounds = pad_bounds rows\<rparr>"
    by (auto simp: bootstrap_def)
  have "bound_ok y (m slot t)" if "slot < a" "t < n" "?f slot t = Ok y" for slot t y
  proof -
    have "t < token_total s" "slot < MAX_CHANNEL_MEMBERS" using that(1,2) r(1) by (auto simp: checked_layout_Ok_iff)
    from owned_bound [OF cell_covered [OF assms(2) this] assms(3)] that(3) show ?thesis by auto
  qed
  then show ?thesis unfolding r(3) by (rule bounds_forI [OF r(1,2) assms(2)])
qed

definition pool_of :: "ChannelCreditBounds \<Rightarrow> ChannelState \<Rightarrow> ChannelState \<Rightarrow> nat \<Rightarrow> u64 option" where
  "pool_of b s s' t = fold (\<lambda>slot pool. if cell_changed s s' slot t then add_bounds pool (cb_upper_bounds b ! slot ! t) else pool)
     [0..<MAX_CHANNEL_MEMBERS] (add_bounds (u64_bound (fund_of s' t - fund_of s t))
       (u64_bound (U256_val (cs_unallocated_confirmed_incoming s) - U256_val (cs_unallocated_confirmed_incoming s'))))"

lemma credit_pool_value:
  "credit_pool b s s' (u64_bound (U256_val (cs_unallocated_confirmed_incoming s) - U256_val (cs_unallocated_confirmed_incoming s'))) t =
    Ok (pool_of b s s' t)"
  by (simp add: credit_pool_def positive_difference_value pool_of_def)

lemma credit_pools:
  "try_map (credit_pool b s s' (u64_bound (U256_val (cs_unallocated_confirmed_incoming s) - U256_val (cs_unallocated_confirmed_incoming s'))))
    [0..<n] = Ok (map (pool_of b s s') [0..<n])"
  by (simp add: try_map_Ok_iff list_all2_conv_all_nth credit_pool_value)

lemma known_bound_ok:
  assumes bounds: "bounds_for b s m" and auth: "authenticated s m s' m'" and layout: "checked_layout s' = Ok (a, n)"
    and cell: "slot < a" "t < n"
  shows "bound_ok (tighter_bound (if cell_changed s s' slot t then pool_of b s s' t else cb_upper_bounds b ! slot ! t)
    (U256_as_u64 (cf_amounts (cs_channel_fund s') ! t))) (m' slot t)"
proof (rule bound_ok_tighter)
  have slot: "slot < MAX_CHANNEL_MEMBERS" "t < MAX_CHANNEL_TOKENS" "t < token_total s'"
    using layout cell by (auto simp: checked_layout_Ok_iff)
  have sound: "bound_ok (cb_upper_bounds b ! i ! t) (m i t)" if "i < MAX_CHANNEL_MEMBERS" for i
    using bounds slot(2) that by (simp add: bounds_for_def bounds_sound_def)
  show "bound_ok (U256_as_u64 (cf_amounts (cs_channel_fund s') ! t)) (m' slot t)"
    by (rule cell_covered [OF _ slot(3,1)]) (use auth in \<open>simp add: authenticated_def\<close>)
  show "bound_ok (if cell_changed s s' slot t then pool_of b s s' t else cb_upper_bounds b ! slot ! t) (m' slot t)"
  proof (cases "cell_changed s s' slot t")
    case True
    have mono: "bound_ok x i \<Longrightarrow> j \<le> i \<Longrightarrow> bound_ok x j" for x i j by (cases x) auto
    have "bound_ok (pool_of b s s' t) ((fund_of s' t - fund_of s t) +
        (U256_val (cs_unallocated_confirmed_incoming s) - U256_val (cs_unallocated_confirmed_incoming s')) +
        (\<Sum>i \<in> {i. i < MAX_CHANNEL_MEMBERS \<and> cell_changed s s' i t}. m i t))"
      unfolding pool_of_def
      by (intro bound_ok_fold bound_ok_add bound_ok_u64_bound sound) auto
    with pool_covers [OF auth slot(3,1) True] True show ?thesis by (auto elim!: mono simp: ac_simps)
  next
    case False
    then have "m' slot t = m slot t" using auth slot by (auto simp: authenticated_def)
    with False sound [OF slot(1)] show ?thesis by simp
  qed
qed

lemma advance_cell_cases:
  assumes bounds: "bounds_for b s m" and auth: "authenticated s m s' m'" and layout: "checked_layout s' = Ok (a, n)"
    and owned: "owned_true owned m'" and cell: "slot < a" "t < n"
    and pools: "pools = map (pool_of b s s') [0..<n]"
  shows "advance_cell b s s' owned pools slot t = Ok y \<Longrightarrow> bound_ok y (m' slot t) \<and> (cell_changed s s' slot t \<longrightarrow>
      y \<noteq> None \<and> validate_balance_exit_shape (bs_enc_balances (cs_balance_state s') ! slot ! t) = Ok ())"
    and "(cell_changed s s' slot t \<Longrightarrow> validate_balance_exit_shape (bs_enc_balances (cs_balance_state s') ! slot ! t) = Ok ()) \<Longrightarrow>
      fund_of s' t < 2 ^ 64 \<Longrightarrow> \<exists>y. advance_cell b s s' owned pools slot t = Ok y"
proof -
  let ?known = "tighter_bound (if cell_changed s s' slot t then pool_of b s s' t else cb_upper_bounds b ! slot ! t)
    (U256_as_u64 (cf_amounts (cs_channel_fund s') ! t))"
  have pool: "pools ! t = pool_of b s s' t" using cell by (simp add: pools)
  from owned_bound [OF known_bound_ok [OF bounds auth layout cell] owned] obtain r where
    r: "with_owned_plaintext ?known (map_of owned (slot, t)) slot t = Ok r" "bound_ok r (m' slot t)" "r = None \<Longrightarrow> ?known = None"
    by blast
  show "bound_ok y (m' slot t) \<and> (cell_changed s s' slot t \<longrightarrow>
      y \<noteq> None \<and> validate_balance_exit_shape (bs_enc_balances (cs_balance_state s') ! slot ! t) = Ok ())"
    if "advance_cell b s s' owned pools slot t = Ok y"
    using that r(1,2) by (auto simp: advance_cell_def Let_def pool split: if_splits)
  show "\<exists>y. advance_cell b s s' owned pools slot t = Ok y"
    if "cell_changed s s' slot t \<Longrightarrow> validate_balance_exit_shape (bs_enc_balances (cs_balance_state s') ! slot ! t) = Ok ()"
      "fund_of s' t < 2 ^ 64"
  proof -
    have "r \<noteq> None" using r(3) that(2) by (auto simp: tighter_bound_None_iff U256_as_u64_value u64_bound_def)
    then show ?thesis using that(1) r(1)
      by (cases "cell_changed s s' slot t") (auto simp: advance_cell_def Let_def pool simp del: and_then_Ok_iff)
  qed
qed

lemma advance_Ok:
  assumes "advance_authenticated b s s' owned = Ok b'"
  obtains a n rows where "checked_layout s' = Ok (a, n)"
    "try_map (\<lambda>slot. try_map (advance_cell b s s' owned (map (pool_of b s s') [0..<n]) slot) [0..<n]) [0..<a] = Ok rows"
    "b' = \<lparr>cb_schema_version = CREDIT_BOUNDS_SCHEMA_VERSION, cb_channel_id = cs_channel_id s',
      cb_state_digest = cs_digest s', cb_upper_bounds = pad_bounds rows\<rparr>"
  using assms that by (auto simp: advance_authenticated_def positive_difference_value credit_pools Let_def split: if_splits)

lemma advance_sound:
  assumes bounds: "bounds_for b s m" and auth: "authenticated s m s' m'" and owned: "owned_true owned m'"
    and ok: "advance_authenticated b s s' owned = Ok b'"
  shows "bounds_for b' s' m'"
    and "slot < active_count s' \<Longrightarrow> t < token_total s' \<Longrightarrow> cell_changed s s' slot t \<Longrightarrow>
      m' slot t < 2 ^ 64 \<and> validate_balance_exit_shape (bs_enc_balances (cs_balance_state s') ! slot ! t) = Ok ()"
proof -
  from ok obtain a n rows where
    r: "checked_layout s' = Ok (a, n)"
      "try_map (\<lambda>slot. try_map (advance_cell b s s' owned (map (pool_of b s s') [0..<n]) slot) [0..<n]) [0..<a] = Ok rows"
      "b' = \<lparr>cb_schema_version = CREDIT_BOUNDS_SCHEMA_VERSION, cb_channel_id = cs_channel_id s',
        cb_state_digest = cs_digest s', cb_upper_bounds = pad_bounds rows\<rparr>"
    by (rule advance_Ok)
  note cell = advance_cell_cases(1) [OF bounds auth r(1) owned _ _ refl]
  have "backed s' m'" using auth by (simp add: authenticated_def)
  then show "bounds_for b' s' m'" unfolding r(3) by (rule bounds_forI [OF r(1,2)]) (use cell in blast)
  assume "slot < active_count s'" "t < token_total s'" "cell_changed s s' slot t"
  then have in_range: "slot < a" "t < n" using r(1) by (simp_all add: checked_layout_Ok_iff)
  from cell [OF this cell_rows(3) [OF r(2) this]] \<open>cell_changed s s' slot t\<close> obtain x where
    "bound_ok (Some x) (m' slot t)" "validate_balance_exit_shape (bs_enc_balances (cs_balance_state s') ! slot ! t) = Ok ()" by auto
  then show "m' slot t < 2 ^ 64 \<and> validate_balance_exit_shape (bs_enc_balances (cs_balance_state s') ! slot ! t) = Ok ()"
    using unsigned_less [of x, where 'a = nat] by auto
qed

lemma can_credit_sound:
  assumes bounds: "bounds_for b s m" and ok: "can_credit b s slot t amount owned = Ok ()"
    and owned: "\<And>v. owned = Some v \<Longrightarrow> m slot t = unat v"
  shows "m slot t + unat amount < 2 ^ 64"
proof -
  let ?fund = "U256_as_u64 (cf_amounts (cs_channel_fund s) ! t)"
  from ok obtain before where layout: "checked_layout s = Ok (active_count s, token_total s)"
    and cell: "slot < active_count s" "t < token_total s"
    and r: "with_owned_plaintext (tighter_bound (cb_upper_bounds b ! slot ! t) ?fund) owned slot t = Ok before"
      "tighter_bound (add_bounds before (Some amount)) (add_bounds ?fund (Some amount)) \<noteq> None"
    by (auto simp: can_credit_def Let_def checked_layout_Ok_iff not_le split: if_splits)
  have slot: "slot < MAX_CHANNEL_MEMBERS" "t < MAX_CHANNEL_TOKENS" using layout cell by (auto simp: checked_layout_Ok_iff)
  have fund: "bound_ok ?fund (m slot t)" using cell_covered [OF _ cell(2) slot(1)] bounds by (simp add: bounds_for_def)
  have "bound_ok (cb_upper_bounds b ! slot ! t) (m slot t)" using bounds slot by (simp add: bounds_for_def bounds_sound_def)
  from with_owned_plaintext_ok [OF bound_ok_tighter [OF this fund], of owned slot t, OF owned] r(1)
  have "bound_ok before (m slot t)" by auto
  then have after: "bound_ok (tighter_bound (add_bounds before (Some amount)) (add_bounds ?fund (Some amount))) (m slot t + unat amount)"
    using fund by (intro bound_ok_tighter bound_ok_add) simp_all
  from r(2) obtain x where "tighter_bound (add_bounds before (Some amount)) (add_bounds ?fund (Some amount)) = Some x" by blast
  with after show ?thesis using unsigned_less [of x, where 'a = nat] by auto
qed

section \<open>Runs of a signer\<close>

text \<open>
  The bounds a signer holds: those of an authenticated snapshot, then advanced over authenticated transitions,
  with correctly decrypted own cells at each step.
\<close>

inductive credit_run :: "ChannelState \<Rightarrow> plaintexts \<Rightarrow> ChannelCreditBounds \<Rightarrow> bool" where
  start: "backed s m \<Longrightarrow> owned_true owned m \<Longrightarrow> bootstrap s owned = Ok b \<Longrightarrow> credit_run s m b"
| step: "credit_run s m b \<Longrightarrow> authenticated s m s' m' \<Longrightarrow> owned_true owned m' \<Longrightarrow>
    advance_authenticated b s s' owned = Ok b' \<Longrightarrow> credit_run s' m' b'"

lemma credit_run_bounds: "credit_run s m b \<Longrightarrow> bounds_for b s m"
  by (induction rule: credit_run.induct) (auto intro: bootstrap_sound advance_sound(1))

text \<open>
C19: the range evidence is sound. Along every run of a signer, from a snapshot over authenticated
transitions, the bounds belong to the current state and every known bound is at least the hidden balance of its
cell. A credit that passes \<open>can_credit\<close> keeps the balance in 64 bits, and in a transition the signer
accepts every changed balance is in 64 bits, in a ciphertext the withdrawal claim can open. Hypotheses, which
the code requires of its caller: balances are covered by the fund per token, transitions conserve value and
keep unchanged cells, own plaintexts are decrypted correctly.
\<close>

theorem credit_bounds_sound:
  assumes "credit_run s m b"
  shows "validate_for b s = Ok () \<and>
    (\<forall>slot < active_count s. \<forall>t < token_total s. bound_ok (cb_upper_bounds b ! slot ! t) (m slot t)) \<and>
    (\<forall>slot t amount owned. can_credit b s slot t amount owned = Ok () \<longrightarrow> (\<forall>v. owned = Some v \<longrightarrow> m slot t = unat v) \<longrightarrow>
       m slot t + unat amount < 2 ^ 64) \<and>
    (\<forall>s' m' owned b' slot t. authenticated s m s' m' \<longrightarrow> owned_true owned m' \<longrightarrow>
       advance_authenticated b s s' owned = Ok b' \<longrightarrow> slot < active_count s' \<longrightarrow> t < token_total s' \<longrightarrow> cell_changed s s' slot t \<longrightarrow>
       m' slot t < 2 ^ 64 \<and> validate_balance_exit_shape (bs_enc_balances (cs_balance_state s') ! slot ! t) = Ok ())"
proof -
  note bounds = credit_run_bounds [OF assms]
  then obtain a n where "checked_layout s = Ok (a, n)" by (auto simp: bounds_for_def validate_for_def)
  with bounds have "validate_for b s = Ok ()"
    "\<forall>slot < active_count s. \<forall>t < token_total s. bound_ok (cb_upper_bounds b ! slot ! t) (m slot t)"
    by (simp_all add: bounds_for_def bounds_sound_def checked_layout_Ok_iff)
  with can_credit_sound [OF bounds] advance_sound(2) [OF bounds] show ?thesis by blast
qed

text \<open>What a direct successor has to satisfy before its cells are looked at.\<close>

definition direct_successor :: "ChannelState \<Rightarrow> ChannelState \<Rightarrow> bool" where
  "direct_successor s s' \<longleftrightarrow> checked_layout s' = Ok (active_count s', token_total s') \<and>
     cs_channel_id s' = cs_channel_id s \<and> cs_prev_digest s' = cs_digest s \<and> token_total s \<le> token_total s' \<and>
     take (token_total s) (bs_token_registry (cs_balance_state s')) = take (token_total s) (bs_token_registry (cs_balance_state s))"

lemma advance_accepts:
  assumes bounds: "bounds_for b s m" and auth: "authenticated s m s' m'" and owned: "owned_true owned m'"
    and succ: "direct_successor s s'" and cells: "list_all (\<lambda>((slot, t), _). slot < active_count s' \<and> t < token_total s') owned"
    and shape: "\<And>slot t. slot < active_count s' \<Longrightarrow> t < token_total s' \<Longrightarrow> cell_changed s s' slot t \<Longrightarrow>
      validate_balance_exit_shape (bs_enc_balances (cs_balance_state s') ! slot ! t) = Ok ()"
    and small: "\<And>t. t < token_total s' \<Longrightarrow> fund_of s' t < 2 ^ 64"
  shows "\<exists>b'. advance_authenticated b s s' owned = Ok b'"
proof -
  let ?a = "active_count s'" and ?n = "token_total s'"
  have layout: "checked_layout s' = Ok (?a, ?n)" using succ by (simp add: direct_successor_def)
  obtain rows where "try_map (\<lambda>slot. try_map (advance_cell b s s' owned (map (pool_of b s s') [0..<?n]) slot) [0..<?n]) [0..<?a] = Ok rows"
    using cell_rows_exist [of ?a ?n "advance_cell b s s' owned (map (pool_of b s s') [0..<?n])"]
      advance_cell_cases(2) [OF bounds auth layout owned _ _ refl shape small] by blast
  moreover have "validate_for b s = Ok ()" using bounds by (simp add: bounds_for_def)
  moreover have "validate_plaintext_cells owned ?a ?n = Ok ()" using cells by (simp add: validate_cells_Ok_iff)
  ultimately show ?thesis
    using succ layout
    by (simp add: advance_authenticated_def direct_successor_def positive_difference_value credit_pools Let_def del: and_then_Ok_iff)
qed

text \<open>
C20: a channel whose funds fit 64 bits is never blocked by missing evidence. After any run, a direct
successor of the current state that is authenticated, with claimable ciphertexts in the changed cells and
every token fund below \<open>2\<^sup>64\<close>, is accepted, whatever the signer knows of the other participants'
balances, and the run continues with it.
\<close>

theorem small_funds_never_blocked:
  assumes run: "credit_run s m b" and auth: "authenticated s m s' m'" and owned: "owned_true owned m'"
    and succ: "direct_successor s s'" and cells: "list_all (\<lambda>((slot, t), _). slot < active_count s' \<and> t < token_total s') owned"
    and shape: "\<And>slot t. slot < active_count s' \<Longrightarrow> t < token_total s' \<Longrightarrow> cell_changed s s' slot t \<Longrightarrow>
      validate_balance_exit_shape (bs_enc_balances (cs_balance_state s') ! slot ! t) = Ok ()"
    and small: "\<And>t. t < token_total s' \<Longrightarrow> fund_of s' t < 2 ^ 64"
  shows "\<exists>b'. advance_authenticated b s s' owned = Ok b' \<and> credit_run s' m' b'"
  using advance_accepts [OF credit_run_bounds [OF run] auth owned succ cells shape small] credit_run.step [OF run auth owned] by blast

section \<open>An example channel\<close>

text \<open>
  A channel of two members and one token with a fund of 100, of which the first member holds 60; the second
  state re-encrypts that balance under a new key.
\<close>

definition example_balances :: plaintexts where
  "example_balances slot t = (if slot = 0 \<and> t = 0 then 60 else 0)"

definition example_credit :: "Bytes32 \<Rightarrow> Bytes32 \<Rightarrow> Bytes32 \<Rightarrow> ChannelState" where
  "example_credit prev_digest digest key =
     \<lparr>cs_channel_id = ChannelId 7, cs_epoch = 0, cs_small_block_number = 0, cs_close_freeze_nonce = 0,
      cs_channel_fund = \<lparr>cf_channel_id = ChannelId 7, cf_amounts = single_token_amounts (U256_from_u64 100),
        cf_intmax_state_root = Bytes32_default\<rparr>,
      cs_balance_state = \<lparr>bs_channel_id = ChannelId 7, bs_member_count = 2, bs_delegate_count = 0,
        bs_enc_balances = replicate MAX_CHANNEL_MEMBERS zero_token_row,
        bs_regev_pk_digests = (replicate MAX_CHANNEL_MEMBERS Bytes32_default)[0 := key],
        bs_recipients = replicate MAX_CHANNEL_MEMBERS Address_default, bs_settled_tx_chain = Bytes32_default,
        bs_settled_tx_accumulator_root = Bytes32_default, bs_state_version = 1,
        bs_pending_adds = replicate MAX_CHANNEL_MEMBERS (replicate MAX_CHANNEL_TOKENS 0),
        bs_token_registry = replicate MAX_CHANNEL_TOKENS 0, bs_token_count = 1\<rparr>,
      cs_h2_tag = Bytes32_default, cs_shared_native_nullifier_root = Bytes32_default,
      cs_unallocated_confirmed_incoming = U256_default, cs_prev_digest = prev_digest, cs_digest = digest,
      cs_member_signatures = []\<rparr>"

lemma example_credit_fields:
  "active_count (example_credit p d k) = 2" "token_total (example_credit p d k) = 1"
  "fund_of (example_credit p d k) 0 = 100" "cs_prev_digest (example_credit p d k) = p" "cs_digest (example_credit p d k) = d"
  "cs_channel_id (example_credit p d k) = ChannelId 7" "cs_unallocated_confirmed_incoming (example_credit p d k) = U256_default"
  "checked_layout (example_credit p d k) = Ok (2, 1)"
  "bs_token_registry (cs_balance_state (example_credit p d k)) = replicate MAX_CHANNEL_TOKENS 0"
  by (simp_all add: example_credit_def active_count_def single_token_amounts_def U256_val_from_u64 checked_layout_def Let_def
      MAX_CHANNEL_TOKENS_def MAX_CHANNEL_MEMBERS_def)

lemma example_credit_backed: "backed (example_credit p d k) example_balances"
proof -
  have "(\<Sum>slot < MAX_CHANNEL_MEMBERS. example_balances slot 0) = (\<Sum>slot < MAX_CHANNEL_MEMBERS. if slot = 0 then 60 else 0)"
    by (simp add: example_balances_def)
  also have "\<dots> \<le> 100" by (simp add: sum.delta)
  finally show ?thesis by (auto simp: backed_def example_credit_fields example_balances_def)
qed

lemma example_credit_step:
  "authenticated (example_credit p d k) example_balances (example_credit p' d' k') example_balances"
  using example_credit_backed by (simp add: authenticated_def example_credit_fields)

lemma example_credit_run: "\<exists>b. credit_run (example_credit p d k) example_balances b"
proof -
  have "[0..<2] = [0, 1 :: nat]" "(1 :: nat) \<noteq> 0" by (simp_all add: upt_rec)
  then have "\<exists>b. bootstrap (example_credit p d k) [((0, 0), 60)] = Ok b"
    by (simp add: bootstrap_def example_credit_fields validate_plaintext_cells_def U256_as_u64_value with_owned_plaintext_def
        u64_bound_def del: and_then_Ok_iff)
  moreover have "owned_true [((0, 0), 60)] example_balances" by (simp add: owned_true_def example_balances_def)
  ultimately show ?thesis using credit_run.start [OF example_credit_backed] by blast
qed

theorem credit_bounds_sound_witness:
  "\<exists>b. credit_run (example_credit Bytes32_default Bytes32_default Bytes32_default) example_balances b \<and>
     validate_for b (example_credit Bytes32_default Bytes32_default Bytes32_default) = Ok () \<and>
     bound_ok (cb_upper_bounds b ! 0 ! 0) 60"
proof -
  let ?s = "example_credit Bytes32_default Bytes32_default Bytes32_default"
  obtain b where b: "credit_run ?s example_balances b" using example_credit_run by blast
  have "validate_for b ?s = Ok () \<and> bound_ok (cb_upper_bounds b ! 0 ! 0) (example_balances 0 0)"
    using credit_bounds_sound [OF b] by (simp add: example_credit_fields)
  with b show ?thesis by (auto simp: example_balances_def)
qed

theorem small_funds_never_blocked_witness:
  "\<exists>b b'. credit_run (example_credit Bytes32_default Bytes32_default Bytes32_default) example_balances b \<and>
     cell_changed (example_credit Bytes32_default Bytes32_default Bytes32_default)
       (example_credit Bytes32_default (Bytes32 1 0 0 0 0 0 0 0) (Bytes32 1 0 0 0 0 0 0 0)) 0 0 \<and>
     advance_authenticated b (example_credit Bytes32_default Bytes32_default Bytes32_default)
       (example_credit Bytes32_default (Bytes32 1 0 0 0 0 0 0 0) (Bytes32 1 0 0 0 0 0 0 0)) [] = Ok b'"
proof -
  let ?d = "Bytes32 1 0 0 0 0 0 0 0"
  let ?s = "example_credit Bytes32_default Bytes32_default Bytes32_default" and ?s' = "example_credit Bytes32_default ?d ?d"
  obtain b where b: "credit_run ?s example_balances b" using example_credit_run by blast
  have "direct_successor ?s ?s'" by (simp add: direct_successor_def example_credit_fields)
  moreover have "validate_balance_exit_shape (bs_enc_balances (cs_balance_state ?s') ! slot ! t) = Ok ()" if "slot < 2" "t < 1" for slot t
    using that
    by (simp add: example_credit_def zero_token_row_def validate_balance_exit_shape_def RegevCiphertext_validate_value
        zero_ciphertext_def MAX_CHANNEL_MEMBERS_def MAX_CHANNEL_TOKENS_def)
      (simp add: RegevCiphertext_padding_def list_ex_iff)
  ultimately obtain b' where "advance_authenticated b ?s ?s' [] = Ok b'"
    using small_funds_never_blocked [OF b example_credit_step, of "[]" Bytes32_default ?d ?d]
    by (auto simp: example_credit_fields owned_true_def)
  moreover have "cell_changed ?s ?s' 0 0"
    by (simp add: cell_changed_def example_credit_def Bytes32_default_def MAX_CHANNEL_MEMBERS_def)
  ultimately show ?thesis using b by blast
qed

end
