(* ===== verification/State_Update.thy ===== *)
theory State_Update
  imports Channel
begin

text \<open>
  The transition gate of a channel (\<open>circuits/channel/state_update_verifier.rs\<close>): what a co-signer checks
  before signing the next state, for each of the seven kinds of update. Fixed arrays are lists of their
  lengths. The verifiers of transport proofs and of the lattice STARKs (\<open>regev/transfer_stark.rs\<close>)
  and the decryption primitive are parameters; error texts are dropped.
\<close>

section \<open>Public inputs, statements and errors\<close>

abbreviation BALANCE_REFRESH_ZKP_DOMAIN :: u32 where
  "BALANCE_REFRESH_ZKP_DOMAIN \<equiv> 0x494d5246"

abbreviation SETTLED_TX_ACCUMULATOR_HEIGHT :: nat where
  "SETTLED_TX_ACCUMULATOR_HEIGHT \<equiv> 20"

record ChannelStateUpdatePublicInputs =
  up_kind :: ChannelTransitionKind
  up_channel_id :: ChannelId
  up_prev_state_digest :: Bytes32
  up_next_state_digest :: Bytes32
  up_amount :: u64
  up_prev_state_version :: u64
  up_next_state_version :: u64
  up_h2_tag :: Bytes32
  up_prev_settled_tx_chain :: Bytes32
  up_next_settled_tx_chain :: Bytes32
  up_receiver_entry_count :: u64
  up_sender_user_id_hash :: Bytes32
  up_receiver_user_id_hash :: Bytes32
  up_channel_fund_before :: "U256 list"
  up_channel_fund_after :: "U256 list"
  up_unallocated_before :: U256
  up_unallocated_after :: U256
  up_shared_nullifier_before :: Bytes32
  up_shared_nullifier_after :: Bytes32
  up_transition_digest :: Bytes32

datatype RegevProofPurpose = PurposeWithdrawClaim | PurposeBalanceRefresh | ChannelTxDecrypted | ChannelUpdateDecrypted

text \<open>
  \<open>ChannelTx\<close>: sender key, recipient key, balance before, encrypted amount, balance after.
  \<open>ChannelUpdate\<close>: sender key, recipient key, balance before and after, the two deltas, amount, token.
\<close>

datatype RegevStatement =
    ChannelTxStatement RegevPk RegevPk RegevCiphertext RegevCiphertext RegevCiphertext
  | ChannelUpdateStatement RegevPk RegevPk RegevCiphertext RegevCiphertext RegevCiphertext RegevCiphertext u64 u32
  | WithdrawClaimStatement RegevPk RegevCiphertext u64
  | BalanceRefreshStatement RegevPk RegevCiphertext RegevCiphertext

datatype ChannelStateUpdateError =
    InvalidProofRole TransitionProofRole TransitionProofRole | InvalidProofBackend ProofBackend ProofBackend
  | InvalidStateLinkage | InvalidRegevPkRoot | InvalidStateVersion | InvalidH2Tag | InvalidSettledTxChain
  | InvalidCiphertextTransition | InvalidPendingAdds | InvalidAmountRelation | InvalidRootTransition
  | InvalidTransitionDigest | InvalidReceiverDeltaBundle | InvalidSmallBlock | InvalidMemberSignatures
  | InvalidDecryption | ProofVerification | PublicInputMismatch

type_synonym regev_verifier =
  "ChannelProofEnvelope \<Rightarrow> RegevProofPurpose \<Rightarrow> RegevStatement \<Rightarrow> (ChannelStateUpdateError, unit) outcome"

type_synonym proof_verifier =
  "ChannelProofEnvelope \<Rightarrow> ChannelStateUpdatePublicInputs \<Rightarrow> (ChannelStateUpdateError, unit) outcome"

text \<open>\<open>stark\<close> stands for the STARK verifiers of the four purposes.\<close>

type_synonym stark_verifier = "RegevProofPurpose \<Rightarrow> u8 list \<Rightarrow> RegevStatement \<Rightarrow> (RegevError, unit) outcome"

fun RealRegevProofVerifier_verify ::
  "stark_verifier \<Rightarrow> RegevProofPurpose \<Rightarrow> u8 list \<Rightarrow> RegevStatement \<Rightarrow> (RegevError, unit) outcome" where
  "RealRegevProofVerifier_verify stark ChannelTxDecrypted p (ChannelTxStatement sp rp b e a) =
     stark ChannelTxDecrypted p (ChannelTxStatement sp rp b e a)"
| "RealRegevProofVerifier_verify stark ChannelUpdateDecrypted p (ChannelUpdateStatement sp rp b a sd rd v t) =
     stark ChannelUpdateDecrypted p (ChannelUpdateStatement sp rp b a sd rd v t)"
| "RealRegevProofVerifier_verify stark PurposeWithdrawClaim p (WithdrawClaimStatement pk ct v) =
     stark PurposeWithdrawClaim p (WithdrawClaimStatement pk ct v)"
| "RealRegevProofVerifier_verify stark PurposeBalanceRefresh p (BalanceRefreshStatement pk old_ct new_ct) =
     stark PurposeBalanceRefresh p (BalanceRefreshStatement pk old_ct new_ct)"
| "RealRegevProofVerifier_verify stark _ p _ = Err PurposeMismatch"

definition RegevProofVerifier_verify :: "stark_verifier \<Rightarrow> regev_verifier" where
  "RegevProofVerifier_verify stark envelope purpose statement =
     (if env_role envelope \<noteq> ChannelStateUpdate then Err (InvalidProofRole ChannelStateUpdate (env_role envelope))
      else if env_backend envelope \<noteq> Plonky3 then Err (InvalidProofBackend Plonky3 (env_backend envelope))
      else map_err (\<lambda>_. ProofVerification) (RealRegevProofVerifier_verify stark purpose (env_proof envelope) statement))"

definition verify_decrypted_transfer_proof ::
  "regev_verifier \<Rightarrow> ChannelProofEnvelope \<Rightarrow> RegevStatement \<Rightarrow> (ChannelStateUpdateError, unit) outcome" where
  "verify_decrypted_transfer_proof regev_verify envelope statement =
     (case statement of
        ChannelTxStatement _ _ _ _ _ \<Rightarrow> regev_verify envelope ChannelTxDecrypted statement
      | ChannelUpdateStatement _ _ _ _ _ _ _ _ \<Rightarrow> regev_verify envelope ChannelUpdateDecrypted statement
      | _ \<Rightarrow> Err ProofVerification)"

definition hash_member :: "(u32 list \<Rightarrow> u32 list) \<Rightarrow> Bytes32 \<Rightarrow> ('e, Bytes32) outcome" where
  "hash_member keccak pubkey_hash = hash_words keccak (Bytes32_to_u32_vec pubkey_hash)"

fun ChannelTransitionKind_as_u32 :: "ChannelTransitionKind \<Rightarrow> u32" where
  "ChannelTransitionKind_as_u32 InChannelTransfer = 0"
| "ChannelTransitionKind_as_u32 InterChannelSend = 1"
| "ChannelTransitionKind_as_u32 InterChannelFundImport = 2"
| "ChannelTransitionKind_as_u32 ReceiverBundleApply = 3"
| "ChannelTransitionKind_as_u32 BalanceRefresh = 4"
| "ChannelTransitionKind_as_u32 ChannelClose = 5"
| "ChannelTransitionKind_as_u32 SpecialCloseKind = 6"
| "ChannelTransitionKind_as_u32 L1DepositImport = 7"
| "ChannelTransitionKind_as_u32 TokenRegister = 8"

definition ChannelStateUpdatePublicInputs_digest ::
  "(u32 list \<Rightarrow> u32 list) \<Rightarrow> ChannelStateUpdatePublicInputs \<Rightarrow> ('e, Bytes32) outcome" where
  "ChannelStateUpdatePublicInputs_digest keccak p =
     hash_words keccak
       ([ChannelTransitionKind_as_u32 (up_kind p)] @ ChannelId_to_u32_vec (up_channel_id p) @
        Bytes32_to_u32_vec (up_prev_state_digest p) @ Bytes32_to_u32_vec (up_next_state_digest p) @
        split_u64_words (up_amount p) @ split_u64_words (up_prev_state_version p) @
        split_u64_words (up_next_state_version p) @ Bytes32_to_u32_vec (up_h2_tag p) @
        Bytes32_to_u32_vec (up_prev_settled_tx_chain p) @ Bytes32_to_u32_vec (up_next_settled_tx_chain p) @
        split_u64_words (up_receiver_entry_count p) @ Bytes32_to_u32_vec (up_sender_user_id_hash p) @
        Bytes32_to_u32_vec (up_receiver_user_id_hash p) @ concat (map U256_to_u32_vec (up_channel_fund_before p)) @
        concat (map U256_to_u32_vec (up_channel_fund_after p)) @ U256_to_u32_vec (up_unallocated_before p) @
        U256_to_u32_vec (up_unallocated_after p) @ Bytes32_to_u32_vec (up_shared_nullifier_before p) @
        Bytes32_to_u32_vec (up_shared_nullifier_after p) @ Bytes32_to_u32_vec (up_transition_digest p))"

text \<open>The public inputs every kind fills in alike from the two states.\<close>

definition update_public_inputs ::
  "ChannelTransitionKind \<Rightarrow> ChannelState \<Rightarrow> ChannelState \<Rightarrow> u64 \<Rightarrow> u64 \<Rightarrow> Bytes32 \<Rightarrow> Bytes32 \<Rightarrow> Bytes32
     \<Rightarrow> ChannelStateUpdatePublicInputs" where
  "update_public_inputs kind prev next_state amount receiver_entry_count sender_hash receiver_hash transition_digest =
     \<lparr>up_kind = kind, up_channel_id = cs_channel_id prev, up_prev_state_digest = cs_digest prev,
      up_next_state_digest = cs_digest next_state, up_amount = amount,
      up_prev_state_version = bs_state_version (cs_balance_state prev),
      up_next_state_version = bs_state_version (cs_balance_state next_state), up_h2_tag = cs_h2_tag next_state,
      up_prev_settled_tx_chain = bs_settled_tx_chain (cs_balance_state prev),
      up_next_settled_tx_chain = bs_settled_tx_chain (cs_balance_state next_state),
      up_receiver_entry_count = receiver_entry_count, up_sender_user_id_hash = sender_hash,
      up_receiver_user_id_hash = receiver_hash, up_channel_fund_before = cf_amounts (cs_channel_fund prev),
      up_channel_fund_after = cf_amounts (cs_channel_fund next_state),
      up_unallocated_before = cs_unallocated_confirmed_incoming prev,
      up_unallocated_after = cs_unallocated_confirmed_incoming next_state,
      up_shared_nullifier_before = cs_shared_native_nullifier_root prev,
      up_shared_nullifier_after = cs_shared_native_nullifier_root next_state,
      up_transition_digest = transition_digest\<rparr>"

section \<open>Checks shared by the kinds\<close>

definition verify_state_linkage ::
  "(u64 list \<Rightarrow> PoseidonHashOut) \<Rightarrow> (u32 list \<Rightarrow> u32 list) \<Rightarrow> ChannelState \<Rightarrow> ChannelState
     \<Rightarrow> (ChannelStateUpdateError, unit) outcome" where
  "verify_state_linkage poseidon keccak prev next_state =
     (if cs_channel_id prev \<noteq> cs_channel_id next_state then Err InvalidStateLinkage
      else if cs_epoch next_state \<noteq> cs_epoch prev + 1 then Err InvalidStateLinkage
      else if cs_prev_digest next_state \<noteq> cs_digest prev then Err InvalidStateLinkage
      else
        and_then (ChannelState_signing_digest poseidon keccak prev) (\<lambda>prev_digest.
        if cs_digest prev \<noteq> prev_digest then Err InvalidStateLinkage
        else
          and_then (ChannelState_signing_digest poseidon keccak next_state) (\<lambda>next_digest.
          if cs_digest next_state \<noteq> next_digest then Err InvalidStateLinkage else Ok ())))"

definition verify_ordinary_state_metadata ::
  "ChannelRecord \<Rightarrow> ChannelState \<Rightarrow> ChannelState \<Rightarrow> (ChannelStateUpdateError, unit) outcome" where
  "verify_ordinary_state_metadata record prev next_state =
     and_then (try_each (\<lambda>state.
         if bs_member_count (cs_balance_state state) \<noteq> cr_member_count record \<or>
            bs_delegate_count (cs_balance_state state) \<noteq> cr_delegate_count record
         then Err InvalidStateLinkage else Ok ()) [prev, next_state]) (\<lambda>_.
       if cs_close_freeze_nonce next_state \<noteq> cs_close_freeze_nonce prev then Err InvalidStateLinkage else Ok ())"

definition require_small_block_unchanged :: "ChannelState \<Rightarrow> ChannelState \<Rightarrow> (ChannelStateUpdateError, unit) outcome" where
  "require_small_block_unchanged prev next_state =
     (if cs_small_block_number next_state \<noteq> cs_small_block_number prev then Err InvalidStateLinkage else Ok ())"

definition verify_balance_state_shared ::
  "ChannelRecord \<Rightarrow> ChannelState \<Rightarrow> ChannelState \<Rightarrow> (ChannelStateUpdateError, unit) outcome" where
  "verify_balance_state_shared record prev next_state =
     (let before = cs_balance_state prev; after = cs_balance_state next_state in
      and_then (verify_ordinary_state_metadata record prev next_state) (\<lambda>_.
      and_then (map_err (\<lambda>_. InvalidCiphertextTransition) (BalanceState_validate before)) (\<lambda>_.
      and_then (map_err (\<lambda>_. InvalidCiphertextTransition) (BalanceState_validate after)) (\<lambda>_.
        if bs_channel_id before \<noteq> cs_channel_id prev \<or> bs_channel_id after \<noteq> cs_channel_id next_state \<or>
           cs_channel_id prev \<noteq> cr_channel_id record
        then Err InvalidStateLinkage
        else if bs_state_version after \<noteq> bs_state_version before + 1 then Err InvalidStateVersion
        else if bs_recipients before \<noteq> bs_recipients after then Err InvalidStateLinkage
        else if bs_regev_pk_digests before \<noteq> bs_regev_pk_digests after then Err InvalidStateLinkage
        else Ok ()))))"

definition verify_balance_state_common ::
  "ChannelRecord \<Rightarrow> ChannelState \<Rightarrow> ChannelState \<Rightarrow> (ChannelStateUpdateError, unit) outcome" where
  "verify_balance_state_common record prev next_state =
     and_then (verify_balance_state_shared record prev next_state) (\<lambda>_.
       if bs_token_registry (cs_balance_state prev) \<noteq> bs_token_registry (cs_balance_state next_state) \<or>
          bs_token_count (cs_balance_state prev) \<noteq> bs_token_count (cs_balance_state next_state)
       then Err InvalidStateLinkage else Ok ())"

definition verify_regev_pk_root ::
  "(u32 list \<Rightarrow> u32 list) \<Rightarrow> ChannelRecord \<Rightarrow> RegevPk list \<Rightarrow> (ChannelStateUpdateError, unit) outcome" where
  "verify_regev_pk_root keccak record regev_pks =
     and_then (try_each (\<lambda>pk. map_err (\<lambda>_. InvalidRegevPkRoot) (RegevPk_validate pk)) regev_pks) (\<lambda>_.
     and_then (regev_pk_root keccak regev_pks) (\<lambda>root.
       if root \<noteq> cr_regev_pk_root record then Err InvalidRegevPkRoot else Ok ()))"

definition require_h2_zero :: "ChannelState \<Rightarrow> (ChannelStateUpdateError, unit) outcome" where
  "require_h2_zero next_state = (if cs_h2_tag next_state \<noteq> Bytes32_default then Err InvalidH2Tag else Ok ())"

definition require_chain_unchanged :: "ChannelState \<Rightarrow> ChannelState \<Rightarrow> (ChannelStateUpdateError, unit) outcome" where
  "require_chain_unchanged prev next_state =
     (if bs_settled_tx_chain (cs_balance_state next_state) \<noteq> bs_settled_tx_chain (cs_balance_state prev)
      then Err InvalidSettledTxChain else Ok ())"

definition require_chain_push ::
  "(u32 list \<Rightarrow> u32 list) \<Rightarrow> ChannelState \<Rightarrow> ChannelState \<Rightarrow> Bytes32 \<Rightarrow> (ChannelStateUpdateError, unit) outcome" where
  "require_chain_push keccak prev next_state leaf =
     and_then (settled_tx_chain_push keccak (bs_settled_tx_chain (cs_balance_state prev)) leaf) (\<lambda>expected.
       if bs_settled_tx_chain (cs_balance_state next_state) \<noteq> expected then Err InvalidSettledTxChain else Ok ())"

text \<open>The accumulator of settled transactions is an incremental tree of \<open>Bytes32\<close> leaves.\<close>

definition Bytes32_leaf_hash :: "(u64 list \<Rightarrow> PoseidonHashOut) \<Rightarrow> Bytes32 \<Rightarrow> PoseidonHashOut" where
  "Bytes32_leaf_hash poseidon b = hash_inputs_u32 poseidon (Bytes32_to_u32_vec b)"

definition require_accumulator_push ::
  "(u64 list \<Rightarrow> PoseidonHashOut) \<Rightarrow> (PoseidonHashOut, Bytes32) IncrementalMerkleTree \<Rightarrow> Bytes32 \<Rightarrow> Bytes32
     \<Rightarrow> (ChannelStateUpdateError, unit) outcome" where
  "require_accumulator_push poseidon prev_accumulator tx_hash next_root =
     and_then (Incremental_push (two_to_one poseidon) (Bytes32_leaf_hash poseidon) tx_hash prev_accumulator) (\<lambda>advanced.
     and_then (Incremental_get_root advanced) (\<lambda>root.
     and_then (Bytes32_from_hash_out root) (\<lambda>expected.
       if expected \<noteq> next_root then Err InvalidSettledTxChain else Ok ())))"

definition require_incoming_application ::
  "(u64 list \<Rightarrow> PoseidonHashOut) \<Rightarrow> (u32 list \<Rightarrow> u32 list) \<Rightarrow> Bytes32 \<Rightarrow> Bytes32 \<Rightarrow> Bytes32 \<Rightarrow> u64
     \<Rightarrow> PoseidonHashOut MerkleProof \<Rightarrow> (ChannelStateUpdateError, unit) outcome" where
  "require_incoming_application poseidon keccak prev_root next_root tx_hash index siblings =
     (let get_root = (\<lambda>leaf. and_then (MerkleProof_get_root (two_to_one poseidon) (Bytes32_leaf_hash poseidon) siblings leaf index)
        Bytes32_from_hash_out) in
      if index \<ge> push_bit SETTLED_TX_ACCUMULATOR_HEIGHT 1 \<or> length siblings \<noteq> SETTLED_TX_ACCUMULATOR_HEIGHT
      then Err InvalidSettledTxChain
      else
        and_then (unapplied_incoming_leaf keccak tx_hash) (\<lambda>unapplied.
        and_then (get_root unapplied) (\<lambda>before.
        if before \<noteq> prev_root then Err InvalidSettledTxChain
        else
          and_then (get_root tx_hash) (\<lambda>after.
          if after \<noteq> next_root then Err InvalidSettledTxChain else Ok ()))))"

definition require_accumulator_unchanged :: "Bytes32 \<Rightarrow> Bytes32 \<Rightarrow> (ChannelStateUpdateError, unit) outcome" where
  "require_accumulator_unchanged prev_root next_root =
     (if prev_root \<noteq> next_root then Err InvalidSettledTxChain else Ok ())"

text \<open>Cells: a participant's row of ciphertexts or of add counters, one position per token.\<close>

definition ensure_slot_unchanged :: "ChannelState \<Rightarrow> ChannelState \<Rightarrow> nat \<Rightarrow> (ChannelStateUpdateError, unit) outcome" where
  "ensure_slot_unchanged prev next_state index =
     (if bs_enc_balances (cs_balance_state prev) ! index \<noteq> bs_enc_balances (cs_balance_state next_state) ! index
      then Err InvalidCiphertextTransition else Ok ())"

definition ensure_row_unchanged_except ::
  "ChannelState \<Rightarrow> ChannelState \<Rightarrow> nat \<Rightarrow> nat \<Rightarrow> (ChannelStateUpdateError, unit) outcome" where
  "ensure_row_unchanged_except prev next_state index token_slot =
     try_each (\<lambda>t.
       if t \<noteq> token_slot \<and> bs_enc_balances (cs_balance_state prev) ! index ! t \<noteq>
           bs_enc_balances (cs_balance_state next_state) ! index ! t
       then Err InvalidCiphertextTransition else Ok ()) [0..<MAX_CHANNEL_TOKENS]"

definition require_pending_adds_unchanged :: "ChannelState \<Rightarrow> ChannelState \<Rightarrow> nat \<Rightarrow> (ChannelStateUpdateError, unit) outcome" where
  "require_pending_adds_unchanged prev next_state index =
     (if bs_pending_adds (cs_balance_state prev) ! index \<noteq> bs_pending_adds (cs_balance_state next_state) ! index
      then Err InvalidPendingAdds else Ok ())"

definition require_pending_adds_unchanged_except ::
  "ChannelState \<Rightarrow> ChannelState \<Rightarrow> nat \<Rightarrow> nat \<Rightarrow> (ChannelStateUpdateError, unit) outcome" where
  "require_pending_adds_unchanged_except prev next_state index token_slot =
     try_each (\<lambda>t.
       if t \<noteq> token_slot \<and> bs_pending_adds (cs_balance_state prev) ! index ! t \<noteq>
           bs_pending_adds (cs_balance_state next_state) ! index ! t
       then Err InvalidPendingAdds else Ok ()) [0..<MAX_CHANNEL_TOKENS]"

definition require_pending_add_increment ::
  "ChannelState \<Rightarrow> ChannelState \<Rightarrow> nat \<Rightarrow> nat \<Rightarrow> (ChannelStateUpdateError, unit) outcome" where
  "require_pending_add_increment prev next_state index token_slot =
     (let before = bs_pending_adds (cs_balance_state prev) ! index ! token_slot;
          after = bs_pending_adds (cs_balance_state next_state) ! index ! token_slot in
      if before \<ge> MAX_HOMO_ADDS_BEFORE_REFRESH then Err InvalidPendingAdds
      else if after \<noteq> before + 1 then Err InvalidPendingAdds
      else require_pending_adds_unchanged_except prev next_state index token_slot)"

definition require_token_bearing_tx_hash ::
  "(u32 list \<Rightarrow> u32 list) \<Rightarrow> InterChannelTx \<Rightarrow> (ChannelStateUpdateError, unit) outcome" where
  "require_token_bearing_tx_hash keccak tx =
     and_then (map_err (\<lambda>_. InvalidSettledTxChain) (compute_tx_hash keccak tx)) (\<lambda>recomputed.
       if recomputed \<noteq> ict_tx_hash tx then Err InvalidSettledTxChain else Ok ())"

fun position :: "('a \<Rightarrow> bool) \<Rightarrow> 'a list \<Rightarrow> nat option" where
  "position p [] = None"
| "position p (x # xs) = (if p x then Some 0 else map_option Suc (position p xs))"

definition resolve_token_slot :: "BalanceState \<Rightarrow> u32 \<Rightarrow> (ChannelStateUpdateError, nat) outcome" where
  "resolve_token_slot balance_state token_index =
     (let token_count = min (unat (bs_token_count balance_state)) MAX_CHANNEL_TOKENS in
      ok_or InvalidAmountRelation (position (\<lambda>index. index = token_index) (take token_count (bs_token_registry balance_state))))"

definition ensure_fund_identity_unchanged :: "ChannelState \<Rightarrow> ChannelState \<Rightarrow> (ChannelStateUpdateError, unit) outcome" where
  "ensure_fund_identity_unchanged prev next_state =
     (if cf_channel_id (cs_channel_fund prev) \<noteq> cf_channel_id (cs_channel_fund next_state) then Err InvalidRootTransition
      else if cf_intmax_state_root (cs_channel_fund prev) \<noteq> cf_intmax_state_root (cs_channel_fund next_state)
      then Err InvalidRootTransition else Ok ())"

definition ensure_funds_unchanged_except ::
  "ChannelState \<Rightarrow> ChannelState \<Rightarrow> nat \<Rightarrow> (ChannelStateUpdateError, unit) outcome" where
  "ensure_funds_unchanged_except prev next_state token_slot =
     try_each (\<lambda>t.
       if t \<noteq> token_slot \<and> cf_amounts (cs_channel_fund prev) ! t \<noteq> cf_amounts (cs_channel_fund next_state) ! t
       then Err InvalidAmountRelation else Ok ()) [0..<MAX_CHANNEL_TOKENS]"

definition member_slot_index :: "ChannelRecord \<Rightarrow> Bytes32 \<Rightarrow> (ChannelStateUpdateError, nat) outcome" where
  "member_slot_index record pubkey_hash =
     ok_or InvalidStateLinkage (position (\<lambda>member. member = pubkey_hash) (cr_member_pk_gs record))"

definition member_index_pubkey_hash :: "ChannelRecord \<Rightarrow> nat \<Rightarrow> (ChannelStateUpdateError, Bytes32) outcome" where
  "member_index_pubkey_hash record index =
     (if index < length (cr_member_pk_gs record) then Ok (cr_member_pk_gs record ! index) else Err InvalidStateLinkage)"

definition verify_next_state_signatures :: "ChannelRecord \<Rightarrow> ChannelState \<Rightarrow> (ChannelStateUpdateError, unit) outcome" where
  "verify_next_state_signatures record next_state =
     map_err (\<lambda>_. InvalidMemberSignatures) (validate_all_member_signatures record (cs_member_signatures next_state))"

abbreviation MerkleInclusionProof_default :: MerkleInclusionProof where
  "MerkleInclusionProof_default \<equiv> \<lparr>mip_siblings = [], mip_leaf_index = U256_default\<rparr>"

definition validate_signed_small_block ::
  "ChannelRecord \<Rightarrow> ChannelId \<Rightarrow> u64 \<Rightarrow> InterChannelTx \<Rightarrow> (ChannelStateUpdateError, unit) outcome" where
  "validate_signed_small_block source_record expected_source_channel_id expected_close_freeze_nonce tx =
     (let signed = ict_signed_small_block tx; message = sb_message signed in
      if ict_source_channel_id tx \<noteq> expected_source_channel_id then Err InvalidSmallBlock
      else if sm_channel_id message \<noteq> expected_source_channel_id then Err InvalidSmallBlock
      else if sm_bp_member_slot message \<noteq> cr_bp_member_slot source_record then Err InvalidSmallBlock
      else
        and_then (member_index_pubkey_hash source_record (unat (cr_bp_member_slot source_record))) (\<lambda>bp.
        if sm_bp_pk_g message \<noteq> bp then Err InvalidSmallBlock
        else if sm_close_freeze_nonce message \<noteq> expected_close_freeze_nonce then Err InvalidSmallBlock
        else if sm_medium_epoch_hint message \<noteq> 0 \<or> sb_medium_block_number signed \<noteq> 0 then Err InvalidSmallBlock
        else if sb_aggregated_signature_proof signed \<noteq> [] then Err InvalidSmallBlock
        else if sb_confirmation_proof signed \<noteq> [] then Err InvalidSmallBlock
        else if ict_seal tx \<noteq> Bytes32_default \<or> ict_recipient_memo tx \<noteq> [] \<or> ict_transport_proof tx \<noteq> [] \<or>
          ict_tx_inclusion_proof tx \<noteq> MerkleInclusionProof_default then Err InvalidSmallBlock
        else if ict_intmax_transfer_commitment tx = Bytes32_default then Err InvalidSmallBlock
        else map_err (\<lambda>_. InvalidSmallBlock) (validate_member_signature_slots source_record (sb_signatures signed))))"

definition ensure_same_channel_fund :: "ChannelState \<Rightarrow> ChannelState \<Rightarrow> (ChannelStateUpdateError, unit) outcome" where
  "ensure_same_channel_fund prev next_state =
     (if cs_channel_fund prev \<noteq> cs_channel_fund next_state then Err InvalidRootTransition else Ok ())"

definition ensure_same_root :: "Bytes32 \<Rightarrow> Bytes32 \<Rightarrow> (ChannelStateUpdateError, unit) outcome" where
  "ensure_same_root before after = (if before \<noteq> after then Err InvalidRootTransition else Ok ())"

definition ensure_different_root :: "Bytes32 \<Rightarrow> Bytes32 \<Rightarrow> (ChannelStateUpdateError, unit) outcome" where
  "ensure_different_root before after = (if before = after then Err InvalidRootTransition else Ok ())"

definition ensure_same_u256 :: "U256 \<Rightarrow> U256 \<Rightarrow> (ChannelStateUpdateError, unit) outcome" where
  "ensure_same_u256 before after = (if before \<noteq> after then Err InvalidRootTransition else Ok ())"

definition verify_proof ::
  "proof_verifier \<Rightarrow> ChannelProofEnvelope \<Rightarrow> TransitionProofRole \<Rightarrow> ProofBackend \<Rightarrow> ChannelStateUpdatePublicInputs
     \<Rightarrow> (ChannelStateUpdateError, unit) outcome" where
  "verify_proof proof_verify envelope expected_role expected_backend public_inputs =
     (if env_role envelope \<noteq> expected_role then Err (InvalidProofRole expected_role (env_role envelope))
      else if env_backend envelope \<noteq> expected_backend then Err (InvalidProofBackend expected_backend (env_backend envelope))
      else proof_verify envelope public_inputs)"

text \<open>What only the recipient can check: the amount and the new balance decrypt.\<close>

definition check_recipient_decryption ::
  "(u8 list \<Rightarrow> RegevCiphertext \<Rightarrow> nat list) \<Rightarrow> u8 list option \<Rightarrow> u64 option \<Rightarrow> RegevCiphertext \<Rightarrow> RegevCiphertext
     \<Rightarrow> (ChannelStateUpdateError, unit) outcome" where
  "check_recipient_decryption decrypt recipient_sk expected_amount amount_ct next_ct =
     (case recipient_sk of
        None \<Rightarrow> Ok ()
      | Some sk \<Rightarrow>
          and_then (ok_or InvalidDecryption expected_amount) (\<lambda>expected.
          and_then (map_err (\<lambda>_. InvalidDecryption) (decrypt_amount decrypt sk amount_ct)) (\<lambda>decrypted.
          if decrypted \<noteq> expected then Err InvalidDecryption
          else and_then (map_err (\<lambda>_. InvalidDecryption) (decrypt_amount decrypt sk next_ct)) (\<lambda>_. Ok ()))))"

definition u64_to_u256 :: "u64 \<Rightarrow> U256" where
  "u64_to_u256 value = U256 0 0 0 0 0 0 (ucast (drop_bit 32 value)) (ucast value)"

section \<open>Transfers inside a channel\<close>

record ChannelTx =
  tx_recipient_pk_g :: Bytes32
  tx_token_slot :: u8
  tx_enc_amount :: RegevCiphertext
  tx_nonce_word :: Bytes32
  tx_channel_tx_zkp :: ChannelProofEnvelope
  tx_sender_pk_g :: Bytes32
  tx_sender_hash_sig :: "u8 list"
  tx_sender_pk_b :: Bytes32

record InChannelTransferUpdateWitness =
  ic_channel_record :: ChannelRecord
  ic_regev_pks :: "RegevPk list"
  ic_prev_state :: ChannelState
  ic_next_state :: ChannelState
  ic_channel_tx :: ChannelTx
  ic_sender_index :: nat
  ic_recipient_index :: nat
  ic_recipient_sk :: "u8 list option"
  ic_expected_amount :: "u64 option"

text \<open>Steps (e) and (f): the ciphertexts and the add counters.\<close>

definition in_channel_cells ::
  "ChannelState \<Rightarrow> ChannelState \<Rightarrow> RegevCiphertext \<Rightarrow> nat \<Rightarrow> nat \<Rightarrow> nat \<Rightarrow> (ChannelStateUpdateError, unit) outcome" where
  "in_channel_cells prev next_state amount sender recipient token_slot =
     and_then (map_err (\<lambda>_. InvalidCiphertextTransition)
       (add_ciphertexts (bs_enc_balances (cs_balance_state prev) ! recipient ! token_slot) amount)) (\<lambda>expected.
     if bs_enc_balances (cs_balance_state next_state) ! recipient ! token_slot \<noteq> expected
     then Err InvalidCiphertextTransition
     else
       and_then (ensure_row_unchanged_except prev next_state recipient token_slot) (\<lambda>_.
       and_then (ensure_row_unchanged_except prev next_state sender token_slot) (\<lambda>_.
       and_then (try_each (\<lambda>index. if index \<noteq> sender \<and> index \<noteq> recipient
           then ensure_slot_unchanged prev next_state index else Ok ()) [0..<MAX_CHANNEL_MEMBERS]) (\<lambda>_.
       and_then (require_pending_add_increment prev next_state recipient token_slot) (\<lambda>_.
       if bs_pending_adds (cs_balance_state next_state) ! sender ! token_slot \<noteq> 0 then Err InvalidPendingAdds
       else
         and_then (require_pending_adds_unchanged_except prev next_state sender token_slot) (\<lambda>_.
           try_each (\<lambda>index. if index \<noteq> sender \<and> index \<noteq> recipient
             then require_pending_adds_unchanged prev next_state index else Ok ()) [0..<MAX_CHANNEL_MEMBERS]))))))"

text \<open>Steps (g) and (h): the proof of the transfer, the recipient's check and the public inputs.\<close>

definition in_channel_proofs ::
  "(u32 list \<Rightarrow> u32 list) \<Rightarrow> (u8 list \<Rightarrow> RegevCiphertext \<Rightarrow> nat list) \<Rightarrow> regev_verifier \<Rightarrow> InChannelTransferUpdateWitness
     \<Rightarrow> nat \<Rightarrow> Bytes32 \<Rightarrow> (ChannelStateUpdateError, ChannelStateUpdatePublicInputs) outcome" where
  "in_channel_proofs keccak decrypt regev_verify w token_slot tx_digest =
     (let prev = ic_prev_state w; next_state = ic_next_state w; tx = ic_channel_tx w;
          before = bs_enc_balances (cs_balance_state prev); after = bs_enc_balances (cs_balance_state next_state) in
      and_then (verify_decrypted_transfer_proof regev_verify (tx_channel_tx_zkp tx)
        (ChannelTxStatement (ic_regev_pks w ! ic_sender_index w) (ic_regev_pks w ! ic_recipient_index w)
          (before ! ic_sender_index w ! token_slot) (tx_enc_amount tx) (after ! ic_sender_index w ! token_slot))) (\<lambda>_.
      and_then (check_recipient_decryption decrypt (ic_recipient_sk w) (ic_expected_amount w) (tx_enc_amount tx)
        (after ! ic_recipient_index w ! token_slot)) (\<lambda>_.
      and_then (hash_member keccak (tx_sender_pk_g tx)) (\<lambda>sender_hash.
      and_then (hash_member keccak (tx_recipient_pk_g tx)) (\<lambda>recipient_hash.
        Ok (update_public_inputs InChannelTransfer prev next_state 0 1 sender_hash recipient_hash tx_digest))))))"

definition InChannelTransferUpdateWitness_verify ::
  "(u64 list \<Rightarrow> PoseidonHashOut) \<Rightarrow> (u32 list \<Rightarrow> u32 list) \<Rightarrow> (u8 list \<Rightarrow> RegevCiphertext \<Rightarrow> nat list) \<Rightarrow> regev_verifier
     \<Rightarrow> InChannelTransferUpdateWitness \<Rightarrow> (ChannelStateUpdateError, ChannelStateUpdatePublicInputs) outcome" where
  "InChannelTransferUpdateWitness_verify poseidon keccak decrypt regev_verify w =
     (let record = ic_channel_record w; prev = ic_prev_state w; next_state = ic_next_state w; tx = ic_channel_tx w;
          before = cs_balance_state prev; after = cs_balance_state next_state in
      and_then (verify_regev_pk_root keccak record (ic_regev_pks w)) (\<lambda>_.
      and_then (verify_state_linkage poseidon keccak prev next_state) (\<lambda>_.
      and_then (verify_balance_state_common record prev next_state) (\<lambda>_.
      and_then (require_small_block_unchanged prev next_state) (\<lambda>_.
      and_then (require_h2_zero next_state) (\<lambda>_.
      and_then (require_chain_unchanged prev next_state) (\<lambda>_.
      and_then (require_accumulator_unchanged (bs_settled_tx_accumulator_root before) (bs_settled_tx_accumulator_root after)) (\<lambda>_.
      and_then (ensure_same_channel_fund prev next_state) (\<lambda>_.
      and_then (ensure_same_u256 (cs_unallocated_confirmed_incoming prev) (cs_unallocated_confirmed_incoming next_state)) (\<lambda>_.
      and_then (ensure_same_root (cs_shared_native_nullifier_root prev) (cs_shared_native_nullifier_root next_state)) (\<lambda>_.
      and_then (verify_next_state_signatures record next_state) (\<lambda>_.
      and_then (member_index_pubkey_hash record (ic_sender_index w)) (\<lambda>sender.
      and_then (member_index_pubkey_hash record (ic_recipient_index w)) (\<lambda>recipient.
        if ic_sender_index w = ic_recipient_index w then Err InvalidStateLinkage
        else if tx_sender_pk_g tx \<noteq> sender then Err InvalidTransitionDigest
        else if tx_recipient_pk_g tx \<noteq> recipient then Err InvalidTransitionDigest
        else if tx_sender_hash_sig tx = [] then Err InvalidMemberSignatures
        else
          and_then (ChannelTx_signing_digest keccak (cs_channel_id prev) (cs_digest prev) (tx_enc_amount tx)
            (tx_nonce_word tx) (tx_token_slot tx) (tx_sender_pk_g tx) (tx_recipient_pk_g tx)) (\<lambda>tx_digest.
          let token_slot = unat (tx_token_slot tx) in
          if token_slot \<ge> MAX_CHANNEL_TOKENS then Err InvalidCiphertextTransition
          else if token_slot \<ge> unat (bs_token_count before) then Err InvalidCiphertextTransition
          else
            and_then (in_channel_cells prev next_state (tx_enc_amount tx) (ic_sender_index w) (ic_recipient_index w)
              token_slot) (\<lambda>_. in_channel_proofs keccak decrypt regev_verify w token_slot tx_digest))))))))))))))))"

section \<open>Refresh of a balance\<close>

record BalanceRefreshUpdateWitness =
  br_channel_record :: ChannelRecord
  br_regev_pks :: "RegevPk list"
  br_prev_state :: ChannelState
  br_next_state :: ChannelState
  br_member_index :: nat
  br_token_slot :: nat
  br_refresh_proof :: ChannelProofEnvelope

text \<open>The position of the refreshed member that may change, and nothing else.\<close>

definition refresh_cells ::
  "ChannelState \<Rightarrow> ChannelState \<Rightarrow> nat \<Rightarrow> nat \<Rightarrow> (ChannelStateUpdateError, unit) outcome" where
  "refresh_cells prev next_state member token_slot =
     and_then (try_each (\<lambda>index. if index \<noteq> member
         then and_then (ensure_slot_unchanged prev next_state index) (\<lambda>_. require_pending_adds_unchanged prev next_state index)
         else Ok ()) [0..<MAX_CHANNEL_MEMBERS]) (\<lambda>_.
     if token_slot \<ge> MAX_CHANNEL_TOKENS then Err InvalidCiphertextTransition
     else if token_slot \<ge> unat (bs_token_count (cs_balance_state prev)) then Err InvalidCiphertextTransition
     else if bs_pending_adds (cs_balance_state next_state) ! member ! token_slot \<noteq> 0 then Err InvalidPendingAdds
     else
       and_then (require_pending_adds_unchanged_except prev next_state member token_slot) (\<lambda>_.
         ensure_row_unchanged_except prev next_state member token_slot))"

definition BalanceRefreshUpdateWitness_verify ::
  "(u64 list \<Rightarrow> PoseidonHashOut) \<Rightarrow> (u32 list \<Rightarrow> u32 list) \<Rightarrow> regev_verifier
     \<Rightarrow> BalanceRefreshUpdateWitness \<Rightarrow> (ChannelStateUpdateError, ChannelStateUpdatePublicInputs) outcome" where
  "BalanceRefreshUpdateWitness_verify poseidon keccak regev_verify w =
     (let record = br_channel_record w; prev = br_prev_state w; next_state = br_next_state w;
          before = cs_balance_state prev; after = cs_balance_state next_state; token_slot = br_token_slot w;
          old_ct = bs_enc_balances before ! br_member_index w ! token_slot;
          new_ct = bs_enc_balances after ! br_member_index w ! token_slot in
      and_then (verify_regev_pk_root keccak record (br_regev_pks w)) (\<lambda>_.
      and_then (verify_state_linkage poseidon keccak prev next_state) (\<lambda>_.
      and_then (verify_balance_state_common record prev next_state) (\<lambda>_.
      and_then (require_small_block_unchanged prev next_state) (\<lambda>_.
      and_then (verify_next_state_signatures record next_state) (\<lambda>_.
      and_then (require_h2_zero next_state) (\<lambda>_.
      and_then (require_chain_unchanged prev next_state) (\<lambda>_.
      and_then (require_accumulator_unchanged (bs_settled_tx_accumulator_root before) (bs_settled_tx_accumulator_root after)) (\<lambda>_.
      and_then (ensure_same_channel_fund prev next_state) (\<lambda>_.
      and_then (ensure_same_u256 (cs_unallocated_confirmed_incoming prev) (cs_unallocated_confirmed_incoming next_state)) (\<lambda>_.
      and_then (ensure_same_root (cs_shared_native_nullifier_root prev) (cs_shared_native_nullifier_root next_state)) (\<lambda>_.
      and_then (member_index_pubkey_hash record (br_member_index w)) (\<lambda>member.
      and_then (refresh_cells prev next_state (br_member_index w) token_slot) (\<lambda>_.
      and_then (regev_verify (br_refresh_proof w) PurposeBalanceRefresh
        (BalanceRefreshStatement (br_regev_pks w ! br_member_index w) old_ct new_ct)) (\<lambda>_.
      and_then (RegevCiphertext_digest keccak old_ct) (\<lambda>old_digest.
      and_then (RegevCiphertext_digest keccak new_ct) (\<lambda>new_digest.
      and_then (hash_words keccak ([BALANCE_REFRESH_ZKP_DOMAIN, of_nat (br_member_index w), of_nat token_slot] @
        Bytes32_to_u32_vec old_digest @ Bytes32_to_u32_vec new_digest)) (\<lambda>transition_digest.
      and_then (hash_member keccak member) (\<lambda>member_hash.
        Ok (update_public_inputs BalanceRefresh prev next_state 0 0 member_hash member_hash transition_digest))))))))))))))))))))"

section \<open>Registration of a token\<close>

record TokenRegisterUpdateWitness =
  tg_channel_record :: ChannelRecord
  tg_prev_state :: ChannelState
  tg_next_state :: ChannelState
  tg_token_index :: u32

definition TokenRegisterUpdateWitness_verify ::
  "(u64 list \<Rightarrow> PoseidonHashOut) \<Rightarrow> (u32 list \<Rightarrow> u32 list)
     \<Rightarrow> TokenRegisterUpdateWitness \<Rightarrow> (ChannelStateUpdateError, ChannelStateUpdatePublicInputs) outcome" where
  "TokenRegisterUpdateWitness_verify poseidon keccak w =
     (let record = tg_channel_record w; prev = tg_prev_state w; next_state = tg_next_state w;
          before = cs_balance_state prev; after = cs_balance_state next_state in
      and_then (verify_state_linkage poseidon keccak prev next_state) (\<lambda>_.
      and_then (verify_balance_state_shared record prev next_state) (\<lambda>_.
      and_then (map_err (\<lambda>_. InvalidStateLinkage) (verify_token_register_transition before after (tg_token_index w))) (\<lambda>_.
      and_then (require_h2_zero next_state) (\<lambda>_.
      and_then (require_chain_unchanged prev next_state) (\<lambda>_.
      and_then (require_accumulator_unchanged (bs_settled_tx_accumulator_root before) (bs_settled_tx_accumulator_root after)) (\<lambda>_.
      and_then (ensure_same_channel_fund prev next_state) (\<lambda>_.
      and_then (ensure_same_u256 (cs_unallocated_confirmed_incoming prev) (cs_unallocated_confirmed_incoming next_state)) (\<lambda>_.
      and_then (ensure_same_root (cs_shared_native_nullifier_root prev) (cs_shared_native_nullifier_root next_state)) (\<lambda>_.
        if cs_small_block_number next_state \<noteq> cs_small_block_number prev then Err InvalidStateLinkage
        else if cs_close_freeze_nonce next_state \<noteq> cs_close_freeze_nonce prev then Err InvalidStateLinkage
        else
          and_then (map_err (\<lambda>_. InvalidStateLinkage) (token_register_next_state poseidon keccak prev (tg_token_index w))) (\<lambda>expected.
          if expected\<lparr>cs_member_signatures := cs_member_signatures next_state\<rparr> \<noteq> next_state then Err InvalidStateLinkage
          else
            and_then (verify_next_state_signatures record next_state) (\<lambda>_.
              Ok (update_public_inputs TokenRegister prev next_state 0 0 Bytes32_default Bytes32_default
                (cs_digest next_state))))))))))))))"

section \<open>Transfers between channels\<close>

record InterChannelSendUpdateWitness =
  is_channel_record :: ChannelRecord
  is_regev_pks :: "RegevPk list"
  is_destination_recipient_pk :: RegevPk
  is_prev_state :: ChannelState
  is_next_state :: ChannelState
  is_inter_channel_tx :: InterChannelTx
  is_amount :: u64
  is_transport_proof :: ChannelProofEnvelope

text \<open>The receiver delta of a send, and the leaf it pushes on the settled chain.\<close>

definition send_receiver_leaf ::
  "(u64 list \<Rightarrow> PoseidonHashOut) \<Rightarrow> (u32 list \<Rightarrow> u32 list) \<Rightarrow> RegevPk \<Rightarrow> u64 \<Rightarrow> InterChannelTx
     \<Rightarrow> ReceiverBalanceDelta \<Rightarrow> (ChannelStateUpdateError, Bytes32) outcome" where
  "send_receiver_leaf poseidon keccak destination_pk amount tx delta =
     and_then (RegevPk_poseidon_digest poseidon destination_pk) (\<lambda>pk_hash.
     and_then (Bytes32_from_hash_out pk_hash) (\<lambda>pk_digest.
     if rbd_receiver_regev_pk_digest delta \<noteq> pk_digest then Err InvalidReceiverDeltaBundle
     else
       let is_burn = channel_id_of (ict_destination_channel_id tx) = BURN_CHANNEL_ID in
       and_then (if \<not> is_burn then map_err (\<lambda>_. InvalidReceiverDeltaBundle) (reject_key_independent (rbd_amount delta)) else Ok ()) (\<lambda>_.
       and_then (map_err (\<lambda>_. InvalidSettledTxChain) (InterChannelTx_tx_leaf_hash keccak tx)) (\<lambda>tx_leaf.
       if is_burn
       then burn_descriptor keccak (ict_source_channel_id tx) (ict_base_nonce tx) tx_leaf (rbd_receiver_pk_g delta)
         (ict_token_index tx) (u64_to_u256 amount)
       else Ok tx_leaf))))"

text \<open>The fund, which decreases by the amount at the token's position, and the sender's cell.\<close>

definition send_debit ::
  "(u32 list \<Rightarrow> u32 list) \<Rightarrow> InterChannelSendUpdateWitness \<Rightarrow> (ChannelStateUpdateError, nat \<times> nat) outcome" where
  "send_debit keccak w =
     (let prev = is_prev_state w; next_state = is_next_state w; tx = is_inter_channel_tx w in
      and_then (resolve_token_slot (cs_balance_state prev) (ict_token_index tx)) (\<lambda>token_slot.
      and_then (require_token_bearing_tx_hash keccak tx) (\<lambda>_.
      and_then (U256_add (cf_amounts (cs_channel_fund next_state) ! token_slot) (u64_to_u256 (is_amount w))) (\<lambda>restored.
      if restored \<noteq> cf_amounts (cs_channel_fund prev) ! token_slot then Err InvalidAmountRelation
      else
        and_then (ensure_funds_unchanged_except prev next_state token_slot) (\<lambda>_.
        and_then (ensure_fund_identity_unchanged prev next_state) (\<lambda>_.
        and_then (ensure_same_u256 (cs_unallocated_confirmed_incoming prev) (cs_unallocated_confirmed_incoming next_state)) (\<lambda>_.
        and_then (ensure_different_root (cs_shared_native_nullifier_root prev) (cs_shared_native_nullifier_root next_state)) (\<lambda>_.
        and_then (member_slot_index (is_channel_record w) (ict_source_pk_g tx)) (\<lambda>sender_index.
        and_then (try_each (\<lambda>index. if index \<noteq> sender_index
            then and_then (ensure_slot_unchanged prev next_state index) (\<lambda>_. require_pending_adds_unchanged prev next_state index)
            else Ok ()) [0..<MAX_CHANNEL_MEMBERS]) (\<lambda>_.
        and_then (ensure_row_unchanged_except prev next_state sender_index token_slot) (\<lambda>_.
        if bs_pending_adds (cs_balance_state next_state) ! sender_index ! token_slot \<noteq> 0 then Err InvalidPendingAdds
        else
          and_then (require_pending_adds_unchanged_except prev next_state sender_index token_slot) (\<lambda>_.
            Ok (sender_index, token_slot)))))))))))))"

definition InterChannelSendUpdateWitness_verify ::
  "(u64 list \<Rightarrow> PoseidonHashOut) \<Rightarrow> (u32 list \<Rightarrow> u32 list) \<Rightarrow> proof_verifier \<Rightarrow> regev_verifier
     \<Rightarrow> InterChannelSendUpdateWitness \<Rightarrow> (ChannelStateUpdateError, ChannelStateUpdatePublicInputs) outcome" where
  "InterChannelSendUpdateWitness_verify poseidon keccak proof_verify regev_verify w =
     (let record = is_channel_record w; prev = is_prev_state w; next_state = is_next_state w; tx = is_inter_channel_tx w;
          message = sb_message (ict_signed_small_block tx) in
      and_then (verify_regev_pk_root keccak record (is_regev_pks w)) (\<lambda>_.
      and_then (verify_state_linkage poseidon keccak prev next_state) (\<lambda>_.
      and_then (verify_balance_state_common record prev next_state) (\<lambda>_.
      and_then (verify_next_state_signatures record next_state) (\<lambda>_.
      and_then (validate_signed_small_block record (cs_channel_id prev) (cs_close_freeze_nonce prev) tx) (\<lambda>_.
        if cs_channel_id prev \<noteq> ict_source_channel_id tx then Err InvalidStateLinkage
        else if sm_tx_tree_root message = Bytes32_default then Err InvalidH2Tag
        else if cs_h2_tag next_state \<noteq> sm_tx_tree_root message then Err InvalidH2Tag
        else
          and_then (h1 poseidon keccak (cs_balance_state next_state)) (\<lambda>next_h1.
          if sm_state_commitment_root message \<noteq> next_h1 then Err InvalidSmallBlock
          else case ict_receiver_deltas tx of
            [delta] \<Rightarrow>
              and_then (send_receiver_leaf poseidon keccak (is_destination_recipient_pk w) (is_amount w) tx delta) (\<lambda>chain_leaf.
              and_then (require_chain_push keccak prev next_state chain_leaf) (\<lambda>_.
              and_then (send_debit keccak w) (\<lambda>(sender_index, token_slot).
              and_then (verify_decrypted_transfer_proof regev_verify (ict_channel_update_zkp tx)
                (ChannelUpdateStatement (is_regev_pks w ! sender_index) (is_destination_recipient_pk w)
                  (bs_enc_balances (cs_balance_state prev) ! sender_index ! token_slot)
                  (bs_enc_balances (cs_balance_state next_state) ! sender_index ! token_slot)
                  (ict_sender_delta_ct tx) (rbd_amount delta) (is_amount w) (ict_token_index tx))) (\<lambda>_.
              if ict_transport_proof tx \<noteq> env_proof (is_transport_proof w) then Err InvalidTransitionDigest
              else
                and_then (hash_member keccak (ict_source_pk_g tx)) (\<lambda>sender_hash.
                and_then (hash_member keccak (rbd_receiver_pk_g delta)) (\<lambda>receiver_hash.
                and_then (InterChannelTx_signing_digest keccak tx) (\<lambda>tx_digest.
                let public_inputs = update_public_inputs InterChannelSend prev next_state (is_amount w) 1
                      sender_hash receiver_hash tx_digest in
                and_then (verify_proof proof_verify (is_transport_proof w) IntmaxTransport Plonky2 public_inputs) (\<lambda>_.
                  Ok public_inputs))))))))
          | _ \<Rightarrow> Err InvalidReceiverDeltaBundle)))))))"

section \<open>Imports\<close>

text \<open>The fund and the unallocated amount grow by the imported amount; no cell changes.\<close>

definition import_credit ::
  "ChannelState \<Rightarrow> ChannelState \<Rightarrow> nat \<Rightarrow> u64 \<Rightarrow> bool \<Rightarrow> (ChannelStateUpdateError, unit) outcome" where
  "import_credit prev next_state token_slot amount keep_identity =
     and_then (U256_add (cf_amounts (cs_channel_fund prev) ! token_slot) (u64_to_u256 amount)) (\<lambda>fund.
     if cf_amounts (cs_channel_fund next_state) ! token_slot \<noteq> fund then Err InvalidAmountRelation
     else
       and_then (ensure_funds_unchanged_except prev next_state token_slot) (\<lambda>_.
       and_then (if keep_identity then ensure_fund_identity_unchanged prev next_state else Ok ()) (\<lambda>_.
       and_then (U256_add (cs_unallocated_confirmed_incoming prev) (u64_to_u256 amount)) (\<lambda>unallocated.
       if cs_unallocated_confirmed_incoming next_state \<noteq> unallocated then Err InvalidAmountRelation
       else
         and_then (try_each (\<lambda>index. and_then (ensure_slot_unchanged prev next_state index) (\<lambda>_.
             require_pending_adds_unchanged prev next_state index)) [0..<MAX_CHANNEL_MEMBERS]) (\<lambda>_.
           ensure_different_root (cs_shared_native_nullifier_root prev) (cs_shared_native_nullifier_root next_state))))))"

record InterChannelFundImportUpdateWitness =
  fi_source_channel_record :: ChannelRecord
  fi_receiver_channel_record :: ChannelRecord
  fi_prev_state :: ChannelState
  fi_next_state :: ChannelState
  fi_inter_channel_tx :: InterChannelTx
  fi_amount :: u64
  fi_transport_proof :: ChannelProofEnvelope

text \<open>The addressed member and the key of the delta name the same slot of this channel.\<close>

definition import_receiver ::
  "ChannelRecord \<Rightarrow> ChannelState \<Rightarrow> InterChannelTx \<Rightarrow> (ChannelStateUpdateError, ReceiverBalanceDelta) outcome" where
  "import_receiver record prev tx =
     (case ict_receiver_deltas tx of
        [] \<Rightarrow> Err InvalidReceiverDeltaBundle
      | delta # _ \<Rightarrow>
          let active = unat (cr_member_count record) + unat (cr_delegate_count record) in
          and_then (ok_or InvalidReceiverDeltaBundle (position (\<lambda>pk_g. pk_g = rbd_receiver_pk_g delta)
            (take (min active MAX_CHANNEL_MEMBERS) (cr_member_pk_gs record)))) (\<lambda>recipient_index.
          if bs_regev_pk_digests (cs_balance_state prev) ! recipient_index \<noteq> rbd_receiver_regev_pk_digest delta
          then Err InvalidReceiverDeltaBundle
          else
            and_then (map_err (\<lambda>_. InvalidReceiverDeltaBundle) (reject_key_independent (rbd_amount delta))) (\<lambda>_. Ok delta)))"

definition InterChannelFundImportUpdateWitness_verify ::
  "(u64 list \<Rightarrow> PoseidonHashOut) \<Rightarrow> (u32 list \<Rightarrow> u32 list) \<Rightarrow> proof_verifier
     \<Rightarrow> InterChannelFundImportUpdateWitness \<Rightarrow> (ChannelStateUpdateError, ChannelStateUpdatePublicInputs) outcome" where
  "InterChannelFundImportUpdateWitness_verify poseidon keccak proof_verify w =
     (let record = fi_receiver_channel_record w; prev = fi_prev_state w; next_state = fi_next_state w;
          tx = fi_inter_channel_tx w in
      and_then (verify_state_linkage poseidon keccak prev next_state) (\<lambda>_.
      and_then (verify_balance_state_common record prev next_state) (\<lambda>_.
      and_then (verify_next_state_signatures record next_state) (\<lambda>_.
      and_then (validate_signed_small_block (fi_source_channel_record w) (ict_source_channel_id tx)
        (sm_close_freeze_nonce (sb_message (ict_signed_small_block tx))) tx) (\<lambda>_.
        if cs_channel_id prev \<noteq> ict_destination_channel_id tx then Err InvalidStateLinkage
        else
          and_then (require_h2_zero next_state) (\<lambda>_.
          and_then (map_err (\<lambda>_. InvalidSettledTxChain) (InterChannelTx_tx_leaf_hash keccak tx)) (\<lambda>settle_tag.
          and_then (require_chain_push keccak prev next_state settle_tag) (\<lambda>_.
          and_then (resolve_token_slot (cs_balance_state prev) (ict_token_index tx)) (\<lambda>token_slot.
          and_then (require_token_bearing_tx_hash keccak tx) (\<lambda>_.
          and_then (import_credit prev next_state token_slot (fi_amount w) True) (\<lambda>_.
          if ict_transport_proof tx \<noteq> env_proof (fi_transport_proof w) then Err InvalidTransitionDigest
          else
            and_then (import_receiver record prev tx) (\<lambda>delta.
            and_then (hash_member keccak (ict_source_pk_g tx)) (\<lambda>sender_hash.
            and_then (hash_member keccak (rbd_receiver_pk_g delta)) (\<lambda>receiver_hash.
            and_then (InterChannelTx_signing_digest keccak tx) (\<lambda>tx_digest.
            let public_inputs = update_public_inputs InterChannelFundImport prev next_state (fi_amount w)
                  (of_nat (length (ict_receiver_deltas tx))) sender_hash receiver_hash tx_digest in
            and_then (verify_proof proof_verify (fi_transport_proof w) IntmaxTransport Plonky2 public_inputs) (\<lambda>_.
              Ok public_inputs))))))))))))))))"

record L1DepositImportUpdateWitness =
  ld_channel_record :: ChannelRecord
  ld_prev_state :: ChannelState
  ld_next_state :: ChannelState
  ld_amount :: u64
  ld_deposit_nullifier :: Bytes32
  ld_token_index :: u32
  ld_depositor_slot :: nat

definition L1DepositImportUpdateWitness_verify ::
  "(u64 list \<Rightarrow> PoseidonHashOut) \<Rightarrow> (u32 list \<Rightarrow> u32 list)
     \<Rightarrow> L1DepositImportUpdateWitness \<Rightarrow> (ChannelStateUpdateError, ChannelStateUpdatePublicInputs) outcome" where
  "L1DepositImportUpdateWitness_verify poseidon keccak w =
     (let record = ld_channel_record w; prev = ld_prev_state w; next_state = ld_next_state w in
      and_then (verify_state_linkage poseidon keccak prev next_state) (\<lambda>_.
      and_then (verify_balance_state_common record prev next_state) (\<lambda>_.
      and_then (verify_next_state_signatures record next_state) (\<lambda>_.
      and_then (require_h2_zero next_state) (\<lambda>_.
      and_then (require_chain_push keccak prev next_state (ld_deposit_nullifier w)) (\<lambda>_.
      and_then (resolve_token_slot (cs_balance_state prev) (ld_token_index w)) (\<lambda>token_slot.
      and_then (import_credit prev next_state token_slot (ld_amount w) False) (\<lambda>_.
        if ld_depositor_slot w \<ge> length (cr_member_pk_gs record) then Panic
        else
          let depositor_pk_g = cr_member_pk_gs record ! ld_depositor_slot w in
          and_then (l1_deposit_import_digest keccak (cs_channel_id prev) (ld_deposit_nullifier w) (ld_token_index w)
            (ld_amount w) (of_nat (ld_depositor_slot w))) (\<lambda>transition_digest.
          and_then (hash_member keccak depositor_pk_g) (\<lambda>depositor_hash.
            Ok (update_public_inputs L1DepositImport prev next_state (ld_amount w) 0 depositor_hash depositor_hash
              transition_digest)))))))))))"

section \<open>Application of an incoming transfer\<close>

record ReceiverBundleApplyUpdateWitness =
  ra_incoming_tx_index :: u64
  ra_incoming_tx_inclusion :: "PoseidonHashOut MerkleProof"
  ra_receiver_channel_record :: ChannelRecord
  ra_regev_pks :: "RegevPk list"
  ra_source_sender_pk :: RegevPk
  ra_sender_before_ct :: RegevCiphertext
  ra_sender_after_ct :: RegevCiphertext
  ra_prev_state :: ChannelState
  ra_next_state :: ChannelState
  ra_inter_channel_tx :: InterChannelTx
  ra_amount :: u64
  ra_recipient_index :: nat
  ra_recipient_sk :: "u8 list option"
  ra_expected_amount :: "u64 option"

text \<open>The recipient's cell at the token's position.\<close>

definition bundle_cells ::
  "ChannelState \<Rightarrow> ChannelState \<Rightarrow> RegevCiphertext \<Rightarrow> nat \<Rightarrow> nat \<Rightarrow> (ChannelStateUpdateError, unit) outcome" where
  "bundle_cells prev next_state amount recipient token_slot =
     and_then (map_err (\<lambda>_. InvalidCiphertextTransition)
       (add_ciphertexts (bs_enc_balances (cs_balance_state prev) ! recipient ! token_slot) amount)) (\<lambda>expected.
     if bs_enc_balances (cs_balance_state next_state) ! recipient ! token_slot \<noteq> expected
     then Err InvalidCiphertextTransition
     else
       and_then (ensure_row_unchanged_except prev next_state recipient token_slot) (\<lambda>_.
       and_then (try_each (\<lambda>index. if index \<noteq> recipient
           then and_then (ensure_slot_unchanged prev next_state index) (\<lambda>_. require_pending_adds_unchanged prev next_state index)
           else Ok ()) [0..<MAX_CHANNEL_MEMBERS]) (\<lambda>_.
         require_pending_add_increment prev next_state recipient token_slot)))"

text \<open>The delta addressed to this slot, and the consumption of its unapplied entry.\<close>

definition bundle_receiver ::
  "(u64 list \<Rightarrow> PoseidonHashOut) \<Rightarrow> (u32 list \<Rightarrow> u32 list) \<Rightarrow> ReceiverBundleApplyUpdateWitness
     \<Rightarrow> (ChannelStateUpdateError, ReceiverBalanceDelta) outcome" where
  "bundle_receiver poseidon keccak w =
     (let prev = ra_prev_state w; next_state = ra_next_state w; tx = ra_inter_channel_tx w in
      case ict_receiver_deltas tx of
        [delta] \<Rightarrow>
          and_then (member_index_pubkey_hash (ra_receiver_channel_record w) (ra_recipient_index w)) (\<lambda>recipient.
          if rbd_receiver_pk_g delta \<noteq> recipient then Err InvalidReceiverDeltaBundle
          else
            and_then (RegevPk_poseidon_digest poseidon (ra_regev_pks w ! ra_recipient_index w)) (\<lambda>pk_hash.
            and_then (Bytes32_from_hash_out pk_hash) (\<lambda>pk_digest.
            if rbd_receiver_regev_pk_digest delta \<noteq> pk_digest then Err InvalidReceiverDeltaBundle
            else
              and_then (map_err (\<lambda>_. InvalidReceiverDeltaBundle) (reject_key_independent (rbd_amount delta))) (\<lambda>_.
              and_then (require_chain_unchanged prev next_state) (\<lambda>_.
              and_then (require_incoming_application poseidon keccak
                (bs_settled_tx_accumulator_root (cs_balance_state prev))
                (bs_settled_tx_accumulator_root (cs_balance_state next_state)) (ict_tx_hash tx)
                (ra_incoming_tx_index w) (ra_incoming_tx_inclusion w)) (\<lambda>_. Ok delta))))))
      | _ \<Rightarrow> Err InvalidReceiverDeltaBundle)"

definition ReceiverBundleApplyUpdateWitness_verify ::
  "(u64 list \<Rightarrow> PoseidonHashOut) \<Rightarrow> (u32 list \<Rightarrow> u32 list) \<Rightarrow> (u8 list \<Rightarrow> RegevCiphertext \<Rightarrow> nat list) \<Rightarrow> regev_verifier
     \<Rightarrow> ReceiverBundleApplyUpdateWitness \<Rightarrow> (ChannelStateUpdateError, ChannelStateUpdatePublicInputs) outcome" where
  "ReceiverBundleApplyUpdateWitness_verify poseidon keccak decrypt regev_verify w =
     (let record = ra_receiver_channel_record w; prev = ra_prev_state w; next_state = ra_next_state w;
          tx = ra_inter_channel_tx w in
      and_then (verify_regev_pk_root keccak record (ra_regev_pks w)) (\<lambda>_.
      and_then (verify_state_linkage poseidon keccak prev next_state) (\<lambda>_.
      and_then (verify_balance_state_common record prev next_state) (\<lambda>_.
      and_then (verify_next_state_signatures record next_state) (\<lambda>_.
        if cs_channel_id prev \<noteq> ict_destination_channel_id tx then Err InvalidStateLinkage
        else
          and_then (require_h2_zero next_state) (\<lambda>_.
          and_then (ensure_same_channel_fund prev next_state) (\<lambda>_.
          and_then (U256_add (cs_unallocated_confirmed_incoming next_state) (u64_to_u256 (ra_amount w))) (\<lambda>restored.
          if cs_unallocated_confirmed_incoming prev \<noteq> restored then Err InvalidAmountRelation
          else
            and_then (ensure_same_root (cs_shared_native_nullifier_root prev) (cs_shared_native_nullifier_root next_state)) (\<lambda>_.
            and_then (bundle_receiver poseidon keccak w) (\<lambda>delta.
            and_then (resolve_token_slot (cs_balance_state prev) (ict_token_index tx)) (\<lambda>token_slot.
            and_then (require_token_bearing_tx_hash keccak tx) (\<lambda>_.
            and_then (bundle_cells prev next_state (rbd_amount delta) (ra_recipient_index w) token_slot) (\<lambda>_.
            and_then (verify_decrypted_transfer_proof regev_verify (ict_channel_update_zkp tx)
              (ChannelUpdateStatement (ra_source_sender_pk w) (ra_regev_pks w ! ra_recipient_index w)
                (ra_sender_before_ct w) (ra_sender_after_ct w) (ict_sender_delta_ct tx) (rbd_amount delta)
                (ra_amount w) (ict_token_index tx))) (\<lambda>_.
            and_then (check_recipient_decryption decrypt (ra_recipient_sk w) (ra_expected_amount w) (rbd_amount delta)
              (bs_enc_balances (cs_balance_state next_state) ! ra_recipient_index w ! token_slot)) (\<lambda>_.
            and_then (hash_member keccak (ict_source_pk_g tx)) (\<lambda>sender_hash.
            and_then (hash_member keccak (rbd_receiver_pk_g delta)) (\<lambda>receiver_hash.
            and_then (InterChannelTx_signing_digest keccak tx) (\<lambda>tx_digest.
              Ok (update_public_inputs ReceiverBundleApply prev next_state (ra_amount w) 1 sender_hash receiver_hash
                tx_digest)))))))))))))))))))"

end
