(* ===== verification/Update_Safety.thy ===== *)
theory Update_Safety
  imports State_Update Channel_Safety Credit_Safety
begin

text \<open>
  What an accepted channel update guarantees. \<open>plain\<close> gives the plaintext of a ciphertext under a key. The
  statements the STARKs prove are about it (\<open>stark_sound\<close>), the key of a credited slot is well-formed
  (\<open>credit_key\<close>), and adding a ciphertext to a cell within the refresh budget adds the plaintexts
  (\<open>credit_adds\<close>). Then every kind of update conserves value: the
  balances, the unallocated amount and the fund of one token move together, those of the others not at all.
\<close>

section \<open>Accepted checks\<close>





lemma if_Err_Ok [simp]:
  "(if c then Err e else x) = Ok y \<longleftrightarrow> \<not> c \<and> x = Ok y" "(if c then x else Err e) = Ok y \<longleftrightarrow> c \<and> x = Ok y"
  by auto

lemma if_Ok_unit [simp]: "(if c then x else Ok ()) = Ok () \<longleftrightarrow> (c \<longrightarrow> x = Ok ())"
  by auto



text \<open>Every cell outside \<open>S\<close> keeps its ciphertext.\<close>

definition cells_kept :: "ChannelState \<Rightarrow> ChannelState \<Rightarrow> (nat \<times> nat) set \<Rightarrow> bool" where
  "cells_kept s s' S \<longleftrightarrow> (\<forall>slot < MAX_CHANNEL_MEMBERS. \<forall>t < MAX_CHANNEL_TOKENS. (slot, t) \<notin> S \<longrightarrow>
     bs_enc_balances (cs_balance_state s') ! slot ! t = bs_enc_balances (cs_balance_state s) ! slot ! t)"














section \<open>Updates and the value they move\<close>



























lemma cells_kept_mono: "cells_kept s s' S \<Longrightarrow> S \<subseteq> T \<Longrightarrow> cells_kept s s' T"
  unfolding cells_kept_def by blast

section \<open>What every accepted update checks\<close>








section \<open>What each kind moves\<close>















section \<open>Safety of the gate\<close>














section \<open>Accepted updates and the range evidence\<close>












section \<open>An example update\<close>



















































end
