(* ===== verification/Spec2Isabelle.thy ===== *)
theory Spec2Isabelle
  imports Circuits Balance_Common Balance_Steps Channel_Safety Validity_Safety Withdraw Credit_Safety Update_Safety
begin

text \<open>
  \<^bold>\<open>The program.\<close> The repository is a privacy-preserving payment rollup with payment channels. A channel
  (\<open>src/common/channel_id.rs\<close>) keeps a private state: balances per token, a set of spent nullifiers and
  its sent transactions, each in a Merkle tree, known to others only by a commitment. A block producer puts the
  roots of transaction trees into blocks; the public state commits to the channels' send histories, the
  deposits and the earlier public states. A balance proof shows, step by step, that a private commitment
  follows from deposits, received transfers and the channel's own spends up to a block \<open>block_r\<close>. Inside
  a channel the members share a balance state of Regev ciphertexts and sign its hash.

  \<^bold>\<open>The theories\<close>, in the order of their dependencies, and the files under \<open>src/src/\<close> they model:

  \<^item> \<open>Prelude\<close>: results as values (\<open>outcome\<close>: value, error or panic, with \<open>and_then\<close> for the
    question mark, \<open>map_err\<close>, \<open>unwrap\<close>, \<open>try_fold\<close>, \<open>try_map\<close>), word types, slices, \<open>resize\<close>.
  \<^item> \<open>U32limb_Trait\<close>, \<open>Eth_Types\<close>: \<open>ethereum_types/\<close>, the limb trait as a locale and its
    instances Bytes32, U256, Address, Bytes16, U64, with checked arithmetic.
  \<^item> \<open>Common_Ids\<close>, \<open>Poseidon_Out\<close>: \<open>common/u63.rs\<close>, \<open>channel_id.rs\<close>,
    \<open>utils/poseidon_hash_out.rs\<close>, \<open>leafable*.rs\<close>.
  \<^item> \<open>Merkle_Tree\<close>, \<open>Leaf_Trees\<close>, \<open>Indexed_Merkle\<close>: \<open>utils/trees/\<close>, the node map, the
    incremental and the sparse tree with their packed formats, batch roots, in-circuit checks, and the indexed
    tree with its insertion proofs.
  \<^item> \<open>Transfers\<close>, \<open>Private_State\<close>, \<open>Spend\<close>, \<open>Circuits\<close>: \<open>common/transfer.rs\<close>,
    \<open>deposit.rs\<close>, \<open>withdrawal.rs\<close>, \<open>tx.rs\<close>, \<open>private_state.rs\<close>, \<open>trees/\<close>,
    \<open>circuits/balance/common/update_private_state.rs\<close>, \<open>circuits/balance/spend_circuit.rs\<close>; the
    circuits on the values of their targets.
  \<^item> \<open>Public_State\<close>, \<open>Block_State\<close>: \<open>common/block.rs\<close>, \<open>channel_message.rs\<close>,
    \<open>public_state.rs\<close> and the trees they use; the full state with every operation that changes it.
  \<^item> \<open>Balance_Common\<close>, \<open>Balance_Steps\<close>: \<open>circuits/balance/common/\<close>, \<open>balance_pis.rs\<close>,
    \<open>send_tx_circuit.rs\<close>, \<open>receive_deposit_circuit.rs\<close>, \<open>receive_transfer_circuit.rs\<close>,
    \<open>switch_board.rs\<close>.
  \<^item> \<open>Regev\<close>, \<open>Balance_State\<close>, \<open>Balance_Hash\<close>: \<open>regev/\<close> (keys, ciphertexts),
    \<open>common/balance_state.rs\<close>.
  \<^item> \<open>Channel\<close>, \<open>Channel_Digests\<close>, \<open>Channel_Safety\<close>: \<open>common/channel.rs\<close>, the
    signed objects of a channel (record, small block, state, transfer between channels, close, claims), their
    digests and the checks of signature sets and close intents.
  \<^item> \<open>Validity_Chains\<close>, \<open>Validity\<close>, \<open>Validity_Safety\<close>: \<open>circuits/validity/\<close>, the steps of the
    deposit, registration and block chains, the channel tree update of a block with its member signatures
    (\<open>falcon_sig/agg_list.rs\<close>, \<open>poseidon_sig/list.rs\<close>), \<open>common/channel_registration.rs\<close>.
  \<^item> \<open>Withdraw\<close>: \<open>circuits/withdraw/single_withdrawal_circuit.rs\<close>, \<open>withdrawal_step.rs\<close>, the native
    witness of a withdrawal and the step that batches withdrawals.
  \<^item> \<open>Credit_Safety\<close>: \<open>channel_credit_safety.rs\<close>, the upper bounds of hidden balances a signer keeps.
  \<^item> \<open>State_Update\<close>, \<open>Update_Safety\<close>: \<open>circuits/channel/state_update_verifier.rs\<close>, the transition gate a
    co-signer runs before signing, with its seven kinds of update, and the dispatch of \<open>regev/transfer_stark.rs\<close>.

  \<^bold>\<open>Correspondence.\<close> A struct is a record whose fields carry a short prefix, an enum a datatype, a fixed
  array a list with a shape predicate, \<open>u8\<close> to \<open>u64\<close> are words, \<open>usize\<close> is \<open>nat\<close>.
  Arithmetic wraps where the release build wraps; assertions, \<open>expect\<close> and indexing out of range are the
  value \<open>Panic\<close>. A method on \<open>&mut self\<close> returns the new state, paired with the result where a
  failing call leaves a partly updated state (\<open>Block_State\<close>). A circuit is a partial function from the
  values of its targets: it is defined exactly where its constraints hold.

  \<^bold>\<open>Parameters.\<close> Code outside the repository is an argument: the Poseidon sponge, Keccak (hypothesis: its
  result has eight words), the Regev decryption, the verifiers of recursive proofs, the bit-splitting gadgets
  of the builder (\<open>gadget_laws\<close>). Inside the repository, the verifiers of the lattice STARKs and of transport
  proofs are arguments too; the theorems on updates assume that the STARKs prove true statements about plaintexts
  (\<open>stark_sound\<close>), that the key of a credited slot is well-formed (\<open>credit_key\<close>; the gate has no
  check of that, and the recipient's side of a proof says nothing about plaintexts under other keys) and that adding
  a ciphertext within the refresh budget adds plaintexts (\<open>credit_adds\<close>). Collision freedom is never assumed globally: each theorem names the
  finite set of inputs on which it needs injectivity, and its witness satisfies it.

  \<^bold>\<open>Interfaces.\<close> \<open>limbs\<close> (\<open>U32limb_Trait\<close>) gives the codecs of the fixed-width types;
  \<open>merkle_backend\<close> (\<open>Merkle_Tree\<close>) the laws on which the leaf-keeping trees rest; \<open>send_history\<close>
  (\<open>Block_State\<close>) the contract between the public state and the balance steps: send intervals have no gaps.
  Each is interpreted on the definitions of the code.

  \<^bold>\<open>What is shown.\<close> Spending and crediting: no overspending, no nullifier accepted twice, completeness for
  honest witnesses, and agreement of the circuits with the native code (\<open>Spend\<close>, \<open>Private_State\<close>,
  \<open>Circuits\<close>). Public state: blocks, deposits and history of every state reachable by blocks and deposits, the effect
  of a block on a consistent state on every branch, and binding of the block hash chain (\<open>Block_State\<close>). A
  consistent state (\<open>public_inv\<close>) may have any registered members; \<open>FullPublicState\<close> has no operation that
  registers them. Balance steps: over such public states,
  \<open>block_r\<close> never passes a send of the channel, and a received transfer or deposit was really made
  (\<open>Balance_Steps\<close>). Balance state: validity is kept by token registration, the signed hash binds every
  field, the level loop ends and agrees with the incremental tree (\<open>Balance_State\<close>, \<open>Balance_Hash\<close>).
  Channel objects: a signature set is accepted exactly when it is complete, signed digests bind their
  fields, a close has one identity per signed state, a transfer one replay identity over all tokens
  (\<open>Channel_Safety\<close>). Validity: an accepted channel tree update is one send authorised by the registered
  members, and an accepted block step without a registration proof is a step of the public state
  (\<open>Validity_Safety\<close>). Withdrawals: each pays a transfer
  the channel has deducted and posted, and a batch is paid against one history (\<open>Withdraw\<close>). Credit bounds: they
  never fall below the hidden balances, and funds that fit 64 bits are never blocked (\<open>Credit_Safety\<close>). Channel updates: every
  kind conserves value and moves one token only, along a run the balances and the unallocated amount add up to the
  fund, and the accepted updates are the authenticated transitions the credit bounds rely on, where for an incoming
  transfer the fund of its own token is assumed to cover it (\<open>Update_Safety\<close>). Trees, codecs and arithmetic: refinement of the complete binary tree, proof binding, round trips, exact
  error behaviour, no silent overflow.

  \<^bold>\<open>Bounds.\<close> No definition uses fuel. Loops are structural recursions or have a termination proof
  (\<open>pop_empty_rows\<close>, \<open>level_loop\<close>, the chunk recursions of \<open>U32limb_Trait\<close>). Tree heights and
  counts are those of \<open>constants.rs\<close>.

  \<^bold>\<open>Not modelled.\<close> Proof generation, circuit serialisation and witness assignment (but for that of
  the spend circuit) only drive plonky2; the processors and final wrapper circuits verify one proof and hash its public inputs. The circuits of
  \<open>circuits/channel/\<close> (close, claims, decryption) prove statements over the lattice ring on targets; the
  objects they are about and the native gate of state updates are modelled. The accumulator of settled
  transactions is advanced by the wallet, outside the gate; only its check \<open>require_accumulator_push\<close> is here. Randomised key generation and encryption, the lattice and STARK
  provers, the Falcon and Poseidon signature schemes and the MLE prover are cryptographic primitives. The services,
  publishers, payout planning, binaries, the WASM and node front ends are process, network and file I/O around
  the functions modelled here.
\<close>

end
